(* ===== verification/Prelude.thy ===== *)
theory Prelude
  imports Main "HOL-Library.AList"
begin

text \<open>
  Shared vocabulary of the development.

  \<^item> Python exceptions are values: an operation that may raise returns \<open>'a res\<close>, with the
    exception on the left; \<open>bindE\<close> sequences two such operations and \<open>foldE\<close> is a
    \<open>for\<close> loop whose body may raise.
  \<^item> A Python \<open>dict\<close> or \<open>OrderedDict\<close> is an association list with distinct keys, in
    insertion order (oldest entry first); the operations below are the ones the sources use.
  \<^item> \<open>c_int32\<close> and \<open>c_int64\<close> are the silent two's-complement conversions of
    \<open>ctypes.c_int32\<close> and \<open>ctypes.c_int64\<close> fields.
\<close>

section \<open>Exceptions\<close>

text \<open>
  \<open>Diverges\<close> is no exception of the program: it marks a loop whose iteration bound ran out, and
  each loop with such a bound has a theorem that it does not.
\<close>

datatype py_error =
    AssertionError
  | KeyError
  | ValueError
  | OverflowError
  | IndexError
  | TypeError
  | RuntimeError
  | NotImplementedError
  | ZeroDivisionError
  | PyException
  | Diverges

type_synonym 'a res = "py_error + 'a"

fun bindE :: "'a res \<Rightarrow> ('a \<Rightarrow> 'b res) \<Rightarrow> 'b res" where
  "bindE (Inl e) f = Inl e"
| "bindE (Inr x) f = f x"

definition assertE :: "bool \<Rightarrow> 'a res \<Rightarrow> 'a res" where
  "assertE b r = (if b then r else Inl AssertionError)"

fun foldE :: "('a \<Rightarrow> 's \<Rightarrow> 's res) \<Rightarrow> 'a list \<Rightarrow> 's \<Rightarrow> 's res" where
  "foldE f [] s = Inr s"
| "foldE f (x # xs) s = bindE (f x s) (foldE f xs)"

fun mapE :: "('a \<Rightarrow> 'b res) \<Rightarrow> 'a list \<Rightarrow> 'b list res" where
  "mapE f [] = Inr []"
| "mapE f (x # xs) = bindE (f x) (\<lambda>y. bindE (mapE f xs) (\<lambda>ys. Inr (y # ys)))"

named_theorems res_simps \<open>elimination rules, as equations, for the exception operators\<close>

lemma bindE_eq_Inr [res_simps]: "bindE r f = Inr y \<longleftrightarrow> (\<exists>x. r = Inr x \<and> f x = Inr y)"
  by (cases r) auto

lemma bindE_eq_Inl [res_simps]:
  "bindE r f = Inl e \<longleftrightarrow> r = Inl e \<or> (\<exists>x. r = Inr x \<and> f x = Inl e)"
  by (cases r) auto

lemma assertE_eq_Inr [res_simps]: "assertE b r = Inr y \<longleftrightarrow> b \<and> r = Inr y"
  by (simp add: assertE_def)

lemma assertE_True [simp]: "b \<Longrightarrow> assertE b r = r"
  by (simp add: assertE_def)

lemma assertE_False [simp]: "\<not> b \<Longrightarrow> assertE b r = Inl AssertionError"
  by (simp add: assertE_def)

text \<open>The two rules for loops: what the body keeps, and when no iteration raises.\<close>

lemma foldE_inv:
  assumes "foldE f xs s = Inr s'" and "P s"
    and "\<And>x s s'. x \<in> set xs \<Longrightarrow> P s \<Longrightarrow> f x s = Inr s' \<Longrightarrow> P s'"
  shows "P s'"
  using assms
proof (induction xs arbitrary: s)
  case (Cons x xs)
  from Cons.prems(1) obtain t where t: "f x s = Inr t" "foldE f xs t = Inr s'"
    by (auto simp: res_simps)
  have "P t" using Cons.prems(2,3) t(1) by auto
  with t(2) Cons.prems(3) show ?case by (auto intro: Cons.IH)
qed simp

lemma foldE_total:
  assumes "P s"
    and "\<And>x s. x \<in> set xs \<Longrightarrow> P s \<Longrightarrow> \<exists>s'. f x s = Inr s' \<and> P s'"
  shows "\<exists>s'. foldE f xs s = Inr s' \<and> P s'"
  using assms
proof (induction xs arbitrary: s)
  case (Cons x xs)
  then obtain t where t: "f x s = Inr t" "P t" by (metis list.set_intros(1))
  with Cons show ?case by auto
qed simp

lemma foldE_append: "foldE f (xs @ ys) s = bindE (foldE f xs s) (foldE f ys)"
proof (induction xs arbitrary: s)
  case (Cons x xs)
  then show ?case by (cases "f x s") auto
qed simp

text \<open>Integer division and remainder; a zero divisor raises.\<close>

definition py_div :: "int \<Rightarrow> int \<Rightarrow> int res" where
  "py_div a b = (if b = 0 then Inl ZeroDivisionError else Inr (a div b))"

definition py_mod :: "int \<Rightarrow> int \<Rightarrow> int res" where
  "py_mod a b = (if b = 0 then Inl ZeroDivisionError else Inr (a mod b))"

text \<open>Indexing a list; an index out of range raises.\<close>

definition nth_res :: "'a list \<Rightarrow> nat \<Rightarrow> 'a res" where
  "nth_res xs i = (if i < length xs then Inr (xs ! i) else Inl IndexError)"

lemma nth_res_eq_Inr [res_simps]: "nth_res xs i = Inr x \<longleftrightarrow> i < length xs \<and> x = xs ! i"
  by (auto simp: nth_res_def)

section \<open>Ordered dictionaries\<close>

type_synonym ('k, 'v) odict = "('k \<times> 'v) list"

abbreviation od_keys :: "('k, 'v) odict \<Rightarrow> 'k list" where
  "od_keys d \<equiv> map fst d"

abbreviation od_ok :: "('k, 'v) odict \<Rightarrow> bool" where
  "od_ok d \<equiv> distinct (od_keys d)"

definition od_mem :: "'k \<Rightarrow> ('k, 'v) odict \<Rightarrow> bool" where
  "od_mem k d \<longleftrightarrow> map_of d k \<noteq> None"

definition od_del_item :: "'k \<Rightarrow> ('k, 'v) odict \<Rightarrow> ('k, 'v) odict res" where
  "od_del_item k d = (if od_mem k d then Inr (AList.delete k d) else Inl KeyError)"

text \<open>\<open>d.get(k, v)\<close>.\<close>

definition get_or :: "'k \<Rightarrow> 'v \<Rightarrow> ('k, 'v) odict \<Rightarrow> 'v" where
  "get_or k v d = (case map_of d k of None \<Rightarrow> v | Some x \<Rightarrow> x)"

definition od_get_item :: "'k \<Rightarrow> ('k, 'v) odict \<Rightarrow> 'v res" where
  "od_get_item k d = (case map_of d k of None \<Rightarrow> Inl KeyError | Some v \<Rightarrow> Inr v)"

definition od_move_to_end :: "'k \<Rightarrow> ('k, 'v) odict \<Rightarrow> ('k, 'v) odict" where
  "od_move_to_end k d =
     (case map_of d k of None \<Rightarrow> d | Some v \<Rightarrow> AList.delete k d @ [(k, v)])"

lemma od_mem_iff [simp]: "od_mem k d \<longleftrightarrow> k \<in> fst ` set d"
  by (auto simp: od_mem_def map_of_eq_None_iff)

lemma od_del_item_ok [simp]: "k \<in> fst ` set d \<Longrightarrow> od_del_item k d = Inr (AList.delete k d)"
  by (simp add: od_del_item_def)

lemma od_del_item_eq_Inr [res_simps]:
  "od_del_item k d = Inr d' \<longleftrightarrow> k \<in> fst ` set d \<and> d' = AList.delete k d"
  by (auto simp: od_del_item_def)

lemma od_get_item_eq_Inr [res_simps]: "od_get_item k d = Inr v \<longleftrightarrow> map_of d k = Some v"
  by (auto simp: od_get_item_def split: option.splits)

lemma od_ok_update [simp]: "od_ok d \<Longrightarrow> od_ok (AList.update k v d)"
  by (rule AList.distinct_update)

lemma od_ok_delete [simp]: "od_ok d \<Longrightarrow> od_ok (AList.delete k d)"
  by (rule AList.distinct_delete)

lemma keys_delete [simp]: "fst ` set (AList.delete k d) = fst ` set d - {k}"
  by (simp add: delete_keys flip: set_map)

lemma keys_update [simp]: "fst ` set (AList.update k v d) = insert k (fst ` set d)"
  by (simp add: AList.dom_update)

lemma map_of_od_delete: "map_of (AList.delete k d) = (map_of d)(k := None)"
  by (rule AList.delete_conv')

lemma map_of_od_update: "map_of (AList.update k v d) = (map_of d)(k \<mapsto> v)"
  by (rule AList.update_conv')

lemma update_fresh: "k \<notin> fst ` set d \<Longrightarrow> AList.update k v d = d @ [(k, v)]"
  by (induction d) auto

lemma od_move_to_end_keys [simp]: "fst ` set (od_move_to_end k d) = fst ` set d"
proof (cases "map_of d k")
  case (Some v)
  then have "k \<in> fst ` set d" by (metis domI dom_map_of_conv_image_fst)
  with Some show ?thesis by (auto simp: od_move_to_end_def simp flip: image_Un)
qed (simp add: od_move_to_end_def)

lemma od_ok_move_to_end [simp]: "od_ok d \<Longrightarrow> od_ok (od_move_to_end k d)"
  by (auto simp: od_move_to_end_def split: option.split simp flip: set_map)
     (auto simp: delete_keys)

lemma map_of_move_to_end: "od_ok d \<Longrightarrow> map_of (od_move_to_end k d) = map_of d"
  by (auto simp: od_move_to_end_def map_of_od_delete map_add_def fun_eq_iff split: option.split)

lemma length_delete_mem:
  "od_ok d \<Longrightarrow> k \<in> fst ` set d \<Longrightarrow> length (AList.delete k d) = length d - 1"
proof -
  assume ok: "od_ok d" and k: "k \<in> fst ` set d"
  have "length (AList.delete k d) = card (fst ` set (AList.delete k d))"
    using distinct_card [OF od_ok_delete [OF ok]] by simp
  also have "\<dots> = card (fst ` set d) - 1" using k by (simp add: card_Diff_singleton)
  also have "card (fst ` set d) = length d" using distinct_card [OF ok] by simp
  finally show ?thesis .
qed

lemma map_of_SomeI: "od_ok d \<Longrightarrow> (k, v) \<in> set d \<Longrightarrow> map_of d k = Some v"
  by simp

lemma in_keys_iff: "k \<in> fst ` set d \<longleftrightarrow> (\<exists>v. map_of d k = Some v)"
  by (metis domD domI dom_map_of_conv_image_fst)

lemma dom_map_of_od: "dom (map_of d) = fst ` set d"
  by (rule dom_map_of_conv_image_fst)

lemma subset_disjoint: "A \<subseteq> A' \<Longrightarrow> B \<subseteq> B' \<Longrightarrow> A' \<inter> B' = {} \<Longrightarrow> A \<inter> B = {}"
  by blast

lemma ball_Un_mono: "\<forall>x \<in> A \<union> B \<union> C. Q x \<Longrightarrow> R \<union> S \<subseteq> B \<union> C \<Longrightarrow> \<forall>x \<in> A \<union> R \<union> S. Q x"
  by blast

lemma disjoint_Un_mono: "A \<inter> (B \<union> C) = {} \<Longrightarrow> R \<union> S \<subseteq> B \<union> C \<Longrightarrow> A \<inter> (R \<union> S) = {}"
  by blast

text \<open>A dictionary without the keys of a set, the order kept.\<close>

definition od_minus :: "('k, 'v) odict \<Rightarrow> 'k set \<Rightarrow> ('k, 'v) odict" where
  "od_minus d A = filter (\<lambda>e. fst e \<notin> A) d"

lemma od_minus_empty [simp]: "od_minus d {} = d"
  by (simp add: od_minus_def)

lemma od_minus_delete [simp]: "od_minus (AList.delete k d) A = od_minus d (insert k A)"
  by (induction d) (auto simp: od_minus_def)

lemma map_of_od_minus: "map_of (od_minus d A) = map_of d |` (- A)"
  by (induction d) (auto simp: od_minus_def restrict_map_def fun_eq_iff)

lemma od_minus_keys [simp]: "fst ` set (od_minus d A) = fst ` set d - A"
  by (auto simp: od_minus_def)

lemma od_ok_minus [simp]: "od_ok d \<Longrightarrow> od_ok (od_minus d A)"
  by (simp add: od_minus_def distinct_map_filter)

section \<open>Sequences\<close>

text \<open>Indexing and slicing with Python's reading of negative indices.\<close>

definition py_nth :: "'a list \<Rightarrow> int \<Rightarrow> 'a res" where
  "py_nth xs i =
     (let n = int (length xs); j = (if i < 0 then i + n else i)
      in if 0 \<le> j \<and> j < n then Inr (xs ! nat j) else Inl IndexError)"

definition slice_index :: "int \<Rightarrow> int \<Rightarrow> nat" where
  "slice_index n i = nat (if i < 0 then max 0 (i + n) else min i n)"

definition py_slice :: "int \<Rightarrow> int \<Rightarrow> 'a list \<Rightarrow> 'a list" where
  "py_slice a b xs =
     (let n = int (length xs) in drop (slice_index n a) (take (slice_index n b) xs))"

lemma py_slice_nonneg: "0 \<le> a \<Longrightarrow> 0 \<le> b \<Longrightarrow> py_slice a b xs = drop (nat a) (take (nat b) xs)"
  by (cases "nat b \<le> length xs"; cases "nat a \<le> length xs")
     (auto simp: py_slice_def slice_index_def min_def nat_le_iff not_le)

section \<open>Fixed-width fields\<close>

definition c_int32 :: "int \<Rightarrow> int" where
  "c_int32 n = (n + 2147483648) mod 4294967296 - 2147483648"

definition c_int64 :: "int \<Rightarrow> int" where
  "c_int64 n = (n + 9223372036854775808) mod 18446744073709551616 - 9223372036854775808"

lemma c_int32_id: "- 2147483648 \<le> n \<Longrightarrow> n < 2147483648 \<Longrightarrow> c_int32 n = n"
  by (simp add: c_int32_def)

lemma c_int64_id:
  "- 9223372036854775808 \<le> n \<Longrightarrow> n < 9223372036854775808 \<Longrightarrow> c_int64 n = n"
  by (simp add: c_int64_def)

lemma c_int32_range: "- 2147483648 \<le> c_int32 n \<and> c_int32 n < 2147483648"
  by (simp add: c_int32_def)

end
