(* ===== verification/Offload_Base.thy ===== *)
theory Offload_Base
  imports Prelude "HOL-Library.Word"
begin

text \<open>
  Model of \<open>v1/kv_offload/base.py\<close>: offload keys and their byte encoding, tier matching and
  filtering, per-request contexts, lookup results, the load/store specifications handed to the
  workers, offloading events and the canonical page mapping.

  A Python \<open>bytes\<close> value is a list of 8-bit words; \<open>OffloadKey\<close> is the block hash followed by
  the group index in four big-endian bytes.
\<close>

section \<open>Offload keys\<close>

type_synonym byte = "8 word"
type_synonym bytes = "byte list"
type_synonym block_hash = bytes
type_synonym offload_key = bytes

text \<open>
  \<open>n.to_bytes(w, "big", signed=False)\<close> raises \<open>OverflowError\<close> for a negative number and for
  one that does not fit; \<open>int.from_bytes\<close> never raises.
\<close>

fun be_bytes :: "nat \<Rightarrow> int \<Rightarrow> bytes" where
  "be_bytes 0 n = []"
| "be_bytes (Suc w) n = be_bytes w (n div 256) @ [word_of_int (n mod 256)]"

definition to_bytes_big :: "nat \<Rightarrow> int \<Rightarrow> bytes res" where
  "to_bytes_big w n = (if 0 \<le> n \<and> n < 256 ^ w then Inr (be_bytes w n) else Inl OverflowError)"

definition from_bytes_big :: "bytes \<Rightarrow> int" where
  "from_bytes_big bs = foldl (\<lambda>n b. n * 256 + uint b) 0 bs"

definition make_offload_key :: "block_hash \<Rightarrow> int \<Rightarrow> offload_key res" where
  "make_offload_key block_hash group_idx =
     bindE (to_bytes_big 4 group_idx) (\<lambda>bs. Inr (block_hash @ bs))"

text \<open>\<open>key[:-4]\<close> and \<open>key[-4:]\<close>; on a key shorter than four bytes the slices clip.\<close>

definition get_offload_block_hash :: "offload_key \<Rightarrow> block_hash" where
  "get_offload_block_hash key = take (length key - 4) key"

definition get_offload_group_idx :: "offload_key \<Rightarrow> int" where
  "get_offload_group_idx key = from_bytes_big (drop (length key - 4) key)"

lemma length_be_bytes [simp]: "length (be_bytes w n) = w"
  by (induction w arbitrary: n) auto

lemma from_bytes_snoc: "from_bytes_big (bs @ [b]) = from_bytes_big bs * 256 + uint b"
  by (simp add: from_bytes_big_def)

lemma uint_byte_mod: "uint (word_of_int (n mod 256) :: byte) = n mod 256"
  by (simp add: uint_word_of_int)

lemma from_be_bytes: "0 \<le> n \<Longrightarrow> n < 256 ^ w \<Longrightarrow> from_bytes_big (be_bytes w n) = n"
proof (induction w arbitrary: n)
  case 0
  then show ?case by (simp add: from_bytes_big_def)
next
  case (Suc w)
  then have "n div 256 < 256 ^ w" by (simp add: div_less_iff_less_mult mult.commute)
  with Suc show ?case
    by (simp add: from_bytes_snoc uint_byte_mod pos_imp_zdiv_nonneg_iff)
qed

lemma be_bytes_from:
  "be_bytes (length bs) (from_bytes_big bs) = bs"
proof (induction bs rule: rev_induct)
  case (snoc b bs)
  have "uint b < 256" using uint_lt2p [of b] by simp
  then have "(from_bytes_big bs * 256 + uint b) div 256 = from_bytes_big bs"
    and "(from_bytes_big bs * 256 + uint b) mod 256 = uint b"
    by simp_all
  with snoc show ?case by (simp add: from_bytes_snoc)
qed simp

lemma from_bytes_bounds: "0 \<le> from_bytes_big bs \<and> from_bytes_big bs < 256 ^ length bs"
proof (induction bs rule: rev_induct)
  case (snoc b bs)
  have "uint b < 256" using uint_lt2p [of b] by simp
  with snoc show ?case by (auto simp: from_bytes_snoc)
qed (simp add: from_bytes_big_def)

lemma make_offload_key_eq_Inr [res_simps]:
  "make_offload_key h g = Inr k \<longleftrightarrow> 0 \<le> g \<and> g < 4294967296 \<and> k = h @ be_bytes 4 g"
  by (auto simp: make_offload_key_def to_bytes_big_def res_simps)

lemma get_hash_append [simp]: "length bs = 4 \<Longrightarrow> get_offload_block_hash (h @ bs) = h"
  by (simp add: get_offload_block_hash_def)

lemma get_idx_append: "length bs = 4 \<Longrightarrow> get_offload_group_idx (h @ bs) = from_bytes_big bs"
  by (simp add: get_offload_group_idx_def)

lemma key_split:
  assumes "4 \<le> length k"
  shows "make_offload_key (get_offload_block_hash k) (get_offload_group_idx k) = Inr k"
proof -
  let ?t = "drop (length k - 4) k"
  have len: "length ?t = 4" using assms by simp
  then have "be_bytes 4 (from_bytes_big ?t) = ?t" by (metis be_bytes_from)
  moreover have "0 \<le> from_bytes_big ?t \<and> from_bytes_big ?t < 4294967296"
    using from_bytes_bounds [of ?t] len by simp
  ultimately show ?thesis
    by (simp add: res_simps get_offload_block_hash_def get_offload_group_idx_def)
qed

section \<open>Tiers\<close>

datatype medium = CPU | STORAGE

datatype locality = LOCAL | REMOTE

record tier_matcher =
  tm_medium :: "medium option"
  tm_locality :: "locality option"

definition matches :: "tier_matcher \<Rightarrow> medium option \<Rightarrow> locality option \<Rightarrow> bool" where
  "matches m med loc =
     ((tm_medium m = None \<or> med = None \<or> tm_medium m = med) \<and>
      (tm_locality m = None \<or> loc = None \<or> tm_locality m = loc))"

text \<open>
  \<open>TierFilter.ALL\<close> is one fixed object, recognised by identity; every other filter is its
  matchers. \<open>TF_ALL\<close> is that object, whose matchers are one empty matcher.
\<close>

datatype tier_filter = TF_ALL | TierFilter "tier_matcher list"

definition allows :: "tier_filter \<Rightarrow> medium option \<Rightarrow> locality option \<Rightarrow> bool" where
  "allows f med loc =
     (case f of TF_ALL \<Rightarrow> True | TierFilter ms \<Rightarrow> list_ex (\<lambda>m. matches m med loc) ms)"

lemma allows_empty_matcher:
  "allows (TierFilter [\<lparr>tm_medium = None, tm_locality = None\<rparr>]) med loc = allows TF_ALL med loc"
  by (simp add: allows_def matches_def)

section \<open>Requests, results and events\<close>

text \<open>
  \<open>kv_transfer_params\<close> and the per-type scratch space of a request context are read by
  secondary tiers only, whose code is not part of the repository.
\<close>

record req_context =
  req_id :: string
  load_tier_filter :: tier_filter

datatype lookup_result = MISS | HIT | HIT_PENDING | RETRY

datatype offload_policy = BLOCK_LEVEL | REQUEST_LEVEL

record schedule_end_context =
  new_req_ids :: "string list"
  preempted_req_ids :: "string list"

record offloading_event =
  ev_keys :: "offload_key list"
  ev_medium :: medium
  ev_removed :: bool

record prepare_store_output =
  keys_to_store :: "offload_key list"
  store_spec :: "int list"
  evicted_keys :: "offload_key list"

text \<open>The checks of the constructor of \<open>GPULoadStoreSpec\<close>.\<close>

record gpu_spec =
  gpu_block_ids :: "int list"
  gpu_group_sizes :: "int list"
  gpu_block_indices :: "int list"

definition mk_gpu_spec :: "int list \<Rightarrow> int list \<Rightarrow> int list \<Rightarrow> gpu_spec res" where
  "mk_gpu_spec ids sizes idxs =
     assertE (sum_list sizes = int (length ids))
       (assertE (length idxs = length sizes)
         (Inr \<lparr>gpu_block_ids = ids, gpu_group_sizes = sizes, gpu_block_indices = idxs\<rparr>))"

section \<open>Canonical pages\<close>

record copy_run =
  local_offset :: int
  canonical_offset :: int
  fragment_size :: int
  num_fragments :: int
  local_stride :: int
  canonical_stride :: int

record page_mapping =
  canonical_page_size_bytes :: int
  local_page_size_bytes :: int
  runs :: "copy_run list"
  num_writers :: int
  writer_index :: int
  parallelism_agnostic :: bool

text \<open>\<open>%\<close> raises on a zero divisor; on Python integers it is Isabelle's \<open>mod\<close>.\<close>

definition is_writer :: "page_mapping \<Rightarrow> int \<Rightarrow> bool res" where
  "is_writer m block_id =
     (if num_writers m = 0 then Inl ZeroDivisionError
      else Inr (block_id mod num_writers m = writer_index m))"

lemma is_writer_unique:
  assumes "0 < n"
  shows "\<exists>!i. 0 \<le> i \<and> i < n \<and>
     is_writer (m\<lparr>num_writers := n, writer_index := i\<rparr>) block_id = Inr True"
  using assms by (auto simp: is_writer_def)

end
