(* ===== verification/Py_Number.thy ===== *)
theory Py_Number
  imports Prelude Complex_Main
begin

text \<open>
  Python's numbers as the metrics use them: unbounded \<open>int\<close>, and \<open>float\<close> with the rounding of
  IEEE 754 binary64. A finite float is the rational it stands for (the two zeros are one value);
  every operation on floats rounds the exact result to the nearest double, ties to even, so that
  the addition of floats is not associative.
\<close>

section \<open>Rounding to a double\<close>

datatype py_float = Double rat | Infinite bool | NotANumber

datatype py_num = PyInt int | PyFloat py_float

function log2_floor :: "int \<Rightarrow> int" where
  "log2_floor n = (if n < 2 then 0 else 1 + log2_floor (n div 2))"
  by pat_completeness auto

termination by (relation "measure nat") auto

declare log2_floor.simps [simp del]

definition pow2 :: "int \<Rightarrow> rat" where
  "pow2 e = (if 0 \<le> e then 2 ^ nat e else 1 / 2 ^ nat (- e))"

text \<open>The exponent of a number that is not 0: \<open>pow2 e \<le> \<bar>x\<bar> < pow2 (e + 1)\<close>.\<close>

definition float_exponent :: "rat \<Rightarrow> int" where
  "float_exponent x =
     (let (a, b) = quotient_of \<bar>x\<bar>; e = log2_floor a - log2_floor b
      in if pow2 e \<le> \<bar>x\<bar> then e else e - 1)"

definition half_even :: "rat \<Rightarrow> int" where
  "half_even x =
     (let q = \<lfloor>x\<rfloor>; r = x - rat_of_int q
      in if r < 1 / 2 \<or> (r = 1 / 2 \<and> even q) then q else q + 1)"

text \<open>53 bits of precision, exponents from -1022 (below: subnormal numbers) to 1023.\<close>

definition double_of :: "rat \<Rightarrow> py_float" where
  "double_of x =
     (if x = 0 then Double 0
      else let e = max (float_exponent x) (- 1022); u = pow2 (e - 52); m = half_even (x / u)
        in if e > 1023 \<or> (e = 1023 \<and> \<bar>m\<bar> \<ge> 2 ^ 53) then Infinite (x < 0)
           else Double (rat_of_int m * u))"

section \<open>Arithmetic\<close>

text \<open>Adding zero is exact; the flag of an infinity is its sign.\<close>

fun float_plus :: "py_float \<Rightarrow> py_float \<Rightarrow> py_float" where
  "float_plus (Double a) (Double b) = (if a = 0 then Double b else if b = 0 then Double a else double_of (a + b))"
| "float_plus (Infinite s) (Infinite t) = (if s = t then Infinite s else NotANumber)"
| "float_plus (Infinite s) (Double b) = Infinite s"
| "float_plus (Double a) (Infinite t) = Infinite t"
| "float_plus NotANumber y = NotANumber"
| "float_plus x NotANumber = NotANumber"

fun float_neg :: "py_float \<Rightarrow> py_float" where
  "float_neg (Double a) = Double (- a)"
| "float_neg (Infinite s) = Infinite (\<not> s)"
| "float_neg NotANumber = NotANumber"

fun float_less :: "py_float \<Rightarrow> py_float \<Rightarrow> bool" where
  "float_less (Double a) (Double b) \<longleftrightarrow> a < b"
| "float_less (Double a) (Infinite t) \<longleftrightarrow> \<not> t"
| "float_less (Infinite s) (Double b) \<longleftrightarrow> s"
| "float_less (Infinite s) (Infinite t) \<longleftrightarrow> s \<and> \<not> t"
| "float_less NotANumber y \<longleftrightarrow> False"
| "float_less x NotANumber \<longleftrightarrow> False"

text \<open>\<open>max(x, y)\<close> returns its first argument unless the second is greater.\<close>

definition float_max :: "py_float \<Rightarrow> py_float \<Rightarrow> py_float" where
  "float_max x y = (if float_less x y then y else x)"

text \<open>An \<open>int\<close> next to a \<open>float\<close> is converted, which raises when it exceeds the doubles.\<close>

definition int_to_float :: "int \<Rightarrow> py_float res" where
  "int_to_float i =
     (case double_of (rat_of_int i) of Infinite s \<Rightarrow> Inl OverflowError | x \<Rightarrow> Inr x)"

fun num_plus :: "py_num \<Rightarrow> py_num \<Rightarrow> py_num res" where
  "num_plus (PyInt i) (PyInt j) = Inr (PyInt (i + j))"
| "num_plus (PyFloat x) (PyFloat y) = Inr (PyFloat (float_plus x y))"
| "num_plus (PyInt i) (PyFloat y) = bindE (int_to_float i) (\<lambda>x. Inr (PyFloat (float_plus x y)))"
| "num_plus (PyFloat x) (PyInt j) = bindE (int_to_float j) (\<lambda>y. Inr (PyFloat (float_plus x y)))"

text \<open>\<open>i / j\<close> on ints.\<close>

definition py_truediv :: "int \<Rightarrow> int \<Rightarrow> py_float res" where
  "py_truediv i j =
     (if j = 0 then Inl ZeroDivisionError
      else case double_of (rat_of_int i / rat_of_int j) of
             Infinite s \<Rightarrow> Inl OverflowError | x \<Rightarrow> Inr x)"

section \<open>What the operations do\<close>

text \<open>The start value of a counter, the \<open>int\<close> 0, leaves the first number as it is.\<close>

lemma int_to_float_0 [simp]: "int_to_float 0 = Inr (Double 0)"
  by (simp add: int_to_float_def double_of_def)

lemma float_plus_0 [simp]: "float_plus (Double 0) x = x"
  by (cases x) simp_all

lemma float_plus_commute: "float_plus x y = float_plus y x"
  by (cases x; cases y) (auto simp: add.commute)

text \<open>The doubles of 0.1, 0.2 and 0.3, and the two sums.\<close>

definition tenths :: "int \<Rightarrow> py_float" where
  "tenths n = double_of (rat_of_int n / 10)"

lemma doubles: "tenths 1 = Double (3602879701896397 / 36028797018963968)"
  by code_simp

lemma float_plus_not_associative:
  "float_plus (tenths 1) (float_plus (tenths 2) (tenths 3)) \<noteq>
   float_plus (float_plus (tenths 1) (tenths 2)) (tenths 3)"
  by code_simp

end
