(* ===== verification/Offload_Metrics.thy ===== *)
theory Offload_Metrics
  imports Py_Number
begin

text \<open>
  Model of \<open>OffloadingConnectorStats\<close> in
  \<open>distributed/kv_transfer/kv_connector/v1/offloading/metrics.py\<close>: a self-describing payload
  that maps a metric name to its type and, per tuple of label values, to a number (counter,
  gauge) or a list of observations (histogram).
\<close>

datatype stat_value = Num py_num | Obs "py_num list"

type_synonym labels = "string list"

record stats =
  st_types :: "(string, string) odict"
  st_data :: "(string, (labels, stat_value) odict) odict"

definition COUNTER :: string where "COUNTER = ''counter''"
definition GAUGE :: string where "GAUGE = ''gauge''"
definition HISTOGRAM :: string where "HISTOGRAM = ''histogram''"

lemma kinds_distinct [simp]:
  "COUNTER \<noteq> GAUGE" "COUNTER \<noteq> HISTOGRAM" "GAUGE \<noteq> HISTOGRAM"
  "GAUGE \<noteq> COUNTER" "HISTOGRAM \<noteq> COUNTER" "HISTOGRAM \<noteq> GAUGE"
  by (simp_all add: COUNTER_def GAUGE_def HISTOGRAM_def)

definition stats_reset :: stats where
  "stats_reset = \<lparr>st_types = [], st_data = []\<rparr>"

definition is_empty :: "stats \<Rightarrow> bool" where
  "is_empty s \<longleftrightarrow> st_data s = []"

text \<open>\<open>d.setdefault(k, v)\<close>: the dictionary afterwards, and the value it returns.\<close>

definition setdefault :: "'k \<Rightarrow> 'v \<Rightarrow> ('k, 'v) odict \<Rightarrow> ('k, 'v) odict" where
  "setdefault k v d = (if od_mem k d then d else d @ [(k, v)])"

text \<open>\<open>x + value\<close> and \<open>x.append(value)\<close>, \<open>x.extend(values)\<close> on the two kinds of value.\<close>

fun num_add :: "stat_value \<Rightarrow> py_num \<Rightarrow> stat_value res" where
  "num_add (Num x) y = bindE (num_plus x y) (\<lambda>z. Inr (Num z))"
| "num_add (Obs xs) y = Inl TypeError"

fun obs_extend :: "stat_value \<Rightarrow> py_num list \<Rightarrow> stat_value res" where
  "obs_extend (Obs xs) ys = Inr (Obs (xs @ ys))"
| "obs_extend (Num x) ys = Inl TypeError"

definition increase_counter :: "stats \<Rightarrow> string \<Rightarrow> py_num \<Rightarrow> labels \<Rightarrow> stats res" where
  "increase_counter s name value labelvalues =
     (let types = setdefault name COUNTER (st_types s);
          m = get_or name [] (st_data s)
      in bindE (num_add (get_or labelvalues (Num (PyInt 0)) m) value) (\<lambda>v.
        Inr \<lparr>st_types = types,
             st_data = AList.update name (AList.update labelvalues v m) (st_data s)\<rparr>))"

definition set_gauge :: "stats \<Rightarrow> string \<Rightarrow> py_num \<Rightarrow> labels \<Rightarrow> stats" where
  "set_gauge s name value labelvalues =
     (let types = setdefault name GAUGE (st_types s);
          m = get_or name [] (st_data s)
      in \<lparr>st_types = types,
          st_data = AList.update name (AList.update labelvalues (Num value) m) (st_data s)\<rparr>)"

definition observe_histogram :: "stats \<Rightarrow> string \<Rightarrow> py_num \<Rightarrow> labels \<Rightarrow> stats res" where
  "observe_histogram s name value labelvalues =
     (let types = setdefault name HISTOGRAM (st_types s);
          m = get_or name [] (st_data s)
      in bindE (obs_extend (get_or labelvalues (Obs []) m) [value]) (\<lambda>v.
        Inr \<lparr>st_types = types,
             st_data = AList.update name (AList.update labelvalues v m) (st_data s)\<rparr>))"

text \<open>The inner and the outer loop of \<open>aggregate\<close>.\<close>

definition merge_label :: "string \<Rightarrow> labels \<times> stat_value \<Rightarrow>
    (labels, stat_value) odict \<Rightarrow> (labels, stat_value) odict res" where
  "merge_label type_str lv cur =
     (let l = fst lv; value = snd lv in
      if type_str = HISTOGRAM then
        (case value of
           Num _ \<Rightarrow> Inl AssertionError
         | Obs ys \<Rightarrow>
             (case map_of cur l of
                None \<Rightarrow> Inr (AList.update l (Obs ys) cur)
              | Some (Obs xs) \<Rightarrow> Inr (AList.update l (Obs (xs @ ys)) cur)
              | Some (Num _) \<Rightarrow> Inl AssertionError))
      else if type_str = COUNTER then
        (case value of
           Obs _ \<Rightarrow> Inl AssertionError
         | Num y \<Rightarrow> bindE (num_add (get_or l (Num (PyInt 0)) cur) y) (\<lambda>v. Inr (AList.update l v cur)))
      else if type_str = GAUGE then
        (case value of
           Obs _ \<Rightarrow> Inl AssertionError
         | Num y \<Rightarrow> Inr (AList.update l (Num y) cur))
      else Inl AssertionError)"

definition merge_metric :: "(string, string) odict \<Rightarrow>
    string \<times> (labels, stat_value) odict \<Rightarrow> stats \<Rightarrow> stats res" where
  "merge_metric other_types kv s =
     (case map_of other_types (fst kv) of
        None \<Rightarrow> Inl AssertionError
      | Some type_str \<Rightarrow>
          bindE (foldE (merge_label type_str) (snd kv) (get_or (fst kv) [] (st_data s)))
            (\<lambda>m. Inr \<lparr>st_types = setdefault (fst kv) type_str (st_types s),
                      st_data = AList.update (fst kv) m (st_data s)\<rparr>))"

definition aggregate :: "stats \<Rightarrow> stats \<Rightarrow> stats res" where
  "aggregate s other =
     (if is_empty other then Inr s
      else foldE (merge_metric (st_types other)) (st_data other) s)"

text \<open>
  \<open>reduce\<close>: one entry per metric and label tuple, two for a histogram. The f-string
  \<open>key:labelvalues\<close> is the parameter \<open>fmt\<close> (the \<open>repr\<close> of a tuple of strings); an unlabelled
  metric keeps its name. Writing to the result dictionary is an update, as in the code. The
  built-in \<open>sum\<close> is the parameter \<open>total_of\<close>, since how it rounds a sum of floats depends on the
  version of the interpreter.
\<close>

definition reduce_label :: "(py_num list \<Rightarrow> py_num) \<Rightarrow> (string \<Rightarrow> labels \<Rightarrow> string) \<Rightarrow> string \<Rightarrow> string \<Rightarrow>
    labels \<times> stat_value \<Rightarrow> (string, py_num) odict \<Rightarrow> (string, py_num) odict res" where
  "reduce_label total_of fmt type_str key lv out =
     (let kl = (if fst lv \<noteq> [] then fmt key (fst lv) else key) in
      if type_str = HISTOGRAM then
        (case snd lv of
           Num _ \<Rightarrow> Inl AssertionError
         | Obs xs \<Rightarrow> Inr (AList.update (kl @ ''_sum'') (total_of xs)
                       (AList.update (kl @ ''_count'') (PyInt (int (length xs))) out)))
      else if type_str = COUNTER \<or> type_str = GAUGE then
        (case snd lv of
           Obs _ \<Rightarrow> Inl AssertionError
         | Num y \<Rightarrow> Inr (AList.update kl y out))
      else Inl AssertionError)"

definition reduce_metric :: "(py_num list \<Rightarrow> py_num) \<Rightarrow> (string \<Rightarrow> labels \<Rightarrow> string) \<Rightarrow> (string, string) odict \<Rightarrow>
    string \<times> (labels, stat_value) odict \<Rightarrow> (string, py_num) odict \<Rightarrow> (string, py_num) odict res" where
  "reduce_metric total_of fmt types kv out =
     (case map_of types (fst kv) of
        None \<Rightarrow> Inl AssertionError
      | Some type_str \<Rightarrow> foldE (reduce_label total_of fmt type_str (fst kv)) (snd kv) out)"

definition reduce :: "(py_num list \<Rightarrow> py_num) \<Rightarrow> (string \<Rightarrow> labels \<Rightarrow> string) \<Rightarrow> stats \<Rightarrow> (string, py_num) odict res" where
  "reduce total_of fmt s = foldE (reduce_metric total_of fmt (st_types s)) (st_data s) []"

section \<open>Recording and aggregating commute\<close>

text \<open>
  \<open>lookup_stat\<close> is the abstract content of a payload. A recording is one call of the three
  recording methods; \<open>record_all\<close> is a sequence of them.
\<close>

definition lookup_stat :: "stats \<Rightarrow> string \<Rightarrow> labels \<Rightarrow> stat_value option" where
  "lookup_stat s name l = map_of (get_or name [] (st_data s)) l"

datatype recording = Inc string py_num labels | Set string py_num labels | Observe string py_num labels

fun record_one :: "recording \<Rightarrow> stats \<Rightarrow> stats res" where
  "record_one (Inc n v l) s = increase_counter s n v l"
| "record_one (Set n v l) s = Inr (set_gauge s n v l)"
| "record_one (Observe n v l) s = observe_histogram s n v l"

definition record_all :: "recording list \<Rightarrow> stats \<Rightarrow> stats res" where
  "record_all rs s = foldE record_one rs s"

fun rec_name :: "recording \<Rightarrow> string" where
  "rec_name (Inc n v l) = n" | "rec_name (Set n v l) = n" | "rec_name (Observe n v l) = n"

text \<open>
  What a metric is used for. A counter of the program counts in one type of number: blocks, keys
  and bytes are ints, times are floats.
\<close>

datatype metric = Int_Counter | Float_Counter | Gauge | Histogram

fun type_name :: "metric \<Rightarrow> string" where
  "type_name Int_Counter = COUNTER" | "type_name Float_Counter = COUNTER"
| "type_name Gauge = GAUGE" | "type_name Histogram = HISTOGRAM"

fun kind_ok :: "metric \<Rightarrow> stat_value \<Rightarrow> bool" where
  "kind_ok Int_Counter v \<longleftrightarrow> (\<exists>i. v = Num (PyInt i))"
| "kind_ok Float_Counter v \<longleftrightarrow> (\<exists>x. v = Num (PyFloat x))"
| "kind_ok Gauge v \<longleftrightarrow> (\<exists>x. v = Num x)"
| "kind_ok Histogram v \<longleftrightarrow> (\<exists>xs. v = Obs xs)"

fun rec_ok :: "metric \<Rightarrow> recording \<Rightarrow> bool" where
  "rec_ok k (Inc n v l) \<longleftrightarrow> k \<in> {Int_Counter, Float_Counter} \<and> kind_ok k (Num v)"
| "rec_ok k (Set n v l) \<longleftrightarrow> k = Gauge"
| "rec_ok k (Observe n v l) \<longleftrightarrow> k = Histogram"

text \<open>Payloads whose metrics are used as \<open>ty\<close> says.\<close>

definition stats_ok :: "(string \<Rightarrow> metric) \<Rightarrow> stats \<Rightarrow> bool" where
  "stats_ok ty s \<longleftrightarrow> od_ok (st_data s) \<and>
     (\<forall>(n, m) \<in> set (st_data s). map_of (st_types s) n = Some (type_name (ty n)) \<and> od_ok m \<and>
        (\<forall>(l, v) \<in> set m. kind_ok (ty n) v)) \<and>
     (\<forall>(n, t) \<in> set (st_types s). t = type_name (ty n))"

text \<open>One recorded or merged value on top of an old one: the sum, the newer gauge, one list.\<close>

fun comb :: "metric \<Rightarrow> stat_value option \<Rightarrow> stat_value \<Rightarrow> stat_value" where
  "comb Int_Counter (Some (Num (PyInt i))) (Num (PyInt j)) = Num (PyInt (i + j))"
| "comb Float_Counter (Some (Num (PyFloat x))) (Num (PyFloat y)) = Num (PyFloat (float_plus x y))"
| "comb Histogram (Some (Obs xs)) (Obs ys) = Obs (xs @ ys)"
| "comb k _ v = v"

definition over :: "metric \<Rightarrow> ('l \<Rightarrow> stat_value option) \<Rightarrow> ('l \<Rightarrow> stat_value option) \<Rightarrow>
    'l \<Rightarrow> stat_value option" where
  "over k old new l = (case new l of None \<Rightarrow> old l | Some v \<Rightarrow> Some (comb k (old l) v))"

abbreviation labels_ok :: "metric \<Rightarrow> (labels, stat_value) odict \<Rightarrow> bool" where
  "labels_ok k m \<equiv> od_ok m \<and> (\<forall>(l, v) \<in> set m. kind_ok k v)"

lemma set_AList_update: "od_ok m \<Longrightarrow> set (AList.update l v m) \<subseteq> insert (l, v) (set m)"
  by (induction m) auto

lemma labels_ok_update: "labels_ok k m \<Longrightarrow> kind_ok k v \<Longrightarrow> labels_ok k (AList.update l v m)"
  using set_AList_update [of m l v] by auto

lemma labels_ok_lookup: "labels_ok k m \<Longrightarrow> map_of m l = Some v \<Longrightarrow> kind_ok k v"
  by (auto dest!: map_of_SomeD)

lemma comb_None [simp]: "comb k None v = v"
  by (cases k) simp_all

lemma comb_kind: "kind_ok k v \<Longrightarrow> (\<And>x. old = Some x \<Longrightarrow> kind_ok k x) \<Longrightarrow> kind_ok k (comb k old v)"
  by (cases k; cases old) auto

text \<open>Merging is associative except for counters of floats.\<close>

lemma comb_assoc:
  assumes "k \<noteq> Float_Counter" and "kind_ok k v" and "kind_ok k w" and "\<And>x. old = Some x \<Longrightarrow> kind_ok k x"
  shows "comb k old (comb k (Some v) w) = comb k (Some (comb k old v)) w"
  using assms by (cases k; cases old) auto

lemma merge_label_eq:
  assumes cur: "labels_ok k cur" and v: "kind_ok k v"
  shows "merge_label (type_name k) (l, v) cur = Inr (AList.update l (comb k (map_of cur l) v) cur)"
proof (cases "map_of cur l")
  case None
  with v show ?thesis by (cases k) (auto simp: merge_label_def get_or_def)
next
  case (Some u)
  with cur have "kind_ok k u" by (blast intro: labels_ok_lookup)
  with Some v show ?thesis by (cases k) (auto simp: merge_label_def get_or_def)
qed

lemma merge_labels:
  assumes "labels_ok k cur" and "labels_ok k other"
  shows "\<exists>m. foldE (merge_label (type_name k)) other cur = Inr m \<and> labels_ok k m \<and>
    map_of m = over k (map_of cur) (map_of other)"
  using assms
proof (induction other arbitrary: cur)
  case Nil
  then show ?case by (simp add: over_def fun_eq_iff)
next
  case (Cons e other)
  obtain l v where e: "e = (l, v)" by (cases e)
  let ?c = "AList.update l (comb k (map_of cur l) v) cur"
  have v: "kind_ok k v" using Cons.prems(2) e by simp
  have "labels_ok k ?c"
    using Cons.prems(1) by (intro labels_ok_update comb_kind [OF v]) (auto dest!: map_of_SomeD)
  moreover have "labels_ok k other" using Cons.prems(2) by simp
  ultimately obtain m where m: "foldE (merge_label (type_name k)) other ?c = Inr m" "labels_ok k m"
    "map_of m = over k (map_of ?c) (map_of other)" using Cons.IH by blast
  have l: "map_of other l = None" using Cons.prems(2) e by (auto simp: map_of_eq_None_iff)
  have "map_of m = over k (map_of cur) (map_of (e # other))"
    by (rule ext) (simp add: m(3) e over_def map_of_od_update l split: option.split)
  with m(1,2) show ?case by (simp add: e merge_label_eq [OF Cons.prems(1) v] fun_upd_def)
qed

lemma stats_ok_labels:
  assumes "stats_ok ty s" shows "labels_ok (ty n) (get_or n [] (st_data s))"
proof (cases "map_of (st_data s) n")
  case (Some m)
  then have "(n, m) \<in> set (st_data s)" by (rule map_of_SomeD)
  with assms Some show ?thesis unfolding stats_ok_def get_or_def by fastforce
qed (simp add: get_or_def)

lemma map_of_setdefault:
  "map_of (setdefault k v d) = (if od_mem k d then map_of d else (map_of d)(k \<mapsto> v))"
  by (auto simp: setdefault_def map_add_def od_mem_def fun_eq_iff simp del: od_mem_iff
      split: option.split)

lemma stats_ok_upd:
  assumes ok: "stats_ok ty s" and m: "labels_ok (ty n) m"
  shows "stats_ok ty \<lparr>st_types = setdefault n (type_name (ty n)) (st_types s),
    st_data = AList.update n m (st_data s)\<rparr>" (is "stats_ok ty ?s")
proof -
  have od: "od_ok (st_data s)" using ok by (simp add: stats_ok_def)
  have "map_of (st_types ?s) n = Some (type_name (ty n))"
  proof (cases "od_mem n (st_types s)")
    case True
    then obtain t where "map_of (st_types s) n = Some t" unfolding od_mem_def by blast
    moreover from this have "t = type_name (ty n)" using ok by (auto simp: stats_ok_def dest!: map_of_SomeD)
    ultimately show ?thesis using True by (simp add: map_of_setdefault)
  qed (simp add: map_of_setdefault)
  moreover have "map_of (st_types ?s) n' = Some (type_name (ty n'))" if "(n', m') \<in> set (st_data s)" for n' m'
    using ok that by (auto simp: stats_ok_def map_of_setdefault)
  moreover have "\<forall>(n', t) \<in> set (st_types ?s). t = type_name (ty n')"
    using ok by (auto simp: stats_ok_def setdefault_def)
  ultimately show ?thesis
    using ok m set_AList_update [OF od, of n m] od unfolding stats_ok_def by fastforce
qed

lemma lookup_stat_upd:
  "lookup_stat \<lparr>st_types = t, st_data = AList.update n m (st_data s)\<rparr> n' =
    (if n' = n then map_of m else lookup_stat s n')"
  by (auto simp: lookup_stat_def get_or_def map_of_od_update fun_eq_iff)

lemma merge_metrics:
  assumes "stats_ok ty s" and "od_ok ds"
    and "\<forall>(n, m) \<in> set ds. map_of types n = Some (type_name (ty n)) \<and> labels_ok (ty n) m"
  shows "\<exists>s'. foldE (merge_metric types) ds s = Inr s' \<and> stats_ok ty s' \<and>
    (\<forall>n. lookup_stat s' n = over (ty n) (lookup_stat s n) (map_of (get_or n [] ds)))"
  using assms
proof (induction ds arbitrary: s)
  case Nil
  then show ?case by (simp add: over_def get_or_def fun_eq_iff)
next
  case (Cons e ds)
  obtain n m where e: "e = (n, m)" by (cases e)
  have n: "map_of types n = Some (type_name (ty n))" and m: "labels_ok (ty n) m" using Cons.prems(3) e by auto
  from merge_labels [OF stats_ok_labels [OF Cons.prems(1)] m] obtain m' where
    m': "foldE (merge_label (type_name (ty n))) m (get_or n [] (st_data s)) = Inr m'" "labels_ok (ty n) m'"
    "map_of m' = over (ty n) (lookup_stat s n) (map_of m)"
    by (auto simp: lookup_stat_def [abs_def])
  let ?s = "\<lparr>st_types = setdefault n (type_name (ty n)) (st_types s), st_data = AList.update n m' (st_data s)\<rparr>"
  have step: "merge_metric types e s = Inr ?s" by (simp add: merge_metric_def e n m'(1))
  from Cons.IH [OF stats_ok_upd [OF Cons.prems(1) m'(2)]] Cons.prems(2,3) obtain s' where
    s': "foldE (merge_metric types) ds ?s = Inr s'" "stats_ok ty s'"
    "\<forall>n'. lookup_stat s' n' = over (ty n') (lookup_stat ?s n') (map_of (get_or n' [] ds))"
    by auto
  have "map_of ds n = None" using Cons.prems(2) e by (auto simp: map_of_eq_None_iff)
  then have "\<forall>n'. lookup_stat s' n' =
      over (ty n') (lookup_stat s n') (map_of (get_or n' [] (e # ds)))"
    using s'(3) by (auto simp: lookup_stat_upd m'(3) e get_or_def over_def fun_eq_iff)
  with s' step show ?case by simp
qed

lemma aggregate_lookup:
  assumes "stats_ok ty s" and "stats_ok ty other"
  shows "\<exists>s'. aggregate s other = Inr s' \<and> stats_ok ty s' \<and>
    (\<forall>n. lookup_stat s' n = over (ty n) (lookup_stat s n) (lookup_stat other n))"
proof -
  have "\<forall>(n, m) \<in> set (st_data other). map_of (st_types other) n = Some (type_name (ty n)) \<and> labels_ok (ty n) m"
    and "od_ok (st_data other)"
    using assms(2) by (auto simp: stats_ok_def)
  from merge_metrics [OF assms(1) this(2,1)] show ?thesis
    using assms(1)
    by (auto simp: aggregate_def is_empty_def lookup_stat_def [abs_def] over_def get_or_def)
qed


text \<open>The value a recording leaves, and that recording is an \<open>over\<close> by one entry.\<close>

fun rec_entry :: "recording \<Rightarrow> (labels, stat_value) odict" where
  "rec_entry (Inc n v l) = [(l, Num v)]"
| "rec_entry (Set n v l) = [(l, Num v)]"
| "rec_entry (Observe n v l) = [(l, Obs [v])]"

lemma rec_entry_ok: "rec_ok k r \<Longrightarrow> labels_ok k (rec_entry r)"
  by (cases r; cases k) auto

lemma record_one_merge:
  assumes ok: "labels_ok k (get_or (rec_name r) [] (st_data s))" and r: "rec_ok k r"
  shows "record_one r s = merge_metric [(rec_name r, type_name k)] (rec_name r, rec_entry r) s"
proof -
  obtain l v where e: "rec_entry r = [(l, v)]" by (cases r) auto
  then have v: "kind_ok k v" using rec_entry_ok [OF r] by simp
  let ?u = "map_of (get_or (rec_name r) [] (st_data s)) l"
  have u: "?u = Some w \<Longrightarrow> kind_ok k w" for w using ok by (blast intro: labels_ok_lookup)
  have "record_one r s = Inr \<lparr>st_types = setdefault (rec_name r) (type_name k) (st_types s),
     st_data = AList.update (rec_name r)
       (AList.update l (comb k ?u v) (get_or (rec_name r) [] (st_data s))) (st_data s)\<rparr>"
    using e v u r
    by (cases r; cases k; cases ?u)
       (auto simp: increase_counter_def set_gauge_def observe_histogram_def
         get_or_def [of l] get_or_def [of _ "_ :: stat_value"])
  then show ?thesis by (simp add: merge_metric_def e merge_label_eq [OF ok v])
qed

lemma record_one_lookup:
  assumes "stats_ok ty s" and "rec_ok (ty (rec_name r)) r"
  shows "\<exists>s'. record_one r s = Inr s' \<and> stats_ok ty s' \<and>
    (\<forall>n. lookup_stat s' n = over (ty n) (lookup_stat s n)
       (if n = rec_name r then map_of (rec_entry r) else Map.empty))"
  using merge_metrics [OF assms(1), of "[(rec_name r, rec_entry r)]"
      "[(rec_name r, type_name (ty (rec_name r)))]"] rec_entry_ok [OF assms(2)]
  by (auto simp: record_one_merge [OF stats_ok_labels [OF assms(1)] assms(2)] get_or_def bindE_eq_Inr
    split: if_splits)

lemma over_assoc:
  assumes "k \<noteq> Float_Counter" and "\<And>v. new l = Some v \<Longrightarrow> kind_ok k v"
    and "\<And>v. mid l = Some v \<Longrightarrow> kind_ok k v" and "\<And>v. old l = Some v \<Longrightarrow> kind_ok k v"
  shows "over k old (over k mid new) l = over k (over k old mid) new l"
  using assms by (auto simp: over_def comb_assoc split: option.split)

lemma stats_ok_lookup: "stats_ok ty s \<Longrightarrow> lookup_stat s n l = Some v \<Longrightarrow> kind_ok (ty n) v"
  unfolding lookup_stat_def by (rule labels_ok_lookup [OF stats_ok_labels])

lemma record_all_over:
  assumes "stats_ok ty a" and "\<forall>r \<in> set rs. rec_ok (ty (rec_name r)) r"
  shows "\<exists>b c. record_all rs stats_reset = Inr b \<and> record_all rs a = Inr c \<and>
    stats_ok ty b \<and> stats_ok ty c \<and>
    (\<forall>n. ty n \<noteq> Float_Counter \<longrightarrow> lookup_stat c n = over (ty n) (lookup_stat a n) (lookup_stat b n))"
  using assms(2)
proof (induction rs rule: rev_induct)
  case Nil
  show ?case using assms(1)
    by (simp add: record_all_def stats_reset_def stats_ok_def lookup_stat_def get_or_def over_def
      fun_eq_iff)
next
  case (snoc r rs)
  then obtain b c where bc: "record_all rs stats_reset = Inr b" "record_all rs a = Inr c"
    "stats_ok ty b" "stats_ok ty c"
    "\<forall>n. ty n \<noteq> Float_Counter \<longrightarrow> lookup_stat c n = over (ty n) (lookup_stat a n) (lookup_stat b n)"
    by auto
  have r: "rec_ok (ty (rec_name r)) r" using snoc.prems by simp
  from record_one_lookup [OF bc(3) r] obtain b' where b': "record_one r b = Inr b'" "stats_ok ty b'"
    "\<forall>n. lookup_stat b' n = over (ty n) (lookup_stat b n)
       (if n = rec_name r then map_of (rec_entry r) else Map.empty)" by blast
  from record_one_lookup [OF bc(4) r] obtain c' where c': "record_one r c = Inr c'" "stats_ok ty c'"
    "\<forall>n. lookup_stat c' n = over (ty n) (lookup_stat c n)
       (if n = rec_name r then map_of (rec_entry r) else Map.empty)" by blast
  have new: "kind_ok (ty n) v"
    if "(if n = rec_name r then map_of (rec_entry r) else Map.empty) l = Some v" for n l v
    using that rec_entry_ok [OF r] by (auto split: if_splits dest!: map_of_SomeD)
  have "lookup_stat c' n l = over (ty n) (lookup_stat a n) (lookup_stat b' n) l"
    if n: "ty n \<noteq> Float_Counter" for n l
    unfolding c'(3) [rule_format] b'(3) [rule_format] bc(5) [rule_format, OF n]
    by (rule over_assoc [OF n, symmetric])
       (use new stats_ok_lookup [OF bc(3)] stats_ok_lookup [OF assms(1)] in blast)+
  then have "\<forall>n. ty n \<noteq> Float_Counter \<longrightarrow>
      lookup_stat c' n = over (ty n) (lookup_stat a n) (lookup_stat b' n)"
    by (simp add: fun_eq_iff)
  with bc b' c' show ?case by (simp add: record_all_def foldE_append)
qed

end
