(* ===== verification/Base_Properties.thy ===== *)
theory Base_Properties
  imports Offload_Base Offload_Metrics
begin

text \<open>The properties of the shared offloading data: keys, tier filters, metric payloads.\<close>

text \<open>
  C34: building an offload key and taking it apart are inverse: a group index that fits four bytes
  gives a key from which both parts are read back, every key of at least four bytes is the key
  built from its parts, and any other index raises \<open>OverflowError\<close>.
\<close>

theorem offload_key_roundtrip:
  "(\<forall>k. make_offload_key h g = Inr k \<longrightarrow> get_offload_block_hash k = h \<and> get_offload_group_idx k = g) \<and>
   (\<forall>k. 4 \<le> length k \<longrightarrow>
      make_offload_key (get_offload_block_hash k) (get_offload_group_idx k) = Inr k) \<and>
   (\<forall>e. make_offload_key h g = Inl e \<longleftrightarrow> e = OverflowError \<and> (g < 0 \<or> 4294967296 \<le> g))"
  by (auto simp: res_simps get_idx_append from_be_bytes key_split)
     (auto simp: make_offload_key_def to_bytes_big_def split: if_splits)

theorem offload_key_roundtrip_witness:
  "get_offload_block_hash (projr (make_offload_key [1, 2] 258)) = [1, 2] \<and>
   get_offload_group_idx (projr (make_offload_key [1, 2] 258)) = 258"
proof -
  have "make_offload_key [1, 2] 258 = Inr (projr (make_offload_key [1, 2] 258))"
    by (simp add: make_offload_key_def to_bytes_big_def)
  with offload_key_roundtrip [of "[1, 2]" 258] show ?thesis by blast
qed

text \<open>
  C35: shipping metrics as separate payloads. Recording a sequence of counter, gauge and histogram
  calls into a fresh payload and aggregating that payload into \<open>a\<close> raises nothing and gives, per
  metric and label, the old counter plus the payload's sum, the payload's newer gauge, the two
  lists of samples one after the other. For every metric except the counters of floats this is
  what recording the same calls directly into \<open>a\<close> gives; a counter of floats may differ in its
  rounding, since the payload is summed first.
\<close>

theorem aggregate_is_recording:
  assumes "stats_ok ty a" and "\<forall>r \<in> set rs. rec_ok (ty (rec_name r)) r"
  shows "\<exists>b c d. record_all rs stats_reset = Inr b \<and> aggregate a b = Inr c \<and> record_all rs a = Inr d \<and>
    (\<forall>n. lookup_stat c n = over (ty n) (lookup_stat a n) (lookup_stat b n)) \<and>
    (\<forall>n. ty n \<noteq> Float_Counter \<longrightarrow> lookup_stat c n = lookup_stat d n)"
proof -
  from record_all_over [OF assms] obtain b d where
    b: "record_all rs stats_reset = Inr b" "record_all rs a = Inr d" "stats_ok ty b"
    "\<forall>n. ty n \<noteq> Float_Counter \<longrightarrow> lookup_stat d n = over (ty n) (lookup_stat a n) (lookup_stat b n)"
    by blast
  from aggregate_lookup [OF assms(1) b(3)] b show ?thesis by auto
qed

text \<open>A payload with a counter, and calls on a counter of each type, a gauge and a histogram.\<close>

definition demo_metric :: "string \<Rightarrow> metric" where
  "demo_metric n = (if n = ''bytes'' then Int_Counter else if n = ''time'' then Float_Counter
     else if n = ''len'' then Gauge else Histogram)"

definition demo_stats :: stats where
  "demo_stats = \<lparr>st_types = [(''bytes'', COUNTER), (''time'', COUNTER)],
     st_data = [(''bytes'', [([], Num (PyInt 5))]), (''time'', [([], Num (PyFloat (tenths 1)))])]\<rparr>"

definition demo_calls :: "recording list" where
  "demo_calls = [Inc ''bytes'' (PyInt 1) [], Inc ''time'' (PyFloat (tenths 2)) [],
     Set ''len'' (PyInt 3) [], Inc ''bytes'' (PyInt 2) [], Inc ''time'' (PyFloat (tenths 3)) [],
     Observe ''lat'' (PyFloat (tenths 1)) []]"

theorem aggregate_is_recording_witness:
  "\<exists>b c d. record_all demo_calls stats_reset = Inr b \<and> aggregate demo_stats b = Inr c \<and>
    record_all demo_calls demo_stats = Inr d \<and> lookup_stat c ''bytes'' = lookup_stat d ''bytes''"
proof -
  have s: "stats_ok demo_metric demo_stats"
    by (simp add: stats_ok_def demo_stats_def demo_metric_def)
  have r: "\<forall>r \<in> set demo_calls. rec_ok (demo_metric (rec_name r)) r"
    by (simp add: demo_calls_def demo_metric_def)
  have "demo_metric ''bytes'' \<noteq> Float_Counter" by (simp add: demo_metric_def)
  with aggregate_is_recording [OF s r] show ?thesis by blast
qed

text \<open>The exception is needed: in this example the two ways round the counter of seconds differently.\<close>

lemma float_counter_differs:
  "\<not> (\<exists>b c d. record_all demo_calls stats_reset = Inr b \<and> aggregate demo_stats b = Inr c \<and>
     record_all demo_calls demo_stats = Inr d \<and> lookup_stat c ''time'' = lookup_stat d ''time'')"
proof -
  let ?b = "projr (record_all demo_calls stats_reset)"
  have "\<not> isl (record_all demo_calls stats_reset)" by code_simp
  then have b: "record_all demo_calls stats_reset = Inr ?b" by (cases "record_all demo_calls stats_reset") auto
  have "lookup_stat (projr (aggregate demo_stats ?b)) ''time'' [] \<noteq>
      lookup_stat (projr (record_all demo_calls demo_stats)) ''time'' []" by code_simp
  with b show ?thesis by auto
qed

end
