(* ===== verification/Cache_Policy.thy ===== *)
theory Cache_Policy
  imports Offload_Base
begin

text \<open>
  Model of \<open>v1/kv_offload/cpu/policies/base.py\<close>: the status of one offloaded block and the
  interface \<open>CachePolicy\<close> between the CPU manager and its replacement policies.

  The class is a record of operations over a policy state \<open>'p\<close>, so that the manager is written
  once for every policy, as in the code. \<open>pol_set_block\<close> stands for an attribute write through
  the block reference that \<open>get\<close> returned (\<open>block.ref_cnt = ...\<close>): Python's policies hand out
  the mutable block object, the model stores it by value and writes it back.
\<close>

section \<open>Block status\<close>

record block_status =
  ref_cnt :: int
  block_id :: int

text \<open>\<open>BlockStatus(block_id)\<close>: not ready, with the fields' C types.\<close>

definition new_block :: "int \<Rightarrow> block_status" where
  "new_block n = \<lparr>ref_cnt = c_int32 (-1), block_id = c_int64 n\<rparr>"

definition is_ready :: "block_status \<Rightarrow> bool" where
  "is_ready b \<longleftrightarrow> 0 \<le> ref_cnt b"

text \<open>\<open>block.ref_cnt += d\<close>: the sum is truncated to the C field.\<close>

definition add_ref :: "int \<Rightarrow> block_status \<Rightarrow> block_status" where
  "add_ref d b = b\<lparr>ref_cnt := c_int32 (ref_cnt b + d)\<rparr>"

lemma ref_cnt_new_block [simp]: "ref_cnt (new_block n) = -1"
  by (simp add: new_block_def c_int32_def)

lemma block_id_new_block: "0 \<le> n \<Longrightarrow> n < 9223372036854775808 \<Longrightarrow> block_id (new_block n) = n"
  by (simp add: new_block_def c_int64_id)

lemma block_id_add_ref [simp]: "block_id (add_ref d b) = block_id b"
  by (simp add: add_ref_def)

lemma ref_cnt_add_ref:
  "- 2147483648 \<le> ref_cnt b + d \<Longrightarrow> ref_cnt b + d < 2147483648 \<Longrightarrow>
   ref_cnt (add_ref d b) = ref_cnt b + d"
  by (simp add: add_ref_def c_int32_id)

section \<open>The policy interface\<close>

record 'p policy_ops =
  pol_init :: "int \<Rightarrow> 'p"
  pol_get :: "'p \<Rightarrow> offload_key \<Rightarrow> block_status option"
  pol_set_block :: "'p \<Rightarrow> offload_key \<Rightarrow> block_status \<Rightarrow> 'p"
  pol_insert :: "'p \<Rightarrow> offload_key \<Rightarrow> block_status \<Rightarrow> 'p"
  pol_remove :: "'p \<Rightarrow> offload_key \<Rightarrow> 'p res"
  pol_touch :: "'p \<Rightarrow> offload_key list \<Rightarrow> 'p"
  pol_evict :: "'p \<Rightarrow> nat \<Rightarrow> offload_key list \<Rightarrow> ('p \<times> (offload_key \<times> block_status) list option) res"
  pol_clear :: "'p \<Rightarrow> 'p"
  pol_stored_keys :: "'p \<Rightarrow> offload_key list"
  pol_mark_evictable :: "'p \<Rightarrow> offload_key \<Rightarrow> 'p"
  pol_mark_non_evictable :: "'p \<Rightarrow> offload_key \<Rightarrow> 'p res"

text \<open>
  The contract. \<open>pol_get P p\<close> is the abstract state, a finite map from keys to blocks. Every
  operation is described by what it does to that map; \<open>inv\<close> is the provider's invariant. A
  block's reference count changes only in the three ways the manager uses: becoming evictable
  (a write of 0 and then \<open>mark_evictable\<close>), leaving that state (\<open>mark_non_evictable\<close>, then a
  write of a nonzero count) and between two nonzero counts.
\<close>

locale cache_policy =
  fixes P :: "'p policy_ops" and inv :: "'p \<Rightarrow> bool"
  assumes inv_init: "0 \<le> cap \<Longrightarrow> inv (pol_init P cap)"
    and get_init: "pol_get P (pol_init P cap) = Map.empty"
    and inv_insert: "inv p \<Longrightarrow> pol_get P p k = None \<Longrightarrow> ref_cnt b \<noteq> 0 \<Longrightarrow> inv (pol_insert P p k b)"
    and get_insert: "inv p \<Longrightarrow> pol_get P p k = None \<Longrightarrow>
       pol_get P (pol_insert P p k b) = (pol_get P p)(k \<mapsto> b)"
    and remove: "inv p \<Longrightarrow> pol_get P p k = Some b \<Longrightarrow>
       \<exists>p'. pol_remove P p k = Inr p' \<and> inv p' \<and> pol_get P p' = (pol_get P p)(k := None)"
    and inv_touch: "inv p \<Longrightarrow> inv (pol_touch P p ks)"
    and get_touch: "inv p \<Longrightarrow> pol_get P (pol_touch P p ks) = pol_get P p"
    and evict_total: "inv p \<Longrightarrow> \<exists>p' r. pol_evict P p n prot = Inr (p', r)"
    and evict_None: "inv p \<Longrightarrow> pol_evict P p n prot = Inr (p', None) \<Longrightarrow> p' = p"
    and evict_Some: "inv p \<Longrightarrow> pol_evict P p n prot = Inr (p', Some ev) \<Longrightarrow>
       inv p' \<and> length ev = n \<and> distinct (map fst ev) \<and>
       (\<forall>(k, b) \<in> set ev. pol_get P p k = Some b \<and> ref_cnt b = 0 \<and> k \<notin> set prot) \<and>
       pol_get P p' = pol_get P p |` (- fst ` set ev)"
    and inv_clear: "inv p \<Longrightarrow> inv (pol_clear P p)"
    and get_clear: "pol_get P (pol_clear P p) = Map.empty"
    and stored_keys: "inv p \<Longrightarrow>
       distinct (pol_stored_keys P p) \<and> set (pol_stored_keys P p) = dom (pol_get P p)"
    and evictable: "inv p \<Longrightarrow> pol_get P p k = Some b \<Longrightarrow> ref_cnt b \<noteq> 0 \<Longrightarrow> ref_cnt b' = 0 \<Longrightarrow>
       inv (pol_mark_evictable P (pol_set_block P p k b') k) \<and>
       pol_get P (pol_mark_evictable P (pol_set_block P p k b') k) = (pol_get P p)(k \<mapsto> b')"
    and non_evictable: "inv p \<Longrightarrow> pol_get P p k = Some b \<Longrightarrow> ref_cnt b = 0 \<Longrightarrow> ref_cnt b' \<noteq> 0 \<Longrightarrow>
       \<exists>p'. pol_mark_non_evictable P p k = Inr p' \<and> inv (pol_set_block P p' k b') \<and>
         pol_get P (pol_set_block P p' k b') = (pol_get P p)(k \<mapsto> b')"
    and set_block: "inv p \<Longrightarrow> pol_get P p k = Some b \<Longrightarrow> ref_cnt b \<noteq> 0 \<Longrightarrow> ref_cnt b' \<noteq> 0 \<Longrightarrow>
       inv (pol_set_block P p k b') \<and>
       pol_get P (pol_set_block P p k b') = (pol_get P p)(k \<mapsto> b')"
begin

lemma finite_dom_get: "inv p \<Longrightarrow> finite (dom (pol_get P p))"
  by (metis List.finite_set stored_keys)

lemma length_stored_keys: "inv p \<Longrightarrow> length (pol_stored_keys P p) = card (dom (pol_get P p))"
  by (metis distinct_card stored_keys)

lemma evictE:
  assumes "inv p"
  obtains "pol_evict P p n prot = Inr (p, None)"
  | p' ev where "pol_evict P p n prot = Inr (p', Some ev)" "inv p'" "length ev = n"
      "distinct (map fst ev)"
      "\<And>k b. (k, b) \<in> set ev \<Longrightarrow> pol_get P p k = Some b \<and> ref_cnt b = 0 \<and> k \<notin> set prot"
      "pol_get P p' = pol_get P p |` (- fst ` set ev)"
proof -
  obtain p' r where pr: "pol_evict P p n prot = Inr (p', r)"
    using evict_total [OF assms, of n prot] by blast
  show thesis
  proof (cases r)
    case None
    with pr evict_None [OF assms] that(1) show thesis by blast
  next
    case (Some ev)
    with pr evict_Some [OF assms] that(2) [of p' ev] show thesis by fastforce
  qed
qed

end

end
