(* ===== verification/LRU_Policy.thy ===== *)
theory LRU_Policy
  imports Cache_Policy
begin

text \<open>
  Model of \<open>v1/kv_offload/cpu/policies/lru.py\<close>. \<open>lru_evictable\<close> holds the keys with reference
  count 0 in least-recently-used order, \<open>lru_blocks\<close> every stored key in insertion order.
\<close>

record lru =
  lru_capacity :: int
  lru_evictable :: "(offload_key, unit) odict"
  lru_blocks :: "(offload_key, block_status) odict"

definition lru_init :: "int \<Rightarrow> lru" where
  "lru_init cap = \<lparr>lru_capacity = cap, lru_evictable = [], lru_blocks = []\<rparr>"

definition lru_get :: "lru \<Rightarrow> offload_key \<Rightarrow> block_status option" where
  "lru_get p key = map_of (lru_blocks p) key"

definition lru_set_block :: "lru \<Rightarrow> offload_key \<Rightarrow> block_status \<Rightarrow> lru" where
  "lru_set_block p key b = p\<lparr>lru_blocks := AList.update key b (lru_blocks p)\<rparr>"

definition lru_insert :: "lru \<Rightarrow> offload_key \<Rightarrow> block_status \<Rightarrow> lru" where
  "lru_insert p key b =
     (let p = p\<lparr>lru_blocks := AList.update key b (lru_blocks p)\<rparr>
      in if ref_cnt b = 0
         then p\<lparr>lru_evictable := AList.update key () (lru_evictable p)\<rparr> else p)"

definition lru_remove :: "lru \<Rightarrow> offload_key \<Rightarrow> lru res" where
  "lru_remove p key =
     bindE (od_del_item key (lru_blocks p)) (\<lambda>bs.
       Inr (p\<lparr>lru_blocks := bs, lru_evictable := AList.delete key (lru_evictable p)\<rparr>))"

fun lru_touch_loop :: "offload_key list \<Rightarrow> (offload_key, unit) odict \<Rightarrow> (offload_key, unit) odict" where
  "lru_touch_loop [] ev = ev"
| "lru_touch_loop (key # keys) ev =
     lru_touch_loop keys (if od_mem key ev then od_move_to_end key ev else ev)"

definition lru_touch :: "lru \<Rightarrow> offload_key list \<Rightarrow> lru" where
  "lru_touch p keys = p\<lparr>lru_evictable := lru_touch_loop (rev keys) (lru_evictable p)\<rparr>"

definition lru_clear :: "lru \<Rightarrow> lru" where
  "lru_clear p = p\<lparr>lru_evictable := [], lru_blocks := []\<rparr>"

definition lru_stored_keys :: "lru \<Rightarrow> offload_key list" where
  "lru_stored_keys p = od_keys (lru_blocks p)"

text \<open>
  The scan of \<open>evict\<close>: it walks \<open>evictable_blocks\<close> from the LRU end, skips protected keys and
  stops as soon as \<open>n\<close> candidates are found.
\<close>

fun lru_scan :: "(offload_key, block_status) odict \<Rightarrow> offload_key list \<Rightarrow> nat \<Rightarrow>
    (offload_key \<times> block_status) list \<Rightarrow> offload_key list \<Rightarrow>
    (offload_key \<times> block_status) list res" where
  "lru_scan bs protected n candidates [] = Inr candidates"
| "lru_scan bs protected n candidates (key # keys) =
     (if key \<in> set protected then lru_scan bs protected n candidates keys
      else bindE (od_get_item key bs) (\<lambda>block.
        assertE (ref_cnt block = 0)
          (let candidates = candidates @ [(key, block)]
           in if length candidates = n then Inr candidates
              else lru_scan bs protected n candidates keys)))"

definition lru_del_candidate :: "offload_key \<times> block_status \<Rightarrow> lru \<Rightarrow> lru res" where
  "lru_del_candidate c p =
     bindE (od_del_item (fst c) (lru_evictable p)) (\<lambda>ev.
       bindE (od_del_item (fst c) (lru_blocks p)) (\<lambda>bs.
         Inr (p\<lparr>lru_evictable := ev, lru_blocks := bs\<rparr>)))"

definition lru_evict :: "lru \<Rightarrow> nat \<Rightarrow> offload_key list \<Rightarrow>
    (lru \<times> (offload_key \<times> block_status) list option) res" where
  "lru_evict p n protected =
     (if n = 0 then Inr (p, Some [])
      else bindE (lru_scan (lru_blocks p) protected n [] (od_keys (lru_evictable p)))
        (\<lambda>candidates.
          if length candidates < n then Inr (p, None)
          else bindE (foldE lru_del_candidate candidates p) (\<lambda>p'. Inr (p', Some candidates))))"

definition lru_mark_evictable :: "lru \<Rightarrow> offload_key \<Rightarrow> lru" where
  "lru_mark_evictable p key = p\<lparr>lru_evictable := AList.update key () (lru_evictable p)\<rparr>"

definition lru_mark_non_evictable :: "lru \<Rightarrow> offload_key \<Rightarrow> lru res" where
  "lru_mark_non_evictable p key =
     bindE (od_del_item key (lru_evictable p)) (\<lambda>ev. Inr (p\<lparr>lru_evictable := ev\<rparr>))"

definition lru_ops :: "lru policy_ops" where
  "lru_ops = \<lparr>pol_init = lru_init, pol_get = lru_get, pol_set_block = lru_set_block,
     pol_insert = lru_insert, pol_remove = lru_remove, pol_touch = lru_touch,
     pol_evict = lru_evict, pol_clear = lru_clear, pol_stored_keys = lru_stored_keys,
     pol_mark_evictable = lru_mark_evictable,
     pol_mark_non_evictable = lru_mark_non_evictable\<rparr>"

section \<open>Invariant\<close>

text \<open>The evictable list is exactly the stored keys with reference count 0.\<close>

definition lru_inv :: "lru \<Rightarrow> bool" where
  "lru_inv p \<longleftrightarrow> od_ok (lru_blocks p) \<and> od_ok (lru_evictable p) \<and>
     (\<forall>k. k \<in> fst ` set (lru_evictable p) \<longleftrightarrow> (\<exists>b. lru_get p k = Some b \<and> ref_cnt b = 0))"

lemma lru_ops_simps [simp]:
  "pol_init lru_ops = lru_init" "pol_get lru_ops = lru_get"
  "pol_set_block lru_ops = lru_set_block" "pol_insert lru_ops = lru_insert"
  "pol_remove lru_ops = lru_remove" "pol_touch lru_ops = lru_touch"
  "pol_evict lru_ops = lru_evict" "pol_clear lru_ops = lru_clear"
  "pol_stored_keys lru_ops = lru_stored_keys" "pol_mark_evictable lru_ops = lru_mark_evictable"
  "pol_mark_non_evictable lru_ops = lru_mark_non_evictable"
  by (simp_all add: lru_ops_def)

lemma lru_get_eq: "lru_get p = map_of (lru_blocks p)"
  by (simp add: lru_get_def fun_eq_iff)

lemmas lru_defs = lru_init_def lru_get_eq lru_set_block_def lru_insert_def lru_remove_def
  lru_clear_def lru_stored_keys_def lru_mark_evictable_def lru_mark_non_evictable_def

lemma lru_touch_loop_keys [simp]: "fst ` set (lru_touch_loop ks ev) = fst ` set ev"
  by (induction ks ev rule: lru_touch_loop.induct) auto

lemma lru_touch_loop_ok: "od_ok ev \<Longrightarrow> od_ok (lru_touch_loop ks ev)"
  by (induction ks ev rule: lru_touch_loop.induct) auto

section \<open>Eviction\<close>

text \<open>
  Under the invariant the scan never raises, and it selects the first \<open>n\<close> unprotected keys of
  the evictable list, or all of them when there are fewer.
\<close>

definition lru_pick :: "lru \<Rightarrow> nat \<Rightarrow> offload_key list \<Rightarrow> (offload_key \<times> block_status) list" where
  "lru_pick p n protected =
     map (\<lambda>k. (k, the (lru_get p k)))
       (take n (filter (\<lambda>k. k \<notin> set protected) (od_keys (lru_evictable p))))"

lemma lru_scan_pick:
  assumes "\<forall>k \<in> set keys. \<exists>b. map_of bs k = Some b \<and> ref_cnt b = 0" and "length cs < n"
  shows "lru_scan bs prot n cs keys =
    Inr (cs @ map (\<lambda>k. (k, the (map_of bs k)))
      (take (n - length cs) (filter (\<lambda>k. k \<notin> set prot) keys)))"
  using assms
proof (induction bs prot n cs keys rule: lru_scan.induct)
  case (2 bs prot n cs key keys)
  show ?case
  proof (cases "key \<in> set prot")
    case False
    from "2.prems"(1) obtain b where b: "map_of bs key = Some b" "ref_cnt b = 0" by auto
    show ?thesis
    proof (cases "Suc (length cs) = n")
      case False
      with "2.prems" b \<open>key \<notin> set prot\<close> "2.IH"(2) [OF \<open>key \<notin> set prot\<close>]
      show ?thesis by (auto simp: od_get_item_def Suc_lessI take_Cons')
    qed (use b \<open>key \<notin> set prot\<close> in \<open>auto simp: od_get_item_def\<close>)
  qed (use 2 in auto)
qed simp

lemma lru_del_loop:
  assumes "distinct (map fst cs)" and "fst ` set cs \<subseteq> fst ` set (lru_evictable p)"
    and "fst ` set cs \<subseteq> fst ` set (lru_blocks p)"
  shows "foldE lru_del_candidate cs p =
    Inr (p\<lparr>lru_evictable := od_minus (lru_evictable p) (fst ` set cs),
           lru_blocks := od_minus (lru_blocks p) (fst ` set cs)\<rparr>)"
  using assms
proof (induction cs arbitrary: p)
  case Nil
  then show ?case by simp
next
  case (Cons c cs)
  let ?p = "p\<lparr>lru_evictable := AList.delete (fst c) (lru_evictable p),
             lru_blocks := AList.delete (fst c) (lru_blocks p)\<rparr>"
  have step: "lru_del_candidate c p = Inr ?p"
    using Cons.prems by (auto simp: lru_del_candidate_def)
  have "foldE lru_del_candidate cs ?p = Inr (?p
     \<lparr>lru_evictable := od_minus (lru_evictable ?p) (fst ` set cs),
      lru_blocks := od_minus (lru_blocks ?p) (fst ` set cs)\<rparr>)"
  proof (rule Cons.IH)
    show "distinct (map fst cs)" using Cons.prems(1) by simp
    have "fst c \<notin> fst ` set cs" using Cons.prems(1) by simp
    then show "fst ` set cs \<subseteq> fst ` set (lru_evictable ?p)"
      and "fst ` set cs \<subseteq> fst ` set (lru_blocks ?p)"
      using Cons.prems(2,3) by (simp_all add: subset_Diff_insert)
  qed
  with step show ?case by simp
qed

lemma lru_pick_sound:
  assumes "lru_inv p"
  shows "distinct (map fst (lru_pick p n prot))"
    and "fst ` set (lru_pick p n prot) \<subseteq> fst ` set (lru_evictable p)"
    and "(k, b) \<in> set (lru_pick p n prot) \<Longrightarrow>
      lru_get p k = Some b \<and> ref_cnt b = 0 \<and> k \<notin> set prot"
proof -
  have "map fst (lru_pick p n prot) =
      take n (filter (\<lambda>k. k \<notin> set prot) (od_keys (lru_evictable p)))"
    by (simp add: lru_pick_def comp_def)
  then show "distinct (map fst (lru_pick p n prot))"
    using assms by (simp add: lru_inv_def)
  show sub: "fst ` set (lru_pick p n prot) \<subseteq> fst ` set (lru_evictable p)"
    by (auto simp: lru_pick_def dest!: in_set_takeD)
  assume kb: "(k, b) \<in> set (lru_pick p n prot)"
  then have "k \<in> fst ` set (lru_evictable p)" using sub by force
  then obtain b' where "lru_get p k = Some b'" "ref_cnt b' = 0"
    using assms by (auto simp: lru_inv_def)
  with kb show "lru_get p k = Some b \<and> ref_cnt b = 0 \<and> k \<notin> set prot"
    by (auto simp: lru_pick_def dest!: in_set_takeD)
qed

lemma lru_inv_stored:
  "lru_inv p \<Longrightarrow> k \<in> fst ` set (lru_evictable p) \<Longrightarrow> \<exists>b. lru_get p k = Some b \<and> ref_cnt b = 0"
  by (auto simp: lru_inv_def)

lemma lru_evict_eq:
  assumes "lru_inv p"
  shows "lru_evict p n prot =
    (let cs = lru_pick p n prot in
     if length cs < n then Inr (p, None)
     else Inr (p\<lparr>lru_evictable := od_minus (lru_evictable p) (fst ` set cs),
                lru_blocks := od_minus (lru_blocks p) (fst ` set cs)\<rparr>, Some cs))"
proof (cases "n = 0")
  case True
  then show ?thesis by (simp add: lru_evict_def lru_pick_def)
next
  case False
  have "\<forall>k \<in> set (od_keys (lru_evictable p)). \<exists>b. map_of (lru_blocks p) k = Some b \<and> ref_cnt b = 0"
    using lru_inv_stored [OF assms] by (auto simp: lru_get_def)
  then have scan: "lru_scan (lru_blocks p) prot n [] (od_keys (lru_evictable p)) =
      Inr (lru_pick p n prot)"
    using False by (simp add: lru_scan_pick lru_pick_def lru_get_def)
  have sub: "fst ` set (lru_pick p n prot) \<subseteq> fst ` set (lru_evictable p)"
    by (rule lru_pick_sound(2) [OF assms])
  have "fst ` set (lru_evictable p) \<subseteq> fst ` set (lru_blocks p)"
    using lru_inv_stored [OF assms] by (force simp: lru_get_def in_keys_iff [of _ "lru_blocks p"])
  with sub have "fst ` set (lru_pick p n prot) \<subseteq> fst ` set (lru_blocks p)" by blast
  then show ?thesis
    using False scan lru_del_loop [OF lru_pick_sound(1) [OF assms] sub]
    by (simp add: lru_evict_def Let_def)
qed

lemma lru_evict_Some_inv:
  assumes "lru_inv p" and "lru_evict p n prot = Inr (p', Some ev)"
  shows "lru_inv p' \<and> ev = lru_pick p n prot \<and> length ev = n \<and>
    lru_get p' = lru_get p |` (- fst ` set ev)"
proof -
  have len: "length (lru_pick p n prot) \<le> n" by (simp add: lru_pick_def)
  from assms have ev: "ev = lru_pick p n prot" "\<not> length ev < n"
    and p': "p' = p\<lparr>lru_evictable := od_minus (lru_evictable p) (fst ` set ev),
                lru_blocks := od_minus (lru_blocks p) (fst ` set ev)\<rparr>"
    by (auto simp: lru_evict_eq Let_def split: if_splits)
  have get: "lru_get p' = lru_get p |` (- fst ` set ev)"
    by (simp add: p' lru_get_def map_of_od_minus restrict_map_def fun_eq_iff)
  have "fst ` set (lru_evictable p') = fst ` set (lru_evictable p) - fst ` set ev"
    by (auto simp: p')
  then have "lru_inv p'"
    using assms(1) get by (auto simp: lru_inv_def p' restrict_map_def)
  with get ev len show ?thesis by simp
qed

lemma lru_evict_contract:
  assumes "lru_inv p" and "lru_evict p n prot = Inr (p', Some ev)"
  shows "lru_inv p' \<and> length ev = n \<and> distinct (map fst ev) \<and>
    (\<forall>(k, b) \<in> set ev. lru_get p k = Some b \<and> ref_cnt b = 0 \<and> k \<notin> set prot) \<and>
    lru_get p' = lru_get p |` (- fst ` set ev)"
  using lru_evict_Some_inv [OF assms] lru_pick_sound [OF assms(1), where n = n and prot = prot] by auto

section \<open>The policy meets its contract\<close>

interpretation lru_policy: cache_policy lru_ops lru_inv
proof (unfold_locales, goal_cases)
  case 8
  then show ?case by (simp add: lru_evict_eq Let_def)
next
  case 9
  then show ?case by (simp add: lru_evict_eq Let_def split: if_splits)
next
  case 10
  then show ?case using lru_evict_contract by simp
qed (auto simp: lru_inv_def lru_defs lru_touch_def lru_touch_loop_ok dom_map_of_od
       map_of_od_delete map_of_od_update Let_def in_keys_iff [of _ "lru_blocks _"]
       simp del: map_of_eq_Some_iff split: if_splits)

end
