(* ===== verification/ARC_Policy.thy ===== *)
theory ARC_Policy
  imports Cache_Policy Complex_Main
begin

text \<open>
  Model of \<open>v1/kv_offload/cpu/policies/arc.py\<close>: live blocks in \<open>T1\<close> (seen once) and \<open>T2\<close> (seen
  again), ghost keys in \<open>B1\<close> and \<open>B2\<close>, and the adaptive size target of \<open>T1\<close>. The target is a
  Python float; the model computes it as an exact rational and truncates it where the code does.
\<close>

record arc =
  arc_capacity :: int
  arc_target :: rat
  arc_t1 :: "(offload_key, block_status) odict"
  arc_t2 :: "(offload_key, block_status) odict"
  arc_b1 :: "(offload_key, unit) odict"
  arc_b2 :: "(offload_key, unit) odict"

definition arc_init :: "int \<Rightarrow> arc" where
  "arc_init cap = \<lparr>arc_capacity = cap, arc_target = 0, arc_t1 = [], arc_t2 = [],
     arc_b1 = [], arc_b2 = []\<rparr>"

text \<open>\<open>self.t1.get(key) or self.t2.get(key)\<close>: a block object is always truthy.\<close>

definition arc_get :: "arc \<Rightarrow> offload_key \<Rightarrow> block_status option" where
  "arc_get p key =
     (case map_of (arc_t1 p) key of Some b \<Rightarrow> Some b | None \<Rightarrow> map_of (arc_t2 p) key)"

definition arc_set_block :: "arc \<Rightarrow> offload_key \<Rightarrow> block_status \<Rightarrow> arc" where
  "arc_set_block p key b =
     (if od_mem key (arc_t1 p) then p\<lparr>arc_t1 := AList.update key b (arc_t1 p)\<rparr>
      else p\<lparr>arc_t2 := AList.update key b (arc_t2 p)\<rparr>)"

definition arc_insert :: "arc \<Rightarrow> offload_key \<Rightarrow> block_status \<Rightarrow> arc" where
  "arc_insert p key b =
     p\<lparr>arc_t1 := AList.update key b (arc_t1 p),
       arc_b1 := AList.delete key (arc_b1 p), arc_b2 := AList.delete key (arc_b2 p)\<rparr>"

definition arc_remove :: "arc \<Rightarrow> offload_key \<Rightarrow> arc res" where
  "arc_remove p key =
     Inr (if od_mem key (arc_t1 p) then p\<lparr>arc_t1 := AList.delete key (arc_t1 p)\<rparr>
          else p\<lparr>arc_t2 := AList.delete key (arc_t2 p)\<rparr>)"

text \<open>One iteration of the loop of \<open>touch\<close>; the ghost hits are the adaptive learning.\<close>

definition arc_touch_key :: "offload_key \<Rightarrow> arc \<Rightarrow> arc" where
  "arc_touch_key key p =
     (case map_of (arc_t1 p) key of
        Some block \<Rightarrow>
          (let t1 = AList.delete key (arc_t1 p) in
           if \<not> is_ready block then p\<lparr>arc_t1 := AList.update key block t1\<rparr>
           else p\<lparr>arc_t1 := t1, arc_t2 := AList.update key block (arc_t2 p)\<rparr>)
      | None \<Rightarrow>
          if od_mem key (arc_t2 p) then p\<lparr>arc_t2 := od_move_to_end key (arc_t2 p)\<rparr>
          else if od_mem key (arc_b1 p) then
            (let delta = max 1 (rat_of_nat (length (arc_b2 p)) / rat_of_nat (length (arc_b1 p)))
             in p\<lparr>arc_target := min (arc_target p + delta) (rat_of_int (arc_capacity p)),
                  arc_b1 := od_move_to_end key (arc_b1 p)\<rparr>)
          else if od_mem key (arc_b2 p) then
            (let delta = max 1 (rat_of_nat (length (arc_b1 p)) / rat_of_nat (length (arc_b2 p)))
             in p\<lparr>arc_target := max (arc_target p - delta) 0,
                  arc_b2 := od_move_to_end key (arc_b2 p)\<rparr>)
          else p)"

fun arc_touch_loop :: "offload_key list \<Rightarrow> arc \<Rightarrow> arc" where
  "arc_touch_loop [] p = p"
| "arc_touch_loop (key # keys) p = arc_touch_loop keys (arc_touch_key key p)"

definition arc_touch :: "arc \<Rightarrow> offload_key list \<Rightarrow> arc" where
  "arc_touch p keys = arc_touch_loop (rev keys) p"

definition arc_clear :: "arc \<Rightarrow> arc" where
  "arc_clear p = p\<lparr>arc_t1 := [], arc_t2 := [], arc_b1 := [], arc_b2 := [], arc_target := 0\<rparr>"

definition arc_stored_keys :: "arc \<Rightarrow> offload_key list" where
  "arc_stored_keys p = od_keys (arc_t1 p) @ od_keys (arc_t2 p)"

text \<open>
  The inner function of \<open>evict\<close>: the first idle, unprotected entry of an iterator, and the
  iterator after it. The two iterators are never restarted within a call.
\<close>

fun next_candidate :: "offload_key list \<Rightarrow> (offload_key \<times> block_status) list \<Rightarrow>
    (offload_key \<times> block_status) option \<times> (offload_key \<times> block_status) list" where
  "next_candidate protected [] = (None, [])"
| "next_candidate protected ((key, block) # entries) =
     (if ref_cnt block = 0 \<and> key \<notin> set protected then (Some (key, block), entries)
      else next_candidate protected entries)"

text \<open>
  The selection loop, \<open>for _ in range(n)\<close>. \<open>v\<close> is \<open>virtual_t1_size\<close>, \<open>target\<close> is
  \<open>int(target_t1_size)\<close>; a candidate carries the flag \<open>from_t1\<close>. The result is \<open>None\<close> where the
  code returns \<open>None\<close>.
\<close>

fun arc_select :: "offload_key list \<Rightarrow> int \<Rightarrow> nat \<Rightarrow> int \<Rightarrow>
    (offload_key \<times> block_status) list \<Rightarrow> (offload_key \<times> block_status) list \<Rightarrow>
    ((offload_key \<times> block_status) \<times> bool) list \<Rightarrow>
    ((offload_key \<times> block_status) \<times> bool) list option" where
  "arc_select protected target 0 v t1_iter t2_iter candidates = Some candidates"
| "arc_select protected target (Suc n) v t1_iter t2_iter candidates =
     (let (e1, t1_iter) =
        (if v \<ge> target then next_candidate protected t1_iter else (None, t1_iter))
      in case e1 of
           Some entry \<Rightarrow>
             arc_select protected target n (v - 1) t1_iter t2_iter (candidates @ [(entry, True)])
         | None \<Rightarrow>
             (case next_candidate protected t2_iter of
                (None, _) \<Rightarrow> None
              | (Some entry, t2_iter) \<Rightarrow>
                  arc_select protected target n v t1_iter t2_iter (candidates @ [(entry, False)])))"

definition arc_apply :: "(offload_key \<times> block_status) \<times> bool \<Rightarrow> arc \<Rightarrow> arc res" where
  "arc_apply c p =
     (let key = fst (fst c) in
      if snd c
      then bindE (od_del_item key (arc_t1 p)) (\<lambda>t1.
        Inr (p\<lparr>arc_t1 := t1, arc_b1 := AList.update key () (arc_b1 p)\<rparr>))
      else bindE (od_del_item key (arc_t2 p)) (\<lambda>t2.
        Inr (p\<lparr>arc_t2 := t2, arc_b2 := AList.update key () (arc_b2 p)\<rparr>)))"

text \<open>\<open>for _ in range(len(ghost) - self.cache_capacity): ghost.popitem(last=False)\<close>.\<close>

definition trim_ghost :: "int \<Rightarrow> (offload_key, unit) odict \<Rightarrow> (offload_key, unit) odict res" where
  "trim_ghost cap ghost =
     (let k = nat (int (length ghost) - cap)
      in if k \<le> length ghost then Inr (drop k ghost) else Inl KeyError)"

definition arc_evict :: "arc \<Rightarrow> nat \<Rightarrow> offload_key list \<Rightarrow>
    (arc \<times> (offload_key \<times> block_status) list option) res" where
  "arc_evict p n protected =
     (if n = 0 then Inr (p, Some [])
      else case arc_select protected \<lfloor>arc_target p\<rfloor> n (int (length (arc_t1 p)))
                 (arc_t1 p) (arc_t2 p) [] of
        None \<Rightarrow> Inr (p, None)
      | Some candidates \<Rightarrow>
          bindE (foldE arc_apply candidates p) (\<lambda>p'.
          bindE (trim_ghost (arc_capacity p') (arc_b1 p')) (\<lambda>b1.
          bindE (trim_ghost (arc_capacity p') (arc_b2 p')) (\<lambda>b2.
            Inr (p'\<lparr>arc_b1 := b1, arc_b2 := b2\<rparr>, Some (map fst candidates))))))"

text \<open>The two \<open>mark_\<close> hooks are inherited from the base class, where they do nothing.\<close>

definition mark_evictable_default :: "arc \<Rightarrow> offload_key \<Rightarrow> arc" where
  "mark_evictable_default p key = p"

definition mark_non_evictable_default :: "arc \<Rightarrow> offload_key \<Rightarrow> arc res" where
  "mark_non_evictable_default p key = Inr p"

definition arc_ops :: "arc policy_ops" where
  "arc_ops = \<lparr>pol_init = arc_init, pol_get = arc_get, pol_set_block = arc_set_block,
     pol_insert = arc_insert, pol_remove = arc_remove, pol_touch = arc_touch,
     pol_evict = arc_evict, pol_clear = arc_clear, pol_stored_keys = arc_stored_keys,
     pol_mark_evictable = mark_evictable_default,
     pol_mark_non_evictable = mark_non_evictable_default\<rparr>"

lemma arc_ops_simps [simp]:
  "pol_init arc_ops = arc_init" "pol_get arc_ops = arc_get"
  "pol_set_block arc_ops = arc_set_block" "pol_insert arc_ops = arc_insert"
  "pol_remove arc_ops = arc_remove" "pol_touch arc_ops = arc_touch"
  "pol_evict arc_ops = arc_evict" "pol_clear arc_ops = arc_clear"
  "pol_stored_keys arc_ops = arc_stored_keys"
  "pol_mark_evictable arc_ops = mark_evictable_default"
  "pol_mark_non_evictable arc_ops = mark_non_evictable_default"
  by (simp_all add: arc_ops_def)

section \<open>Invariant\<close>

text \<open>
  The four lists hold distinct keys and are pairwise disjoint, so a key is live in at most one
  of \<open>T1\<close> and \<open>T2\<close> and never a ghost at the same time; the target stays within the capacity,
  and so does each ghost list.
\<close>

definition arc_disjoint :: "arc \<Rightarrow> bool" where
  "arc_disjoint p \<longleftrightarrow>
     od_ok (arc_t1 p) \<and> od_ok (arc_t2 p) \<and> od_ok (arc_b1 p) \<and> od_ok (arc_b2 p) \<and>
     fst ` set (arc_t1 p) \<inter> fst ` set (arc_t2 p) = {} \<and>
     (fst ` set (arc_t1 p) \<union> fst ` set (arc_t2 p)) \<inter>
       (fst ` set (arc_b1 p) \<union> fst ` set (arc_b2 p)) = {} \<and>
     fst ` set (arc_b1 p) \<inter> fst ` set (arc_b2 p) = {}"

lemma arc_disjointD:
  assumes "arc_disjoint p"
  shows "fst ` set (arc_t1 p) \<inter> fst ` set (arc_t2 p) = {}"
    and "fst ` set (arc_t1 p) \<inter> fst ` set (arc_b1 p) = {}"
    and "fst ` set (arc_t1 p) \<inter> fst ` set (arc_b2 p) = {}"
    and "fst ` set (arc_t2 p) \<inter> fst ` set (arc_b1 p) = {}"
    and "fst ` set (arc_t2 p) \<inter> fst ` set (arc_b2 p) = {}"
    and "fst ` set (arc_b1 p) \<inter> fst ` set (arc_b2 p) = {}"
  using assms unfolding arc_disjoint_def by blast+

definition arc_bounds :: "arc \<Rightarrow> bool" where
  "arc_bounds p \<longleftrightarrow>
     0 \<le> arc_capacity p \<and> 0 \<le> arc_target p \<and> arc_target p \<le> rat_of_int (arc_capacity p) \<and>
     int (length (arc_b1 p)) \<le> arc_capacity p \<and> int (length (arc_b2 p)) \<le> arc_capacity p"

definition arc_inv :: "arc \<Rightarrow> bool" where
  "arc_inv p \<longleftrightarrow> arc_disjoint p \<and> arc_bounds p"

lemma arc_get_eq: "arc_get p = map_of (arc_t2 p) ++ map_of (arc_t1 p)"
  by (simp add: arc_get_def map_add_def fun_eq_iff)

lemma arc_get_dom: "dom (arc_get p) = fst ` set (arc_t1 p) \<union> fst ` set (arc_t2 p)"
  by (auto simp: arc_get_eq dom_map_of_od)

lemma arc_get_None:
  "arc_get p k = None \<longleftrightarrow> k \<notin> fst ` set (arc_t1 p) \<and> k \<notin> fst ` set (arc_t2 p)"
  using arc_get_dom [of p] by (auto simp: domIff)

lemma length_move_to_end [simp]:
  assumes "od_ok d" shows "length (od_move_to_end k d) = length d"
proof -
  have "length (od_move_to_end k d) = card (fst ` set (od_move_to_end k d))"
    using distinct_card [OF od_ok_move_to_end [OF assms, of k]] by simp
  also have "\<dots> = length d" using distinct_card [OF assms] by simp
  finally show ?thesis .
qed

section \<open>Touching\<close>

lemma arc_touch_key_disjoint:
  assumes "arc_disjoint p" shows "arc_disjoint (arc_touch_key key p)"
proof (cases "map_of (arc_t1 p) key")
  case None
  with assms show ?thesis by (auto simp: arc_touch_key_def arc_disjoint_def Let_def)
next
  case (Some block)
  then have "key \<in> fst ` set (arc_t1 p)" by (metis in_keys_iff)
  with Some assms show ?thesis
    unfolding arc_touch_key_def arc_disjoint_def Let_def
    by (simp, blast)
qed

lemma arc_touch_key_bounds:
  assumes "arc_disjoint p" "arc_bounds p" shows "arc_bounds (arc_touch_key key p)"
  using assms
  by (auto simp: arc_touch_key_def arc_disjoint_def arc_bounds_def Let_def split: option.split)

lemma arc_touch_key_get:
  assumes "arc_disjoint p" shows "arc_get (arc_touch_key key p) = arc_get p"
proof (cases "map_of (arc_t1 p) key")
  case None
  have "od_ok (arc_t2 p)" using assms by (simp add: arc_disjoint_def)
  with None show ?thesis by (auto simp: arc_touch_key_def arc_get_eq Let_def map_of_move_to_end)
next
  case (Some block)
  then have "key \<in> fst ` set (arc_t1 p)" by (metis in_keys_iff)
  then have "map_of (arc_t2 p) key = None"
    using assms by (auto simp: arc_disjoint_def map_of_eq_None_iff)
  with Some show ?thesis
    by (auto simp: arc_touch_key_def arc_get_eq Let_def map_of_od_delete map_of_od_update
        map_add_def fun_eq_iff split: option.split)
qed

lemma arc_touch_loop_inv:
  "arc_inv p \<Longrightarrow> arc_inv (arc_touch_loop ks p) \<and> arc_get (arc_touch_loop ks p) = arc_get p"
  by (induction ks p rule: arc_touch_loop.induct)
     (simp_all add: arc_inv_def arc_touch_key_disjoint arc_touch_key_bounds arc_touch_key_get)

section \<open>Eviction\<close>

abbreviation idle :: "offload_key list \<Rightarrow> offload_key \<times> block_status \<Rightarrow> bool" where
  "idle protected e \<equiv> ref_cnt (snd e) = 0 \<and> fst e \<notin> set protected"

lemma next_candidate_None:
  "next_candidate prot es = (None, r) \<Longrightarrow> filter (idle prot) es = [] \<and> r = []"
  by (induction prot es rule: next_candidate.induct) (auto split: if_splits)

lemma next_candidate_Some:
  "next_candidate prot es = (Some x, r) \<Longrightarrow> filter (idle prot) es = x # filter (idle prot) r"
  by (induction prot es rule: next_candidate.induct) (auto split: if_splits)

text \<open>What the selection loop chooses: prefixes of the idle entries of each list.\<close>

abbreviation from_list :: "bool \<Rightarrow> ('a \<times> bool) list \<Rightarrow> 'a list" where
  "from_list t cs \<equiv> map fst (filter (\<lambda>c. snd c = t) cs)"

lemma arc_select_sound:
  assumes "arc_select prot target n v es1 es2 acc = Some cs"
  shows "\<exists>new i j. cs = acc @ new \<and> length new = n \<and>
    from_list True new = take i (filter (idle prot) es1) \<and>
    from_list False new = take j (filter (idle prot) es2)"
  using assms
proof (induction prot target n v es1 es2 acc rule: arc_select.induct)
  case (1 prot target v es1 es2 acc)
  then show ?case by (auto intro!: exI [of _ 0])
next
  case (2 prot target n v es1 es2 acc)
  obtain e1 r1 where e1: "(if v \<ge> target then next_candidate prot es1 else (None, es1)) = (e1, r1)"
    by (cases "if v \<ge> target then next_candidate prot es1 else (None, es1)")
  show ?case
  proof (cases e1)
    case (Some x)
    with e1 have f1: "filter (idle prot) es1 = x # filter (idle prot) r1"
      by (auto dest: next_candidate_Some split: if_splits)
    from "2.prems" e1 Some
    have "arc_select prot target n (v - 1) r1 es2 (acc @ [(x, True)]) = Some cs" by simp
    from "2.IH"(2) [OF refl e1 [symmetric] Some this] obtain new i j where
      "cs = (acc @ [(x, True)]) @ new" "length new = n"
      "from_list True new = take i (filter (idle prot) r1)"
      "from_list False new = take j (filter (idle prot) es2)" by blast
    then have "cs = acc @ ((x, True) # new) \<and> length ((x, True) # new) = Suc n \<and>
      from_list True ((x, True) # new) = take (Suc i) (filter (idle prot) es1) \<and>
      from_list False ((x, True) # new) = take j (filter (idle prot) es2)"
      by (simp add: f1)
    then show ?thesis by blast
  next
    case None
    have r1: "\<exists>i'. take i (filter (idle prot) r1) = take i' (filter (idle prot) es1)" for i
    proof (cases "v \<ge> target")
      case True
      with e1 None have "filter (idle prot) es1 = [] \<and> r1 = []"
        by (auto dest: next_candidate_None)
      then show ?thesis by simp
    next
      case False
      with e1 show ?thesis by auto
    qed
    from "2.prems" e1 None obtain y r2 where n2: "next_candidate prot es2 = (Some y, r2)"
      and sel: "arc_select prot target n v r1 r2 (acc @ [(y, False)]) = Some cs"
      by (auto split: prod.splits option.splits)
    from "2.IH"(1) [OF refl e1 [symmetric] None n2 [symmetric] refl sel] obtain new i j where
      new: "cs = (acc @ [(y, False)]) @ new" "length new = n"
      "from_list True new = take i (filter (idle prot) r1)"
      "from_list False new = take j (filter (idle prot) r2)" by blast
    from r1 obtain i' where "take i (filter (idle prot) r1) = take i' (filter (idle prot) es1)"
      by blast
    with new next_candidate_Some [OF n2]
    have "cs = acc @ ((y, False) # new) \<and> length ((y, False) # new) = Suc n \<and>
      from_list True ((y, False) # new) = take i' (filter (idle prot) es1) \<and>
      from_list False ((y, False) # new) = take (Suc j) (filter (idle prot) es2)"
      by simp
    then show ?thesis by blast
  qed
qed

text \<open>Applying the selection moves each chosen key to the ghost list of its origin.\<close>

abbreviation cand_keys :: "bool \<Rightarrow> ((offload_key \<times> block_status) \<times> bool) list \<Rightarrow> offload_key list" where
  "cand_keys t cs \<equiv> map fst (from_list t cs)"

lemma arc_apply_loop:
  assumes "distinct (cand_keys True cs)" and "distinct (cand_keys False cs)"
    and "set (cand_keys True cs) \<subseteq> fst ` set (arc_t1 p)"
    and "set (cand_keys False cs) \<subseteq> fst ` set (arc_t2 p)"
    and "set (cand_keys True cs) \<inter> fst ` set (arc_b1 p) = {}"
    and "set (cand_keys False cs) \<inter> fst ` set (arc_b2 p) = {}"
  shows "foldE arc_apply cs p = Inr (p
    \<lparr>arc_t1 := od_minus (arc_t1 p) (set (cand_keys True cs)),
     arc_t2 := od_minus (arc_t2 p) (set (cand_keys False cs)),
     arc_b1 := arc_b1 p @ map (\<lambda>k. (k, ())) (cand_keys True cs),
     arc_b2 := arc_b2 p @ map (\<lambda>k. (k, ())) (cand_keys False cs)\<rparr>)"
  using assms
proof (induction cs arbitrary: p)
  case (Cons c cs)
  obtain k b t where c: "c = ((k, b), t)" by (metis prod.exhaust)
  show ?case
  proof (cases t)
    case True
    with Cons.prems c have k: "k \<in> fst ` set (arc_t1 p)" "k \<notin> fst ` set (arc_b1 p)"
      "k \<notin> set (cand_keys True cs)" by auto
    let ?p = "p\<lparr>arc_t1 := AList.delete k (arc_t1 p), arc_b1 := arc_b1 p @ [(k, ())]\<rparr>"
    have "arc_apply c p = Inr ?p" using True c k by (simp add: arc_apply_def update_fresh)
    moreover have "foldE arc_apply cs ?p = Inr (?p
      \<lparr>arc_t1 := od_minus (arc_t1 ?p) (set (cand_keys True cs)),
       arc_t2 := od_minus (arc_t2 ?p) (set (cand_keys False cs)),
       arc_b1 := arc_b1 ?p @ map (\<lambda>k. (k, ())) (cand_keys True cs),
       arc_b2 := arc_b2 ?p @ map (\<lambda>k. (k, ())) (cand_keys False cs)\<rparr>)"
      using Cons.prems True c k by (intro Cons.IH) (auto simp: subset_Diff_insert)
    ultimately show ?thesis using True c by simp
  next
    case False
    with Cons.prems c have k: "k \<in> fst ` set (arc_t2 p)" "k \<notin> fst ` set (arc_b2 p)"
      "k \<notin> set (cand_keys False cs)" by auto
    let ?p = "p\<lparr>arc_t2 := AList.delete k (arc_t2 p), arc_b2 := arc_b2 p @ [(k, ())]\<rparr>"
    have "arc_apply c p = Inr ?p" using False c k by (simp add: arc_apply_def update_fresh)
    moreover have "foldE arc_apply cs ?p = Inr (?p
      \<lparr>arc_t1 := od_minus (arc_t1 ?p) (set (cand_keys True cs)),
       arc_t2 := od_minus (arc_t2 ?p) (set (cand_keys False cs)),
       arc_b1 := arc_b1 ?p @ map (\<lambda>k. (k, ())) (cand_keys True cs),
       arc_b2 := arc_b2 ?p @ map (\<lambda>k. (k, ())) (cand_keys False cs)\<rparr>)"
      using Cons.prems False c k by (intro Cons.IH) (auto simp: subset_Diff_insert)
    ultimately show ?thesis using False c by simp
  qed
qed simp


lemma trim_ghost_ok:
  assumes "0 \<le> cap"
  shows "trim_ghost cap g = Inr (drop (nat (int (length g) - cap)) g)"
  using assms by (auto simp: trim_ghost_def Let_def)

lemma distinct_flags:
  assumes "distinct (map f (from_list True cs))" and "distinct (map f (from_list False cs))"
    and "set (map f (from_list True cs)) \<inter> set (map f (from_list False cs)) = {}"
  shows "distinct (map f (map fst cs))"
  using assms
proof (induction cs)
  case (Cons c cs)
  obtain x t where c: "c = (x, t)" by (cases c)
  have "set (map f (map fst cs)) = set (map f (from_list True cs)) \<union> set (map f (from_list False cs))"
    by auto
  with Cons c show ?case by (cases t) auto
qed simp

lemma set_flags: "set (map fst cs) = set (from_list True cs) \<union> set (from_list False cs)"
  by (induction cs) auto

lemma od_ok_drop_append:
  assumes "od_ok g" "distinct ks" "set ks \<inter> fst ` set g = {}"
  shows "od_ok (drop m (g @ map (\<lambda>k. (k, ())) ks))"
    and "fst ` set (drop m (g @ map (\<lambda>k. (k, ())) ks)) \<subseteq> fst ` set g \<union> set ks"
proof -
  have "od_ok (g @ map (\<lambda>k. (k, ())) ks)" using assms by (auto simp: comp_def)
  then show "od_ok (drop m (g @ map (\<lambda>k. (k, ())) ks))"
    by (simp only: drop_map [symmetric] distinct_drop)
  have "set (drop m (g @ map (\<lambda>k. (k, ())) ks)) \<subseteq> set (g @ map (\<lambda>k. (k, ())) ks)"
    by (rule set_drop_subset)
  then show "fst ` set (drop m (g @ map (\<lambda>k. (k, ())) ks)) \<subseteq> fst ` set g \<union> set ks"
    by fastforce
qed

lemma arc_selection:
  assumes dj: "arc_disjoint p"
    and sel: "arc_select prot target n v (arc_t1 p) (arc_t2 p) [] = Some cs"
  shows "length cs = n"
    and "distinct (cand_keys True cs)" and "distinct (cand_keys False cs)"
    and "set (cand_keys True cs) \<subseteq> fst ` set (arc_t1 p)"
    and "set (cand_keys False cs) \<subseteq> fst ` set (arc_t2 p)"
    and "set (cand_keys True cs) \<inter> fst ` set (arc_b1 p) = {}"
    and "set (cand_keys False cs) \<inter> fst ` set (arc_b2 p) = {}"
    and "e \<in> set (map fst cs) \<Longrightarrow> (e \<in> set (arc_t1 p) \<or> e \<in> set (arc_t2 p)) \<and> idle prot e"
proof -
  from arc_select_sound [OF sel] obtain i j where len: "length cs = n"
    and T: "from_list True cs = take i (filter (idle prot) (arc_t1 p))"
    and F: "from_list False cs = take j (filter (idle prot) (arc_t2 p))" by auto
  have sub: "set (from_list True cs) \<subseteq> {e \<in> set (arc_t1 p). idle prot e}"
    "set (from_list False cs) \<subseteq> {e \<in> set (arc_t2 p). idle prot e}"
    unfolding T F by (auto dest!: in_set_takeD)
  show "length cs = n" by (rule len)
  show "distinct (cand_keys True cs)" "distinct (cand_keys False cs)"
    using dj unfolding T F take_map [symmetric]
    by (auto simp: arc_disjoint_def distinct_map_filter)
  show s: "set (cand_keys True cs) \<subseteq> fst ` set (arc_t1 p)"
    "set (cand_keys False cs) \<subseteq> fst ` set (arc_t2 p)"
    using sub unfolding set_map [of fst "from_list _ cs"] by blast+
  show "set (cand_keys True cs) \<inter> fst ` set (arc_b1 p) = {}"
    "set (cand_keys False cs) \<inter> fst ` set (arc_b2 p) = {}"
    by (rule subset_disjoint [OF s(1) subset_refl arc_disjointD(2) [OF dj]],
        rule subset_disjoint [OF s(2) subset_refl arc_disjointD(5) [OF dj]])
  show "(e \<in> set (arc_t1 p) \<or> e \<in> set (arc_t2 p)) \<and> idle prot e" if "e \<in> set (map fst cs)"
    using that sub set_flags [of cs] by blast
qed

lemma disjoint_move:
  assumes "T1 \<inter> T2 = {} \<and> (T1 \<union> T2) \<inter> (B1 \<union> B2) = {} \<and> B1 \<inter> B2 = {}"
    and "K1 \<subseteq> T1" and "K2 \<subseteq> T2" and "G1 \<subseteq> B1 \<union> K1" and "G2 \<subseteq> B2 \<union> K2"
  shows "(T1 - K1) \<inter> (T2 - K2) = {} \<and> ((T1 - K1) \<union> (T2 - K2)) \<inter> (G1 \<union> G2) = {} \<and> G1 \<inter> G2 = {}"
  using assms by blast

text \<open>
  \<open>arc_moved K1 K2 p\<close> is the state after moving \<open>K1\<close> from \<open>T1\<close> and \<open>K2\<close> from \<open>T2\<close> to the ghost
  lists and trimming those.
\<close>

definition ghosted :: "int \<Rightarrow> (offload_key, unit) odict \<Rightarrow> offload_key list \<Rightarrow> (offload_key, unit) odict" where
  "ghosted cap g ks =
     (let g' = g @ map (\<lambda>k. (k, ())) ks in drop (nat (int (length g') - cap)) g')"

definition arc_moved :: "offload_key list \<Rightarrow> offload_key list \<Rightarrow> arc \<Rightarrow> arc" where
  "arc_moved K1 K2 p = p
     \<lparr>arc_t1 := od_minus (arc_t1 p) (set K1), arc_t2 := od_minus (arc_t2 p) (set K2),
      arc_b1 := ghosted (arc_capacity p) (arc_b1 p) K1,
      arc_b2 := ghosted (arc_capacity p) (arc_b2 p) K2\<rparr>"

lemma ghosted_facts:
  assumes "od_ok g" "distinct ks" "set ks \<inter> fst ` set g = {}" "0 \<le> cap"
  shows "od_ok (ghosted cap g ks)" and "fst ` set (ghosted cap g ks) \<subseteq> fst ` set g \<union> set ks"
    and "int (length (ghosted cap g ks)) \<le> cap"
  using od_ok_drop_append [OF assms(1-3)] assms(4) by (auto simp: ghosted_def Let_def)

lemma arc_moved_inv:
  assumes inv: "arc_inv p" and d1: "distinct K1" and d2: "distinct K2"
    and s1: "set K1 \<subseteq> fst ` set (arc_t1 p)" and s2: "set K2 \<subseteq> fst ` set (arc_t2 p)"
    and fr: "set K1 \<inter> fst ` set (arc_b1 p) = {}" "set K2 \<inter> fst ` set (arc_b2 p) = {}"
  shows "arc_inv (arc_moved K1 K2 p)"
    and "arc_get (arc_moved K1 K2 p) = arc_get p |` (- (set K1 \<union> set K2))"
proof -
  have dj: "arc_disjoint p" and bd: "arc_bounds p" and cap: "0 \<le> arc_capacity p"
    using inv by (auto simp: arc_inv_def arc_bounds_def)
  have ok: "od_ok (arc_t1 p)" "od_ok (arc_t2 p)" "od_ok (arc_b1 p)" "od_ok (arc_b2 p)"
    using dj by (auto simp: arc_disjoint_def)
  note g1 = ghosted_facts [OF ok(3) d1 fr(1) cap] and g2 = ghosted_facts [OF ok(4) d2 fr(2) cap]
  have "fst ` set (arc_t1 p) \<inter> fst ` set (arc_t2 p) = {} \<and>
    (fst ` set (arc_t1 p) \<union> fst ` set (arc_t2 p)) \<inter>
      (fst ` set (arc_b1 p) \<union> fst ` set (arc_b2 p)) = {} \<and>
    fst ` set (arc_b1 p) \<inter> fst ` set (arc_b2 p) = {}"
    using dj by (simp add: arc_disjoint_def)
  from disjoint_move [OF this s1 s2 g1(2) g2(2)] ok g1(1) g2(1)
  have "arc_disjoint (arc_moved K1 K2 p)" by (simp add: arc_disjoint_def arc_moved_def)
  moreover have "arc_bounds (arc_moved K1 K2 p)"
    using bd g1(3) g2(3) by (simp add: arc_bounds_def arc_moved_def)
  ultimately show "arc_inv (arc_moved K1 K2 p)" by (simp add: arc_inv_def)
  have dis: "set K1 \<inter> fst ` set (arc_t2 p) = {}" "set K2 \<inter> fst ` set (arc_t1 p) = {}"
    by (rule subset_disjoint [OF s1 subset_refl arc_disjointD(1) [OF dj]],
        rule subset_disjoint [OF s2 subset_refl])
      (use arc_disjointD(1) [OF dj] in \<open>simp add: Int_commute\<close>)
  have "map_of (arc_t2 p) k = None" if "k \<in> set K1" for k
    using dis(1) that by (auto simp: map_of_eq_None_iff)
  moreover have "map_of (arc_t1 p) k = None" if "k \<in> set K2" for k
    using dis(2) that by (auto simp: map_of_eq_None_iff)
  ultimately show "arc_get (arc_moved K1 K2 p) = arc_get p |` (- (set K1 \<union> set K2))"
    by (auto simp: arc_moved_def arc_get_eq map_of_od_minus map_add_def restrict_map_def fun_eq_iff
      split: option.split)
qed

text \<open>The evicting call, stated once: what is selected and what the four lists become.\<close>

lemma arc_evict_eq:
  assumes "arc_inv p"
  shows "arc_evict p n prot =
    (if n = 0 then Inr (p, Some [])
     else case arc_select prot \<lfloor>arc_target p\<rfloor> n (int (length (arc_t1 p)))
                 (arc_t1 p) (arc_t2 p) [] of
        None \<Rightarrow> Inr (p, None)
      | Some cs \<Rightarrow> Inr (arc_moved (cand_keys True cs) (cand_keys False cs) p, Some (map fst cs)))"
proof -
  have dj: "arc_disjoint p" and cap: "0 \<le> arc_capacity p"
    using assms by (auto simp: arc_inv_def arc_bounds_def)
  show ?thesis
    by (auto simp: arc_evict_def arc_apply_loop [OF arc_selection(2-7) [OF dj]] trim_ghost_ok cap
      arc_moved_def ghosted_def Let_def split: option.split)
qed

lemma arc_evict_Some:
  assumes inv: "arc_inv p" and ev: "arc_evict p n prot = Inr (p', Some res)"
  shows "arc_inv p' \<and> length res = n \<and> distinct (map fst res) \<and>
    (\<forall>(k, b) \<in> set res. arc_get p k = Some b \<and> ref_cnt b = 0 \<and> k \<notin> set prot) \<and>
    arc_get p' = arc_get p |` (- fst ` set res)"
proof (cases "n = 0")
  case True
  with inv ev show ?thesis by (auto simp: arc_evict_def)
next
  case False
  have dj: "arc_disjoint p" using inv by (auto simp: arc_inv_def)
  from ev False obtain cs where sel: "arc_select prot \<lfloor>arc_target p\<rfloor> n (int (length (arc_t1 p)))
      (arc_t1 p) (arc_t2 p) [] = Some cs"
    and p': "p' = arc_moved (cand_keys True cs) (cand_keys False cs) p" and res: "res = map fst cs"
    by (auto simp: arc_evict_eq [OF inv] split: option.splits)
  note facts = arc_selection [OF dj sel]
  have dk: "distinct (map fst res)"
    unfolding res by (rule distinct_flags [OF facts(2,3)],
        rule subset_disjoint [OF facts(4,5) arc_disjointD(1) [OF dj]])
  have keys: "fst ` set res = set (cand_keys True cs) \<union> set (cand_keys False cs)"
    using set_flags [of cs] by (simp add: res image_Un image_image)
  have old: "arc_get p k = Some b \<and> ref_cnt b = 0 \<and> k \<notin> set prot" if "(k, b) \<in> set res" for k b
  proof -
    from facts(8) [of "(k, b)"] that res
    have "((k, b) \<in> set (arc_t1 p) \<or> (k, b) \<in> set (arc_t2 p)) \<and> idle prot (k, b)" by simp
    moreover have "map_of (arc_t1 p) k = None" if "(k, b) \<in> set (arc_t2 p)"
      using arc_disjointD(1) [OF dj] that by (force simp: map_of_eq_None_iff)
    ultimately show ?thesis using dj by (auto simp: arc_get_eq arc_disjoint_def map_add_Some_iff)
  qed
  have "arc_inv p'" "arc_get p' = arc_get p |` (- fst ` set res)"
    unfolding p' keys by (rule arc_moved_inv [OF inv facts(2-7)])+
  moreover have "length res = n" using facts(1) by (simp add: res)
  ultimately show ?thesis using dk old by auto
qed

text \<open>
  Which ghost list a victim goes to: a chosen key carries the flag of the list that held it, so
  the two lists of moved keys can be read off the list of victims.
\<close>

lemma filter_flags:
  assumes "\<forall>c \<in> set cs. snd c \<longleftrightarrow> fst (fst c) \<in> A"
  shows "cand_keys True cs = filter (\<lambda>k. k \<in> A) (map fst (map fst cs))"
    and "cand_keys False cs = filter (\<lambda>k. k \<notin> A) (map fst (map fst cs))"
  using assms by (induction cs) auto

lemma od_minus_outside:
  "K \<inter> fst ` set d = {} \<Longrightarrow> od_minus d (J \<union> K) = od_minus d J"
  unfolding od_minus_def by (rule filter_cong) auto

definition newest :: "int \<Rightarrow> 'a list \<Rightarrow> 'a list" where
  "newest cap xs = drop (length xs - nat cap) xs"

lemma ghosted_newest: "0 \<le> cap \<Longrightarrow> ghosted cap g ks = newest cap (g @ map (\<lambda>k. (k, ())) ks)"
  unfolding ghosted_def newest_def Let_def by (rule arg_cong [where f = "\<lambda>n. drop n _"]) arith

lemma newest_id: "int (length xs) \<le> cap \<Longrightarrow> newest cap xs = xs"
  by (simp add: newest_def)

lemma arc_evict_state:
  assumes inv: "arc_inv p" and ev: "arc_evict p n prot = Inr (p', Some res)"
  shows "p' = p\<lparr>arc_t1 := od_minus (arc_t1 p) (fst ` set res), arc_t2 := od_minus (arc_t2 p) (fst ` set res),
      arc_b1 := newest (arc_capacity p)
        (arc_b1 p @ map (\<lambda>k. (k, ())) (filter (\<lambda>k. k \<in> fst ` set (arc_t1 p)) (map fst res))),
      arc_b2 := newest (arc_capacity p)
        (arc_b2 p @ map (\<lambda>k. (k, ())) (filter (\<lambda>k. k \<notin> fst ` set (arc_t1 p)) (map fst res)))\<rparr>"
proof (cases "n = 0")
  case True
  with ev have "p' = p" "res = []" by (auto simp: arc_evict_def)
  with inv show ?thesis by (simp add: newest_id arc_inv_def arc_bounds_def)
next
  case False
  have dj: "arc_disjoint p" and cap: "0 \<le> arc_capacity p" using inv by (auto simp: arc_inv_def arc_bounds_def)
  from ev False obtain cs where sel: "arc_select prot \<lfloor>arc_target p\<rfloor> n (int (length (arc_t1 p)))
      (arc_t1 p) (arc_t2 p) [] = Some cs"
    and p': "p' = arc_moved (cand_keys True cs) (cand_keys False cs) p" and res: "res = map fst cs"
    by (auto simp: arc_evict_eq [OF inv] split: option.splits)
  note facts = arc_selection [OF dj sel]
  have sep: "set (cand_keys True cs) \<inter> fst ` set (arc_t2 p) = {}"
    "set (cand_keys False cs) \<inter> fst ` set (arc_t1 p) = {}"
    using facts(4,5) arc_disjointD(1) [OF dj] by blast+
  have "snd c \<longleftrightarrow> fst (fst c) \<in> fst ` set (arc_t1 p)" if "c \<in> set cs" for c
  proof (cases "snd c")
    case True
    with that have "fst (fst c) \<in> set (cand_keys True cs)" by auto
    with facts(4) True show ?thesis by blast
  next
    case False
    with that have "fst (fst c) \<in> set (cand_keys False cs)" by auto
    with sep(2) False show ?thesis by blast
  qed
  then have flags: "\<forall>c \<in> set cs. snd c \<longleftrightarrow> fst (fst c) \<in> fst ` set (arc_t1 p)" by blast
  have K: "cand_keys True cs = filter (\<lambda>k. k \<in> fst ` set (arc_t1 p)) (map fst res)"
    "cand_keys False cs = filter (\<lambda>k. k \<notin> fst ` set (arc_t1 p)) (map fst res)"
    unfolding res by (rule filter_flags [OF flags])+
  have keys: "fst ` set res = set (cand_keys True cs) \<union> set (cand_keys False cs)"
    using set_flags [of cs] by (simp add: res image_Un image_image)
  have "od_minus (arc_t1 p) (fst ` set res) = od_minus (arc_t1 p) (set (cand_keys True cs))"
    unfolding keys by (rule od_minus_outside [OF sep(2)])
  moreover have "od_minus (arc_t2 p) (fst ` set res) = od_minus (arc_t2 p) (set (cand_keys False cs))"
    unfolding keys Un_commute [of "set (cand_keys True cs)"] by (rule od_minus_outside [OF sep(1)])
  ultimately show ?thesis
    unfolding p' arc_moved_def ghosted_newest [OF cap] K by simp
qed

lemma arc_evict_total:
  assumes "arc_inv p"
  shows "\<exists>p' r. arc_evict p n prot = Inr (p', r)"
  by (auto simp: arc_evict_eq [OF assms] split: option.split)

section \<open>The policy meets its contract\<close>

lemma arc_set_block_facts:
  assumes "arc_inv p" and "arc_get p k = Some b"
  shows "arc_inv (arc_set_block p k b') \<and> arc_get (arc_set_block p k b') = (arc_get p)(k \<mapsto> b')"
proof (cases "k \<in> fst ` set (arc_t1 p)")
  case True
  with assms(1) show ?thesis
    by (auto simp: arc_set_block_def arc_inv_def arc_disjoint_def arc_bounds_def arc_get_eq
      map_of_od_update insert_absorb)
next
  case False
  then have "map_of (arc_t1 p) k = None" by (simp add: map_of_eq_None_iff)
  moreover have "k \<in> fst ` set (arc_t2 p)"
    using assms(2) False arc_get_None [of p k] by auto
  ultimately show ?thesis using assms(1) False
    by (auto simp: arc_set_block_def arc_inv_def arc_disjoint_def arc_bounds_def arc_get_eq
      map_of_od_update insert_absorb map_add_def fun_eq_iff split: option.split)
qed

lemma arc_insert_facts:
  assumes "arc_inv p" and "arc_get p k = None"
  shows "arc_inv (arc_insert p k b) \<and> arc_get (arc_insert p k b) = (arc_get p)(k \<mapsto> b)"
proof -
  have "length (AList.delete k g) \<le> length g" for g :: "(offload_key, unit) odict"
    by (rule length_delete_le)
  then have "arc_bounds (arc_insert p k b)"
    using assms(1) unfolding arc_inv_def arc_bounds_def arc_insert_def
    by (auto intro: order_trans [OF of_nat_mono])
  moreover have "arc_disjoint (arc_insert p k b)"
    using assms arc_get_None [of p k] by (auto simp: arc_inv_def arc_disjoint_def arc_insert_def)
  ultimately show ?thesis by (simp add: arc_inv_def arc_get_eq arc_insert_def map_of_od_update)
qed

lemma arc_remove_facts:
  assumes "arc_inv p"
  shows "\<exists>p'. arc_remove p k = Inr p' \<and> arc_inv p' \<and> arc_get p' = (arc_get p)(k := None)"
proof (cases "k \<in> fst ` set (arc_t1 p)")
  case True
  with assms have "map_of (arc_t2 p) k = None"
    by (auto simp: arc_inv_def arc_disjoint_def map_of_eq_None_iff)
  with True assms show ?thesis
    by (auto simp: arc_remove_def arc_inv_def arc_disjoint_def arc_bounds_def arc_get_eq
      map_of_od_delete map_add_def fun_eq_iff split: option.split)
next
  case False
  then have "map_of (arc_t1 p) k = None" by (simp add: map_of_eq_None_iff)
  with False assms show ?thesis
    by (auto simp: arc_remove_def arc_inv_def arc_disjoint_def arc_bounds_def arc_get_eq
      map_of_od_delete map_add_def fun_eq_iff split: option.split)
qed

interpretation arc_policy: cache_policy arc_ops arc_inv
proof (unfold_locales, goal_cases)
  case 1
  then show ?case by (simp add: arc_inv_def arc_disjoint_def arc_bounds_def arc_init_def)
next
  case 2
  then show ?case by (simp add: arc_get_eq arc_init_def)
next
  case 3
  then show ?case using arc_insert_facts by simp
next
  case 4
  then show ?case using arc_insert_facts by simp
next
  case 5
  then show ?case using arc_remove_facts by simp
next
  case 6
  then show ?case using arc_touch_loop_inv by (simp add: arc_touch_def)
next
  case 7
  then show ?case using arc_touch_loop_inv by (simp add: arc_touch_def)
next
  case 8
  then show ?case by (simp add: arc_evict_total)
next
  case 9
  then show ?case by (auto simp: arc_evict_eq split: if_splits option.splits)
next
  case 10
  then show ?case using arc_evict_Some by simp
next
  case 11
  then show ?case by (simp add: arc_inv_def arc_disjoint_def arc_bounds_def arc_clear_def)
next
  case 12
  then show ?case by (simp add: arc_get_eq arc_clear_def)
next
  case 13
  then show ?case by (auto simp: arc_inv_def arc_disjoint_def arc_stored_keys_def arc_get_dom)
next
  case 14
  then show ?case using arc_set_block_facts by (simp add: mark_evictable_default_def)
next
  case 15
  then show ?case using arc_set_block_facts by (simp add: mark_non_evictable_default_def)
next
  case 16
  then show ?case using arc_set_block_facts by simp
qed

end
