(* ===== verification/Policy_Properties.thy ===== *)
theory Policy_Properties
  imports LRU_Policy ARC_Policy
begin

text \<open>
  The properties of the two replacement policies: which blocks an eviction takes, how a touch
  reorders them, what stays in the ghost lists.
\<close>

section \<open>LRU\<close>

text \<open>
  C32: under the policy invariant an LRU eviction never raises: it takes the first \<open>n\<close> unprotected
  keys in recency order, oldest first, removes exactly those from both dictionaries, and returns
  \<open>None\<close> with nothing changed exactly when fewer than \<open>n\<close> are available.
\<close>

theorem lru_evicts_oldest:
  assumes "lru_inv p"
  shows "lru_evict p n protected =
    (let available = filter (\<lambda>k. k \<notin> set protected) (od_keys (lru_evictable p));
         victims = take n available
     in if length available < n then Inr (p, None)
        else Inr (p\<lparr>lru_evictable := od_minus (lru_evictable p) (set victims),
                    lru_blocks := od_minus (lru_blocks p) (set victims)\<rparr>,
                  Some (map (\<lambda>k. (k, the (lru_get p k))) victims)))"
  by (simp add: lru_evict_eq [OF assms] lru_pick_def Let_def image_image)

definition demo_lru :: lru where
  "demo_lru = \<lparr>lru_capacity = 3, lru_evictable = [([1], ()), ([2], ())],
     lru_blocks = [([2], \<lparr>ref_cnt = 0, block_id = 0\<rparr>), ([3], \<lparr>ref_cnt = 1, block_id = 1\<rparr>),
       ([1], \<lparr>ref_cnt = 0, block_id = 2\<rparr>)]\<rparr>"

lemma demo_lru_inv: "lru_inv demo_lru"
  by (auto simp: lru_inv_def demo_lru_def lru_get_def split: if_splits)

theorem lru_evicts_oldest_witness:
  "lru_evict demo_lru 1 [[2]] = Inr (demo_lru
    \<lparr>lru_evictable := [([2], ())], lru_blocks := [([2], \<lparr>ref_cnt = 0, block_id = 0\<rparr>),
      ([3], \<lparr>ref_cnt = 1, block_id = 1\<rparr>)]\<rparr>, Some [([1], \<lparr>ref_cnt = 0, block_id = 2\<rparr>)])"
  using lru_evicts_oldest [OF demo_lru_inv, of 1 "[[2]]"]
  by (simp add: demo_lru_def lru_get_def od_minus_def)

lemma move_to_end_keys:
  "od_ok d \<Longrightarrow> k \<in> fst ` set d \<Longrightarrow>
   od_keys (od_move_to_end k d) = filter (\<lambda>j. j \<noteq> k) (od_keys d) @ [k]"
proof -
  assume "k \<in> fst ` set d"
  then obtain v where "map_of d k = Some v" by (metis in_keys_iff)
  moreover have "od_keys (AList.delete k d) = filter (\<lambda>j. j \<noteq> k) (od_keys d)"
    by (induction d) auto
  ultimately show ?thesis by (simp add: od_move_to_end_def)
qed

lemma touch_loop_order:
  assumes "od_ok ev"
  shows "od_keys (lru_touch_loop ks ev) =
    filter (\<lambda>k. k \<notin> set ks) (od_keys ev) @ remdups (filter (\<lambda>k. k \<in> fst ` set ev) ks)"
  using assms
proof (induction ks ev rule: lru_touch_loop.induct)
  case (2 k ks ev)
  show ?case
  proof (cases "k \<in> fst ` set ev")
    case True
    have keys: "fst ` set (od_move_to_end k ev) = fst ` set ev" by simp
    have "od_keys (lru_touch_loop (k # ks) ev) =
      filter (\<lambda>j. j \<notin> set ks) (od_keys (od_move_to_end k ev)) @
        remdups (filter (\<lambda>j. j \<in> fst ` set (od_move_to_end k ev)) ks)"
      using True 2 by simp
    also have "\<dots> = filter (\<lambda>j. j \<notin> set ks) (filter (\<lambda>j. j \<noteq> k) (od_keys ev) @ [k]) @
        remdups (filter (\<lambda>j. j \<in> fst ` set ev) ks)"
      unfolding keys move_to_end_keys [OF "2.prems" True] ..
    also have "\<dots> = filter (\<lambda>j. j \<notin> set (k # ks)) (od_keys ev) @
        remdups (filter (\<lambda>j. j \<in> fst ` set ev) (k # ks))"
      using True by (auto simp: conj_commute)
    finally show ?thesis .
  next
    case False
    have "filter (\<lambda>j. j \<notin> set (k # ks)) (od_keys ev) = filter (\<lambda>j. j \<notin> set ks) (od_keys ev)"
      using False by (intro filter_cong) (auto simp flip: set_map)
    with False 2 show ?thesis by simp
  qed
qed simp

text \<open>
  Touching keys makes the touched evictable ones the most recently used, in the reverse of
  the order given, so that the first key of the list ends up most recent; every other key keeps
  its place, and no block is lost or added.
\<close>

theorem lru_touch_order:
  assumes "lru_inv p"
  shows "od_keys (lru_evictable (lru_touch p ks)) =
      filter (\<lambda>k. k \<notin> set ks) (od_keys (lru_evictable p)) @
      remdups (filter (\<lambda>k. k \<in> fst ` set (lru_evictable p)) (rev ks))
    \<and> lru_blocks (lru_touch p ks) = lru_blocks p"
  using assms by (simp add: lru_touch_def touch_loop_order lru_inv_def)

theorem lru_touch_order_witness:
  "od_keys (lru_evictable (lru_touch demo_lru [[1], [3]])) = [[2], [1]]"
  using lru_touch_order [OF demo_lru_inv, of "[[1], [3]]"] by (simp add: demo_lru_def)

section \<open>ARC\<close>

text \<open>
  C33: a successful ARC eviction returns exactly \<open>n\<close> distinct idle, unprotected blocks; they are
  gone from the cache and nothing else is; the victims from \<open>T1\<close> become the newest ghosts of
  \<open>B1\<close> and those from \<open>T2\<close> of \<open>B2\<close>, in the order of eviction, each list keeping its newest
  entries up to the capacity; the size target does not move; and the four lists stay disjoint
  and bounded.
\<close>

theorem arc_evict_sound:
  assumes "arc_inv p" and "arc_evict p n protected = Inr (p', Some ev)"
  defines "seen_once \<equiv> filter (\<lambda>k. k \<in> fst ` set (arc_t1 p)) (map fst ev)"
    and "seen_again \<equiv> filter (\<lambda>k. k \<notin> fst ` set (arc_t1 p)) (map fst ev)"
  shows "arc_inv p' \<and> length ev = n \<and> distinct (map fst ev) \<and>
    (\<forall>(k, b) \<in> set ev. arc_get p k = Some b \<and> ref_cnt b = 0 \<and> k \<notin> set protected) \<and>
    arc_get p' = arc_get p |` (- fst ` set ev) \<and> set seen_again \<subseteq> fst ` set (arc_t2 p) \<and>
    p' = p\<lparr>arc_t1 := od_minus (arc_t1 p) (fst ` set ev), arc_t2 := od_minus (arc_t2 p) (fst ` set ev),
      arc_b1 := newest (arc_capacity p) (arc_b1 p @ map (\<lambda>k. (k, ())) seen_once),
      arc_b2 := newest (arc_capacity p) (arc_b2 p @ map (\<lambda>k. (k, ())) seen_again)\<rparr>"
proof -
  note sound = arc_evict_Some [OF assms(1,2)]
  have "fst ` set ev \<subseteq> dom (arc_get p)" using sound by force
  then have "set seen_again \<subseteq> fst ` set (arc_t2 p)" by (auto simp: arc_get_dom seen_again_def)
  with sound arc_evict_state [OF assms(1,2)] show ?thesis unfolding seen_once_def seen_again_def by blast
qed

definition demo_arc :: arc where
  "demo_arc = \<lparr>arc_capacity = 4, arc_target = 1,
     arc_t1 = [([1], \<lparr>ref_cnt = 0, block_id = 0\<rparr>), ([2], \<lparr>ref_cnt = 0, block_id = 1\<rparr>)],
     arc_t2 = [([3], \<lparr>ref_cnt = 0, block_id = 2\<rparr>), ([4], \<lparr>ref_cnt = 2, block_id = 3\<rparr>)],
     arc_b1 = [([5], ())], arc_b2 = []\<rparr>"

lemma demo_arc_inv: "arc_inv demo_arc"
  by (simp add: arc_inv_def arc_disjoint_def arc_bounds_def demo_arc_def)

theorem arc_evict_sound_witness:
  "\<exists>p'. arc_evict demo_arc 2 [[1]] = Inr (p', Some [([2], \<lparr>ref_cnt = 0, block_id = 1\<rparr>),
     ([3], \<lparr>ref_cnt = 0, block_id = 2\<rparr>)]) \<and> arc_inv p' \<and> arc_target p' = 1 \<and>
     arc_b1 p' = [([5], ()), ([2], ())] \<and> arc_b2 p' = [([3], ())]"
proof -
  let ?p' = "fst (projr (arc_evict demo_arc 2 [[1]]))"
  have e: "arc_evict demo_arc 2 [[1]] = Inr (?p', Some [([2], \<lparr>ref_cnt = 0, block_id = 1\<rparr>),
     ([3], \<lparr>ref_cnt = 0, block_id = 2\<rparr>)])" by code_simp
  note f = arc_evict_sound [OF demo_arc_inv e]
  from f have "arc_inv ?p'" by blast
  moreover from f have "?p' = demo_arc
    \<lparr>arc_t1 := od_minus (arc_t1 demo_arc) {[2], [3]}, arc_t2 := od_minus (arc_t2 demo_arc) {[2], [3]},
     arc_b1 := newest 4 [([5], ()), ([2], ())], arc_b2 := newest 4 [([3], ())]\<rparr>"
    by (simp add: demo_arc_def)
  then have "arc_target ?p' = 1" "arc_b1 ?p' = [([5], ()), ([2], ())]" "arc_b2 ?p' = [([3], ())]"
    by (simp_all add: newest_def demo_arc_def)
  ultimately show ?thesis using e by blast
qed

lemma touch_loop_snoc: "arc_touch_loop (ks @ [k]) p = arc_touch_key k (arc_touch_loop ks p)"
  by (induction ks arbitrary: p) simp_all

text \<open>
  Touching keys never changes what is stored: every key maps to the same block as before;
  a ready key that was seen once moves to the end of the frequent list, one still being written
  stays in the recent list, and the size target stays within the capacity.
\<close>

theorem arc_touch_promotes:
  assumes "arc_inv p" and "map_of (arc_t1 p) k = Some b"
  shows "arc_inv (arc_touch p ks) \<and> arc_get (arc_touch p ks) = arc_get p \<and>
    0 \<le> arc_target (arc_touch p ks) \<and> arc_target (arc_touch p ks) \<le> rat_of_int (arc_capacity p) \<and>
    (if is_ready b
     then k \<notin> fst ` set (arc_t1 (arc_touch p [k])) \<and> last (arc_t2 (arc_touch p [k])) = (k, b)
     else last (arc_t1 (arc_touch p [k])) = (k, b))"
proof -
  have inv: "arc_inv (arc_touch p ks)" and get: "arc_get (arc_touch p ks) = arc_get p"
    using arc_policy.inv_touch [of p ks] arc_policy.get_touch [of p ks] assms(1) by simp_all
  have cap: "arc_capacity (arc_touch_loop js q) = arc_capacity q" for js q
  proof (induction js arbitrary: q)
    case (Cons j js)
    have "arc_capacity (arc_touch_key j q) = arc_capacity q"
      by (auto simp: arc_touch_key_def Let_def split: option.split)
    with Cons show ?case by simp
  qed simp
  have "k \<in> fst ` set (arc_t1 p)" using assms(2) by (metis in_keys_iff)
  then have k2: "k \<notin> fst ` set (arc_t2 p)" and ok: "od_ok (arc_t1 p)"
    using arc_disjointD(1) [of p] assms(1) by (auto simp: arc_inv_def arc_disjoint_def)
  then have "if is_ready b
     then k \<notin> fst ` set (arc_t1 (arc_touch p [k])) \<and> last (arc_t2 (arc_touch p [k])) = (k, b)
     else last (arc_t1 (arc_touch p [k])) = (k, b)"
    using assms(2) by (simp add: arc_touch_def arc_touch_key_def Let_def update_fresh)
  moreover have "arc_bounds (arc_touch p ks)" using inv by (simp add: arc_inv_def)
  then have "0 \<le> arc_target (arc_touch p ks)"
    "arc_target (arc_touch p ks) \<le> rat_of_int (arc_capacity p)"
    using cap [of "rev ks" p] by (simp_all add: arc_bounds_def arc_touch_def)
  ultimately show ?thesis using inv get by blast
qed

theorem arc_touch_promotes_witness:
  "arc_get (arc_touch demo_arc [[1], [5]]) = arc_get demo_arc \<and>
   last (arc_t2 (arc_touch demo_arc [[1]])) = ([1], \<lparr>ref_cnt = 0, block_id = 0\<rparr>)"
  using arc_touch_promotes [OF demo_arc_inv, of "[1]" "\<lparr>ref_cnt = 0, block_id = 0\<rparr>" "[[1], [5]]"]
  by (simp add: demo_arc_def is_ready_def)

lemma arc_select_starved:
  assumes "filter (idle prot) es2 = []" and "0 < n" and "v - target + 1 < int n"
  shows "arc_select prot target n v es1 es2 acc = None"
  using assms
proof (induction prot target n v es1 es2 acc rule: arc_select.induct)
  case (2 prot target n v es1 es2 acc)
  have none: "fst (next_candidate prot es2) = None"
    using "2.prems"(1) next_candidate_Some [of prot es2]
    by (cases "next_candidate prot es2"; cases "fst (next_candidate prot es2)") auto
  obtain e1 r1 where e1: "(if v \<ge> target then next_candidate prot es1 else (None, es1)) = (e1, r1)"
    by (cases "if v \<ge> target then next_candidate prot es1 else (None, es1)")
  show ?case
  proof (cases e1)
    case (Some x)
    with e1 have "v \<ge> target" by (auto split: if_splits)
    with "2.prems"(3) have "0 < n" "v - 1 - target + 1 < int n" by auto
    from "2.IH"(2) [OF refl e1 [symmetric] Some "2.prems"(1) this] e1 Some show ?thesis by simp
  next
    case None
    with e1 none show ?thesis by (cases "next_candidate prot es2") simp
  qed
qed simp

text \<open>
  The ARC eviction does not fall back to \<open>T1\<close> once the recent list has shrunk below its
  target: when no block of \<open>T2\<close> is available, a batch of more than
  \<open>|T1| - int(target) + 1\<close> evictions is refused, whatever idle blocks \<open>T1\<close> still holds.
\<close>

lemma arc_evict_no_fallback:
  assumes "arc_inv p" and "\<forall>(k, b) \<in> set (arc_t2 p). ref_cnt b \<noteq> 0 \<or> k \<in> set protected"
    and "0 < n" and "int (length (arc_t1 p)) - \<lfloor>arc_target p\<rfloor> + 1 < int n"
  shows "arc_evict p n protected = Inr (p, None)"
proof -
  have "filter (idle protected) (arc_t2 p) = []"
    using assms(2) by (auto simp: filter_empty_conv)
  from arc_select_starved [OF this assms(3,4), of "arc_t1 p" "[]"] assms(3) show ?thesis
    by (simp add: arc_evict_eq [OF assms(1)])
qed

definition demo_starved :: arc where
  "demo_starved = \<lparr>arc_capacity = 2, arc_target = 2,
     arc_t1 = [([1], \<lparr>ref_cnt = 0, block_id = 0\<rparr>), ([2], \<lparr>ref_cnt = 0, block_id = 1\<rparr>)],
     arc_t2 = [], arc_b1 = [], arc_b2 = []\<rparr>"

lemma arc_evict_no_fallback_witness:
  "length (filter (\<lambda>(k, b). ref_cnt b = 0) (arc_t1 demo_starved)) = 2 \<and>
   arc_evict demo_starved 2 [] = Inr (demo_starved, None)"
proof -
  have "arc_inv demo_starved"
    by (simp add: arc_inv_def arc_disjoint_def arc_bounds_def demo_starved_def)
  from arc_evict_no_fallback [OF this, of "[]" 2] show ?thesis by (simp add: demo_starved_def)
qed

end
