(* ===== verification/Connector_Config.thy ===== *)
theory Connector_Config
  imports Offload_Base
begin

text \<open>
  Model of the configuration part of
  \<open>distributed/kv_transfer/kv_connector/v1/offloading/scheduler.py\<close>: the offload configuration of
  each KV cache group and of the scheduler, derived from the layout of the KV cache.

  The cache specifications are classes of another package; \<open>kv_spec\<close> has one constructor per
  \<open>isinstance\<close> branch of the code, with the fields the code reads. \<open>cdiv\<close> is the rounded-up
  division of that package, a parameter. Token counts are Python integers, and their divisions raise
  for zero (\<open>py_div\<close>, \<open>py_mod\<close>).
\<close>

section \<open>KV cache groups\<close>

datatype kv_spec =
    SlidingWindowSpec int
  | ChunkedLocalAttentionSpec int
  | MambaSpec string
  | FullAttentionSpec
  | OtherSpec

record kv_cache_group =
  kg_spec :: kv_spec
  kg_eagle :: bool

record group_config =
  group_idx :: nat
  tokens_per_block :: int
  tokens_per_chunk :: int
  hashes_per_chunk :: int
  sliding_window_chunks :: "int option"
  requires_cow_source :: bool
  alignment_chunk_count :: "int option"
  is_eagle_group :: bool

definition get_sliding_window_size_in_chunks :: "(int \<Rightarrow> int \<Rightarrow> int) \<Rightarrow> kv_spec \<Rightarrow> int \<Rightarrow>
    int option res" where
  "get_sliding_window_size_in_chunks cdiv spec tpc =
     (case spec of
        SlidingWindowSpec w \<Rightarrow> assertE (w > 0) (Inr (Some (cdiv w tpc)))
      | ChunkedLocalAttentionSpec c \<Rightarrow> assertE (c > 0) (Inr (Some (cdiv c tpc)))
      | MambaSpec mode \<Rightarrow> Inr (Some 1)
      | FullAttentionSpec \<Rightarrow> Inr None
      | OtherSpec \<Rightarrow> Inl AssertionError)"

definition is_store_reachable_swa_chunk :: "int \<Rightarrow> int \<Rightarrow> int option \<Rightarrow> int option \<Rightarrow> bool \<Rightarrow>
    bool res" where
  "is_store_reachable_swa_chunk abs_idx storable align window eagle =
     (case align of
        None \<Rightarrow> Inr True
      | Some a \<Rightarrow>
          (case window of
             None \<Rightarrow> Inl AssertionError
           | Some w \<Rightarrow>
               bindE (py_mod abs_idx a) (\<lambda>pos.
                 let segment_start = abs_idx - pos;
                     len = min a (storable - segment_start);
                     tail = w + (if eagle then 1 else 0)
                 in Inr (pos \<ge> len - tail))))"

section \<open>The specification and the scheduler's configuration\<close>

text \<open>What the code reads of \<open>OffloadingSpec\<close> and of the engine's configuration objects.\<close>

record offload_group =
  og_idx :: nat
  og_tokens_per_block :: int

record offload_spec =
  spec_groups :: "offload_group list"
  spec_blocks_per_chunk :: int
  spec_tokens_per_hash :: int
  spec_prompt_only :: bool

record engine_config =
  world_size :: int
  dcp_size :: int
  use_eagle :: bool
  prefix_caching :: bool

record sched_config =
  kv_groups :: "group_config list"
  num_kv_cache_groups :: nat
  blocks_per_chunk :: int
  tokens_per_hash :: int
  num_workers :: int
  offload_prompt_only :: bool
  supports_partial_tail :: bool

definition resolve_mamba_step :: "offload_spec \<Rightarrow> kv_cache_group list \<Rightarrow> offload_group \<Rightarrow>
    int option \<Rightarrow> int option res" where
  "resolve_mamba_step spec kgs g cur =
     bindE (nth_res kgs (og_idx g)) (\<lambda>kg.
       case kg_spec kg of
         MambaSpec mode \<Rightarrow>
           if mode = ''align'' \<or> mode = ''all'' then
             (let tpc = og_tokens_per_block g * spec_blocks_per_chunk spec
              in assertE (cur = None \<or> cur = Some tpc) (Inr (Some tpc)))
           else Inr cur
       | _ \<Rightarrow> Inr cur)"

definition resolve_mamba_align_size :: "offload_spec \<Rightarrow> kv_cache_group list \<Rightarrow> int option res" where
  "resolve_mamba_align_size spec kgs = foldE (resolve_mamba_step spec kgs) (spec_groups spec) None"

definition full_attention_sizes :: "(int \<Rightarrow> int \<Rightarrow> int) \<Rightarrow> offload_spec \<Rightarrow> kv_cache_group list \<Rightarrow>
    offload_group \<Rightarrow> int set \<Rightarrow> int set res" where
  "full_attention_sizes cdiv spec kgs g sizes =
     bindE (nth_res kgs (og_idx g)) (\<lambda>kg.
       let tpc = og_tokens_per_block g * spec_blocks_per_chunk spec in
       bindE (get_sliding_window_size_in_chunks cdiv (kg_spec kg) tpc) (\<lambda>sw.
         Inr (if sw = None then insert tpc sizes else sizes)))"

definition alignment_chunks :: "int option \<Rightarrow> int \<Rightarrow> int option \<Rightarrow> int option res" where
  "alignment_chunks alignment_tokens tpc sw =
     (case (alignment_tokens, sw) of
        (Some a, Some w) \<Rightarrow>
          if a \<le> tpc then Inr None
          else bindE (py_div a tpc) (\<lambda>per_segment.
            Inr (if w \<ge> per_segment then None else Some per_segment))
      | _ \<Rightarrow> Inr None)"

text \<open>The indices of the draft-model groups; a drafter without marked groups means all of them.\<close>

definition eagle_groups :: "bool \<Rightarrow> kv_cache_group list \<Rightarrow> nat set" where
  "eagle_groups use kgs =
     (let marked = {i. i < length kgs \<and> kg_eagle (kgs ! i)}
      in if use \<and> marked = {} then {i. i < length kgs} else marked)"

lemma eagle_groups_code [code]:
  "eagle_groups use kgs =
     (let marked = set (filter (\<lambda>i. kg_eagle (kgs ! i)) [0..<length kgs])
      in if use \<and> marked = {} then set [0..<length kgs] else marked)"
proof -
  have "{i. i < length kgs \<and> kg_eagle (kgs ! i)} = set (filter (\<lambda>i. kg_eagle (kgs ! i)) [0..<length kgs])"
    and "{i. i < length kgs} = set [0..<length kgs]"
    by auto
  then show ?thesis by (simp only: eagle_groups_def)
qed

definition group_config_of :: "(int \<Rightarrow> int \<Rightarrow> int) \<Rightarrow> offload_spec \<Rightarrow> kv_cache_group list \<Rightarrow>
    int option \<Rightarrow> nat set \<Rightarrow> offload_group \<Rightarrow> group_config list \<Rightarrow> group_config list res" where
  "group_config_of cdiv spec kgs alignment_tokens eagle g acc =
     bindE (nth_res kgs (og_idx g)) (\<lambda>kg.
       let tpc = og_tokens_per_block g * spec_blocks_per_chunk spec in
       bindE (get_sliding_window_size_in_chunks cdiv (kg_spec kg) tpc) (\<lambda>sw.
       bindE (py_div tpc (spec_tokens_per_hash spec)) (\<lambda>hashes.
       bindE (alignment_chunks alignment_tokens tpc sw) (\<lambda>align.
         Inr (acc @ [\<lparr>group_idx = og_idx g, tokens_per_block = og_tokens_per_block g,
                      tokens_per_chunk = tpc, hashes_per_chunk = hashes,
                      sliding_window_chunks = sw,
                      requires_cow_source = (kg_spec kg = MambaSpec ''align''),
                      alignment_chunk_count = align,
                      is_eagle_group = (og_idx g \<in> eagle)\<rparr>])))))"

definition partial_tail_support :: "offload_spec \<Rightarrow> group_config list \<Rightarrow> nat \<Rightarrow> int \<Rightarrow> bool" where
  "partial_tail_support spec gcs ngroups dcp \<longleftrightarrow>
     spec_blocks_per_chunk spec = 1 \<and>
     card (set (map tokens_per_block gcs)) = 1 \<and>
     length gcs = ngroups \<and>
     list_ex (\<lambda>c. requires_cow_source c \<and> tokens_per_block c > spec_tokens_per_hash spec) gcs \<and>
     list_all (\<lambda>c. sliding_window_chunks c = None \<or> requires_cow_source c) gcs \<and>
     \<not> list_ex is_eagle_group gcs \<and>
     dcp = 1"

definition the_single :: "int set \<Rightarrow> int option" where
  "the_single A = (case sorted_list_of_set A of [a] \<Rightarrow> Some a | _ \<Rightarrow> None)"

definition from_spec :: "(int \<Rightarrow> int \<Rightarrow> int) \<Rightarrow> offload_spec \<Rightarrow> engine_config \<Rightarrow>
    kv_cache_group list \<Rightarrow> sched_config res" where
  "from_spec cdiv spec eng kgs =
     bindE (foldE (full_attention_sizes cdiv spec kgs) (spec_groups spec) {}) (\<lambda>sizes.
     bindE (foldE (group_config_of cdiv spec kgs (the_single sizes)
                    (eagle_groups (use_eagle eng) kgs)) (spec_groups spec) []) (\<lambda>gcs.
       Inr \<lparr>kv_groups = gcs, num_kv_cache_groups = length kgs,
            blocks_per_chunk = spec_blocks_per_chunk spec,
            tokens_per_hash = spec_tokens_per_hash spec, num_workers = world_size eng,
            offload_prompt_only = spec_prompt_only spec,
            supports_partial_tail = partial_tail_support spec gcs (length kgs) (dcp_size eng)\<rparr>))"

end
