(* ===== verification/Py_Env.thy ===== *)
theory Py_Env
  imports Prelude
begin

text \<open>
  The environment knobs of the CPU manager (\<open>v1/kv_offload/cpu/manager.py\<close>): an unset, empty,
  switched-off, invalid or negative value and an integer cap. \<open>py_strip\<close>, \<open>py_lower\<close> and
  \<open>py_int\<close> are the string methods and the \<open>int\<close> constructor of Python on ASCII text (sign,
  decimal digits, single underscores between digits); logging has no effect on the result.
\<close>

definition is_space :: "char \<Rightarrow> bool" where
  "is_space c \<longleftrightarrow> (let n = of_char c :: nat in (9 \<le> n \<and> n \<le> 13) \<or> (28 \<le> n \<and> n \<le> 32))"

definition py_strip :: "string \<Rightarrow> string" where
  "py_strip s = rev (dropWhile is_space (rev (dropWhile is_space s)))"

definition lower_char :: "char \<Rightarrow> char" where
  "lower_char c = (let n = of_char c :: nat in if 65 \<le> n \<and> n \<le> 90 then char_of (n + 32) else c)"

definition py_lower :: "string \<Rightarrow> string" where
  "py_lower s = map lower_char s"

definition digit :: "char \<Rightarrow> int option" where
  "digit c = (let n = of_char c :: nat in if 48 \<le> n \<and> n \<le> 57 then Some (int n - 48) else None)"

text \<open>\<open>prev\<close> tells whether the last character was a digit, so an underscore may follow.\<close>

fun digits_val :: "int \<Rightarrow> bool \<Rightarrow> string \<Rightarrow> int option" where
  "digits_val acc prev [] = (if prev then Some acc else None)"
| "digits_val acc prev (c # cs) =
     (case digit c of
        Some d \<Rightarrow> digits_val (acc * 10 + d) True cs
      | None \<Rightarrow> if c = CHR ''_'' \<and> prev then digits_val acc False cs else None)"

definition py_int :: "string \<Rightarrow> int option" where
  "py_int s =
     (case py_strip s of
        [] \<Rightarrow> None
      | c # cs \<Rightarrow>
          if c = CHR ''-'' then map_option uminus (digits_val 0 False cs)
          else if c = CHR ''+'' then digits_val 0 False cs
          else digits_val 0 False (c # cs))"

definition EVICTION_TOMBSTONES_DEFAULT :: int where
  "EVICTION_TOMBSTONES_DEFAULT = 262144"

definition EVICTION_CALL_CAP_DEFAULT :: int where
  "EVICTION_CALL_CAP_DEFAULT = 2000"

definition eviction_tombstone_capacity :: "string option \<Rightarrow> int" where
  "eviction_tombstone_capacity raw =
     (case raw of
        None \<Rightarrow> EVICTION_TOMBSTONES_DEFAULT
      | Some raw \<Rightarrow>
          if py_strip raw = [] then EVICTION_TOMBSTONES_DEFAULT
          else let normalized = py_lower (py_strip raw) in
            if normalized = ''0'' \<or> normalized = ''false'' \<or> normalized = ''off'' then 0
            else (case py_int normalized of
                    None \<Rightarrow> EVICTION_TOMBSTONES_DEFAULT
                  | Some capacity \<Rightarrow>
                      if capacity < 0 then EVICTION_TOMBSTONES_DEFAULT else capacity))"

definition eviction_call_cap :: "string option \<Rightarrow> int" where
  "eviction_call_cap raw =
     (case raw of
        None \<Rightarrow> EVICTION_CALL_CAP_DEFAULT
      | Some raw \<Rightarrow>
          if py_strip raw = [] then EVICTION_CALL_CAP_DEFAULT
          else let normalized = py_lower (py_strip raw) in
            if normalized = ''0'' \<or> normalized = ''false'' \<or> normalized = ''off'' then 0
            else (case py_int normalized of
                    None \<Rightarrow> EVICTION_CALL_CAP_DEFAULT
                  | Some cap \<Rightarrow> if cap < 0 then EVICTION_CALL_CAP_DEFAULT else cap))"

lemma knobs_nonneg: "0 \<le> eviction_tombstone_capacity raw \<and> 0 \<le> eviction_call_cap raw"
  by (auto simp: eviction_tombstone_capacity_def eviction_call_cap_def Let_def
    EVICTION_TOMBSTONES_DEFAULT_def EVICTION_CALL_CAP_DEFAULT_def split: option.split)

end
