(* ===== verification/Connector_Request.thy ===== *)
theory Connector_Request
  imports Connector_Config Py_Env Complex_Main
begin

text \<open>
  Model of the per-request state of
  \<open>distributed/kv_transfer/kv_connector/v1/offloading/scheduler.py\<close>: \<open>RequestGroupState\<close>,
  \<open>RequestOffloadState\<close> and its methods, the parsing of the tier filter a client passes in its
  transfer parameters, and the request context handed to the offloading manager.

  A \<open>Request\<close> is an object of the engine, shared by reference and changed by the engine between
  calls; \<open>request\<close> has the attributes the connector reads, and every operation gets the
  requests as they are at the time of the call. \<open>json\<close> is a value of the transfer parameters.
\<close>

section \<open>Requests\<close>

datatype json =
    JNull
  | JBool bool
  | JInt int
  | JFloat rat
  | JStr string
  | JList "json list"
  | JDict "(string \<times> json) list"

record request =
  block_hashes :: "block_hash list"
  num_tokens :: int
  num_prompt_tokens :: int
  num_computed_tokens :: int
  finished :: bool
  aborted :: bool
  skip_reading_prefix_cache :: bool
  kv_transfer_params :: "(string \<times> json) list option"

record group_state =
  offload_keys :: "offload_key list"
  block_ids :: "int list"
  next_stored_chunk_idx :: int
  num_hit_chunks :: int

text \<open>
  The stale-hit bookkeeping, one record of its own. \<open>None\<close> in \<open>last_hit_tokens\<close> is the value
  \<open>None\<close> a deferred lookup leaves there; the initial value is \<open>-1\<close>.
\<close>

record stale_hit =
  streak :: int
  last_hit_tokens :: "int option"
  last_num_computed :: int
  last_ts :: rat
  repeat_count :: int
  pinned_until :: rat
  fallback_count :: int
  wall_start :: rat
  escape :: bool
  refusal_until :: rat
  refusal_notified :: bool
  claim_active :: bool
  claim_hit_tokens :: int
  claim_num_computed :: int

definition init_stale :: stale_hit where
  "init_stale =
     \<lparr>streak = 0, last_hit_tokens = Some (- 1), last_num_computed = - 1, last_ts = 0,
      repeat_count = 0, pinned_until = 0, fallback_count = 0, wall_start = 0, escape = False,
      refusal_until = 0, refusal_notified = False, claim_active = False,
      claim_hit_tokens = - 1, claim_num_computed = - 1\<rparr>"

record req_state =
  rs_context :: req_context
  rs_policy :: offload_policy
  group_states :: "group_state list"
  max_offload_tokens :: "int option"
  num_locally_computed_tokens :: int
  transfer_jobs :: "int set"
  deferred_lookup_start_time :: "rat option"
  partial_tail_boundary :: "int option"
  finished_signaled :: bool
  tombstone_counted_hashes :: "block_hash set"
  stale :: stale_hit

definition init_group_state :: group_state where
  "init_group_state =
     \<lparr>offload_keys = [], block_ids = [], next_stored_chunk_idx = 0, num_hit_chunks = 0\<rparr>"

text \<open>\<open>params.get(k) if params else None\<close>, with a missing key and \<open>None\<close> alike.\<close>

definition param :: "string \<Rightarrow> (string \<times> json) list option \<Rightarrow> json option" where
  "param k params =
     (case params of
        None \<Rightarrow> None
      | Some ps \<Rightarrow> (case map_of ps k of Some JNull \<Rightarrow> None | r \<Rightarrow> r))"

definition parse_max_offload :: "json option \<Rightarrow> int option" where
  "parse_max_offload raw =
     (case raw of Some (JInt n) \<Rightarrow> if n \<ge> 0 then Some n else None | _ \<Rightarrow> None)"

definition init_req_state :: "sched_config \<Rightarrow> request \<Rightarrow> req_context \<Rightarrow> offload_policy \<Rightarrow> req_state" where
  "init_req_state cfg rq ctx pol =
     \<lparr>rs_context = ctx, rs_policy = pol,
      group_states = replicate (num_kv_cache_groups cfg) init_group_state,
      max_offload_tokens = parse_max_offload (param ''max_offload_tokens'' (kv_transfer_params rq)),
      num_locally_computed_tokens = 0, transfer_jobs = {}, deferred_lookup_start_time = None,
      partial_tail_boundary = None, finished_signaled = False, tombstone_counted_hashes = {},
      stale = init_stale\<rparr>"

section \<open>Offload keys of a request\<close>

text \<open>\<open>islice(xs, start, None, step)\<close>, for a step of at least one.\<close>

function every :: "nat \<Rightarrow> nat \<Rightarrow> 'a list \<Rightarrow> 'a list" where
  "every start step xs =
     (if start < length xs then xs ! start # (if step = 0 then [] else every (start + step) step xs)
      else [])"
  by pat_completeness auto
termination by (relation "measure (\<lambda>(start, step, xs). length xs - start)") auto

declare every.simps [simp del]

definition append_key :: "nat \<Rightarrow> block_hash \<Rightarrow> group_state \<Rightarrow> group_state res" where
  "append_key g h gs =
     bindE (make_offload_key h (int g)) (\<lambda>k. Inr (gs\<lparr>offload_keys := offload_keys gs @ [k]\<rparr>))"

text \<open>
  \<open>islice\<close> rejects a negative start and a step below one with \<open>ValueError\<close>.
\<close>

definition update_group_keys :: "request \<Rightarrow> group_config \<Rightarrow> group_state list \<Rightarrow> group_state list res" where
  "update_group_keys rq gc gss =
     bindE (nth_res gss (group_idx gc)) (\<lambda>gs.
       let h = hashes_per_chunk gc;
           start = h * int (length (offload_keys gs)) + h - 1
       in if h < 1 then Inl ValueError
          else bindE (foldE (append_key (group_idx gc)) (every (nat start) (nat h) (block_hashes rq)) gs)
                 (\<lambda>gs. Inr (gss[group_idx gc := gs])))"

definition update_offload_keys :: "sched_config \<Rightarrow> request \<Rightarrow> req_state \<Rightarrow> req_state res" where
  "update_offload_keys cfg rq rs =
     bindE (foldE (update_group_keys rq) (kv_groups cfg) (group_states rs))
       (\<lambda>gss. Inr (rs\<lparr>group_states := gss\<rparr>))"

section \<open>Blocks and store progress\<close>

definition update_block_id_groups :: "int list list option \<Rightarrow> req_state \<Rightarrow> req_state res" where
  "update_block_id_groups new rs =
     (case new of
        None \<Rightarrow> Inr rs
      | Some groups \<Rightarrow>
          assertE (length groups = length (group_states rs))
            (Inr (rs\<lparr>group_states :=
               map2 (\<lambda>gs bs. gs\<lparr>block_ids := block_ids gs @ bs\<rparr>) (group_states rs) groups\<rparr>)))"

definition storable_chunks :: "sched_config \<Rightarrow> request \<Rightarrow> group_config \<Rightarrow> group_state \<Rightarrow> int \<Rightarrow> int" where
  "storable_chunks cfg rq gc gs offloadable =
     (let n = offloadable div tokens_per_chunk gc;
          is_decoding = offloadable > num_prompt_tokens rq;
          n = (if is_eagle_group gc \<and> is_decoding then max 0 (n - 1) else n);
          allocated = int (length (block_ids gs)) div blocks_per_chunk cfg
      in min n allocated)"

definition advance_group :: "sched_config \<Rightarrow> request \<Rightarrow> int \<Rightarrow> group_config \<Rightarrow> group_state list \<Rightarrow>
    group_state list res" where
  "advance_group cfg rq offloadable gc gss =
     bindE (nth_res gss (group_idx gc)) (\<lambda>gs.
       Inr (gss[group_idx gc := gs\<lparr>next_stored_chunk_idx :=
         max (next_stored_chunk_idx gs) (storable_chunks cfg rq gc gs offloadable)\<rparr>]))"

definition advance_stored_idx :: "sched_config \<Rightarrow> request \<Rightarrow> int \<Rightarrow> req_state \<Rightarrow> req_state res" where
  "advance_stored_idx cfg rq offloadable rs =
     bindE (foldE (advance_group cfg rq offloadable) (kv_groups cfg) (group_states rs))
       (\<lambda>gss. Inr (rs\<lparr>group_states := gss\<rparr>))"

definition hit_group :: "int \<Rightarrow> group_config \<Rightarrow> group_state list \<Rightarrow> group_state list res" where
  "hit_group cached gc gss =
     bindE (nth_res gss (group_idx gc)) (\<lambda>gs.
       Inr (gss[group_idx gc := gs\<lparr>num_hit_chunks := cached div tokens_per_chunk gc\<rparr>]))"

definition update_num_hit_chunks :: "sched_config \<Rightarrow> int \<Rightarrow> req_state \<Rightarrow> req_state res" where
  "update_num_hit_chunks cfg cached rs =
     bindE (foldE (hit_group cached) (kv_groups cfg) (group_states rs))
       (\<lambda>gss. Inr (rs\<lparr>group_states := gss\<rparr>))"

definition calc_num_offloadable_tokens :: "sched_config \<Rightarrow> request \<Rightarrow> req_state \<Rightarrow> int \<Rightarrow> int" where
  "calc_num_offloadable_tokens cfg rq rs computed =
     (let n = min computed (num_tokens rq);
          n = (case max_offload_tokens rs of None \<Rightarrow> n | Some cap \<Rightarrow> min n cap)
      in if offload_prompt_only cfg then min n (num_prompt_tokens rq) else n)"

section \<open>Tier filters\<close>

text \<open>\<open>raw.upper()\<close> raises \<open>AttributeError\<close> on a value that is no string; the entry is skipped.\<close>

definition upper_char :: "char \<Rightarrow> char" where
  "upper_char c = (let n = of_char c :: nat in if 97 \<le> n \<and> n \<le> 122 then char_of (n - 32) else c)"

definition parse_medium :: "json \<Rightarrow> medium option" where
  "parse_medium raw =
     (case raw of
        JStr s \<Rightarrow>
          let u = map upper_char s in
          if u = ''CPU'' then Some CPU else if u = ''STORAGE'' then Some STORAGE else None
      | _ \<Rightarrow> None)"

definition parse_locality :: "json \<Rightarrow> locality option" where
  "parse_locality raw =
     (case raw of
        JStr s \<Rightarrow>
          let u = map upper_char s in
          if u = ''LOCAL'' then Some LOCAL else if u = ''REMOTE'' then Some REMOTE else None
      | _ \<Rightarrow> None)"

text \<open>An optional field: absent is a wildcard, unknown drops the entry.\<close>

definition parse_field :: "(json \<Rightarrow> 'a option) \<Rightarrow> json option \<Rightarrow> 'a option option" where
  "parse_field p raw = (case raw of None \<Rightarrow> Some None | Some r \<Rightarrow> map_option Some (p r))"

definition parse_matcher :: "json \<Rightarrow> tier_matcher option" where
  "parse_matcher entry =
     (case entry of
        JDict d \<Rightarrow>
          (case parse_field parse_medium (param ''medium'' (Some d)) of
             None \<Rightarrow> None
           | Some med \<Rightarrow>
               (case parse_field parse_locality (param ''locality'' (Some d)) of
                  None \<Rightarrow> None
                | Some loc \<Rightarrow> Some \<lparr>tm_medium = med, tm_locality = loc\<rparr>))
      | _ \<Rightarrow> None)"

definition parse_tier_filter :: "json \<Rightarrow> tier_filter" where
  "parse_tier_filter raw =
     (case raw of
        JList entries \<Rightarrow>
          let matchers = List.map_filter parse_matcher entries in
          if matchers = [] then (if entries = [] then TierFilter [] else TF_ALL)
          else TierFilter matchers
      | _ \<Rightarrow> TF_ALL)"

definition create_req_context :: "string \<Rightarrow> request \<Rightarrow> req_context" where
  "create_req_context rid rq =
     \<lparr>req_id = rid,
      load_tier_filter =
        (case param ''kv_load_tiers'' (kv_transfer_params rq) of
           None \<Rightarrow> TF_ALL
         | Some raw \<Rightarrow> parse_tier_filter raw)\<rparr>"

end
