(* ===== verification/Connector_State.thy ===== *)
theory Connector_State
  imports Connector_Request Offload_Metrics
begin

text \<open>
  Model of the state of \<open>OffloadingConnectorScheduler\<close>
  (\<open>distributed/kv_transfer/kv_connector/v1/offloading/scheduler.py\<close>): the environment knobs,
  the group orders computed once, the tables of requests, jobs and fenced blocks, and the small
  operations on them.

  The connector calls an \<open>OffloadingManager\<close>; \<open>mgr_ops\<close> is that interface, over a manager state
  \<open>'s\<close>. The events tracker (another package) is \<open>tracker_ops\<close> over a state \<open>'e\<close>, and the
  helpers of other packages, with the order in which a Python set is iterated, are \<open>ext_ops\<close>.
\<close>

section \<open>Interfaces\<close>

record 's mgr_ops =
  m_lookup :: "offload_key \<Rightarrow> req_context \<Rightarrow> 's \<Rightarrow> ('s \<times> lookup_result) res"
  m_touch :: "offload_key list \<Rightarrow> req_context \<Rightarrow> 's \<Rightarrow> 's res"
  m_prepare_load :: "offload_key list \<Rightarrow> req_context \<Rightarrow> 's \<Rightarrow> ('s \<times> int list) res"
  m_complete_load :: "offload_key list \<Rightarrow> req_context \<Rightarrow> 's \<Rightarrow> 's res"
  m_prepare_store :: "offload_key list \<Rightarrow> req_context \<Rightarrow> bool \<Rightarrow> 's \<Rightarrow> ('s \<times> prepare_store_output option) res"
  m_complete_store :: "offload_key list \<Rightarrow> req_context \<Rightarrow> 's \<Rightarrow> 's res"
  m_new_request :: "req_context \<Rightarrow> 's \<Rightarrow> ('s \<times> offload_policy) res"
  m_request_finished :: "req_context \<Rightarrow> 's \<Rightarrow> 's res"
  m_schedule_end :: "schedule_end_context \<Rightarrow> 's \<Rightarrow> 's res"
  m_take_events :: "'s \<Rightarrow> 's \<times> offloading_event list"
  m_reset :: "'s \<Rightarrow> 's res"
  m_has_pending :: "'s \<Rightarrow> bool"
  m_get_stats :: "'s \<Rightarrow> ('s \<times> stats option) res"
  m_takes_bypass :: bool
  m_tombstone :: "(block_hash \<Rightarrow> 's \<Rightarrow> bool) option"
  m_drain_flush :: "('s \<Rightarrow> 's \<times> int list) option"

datatype tracker_call =
    RecordLookup string nat int offload_key
  | RecordStore string nat int offload_key
  | RecordPartialLookup string nat int offload_key
  | RecordPartialStore string nat int offload_key

record ('e, 'v) tracker_ops =
  t_record :: "tracker_call \<Rightarrow> 'e \<Rightarrow> 'e"
  t_take :: "offloading_event list \<Rightarrow> 'e \<Rightarrow> 'e \<times> 'v list"
  t_reset :: "'e \<Rightarrow> 'e"

record ext_ops =
  x_cdiv :: "int \<Rightarrow> int \<Rightarrow> int"
  x_round_down :: "int \<Rightarrow> int \<Rightarrow> int"
  x_float :: "string \<Rightarrow> rat option"
  x_iter :: "offload_key set \<Rightarrow> offload_key list"
  x_pick :: "int set \<Rightarrow> int"

section \<open>Environment knobs\<close>

record knobs =
  mirror_local :: bool
  mirror_offer_cap :: int
  stale_max_lookups :: int
  pin_seconds :: rat
  repeat_window :: rat
  escape_wall_secs :: rat
  escape_refusal_secs :: rat
  fallback_limit :: int
  ttl_secs :: rat

definition switched_off :: "string \<Rightarrow> bool" where
  "switched_off s \<longleftrightarrow> py_lower (py_strip s) \<in> {''0'', ''false'', ''off''}"

definition env_mirror_local :: "string option \<Rightarrow> bool" where
  "env_mirror_local raw = (\<not> switched_off (case raw of None \<Rightarrow> ''1'' | Some s \<Rightarrow> s))"

definition env_offer_cap :: "string option \<Rightarrow> int" where
  "env_offer_cap raw =
     (case py_int (case raw of None \<Rightarrow> ''4096'' | Some s \<Rightarrow> s) of None \<Rightarrow> 4096 | Some n \<Rightarrow> max 0 n)"

definition env_max_lookups :: "string option \<Rightarrow> int" where
  "env_max_lookups raw =
     (case py_int (case raw of None \<Rightarrow> ''8'' | Some s \<Rightarrow> s) of None \<Rightarrow> 8 | Some n \<Rightarrow> max 0 n)"

text \<open>An unset or blank variable and an invalid number both give the default.\<close>

definition env_seconds :: "(string \<Rightarrow> rat option) \<Rightarrow> rat \<Rightarrow> string option \<Rightarrow> rat" where
  "env_seconds flt dflt raw =
     (case raw of
        None \<Rightarrow> dflt
      | Some s \<Rightarrow>
          if py_strip s = [] then dflt
          else (case flt (py_strip s) of None \<Rightarrow> dflt | Some v \<Rightarrow> max 0 v))"

definition env_pin_seconds :: "(string \<Rightarrow> rat option) \<Rightarrow> string option \<Rightarrow> rat" where
  "env_pin_seconds flt raw =
     (if raw \<noteq> None \<and> switched_off (the raw) then 0 else env_seconds flt 10 raw)"

definition env_repeat_window :: "(string \<Rightarrow> rat option) \<Rightarrow> string option \<Rightarrow> rat" where
  "env_repeat_window flt raw =
     (let w = env_seconds flt 300 raw in if w \<le> 0 then 2 else w)"

definition env_escape_wall :: "(string \<Rightarrow> rat option) \<Rightarrow> string option \<Rightarrow> rat" where
  "env_escape_wall flt raw = env_seconds flt 240 raw"

definition env_escape_refusal :: "(string \<Rightarrow> rat option) \<Rightarrow> string option \<Rightarrow> rat" where
  "env_escape_refusal flt raw = env_seconds flt 60 raw"

definition env_fallback_limit :: "string option \<Rightarrow> int" where
  "env_fallback_limit raw =
     (case raw of
        None \<Rightarrow> 3
      | Some s \<Rightarrow>
          if py_strip s = [] then 3 else (case py_int s of None \<Rightarrow> 3 | Some n \<Rightarrow> max 0 n))"

definition env_ttl :: "(string \<Rightarrow> rat option) \<Rightarrow> string option \<Rightarrow> rat" where
  "env_ttl flt raw = env_seconds flt 150 raw"

definition read_knobs :: "(string \<Rightarrow> rat option) \<Rightarrow> (string \<Rightarrow> string option) \<Rightarrow> knobs" where
  "read_knobs flt env =
     \<lparr>mirror_local = env_mirror_local (env ''VLLM_KV_OFFLOAD_MIRROR_LOCAL''),
      mirror_offer_cap = env_offer_cap (env ''VLLM_KV_OFFLOAD_MIRROR_OFFER_CAP''),
      stale_max_lookups = env_max_lookups (env ''VLLM_KV_OFFLOAD_STALE_HIT_MAX_LOOKUPS''),
      pin_seconds = env_pin_seconds flt (env ''VLLM_KV_OFFLOAD_STALE_HIT_PIN_SECONDS''),
      repeat_window = env_repeat_window flt (env ''VLLM_KV_OFFLOAD_STALE_HIT_REPEAT_WINDOW''),
      escape_wall_secs = env_escape_wall flt (env ''VLLM_KV_OFFLOAD_ESCAPE_WALL_SECS''),
      escape_refusal_secs = env_escape_refusal flt (env ''VLLM_KV_OFFLOAD_ESCAPE_REFUSAL_SECS''),
      fallback_limit = env_fallback_limit (env ''VLLM_KV_OFFLOAD_STALE_HIT_FALLBACK_LIMIT''),
      ttl_secs = env_ttl flt (env ''VLLM_KV_OFFLOAD_STALE_HIT_TTL_SECS'')\<rparr>"

section \<open>Fixed configuration\<close>

record conn_config =
  cc_sched :: sched_config
  sliding_groups :: "nat list"
  lookup_groups :: "nat list"
  mamba_align_size :: "int option"
  partial_tail_block_size :: int
  cow_groups :: "nat set"
  cc_knobs :: knobs

text \<open>\<open>_group_config_by_idx\<close>: of two entries with one index the later one stays.\<close>

definition group_by_idx :: "sched_config \<Rightarrow> nat \<Rightarrow> group_config res" where
  "group_by_idx cfg i = od_get_item i (map (\<lambda>g. (group_idx g, g)) (rev (kv_groups cfg)))"

text \<open>Full-attention groups first, then the sliding-window groups by decreasing window.\<close>

definition window_of :: "sched_config \<Rightarrow> nat \<Rightarrow> int" where
  "window_of cfg i =
     (case group_by_idx cfg i of
        Inr g \<Rightarrow> (case sliding_window_chunks g of Some w \<Rightarrow> w | None \<Rightarrow> 0)
      | Inl e \<Rightarrow> 0)"

definition mk_conn_config :: "sched_config \<Rightarrow> int option \<Rightarrow> knobs \<Rightarrow> conn_config" where
  "mk_conn_config cfg mamba kn =
     (let full = map group_idx (filter (\<lambda>g. sliding_window_chunks g = None) (kv_groups cfg));
          sliding = map group_idx (filter (\<lambda>g. sliding_window_chunks g \<noteq> None) (kv_groups cfg));
          sliding = sort_key (\<lambda>i. - window_of cfg i) sliding
      in \<lparr>cc_sched = cfg, sliding_groups = sliding, lookup_groups = full @ sliding,
          mamba_align_size = mamba,
          partial_tail_block_size =
            (if supports_partial_tail cfg then tokens_per_block (kv_groups cfg ! 0) else 0),
          cow_groups = set (map group_idx (filter requires_cow_source (kv_groups cfg))),
          cc_knobs = kn\<rparr>)"

section \<open>Jobs and the connector's state\<close>

record job_status =
  js_req_id :: string
  js_pending_count :: int
  js_keys :: "offload_key set"
  js_is_store :: bool
  js_deferred :: "int list option"
  js_fenced :: "int list option"

datatype worker_job =
    LoadJob string "int list" gpu_spec
  | StoreJob string gpu_spec "int list"

record ('s, 'e) connector =
  c_manager :: 's
  c_tracker :: 'e
  c_stats :: stats
  c_reqs :: "(string, req_state) odict"
  c_load_jobs :: "(int, worker_job) odict"
  c_flush :: "int set"
  c_alloc :: "int set"
  c_loading :: "offload_key set option"
  c_job_counter :: int
  c_stale_threshold :: int
  c_jobs :: "(int, job_status) odict"
  c_pending :: "(int, int set) odict"
  c_mirror_offered :: int
  c_touched :: int
  c_throttled :: int
  c_skipped_stored :: int
  c_throttle_log_ts :: rat
  c_recomputed_blocks :: int
  c_recomputed_tokens :: int

definition init_connector :: "engine_config \<Rightarrow> 's \<Rightarrow> 'e \<Rightarrow> ('s, 'e) connector" where
  "init_connector eng mgr tracker =
     \<lparr>c_manager = mgr, c_tracker = tracker, c_stats = stats_reset, c_reqs = [], c_load_jobs = [],
      c_flush = {}, c_alloc = {}, c_loading = (if prefix_caching eng then Some {} else None),
      c_job_counter = 0, c_stale_threshold = 0, c_jobs = [], c_pending = [],
      c_mirror_offered = 0, c_touched = 0, c_throttled = 0, c_skipped_stored = 0,
      c_throttle_log_ts = 0, c_recomputed_blocks = 0, c_recomputed_tokens = 0\<rparr>"

text \<open>Calls into the manager and into the tracker.\<close>

definition ask_manager :: "('s \<Rightarrow> ('s \<times> 'a) res) \<Rightarrow> ('s, 'e) connector \<Rightarrow>
    (('s, 'e) connector \<times> 'a) res" where
  "ask_manager f c = bindE (f (c_manager c)) (\<lambda>(m, a). Inr (c\<lparr>c_manager := m\<rparr>, a))"

definition tell_manager :: "('s \<Rightarrow> 's res) \<Rightarrow> ('s, 'e) connector \<Rightarrow> ('s, 'e) connector res" where
  "tell_manager f c = bindE (f (c_manager c)) (\<lambda>m. Inr (c\<lparr>c_manager := m\<rparr>))"

definition track :: "('e, 'v) tracker_ops \<Rightarrow> tracker_call \<Rightarrow> ('s, 'e) connector \<Rightarrow>
    ('s, 'e) connector" where
  "track T call c = c\<lparr>c_tracker := t_record T call (c_tracker c)\<rparr>"

definition get_req :: "string \<Rightarrow> ('s, 'e) connector \<Rightarrow> req_state res" where
  "get_req rid c = od_get_item rid (c_reqs c)"

definition put_req :: "string \<Rightarrow> req_state \<Rightarrow> ('s, 'e) connector \<Rightarrow> ('s, 'e) connector" where
  "put_req rid rs c = c\<lparr>c_reqs := AList.update rid rs (c_reqs c)\<rparr>"

definition count_metric :: "string \<Rightarrow> py_num \<Rightarrow> ('s, 'e) connector \<Rightarrow> ('s, 'e) connector res" where
  "count_metric name v c =
     bindE (increase_counter (c_stats c) name v []) (\<lambda>st. Inr (c\<lparr>c_stats := st\<rparr>))"

text \<open>The observed times are differences of two clock readings, rounded as the code's subtraction.\<close>

definition observe_metric :: "string \<Rightarrow> rat \<Rightarrow> ('s, 'e) connector \<Rightarrow> ('s, 'e) connector res" where
  "observe_metric name v c =
     bindE (observe_histogram (c_stats c) name (PyFloat (double_of v)) []) (\<lambda>st. Inr (c\<lparr>c_stats := st\<rparr>))"

definition maybe_observe_async_delay :: "rat \<Rightarrow> req_state \<Rightarrow> ('s, 'e) connector \<Rightarrow>
    (('s, 'e) connector \<times> req_state) res" where
  "maybe_observe_async_delay now rs c =
     (case deferred_lookup_start_time rs of
        None \<Rightarrow> Inr (c, rs)
      | Some start \<Rightarrow>
          bindE (observe_metric ''vllm:kv_offload_lookup_async_delay_seconds'' (now - start) c)
            (\<lambda>c. Inr (c, rs\<lparr>deferred_lookup_start_time := None\<rparr>)))"

definition generate_job_id :: "('s, 'e) connector \<Rightarrow> ('s, 'e) connector \<times> int" where
  "generate_job_id c = (c\<lparr>c_job_counter := c_job_counter c + 1\<rparr>, c_job_counter c)"

section \<open>Fenced blocks\<close>

type_synonym pending = "(int, int set) odict"

definition fence :: "int \<Rightarrow> int \<Rightarrow> pending \<Rightarrow> pending" where
  "fence jid bid p = AList.update bid (insert jid (get_or bid {} p)) p"

definition unfence :: "int \<Rightarrow> int \<Rightarrow> pending \<Rightarrow> pending res" where
  "unfence jid bid p =
     bindE (od_get_item bid p) (\<lambda>js.
       if jid \<in> js
       then (let js' = js - {jid}
             in Inr (if js' = {} then AList.delete bid p else AList.update bid js' p))
       else Inl KeyError)"

definition remove_pending_job :: "int \<Rightarrow> int list option \<Rightarrow> pending \<Rightarrow> pending res" where
  "remove_pending_job jid bids p =
     foldE (unfence jid) (case bids of None \<Rightarrow> [] | Some bs \<Rightarrow> bs) p"

end
