(* ===== verification/Connector_Lookup.thy ===== *)
theory Connector_Lookup
  imports Connector_State
begin

text \<open>
  Model of the lookups of \<open>OffloadingConnectorScheduler\<close>
  (\<open>distributed/kv_transfer/kv_connector/v1/offloading/scheduler.py\<close>): the consecutive hits of a
  full-attention group, the last window of hits of a sliding-window group, the loop over the
  groups until they agree on one boundary, and the partial tail beyond the last whole chunk.

  A lookup answers \<open>None\<close> when the manager deferred it. \<open>M\<close>, \<open>X\<close> and \<open>T\<close> are the manager, the
  external helpers and the events tracker; the trace and log strings are left out.
\<close>

section \<open>Full-attention groups\<close>

definition note_one :: "(block_hash \<Rightarrow> bool) \<Rightarrow> int \<Rightarrow> offload_key \<Rightarrow>
    block_hash set \<times> int \<times> int \<Rightarrow> block_hash set \<times> int \<times> int" where
  "note_one check tpc key st =
     (let (counted, blocks, tokens) = st; h = get_offload_block_hash key in
      if h \<in> counted then st
      else if \<not> check h then st
      else (insert h counted, blocks + 1, tokens + tpc))"

definition note_recompute_after_eviction :: "'s mgr_ops \<Rightarrow> group_config \<Rightarrow> offload_key list \<Rightarrow>
    ('s, 'e) connector \<times> block_hash set \<Rightarrow> ('s, 'e) connector \<times> block_hash set" where
  "note_recompute_after_eviction M gc missed st =
     (let (c, counted) = st in
      case m_tombstone M of
        None \<Rightarrow> st
      | Some check \<Rightarrow>
          let (counted, blocks, tokens) =
                fold (note_one (\<lambda>h. check h (c_manager c)) (tokens_per_chunk gc)) missed (counted, 0, 0)
          in if blocks = 0 then (c, counted)
             else (c\<lparr>c_recomputed_blocks := c_recomputed_blocks c + blocks,
                     c_recomputed_tokens := c_recomputed_tokens c + tokens\<rparr>, counted))"

definition touch_hit :: "'s mgr_ops \<Rightarrow> knobs \<Rightarrow> offload_key \<Rightarrow> req_context \<Rightarrow> ('s, 'e) connector \<Rightarrow>
    ('s, 'e) connector res" where
  "touch_hit M kn key ctx c =
     (if mirror_local kn
      then bindE (tell_manager (m_touch M [key] ctx) c) (\<lambda>c. Inr (c\<lparr>c_touched := c_touched c + 1\<rparr>))
      else Inr c)"

fun prefix_scan :: "'s mgr_ops \<Rightarrow> ('e, 'v) tracker_ops \<Rightarrow> knobs \<Rightarrow> string \<Rightarrow> req_context \<Rightarrow>
    group_config \<Rightarrow> int \<Rightarrow> offload_key list \<Rightarrow> int \<Rightarrow> bool \<Rightarrow> ('s, 'e) connector \<times> block_hash set \<Rightarrow>
    (('s, 'e) connector \<times> block_hash set \<times> int option) res" where
  "prefix_scan M T kn rid ctx gc idx [] hits defer (c, counted) =
     Inr (c, counted, if defer then None else Some hits)"
| "prefix_scan M T kn rid ctx gc idx (key # keys) hits defer (c, counted) =
     bindE (ask_manager (m_lookup M key ctx) c) (\<lambda>(c, r).
       case r of
         HIT \<Rightarrow>
           bindE (touch_hit M kn key ctx (track T (RecordLookup rid (group_idx gc) idx key) c)) (\<lambda>c.
             prefix_scan M T kn rid ctx gc (idx + 1) keys (hits + 1) defer (c, counted))
       | HIT_PENDING \<Rightarrow> prefix_scan M T kn rid ctx gc (idx + 1) keys (hits + 1) True (c, counted)
       | RETRY \<Rightarrow> prefix_scan M T kn rid ctx gc (idx + 1) keys hits True (c, counted)
       | MISS \<Rightarrow>
           let (c, counted) =
                 (if \<not> defer \<and> m_tombstone M \<noteq> None
                  then note_recompute_after_eviction M gc (key # keys) (c, counted)
                  else (c, counted))
           in Inr (c, counted, if defer then None else Some hits))"

definition maximal_prefix_lookup :: "'s mgr_ops \<Rightarrow> ('e, 'v) tracker_ops \<Rightarrow> knobs \<Rightarrow> string \<Rightarrow>
    req_context \<Rightarrow> group_config \<Rightarrow> int \<Rightarrow> offload_key list \<Rightarrow> ('s, 'e) connector \<times> block_hash set \<Rightarrow>
    (('s, 'e) connector \<times> block_hash set \<times> int option) res" where
  "maximal_prefix_lookup M T kn rid ctx gc start keys st =
     prefix_scan M T kn rid ctx gc start keys 0 False st"

section \<open>Sliding-window groups\<close>

text \<open>\<open>n\<close> is one more than the index of the key that is looked up next.\<close>

fun window_scan :: "'s mgr_ops \<Rightarrow> req_context \<Rightarrow> int \<Rightarrow> offload_key list \<Rightarrow> nat \<Rightarrow> int \<Rightarrow> bool \<Rightarrow>
    ('s, 'e) connector \<Rightarrow> (('s, 'e) connector \<times> int option) res" where
  "window_scan M ctx w keys 0 run defer c = Inr (c, if defer then None else Some run)"
| "window_scan M ctx w keys (Suc i) run defer c =
     bindE (ask_manager (m_lookup M (keys ! i) ctx) c) (\<lambda>(c, r).
       let (run, defer) =
             (case r of
                HIT \<Rightarrow> (run + 1, defer)
              | HIT_PENDING \<Rightarrow> (run + 1, True)
              | RETRY \<Rightarrow> (0, True)
              | MISS \<Rightarrow> (0, defer))
       in if run = w then Inr (c, if defer then None else Some (int i + w))
          else window_scan M ctx w keys i run defer c)"

definition sliding_window_lookup :: "'s mgr_ops \<Rightarrow> req_context \<Rightarrow> int \<Rightarrow> offload_key list \<Rightarrow>
    ('s, 'e) connector \<Rightarrow> (('s, 'e) connector \<times> int option) res" where
  "sliding_window_lookup M ctx w keys c = window_scan M ctx w keys (length keys) 0 False c"

section \<open>Boundary keys and touching\<close>

definition make_boundary_key :: "sched_config \<Rightarrow> request \<Rightarrow> nat \<Rightarrow> int \<Rightarrow> offload_key res" where
  "make_boundary_key cfg rq g boundary =
     bindE (py_nth (block_hashes rq) (boundary div tokens_per_hash cfg - 1)) (\<lambda>h.
       make_offload_key h (int g))"

definition touch_group :: "'s mgr_ops \<Rightarrow> req_state \<Rightarrow> group_config \<Rightarrow> ('s, 'e) connector \<Rightarrow>
    ('s, 'e) connector res" where
  "touch_group M rs gc c =
     bindE (nth_res (group_states rs) (group_idx gc)) (\<lambda>gs.
       let keys = (case sliding_window_chunks gc of
                     None \<Rightarrow> offload_keys gs
                   | Some w \<Rightarrow> drop (nat (max 0 (num_hit_chunks gs - w))) (offload_keys gs))
       in tell_manager (m_touch M keys (rs_context rs)) c)"

definition boundary_keys :: "sched_config \<Rightarrow> request \<Rightarrow> int \<Rightarrow> offload_key list res" where
  "boundary_keys cfg rq boundary =
     foldE (\<lambda>gc ks. bindE (make_boundary_key cfg rq (group_idx gc) boundary) (\<lambda>k. Inr (ks @ [k])))
       (kv_groups cfg) []"

definition touch_request :: "'s mgr_ops \<Rightarrow> sched_config \<Rightarrow> request \<Rightarrow> req_state \<Rightarrow> ('s, 'e) connector \<Rightarrow>
    ('s, 'e) connector res" where
  "touch_request M cfg rq rs c =
     bindE (foldE (touch_group M rs) (kv_groups cfg) c) (\<lambda>c.
       case partial_tail_boundary rs of
         None \<Rightarrow> Inr c
       | Some b \<Rightarrow> bindE (boundary_keys cfg rq b) (\<lambda>ks. tell_manager (m_touch M ks (rs_context rs)) c))"

section \<open>Agreement of the groups\<close>

text \<open>
  The local variables of \<open>_lookup_complete_chunks\<close>; \<open>sc_again\<close> is \<open>lookup_groups\<close>, the groups of
  the next iteration of the \<open>while\<close> loop, and \<open>sc_sw\<close> is \<open>looked_up_sliding_window\<close>.
\<close>

record ('s, 'e) scan =
  sc_conn :: "('s, 'e) connector"
  sc_counted :: "block_hash set"
  sc_max :: int
  sc_hit :: int
  sc_defer :: bool
  sc_verified :: "nat set"
  sc_again :: "nat list"
  sc_sw :: bool

text \<open>The lookup of one group, up to the number of chunks hit.\<close>

definition query_group :: "'s mgr_ops \<Rightarrow> ext_ops \<Rightarrow> ('e, 'v) tracker_ops \<Rightarrow> conn_config \<Rightarrow> string \<Rightarrow>
    req_state \<Rightarrow> group_config \<Rightarrow> offload_key list \<Rightarrow> bool \<Rightarrow> int \<Rightarrow>
    ('s, 'e) connector \<times> block_hash set \<Rightarrow> (('s, 'e) connector \<times> block_hash set \<times> int option) res" where
  "query_group M X T cc rid rs gc keys unverified mx st =
     (let tpc = tokens_per_chunk gc; n = int (length keys);
          query_max = (if unverified \<and> sliding_window_chunks gc \<noteq> None then min (mx + tpc) (n * tpc) else mx);
          num_chunks = min (x_cdiv X query_max tpc) n;
          start = num_locally_computed_tokens rs div tpc;
          ks = py_slice start num_chunks keys
      in case sliding_window_chunks gc of
           None \<Rightarrow> maximal_prefix_lookup M T (cc_knobs cc) rid (rs_context rs) gc start ks st
         | Some w \<Rightarrow>
             bindE (sliding_window_lookup M (rs_context rs) (if unverified then w + 1 else w) ks (fst st))
               (\<lambda>(c, r). Inr (c, snd st, r)))"

text \<open>The result of a group's lookup enters the local variables.\<close>

definition absorb_result :: "group_config \<Rightarrow> int \<Rightarrow> nat \<Rightarrow> bool \<Rightarrow> int \<Rightarrow> int option \<Rightarrow>
    ('s, 'e) scan \<Rightarrow> ('s, 'e) scan" where
  "absorb_result gc computed g unverified mx r s =
     (case r of
        None \<Rightarrow> s\<lparr>sc_defer := True, sc_max := mx\<rparr>
      | Some n \<Rightarrow>
          s\<lparr>sc_verified := (if unverified then insert g (sc_verified s) else sc_verified s),
            sc_max := min mx (tokens_per_chunk gc *
              (computed div tokens_per_chunk gc + (if unverified then n - 1 else n)))\<rparr>)"

text \<open>The boundary moved back after another group had agreed on it.\<close>

definition note_tightened :: "conn_config \<Rightarrow> group_config \<Rightarrow> ('s, 'e) scan \<Rightarrow> ('s, 'e) scan" where
  "note_tightened cc gc s =
     (let s = (if is_eagle_group gc then s else s\<lparr>sc_verified := {}\<rparr>)
      in if sc_defer s then s\<lparr>sc_defer := False, sc_again := lookup_groups cc\<rparr>
         else if sc_sw s \<and> sc_again s = [] then s\<lparr>sc_again := sliding_groups cc\<rparr>
         else s)"

text \<open>The rest of an iteration once the hit of the group is known.\<close>

definition settle_group :: "conn_config \<Rightarrow> int \<Rightarrow> group_config \<Rightarrow> ('s, 'e) scan \<Rightarrow> ('s, 'e) scan \<times> bool" where
  "settle_group cc computed gc s =
     (let new = sc_max s - computed in
      if new < tokens_per_chunk gc then (s, True)
      else
        let s = (if new < sc_hit s then note_tightened cc gc s else s)
        in (s\<lparr>sc_sw := sc_sw s \<or> sliding_window_chunks gc \<noteq> None, sc_hit := new\<rparr>, False))"

text \<open>One iteration of the \<open>for\<close> loop; the flag says that the code returns 0 here.\<close>

definition scan_group :: "'s mgr_ops \<Rightarrow> ext_ops \<Rightarrow> ('e, 'v) tracker_ops \<Rightarrow> conn_config \<Rightarrow> string \<Rightarrow>
    request \<Rightarrow> req_state \<Rightarrow> nat \<Rightarrow> ('s, 'e) scan \<Rightarrow> (('s, 'e) scan \<times> bool) res" where
  "scan_group M X T cc rid rq rs g s =
     bindE (group_by_idx (cc_sched cc) g) (\<lambda>gc.
     bindE (nth_res (group_states rs) g) (\<lambda>gs.
       let tpc = tokens_per_chunk gc; keys = offload_keys gs; computed = num_locally_computed_tokens rs in
       assertE (int (length keys) \<ge> num_tokens rq div tpc)
       (let unverified = is_eagle_group gc \<and> g \<notin> sc_verified s;
            mx = min (sc_max s) (int (length keys) * tpc)
        in if mx - computed < tpc then Inr (s\<lparr>sc_max := mx\<rparr>, True)
           else bindE (query_group M X T cc rid rs gc keys unverified mx (sc_conn s, sc_counted s))
             (\<lambda>(c, counted, r).
               let s = s\<lparr>sc_conn := c, sc_counted := counted\<rparr> in
               if r = Some 0 then Inr (s\<lparr>sc_max := mx\<rparr>, True)
               else Inr (settle_group cc computed gc
                          (absorb_result gc computed g unverified mx r s))))))"

fun scan_pass :: "'s mgr_ops \<Rightarrow> ext_ops \<Rightarrow> ('e, 'v) tracker_ops \<Rightarrow> conn_config \<Rightarrow> string \<Rightarrow>
    request \<Rightarrow> req_state \<Rightarrow> nat list \<Rightarrow> ('s, 'e) scan \<Rightarrow> (('s, 'e) scan \<times> bool) res" where
  "scan_pass M X T cc rid rq rs [] s = Inr (s, False)"
| "scan_pass M X T cc rid rq rs (g # gs) s =
     bindE (scan_group M X T cc rid rq rs g s) (\<lambda>(s, abort).
       if abort then Inr (s, True) else scan_pass M X T cc rid rq rs gs s)"

text \<open>The \<open>while\<close> loop, at most \<open>fuel\<close> iterations.\<close>

fun scan_loop :: "'s mgr_ops \<Rightarrow> ext_ops \<Rightarrow> ('e, 'v) tracker_ops \<Rightarrow> conn_config \<Rightarrow> string \<Rightarrow>
    request \<Rightarrow> req_state \<Rightarrow> nat \<Rightarrow> ('s, 'e) scan \<Rightarrow> (('s, 'e) scan \<times> bool) res" where
  "scan_loop M X T cc rid rq rs fuel s =
     (if sc_again s = [] then Inr (s, False)
      else case fuel of
        0 \<Rightarrow> Inl Diverges
      | Suc fuel \<Rightarrow>
          bindE (scan_pass M X T cc rid rq rs (sc_again s) (s\<lparr>sc_again := [], sc_sw := False\<rparr>))
            (\<lambda>(s, abort). if abort then Inr (s, True) else scan_loop M X T cc rid rq rs fuel s))"

declare scan_loop.simps [simp del]

definition initial_max_hit :: "ext_ops \<Rightarrow> conn_config \<Rightarrow> request \<Rightarrow> int" where
  "initial_max_hit X cc rq =
     (if sliding_groups cc = [] then num_tokens rq
      else case mamba_align_size cc of
        None \<Rightarrow> num_tokens rq - 1
      | Some a \<Rightarrow> x_round_down X (num_tokens rq - 1) a)"

text \<open>The chunks of one group that a load of \<open>hit\<close> tokens would read.\<close>

definition hit_keys :: "ext_ops \<Rightarrow> req_state \<Rightarrow> int \<Rightarrow> group_config \<Rightarrow> offload_key list res" where
  "hit_keys X rs hit gc =
     bindE (nth_res (group_states rs) (group_idx gc)) (\<lambda>gs.
       let tpc = tokens_per_chunk gc; computed = num_locally_computed_tokens rs;
           ks = py_slice (computed div tpc) (x_cdiv X (computed + hit) tpc) (offload_keys gs)
       in Inr (case sliding_window_chunks gc of
                 None \<Rightarrow> ks
               | Some w \<Rightarrow> py_slice (- w) (int (length ks)) ks))"

fun any_being_loaded :: "ext_ops \<Rightarrow> req_state \<Rightarrow> int \<Rightarrow> offload_key set \<Rightarrow> group_config list \<Rightarrow>
    bool res" where
  "any_being_loaded X rs hit loading [] = Inr False"
| "any_being_loaded X rs hit loading (gc # gcs) =
     bindE (hit_keys X rs hit gc) (\<lambda>ks.
       if list_ex (\<lambda>k. k \<in> loading) ks then Inr True else any_being_loaded X rs hit loading gcs)"

definition scan_fuel :: "request \<Rightarrow> nat" where
  "scan_fuel rq = nat (num_tokens rq) + 1"

definition lookup_complete_chunks :: "'s mgr_ops \<Rightarrow> ext_ops \<Rightarrow> ('e, 'v) tracker_ops \<Rightarrow> conn_config \<Rightarrow>
    string \<Rightarrow> request \<Rightarrow> req_state \<Rightarrow> ('s, 'e) connector \<Rightarrow>
    (('s, 'e) connector \<times> req_state \<times> int option) res" where
  "lookup_complete_chunks M X T cc rid rq rs c =
     bindE (scan_loop M X T cc rid rq rs (scan_fuel rq)
              \<lparr>sc_conn = c, sc_counted = tombstone_counted_hashes rs, sc_max = initial_max_hit X cc rq,
               sc_hit = 0, sc_defer = False, sc_verified = {}, sc_again = lookup_groups cc,
               sc_sw = False\<rparr>)
       (\<lambda>(s, abort).
         let c = sc_conn s; rs = rs\<lparr>tombstone_counted_hashes := sc_counted s\<rparr> in
         if abort then Inr (c, rs, Some 0)
         else if sc_defer s then Inr (c, rs, None)
         else case c_loading c of
           None \<Rightarrow> Inr (c, rs, Some (sc_hit s))
         | Some loading \<Rightarrow>
             if loading = {} then Inr (c, rs, Some (sc_hit s))
             else bindE (any_being_loaded X rs (sc_hit s) loading (kv_groups (cc_sched cc)))
               (\<lambda>b. Inr (c, rs, if b then None else Some (sc_hit s))))"

section \<open>The partial tail\<close>

text \<open>\<open>range(hi, lo, -step)\<close> for a positive step.\<close>

definition down_range :: "int \<Rightarrow> int \<Rightarrow> int \<Rightarrow> int list" where
  "down_range hi lo step = map (\<lambda>k. hi - int k * step) [0..<nat ((hi - lo + step - 1) div step)]"

fun probe_groups :: "'s mgr_ops \<Rightarrow> sched_config \<Rightarrow> request \<Rightarrow> req_context \<Rightarrow> int \<Rightarrow>
    group_config list \<Rightarrow> (group_config \<times> offload_key) list \<Rightarrow> bool \<Rightarrow> ('s, 'e) connector \<Rightarrow>
    (('s, 'e) connector \<times> (group_config \<times> offload_key) list \<times> bool \<times> bool) res" where
  "probe_groups M cfg rq ctx b [] keys pend c = Inr (c, keys, pend, False)"
| "probe_groups M cfg rq ctx b (gc # gcs) keys pend c =
     bindE (make_boundary_key cfg rq (group_idx gc) b) (\<lambda>key.
     bindE (ask_manager (m_lookup M key ctx) c) (\<lambda>(c, r).
       if r = MISS then Inr (c, keys @ [(gc, key)], pend, True)
       else probe_groups M cfg rq ctx b gcs (keys @ [(gc, key)])
              (pend \<or> r = HIT_PENDING \<or> r = RETRY) c))"

fun probe_boundaries :: "'s mgr_ops \<Rightarrow> ('e, 'v) tracker_ops \<Rightarrow> sched_config \<Rightarrow> string \<Rightarrow> request \<Rightarrow>
    req_context \<Rightarrow> int list \<Rightarrow> bool \<Rightarrow> ('s, 'e) connector \<Rightarrow>
    (('s, 'e) connector \<times> bool \<times> int option) res" where
  "probe_boundaries M T cfg rid rq ctx [] pending c = Inr (c, pending, None)"
| "probe_boundaries M T cfg rid rq ctx (b # bs) pending c =
     bindE (probe_groups M cfg rq ctx b (kv_groups cfg) [] False c) (\<lambda>(c, keys, pend, missed).
       if \<not> missed \<and> \<not> pend
       then Inr (fold (\<lambda>(gc, key). track T (RecordPartialLookup rid (group_idx gc) b key)) keys c,
                 pending \<or> pend, Some b)
       else probe_boundaries M T cfg rid rq ctx bs (pending \<or> pend) c)"

definition lookup_request :: "'s mgr_ops \<Rightarrow> ext_ops \<Rightarrow> ('e, 'v) tracker_ops \<Rightarrow> conn_config \<Rightarrow>
    string \<Rightarrow> request \<Rightarrow> req_state \<Rightarrow> ('s, 'e) connector \<Rightarrow>
    (('s, 'e) connector \<times> req_state \<times> int option) res" where
  "lookup_request M X T cc rid rq rs c =
     bindE (lookup_complete_chunks M X T cc rid rq rs c) (\<lambda>(c, rs, complete_hit).
       let rs = rs\<lparr>partial_tail_boundary := None\<rparr>; cfg = cc_sched cc in
       case complete_hit of
         None \<Rightarrow> Inr (c, rs, None)
       | Some hit \<Rightarrow>
           if \<not> supports_partial_tail cfg then Inr (c, rs, Some hit)
           else
             let complete = num_locally_computed_tokens rs + hit;
                 block_end = complete + partial_tail_block_size cc;
                 max_boundary = x_round_down X (min (num_prompt_tokens rq - 1) (block_end - 1))
                                  (tokens_per_hash cfg)
             in if max_boundary \<le> complete then Inr (c, rs, Some hit)
                else bindE (probe_boundaries M T cfg rid rq (rs_context rs)
                             (down_range max_boundary complete (tokens_per_hash cfg)) False c)
                  (\<lambda>(c, pending, found).
                    case found of
                      Some b \<Rightarrow> Inr (c, rs\<lparr>partial_tail_boundary := Some b\<rparr>,
                                     Some (b - num_locally_computed_tokens rs))
                    | None \<Rightarrow> Inr (c, rs, if pending \<and> hit = 0 then None else Some hit)))"

definition on_new_request :: "'s mgr_ops \<Rightarrow> conn_config \<Rightarrow> string \<Rightarrow> request \<Rightarrow> ('s, 'e) connector \<Rightarrow>
    ('s, 'e) connector res" where
  "on_new_request M cc rid rq c =
     (let ctx = create_req_context rid rq in
      bindE (ask_manager (m_new_request M ctx) c) (\<lambda>(c, pol).
        Inr (put_req rid (init_req_state (cc_sched cc) rq ctx pol) c)))"

end
