(* ===== verification/Connector_Stale.thy ===== *)
theory Connector_Stale
  imports Connector_Lookup
begin

text \<open>
  Model of \<open>get_num_new_matched_tokens\<close>
  (\<open>distributed/kv_transfer/kv_connector/v1/offloading/scheduler.py\<close>): the lookup of a waiting
  request together with the ladder that keeps a hit which never becomes a load from being
  reported forever. In order: a request with transfers in flight waits; in escape mode, or while
  pinned, the answer is (0, False) without a lookup; a claim that led to the escape is blocked;
  identical repeats within the window use up a budget, then the answer is (0, False), and after
  enough such fallbacks the request escapes.

  The code reads \<open>time.monotonic()\<close> at several places; \<open>clk\<close> gives the reading of each place.
\<close>

datatype clock_site =
    ClkHold | ClkRefusal | ClkClaim | ClkPinLapse | ClkLookupStart | ClkLookupEnd | ClkAsync
  | ClkBlockWall | ClkBlock | ClkNow | ClkPin

text \<open>A gate answers (0, False) for the call, or lets it go on.\<close>

datatype gate = Answer stale_hit | Go_on stale_hit

primrec gate_state :: "gate \<Rightarrow> stale_hit" where
  "gate_state (Answer st) = st"
| "gate_state (Go_on st) = st"

section \<open>Escape mode\<close>

definition release_progress :: "stale_hit \<Rightarrow> stale_hit" where
  "release_progress st =
     st\<lparr>escape := False, streak := 0, repeat_count := 0, fallback_count := 0, wall_start := 0,
        refusal_until := 0, refusal_notified := False, claim_active := False,
        claim_hit_tokens := - 1, claim_num_computed := - 1\<rparr>"

definition release_wall :: "stale_hit \<Rightarrow> stale_hit" where
  "release_wall st =
     st\<lparr>escape := False, streak := 0, repeat_count := 0, fallback_count := 0, wall_start := 0,
        refusal_until := 0, refusal_notified := False\<rparr>"

definition escape_gate :: "knobs \<Rightarrow> (clock_site \<Rightarrow> rat) \<Rightarrow> int \<Rightarrow> stale_hit \<Rightarrow> gate" where
  "escape_gate kn clk computed st =
     (if \<not> escape st then Go_on st
      else if computed \<noteq> last_num_computed st then Go_on (release_progress st)
      else
        let hold = (if wall_start st > 0 then clk ClkHold - wall_start st else 0)
        in if escape_wall_secs kn > 0 \<and> hold \<ge> escape_wall_secs kn then
             if escape_refusal_secs kn > 0 \<and> refusal_until st > clk ClkRefusal
             then Answer (st\<lparr>refusal_notified := True\<rparr>)
             else if claim_active st
             then Answer (st\<lparr>wall_start := clk ClkClaim,
                            refusal_until := clk ClkClaim + escape_wall_secs kn,
                            refusal_notified := True\<rparr>)
             else Go_on (release_wall st)
           else Answer st)"

section \<open>The pin\<close>

definition pin_gate :: "knobs \<Rightarrow> (clock_site \<Rightarrow> rat) \<Rightarrow> int \<Rightarrow> stale_hit \<Rightarrow> gate" where
  "pin_gate kn clk computed st =
     (if pin_seconds kn > 0 then
        let st = (if pinned_until st \<noteq> 0 \<and> clk ClkPinLapse \<ge> pinned_until st
                  then st\<lparr>pinned_until := 0\<rparr> else st)
        in if pinned_until st \<noteq> 0 then
             if computed \<noteq> last_num_computed st then Go_on (st\<lparr>pinned_until := 0\<rparr>)
             else Answer st
           else Go_on st
      else Go_on st)"

section \<open>The claim block\<close>

definition truthy :: "int option \<Rightarrow> bool" where
  "truthy hit \<longleftrightarrow> hit \<noteq> None \<and> hit \<noteq> Some 0"

definition claim_gate :: "knobs \<Rightarrow> (clock_site \<Rightarrow> rat) \<Rightarrow> int option \<Rightarrow> int \<Rightarrow> stale_hit \<Rightarrow> gate" where
  "claim_gate kn clk hit computed st =
     (if truthy hit \<and> escape_refusal_secs kn > 0 \<and> claim_active st \<and>
         hit = Some (claim_hit_tokens st) \<and> computed = claim_num_computed st
      then
        let st = (if escape st then st
                  else if wall_start st \<le> 0 then st\<lparr>escape := True, wall_start := clk ClkBlockWall\<rparr>
                  else st\<lparr>escape := True\<rparr>)
        in Answer (st\<lparr>last_hit_tokens := Some 0, last_num_computed := computed, last_ts := clk ClkBlock\<rparr>)
      else Go_on st)"

section \<open>The budget\<close>

text \<open>A repeat that used up the budget: a fallback, which may force the escape or set the pin.\<close>

definition fall_back :: "knobs \<Rightarrow> (clock_site \<Rightarrow> rat) \<Rightarrow> int \<Rightarrow> int \<Rightarrow> stale_hit \<Rightarrow> stale_hit" where
  "fall_back kn clk hit computed st =
     (let now = clk ClkNow;
          st = st\<lparr>streak := 0, fallback_count := fallback_count st + 1\<rparr>;
          wall = (if wall_start st > 0 then now - wall_start st else 0);
          force = (fallback_limit kn > 0 \<and> fallback_count st \<ge> fallback_limit kn) \<or>
                  (ttl_secs kn > 0 \<and> wall_start st > 0 \<and> wall \<ge> ttl_secs kn)
      in if force then
           let st = st\<lparr>escape := True, pinned_until := 0, fallback_count := 0\<rparr>
           in if escape_refusal_secs kn > 0
              then st\<lparr>refusal_until := now + escape_refusal_secs kn, refusal_notified := False,
                      claim_active := True, claim_hit_tokens := hit,
                      claim_num_computed := computed\<rparr>
              else st
         else if pin_seconds kn > 0 then st\<lparr>pinned_until := clk ClkPin + pin_seconds kn\<rparr>
         else st)"

definition is_repeat :: "knobs \<Rightarrow> int option \<Rightarrow> int \<Rightarrow> stale_hit \<Rightarrow> bool" where
  "is_repeat kn hit computed st \<longleftrightarrow>
     truthy hit \<and> stale_max_lookups kn \<noteq> 0 \<and> hit = last_hit_tokens st \<and> computed = last_num_computed st"

definition no_repeat :: "int option \<Rightarrow> int \<Rightarrow> stale_hit \<Rightarrow> stale_hit" where
  "no_repeat hit computed st =
     (let st = st\<lparr>streak := 0, repeat_count := 0, fallback_count := 0, wall_start := 0, escape := False,
                  refusal_until := 0, refusal_notified := False\<rparr>
      in if hit \<noteq> Some (claim_hit_tokens st) \<or> computed \<noteq> claim_num_computed st
         then st\<lparr>claim_active := False, claim_hit_tokens := - 1, claim_num_computed := - 1\<rparr>
         else st)"

text \<open>\<open>Answer\<close> is the fallback; otherwise the hit is reported.\<close>

definition stale_ladder :: "knobs \<Rightarrow> (clock_site \<Rightarrow> rat) \<Rightarrow> int option \<Rightarrow> int \<Rightarrow> stale_hit \<Rightarrow> gate" where
  "stale_ladder kn clk hit computed st =
     (let now = clk ClkNow;
          record_hit = (\<lambda>st. st\<lparr>last_hit_tokens := hit, last_num_computed := computed, last_ts := now\<rparr>)
      in if is_repeat kn hit computed st then
           let st = (if wall_start st \<le> 0 then st\<lparr>wall_start := now\<rparr> else st)
           in if now - last_ts st < repeat_window kn then
                let st = st\<lparr>streak := streak st + 1, repeat_count := repeat_count st + 1\<rparr>
                in if streak st \<ge> stale_max_lookups kn
                   then Answer (fall_back kn clk (the hit) computed st)
                   else Go_on (record_hit st)
              else Go_on (record_hit (st\<lparr>streak := 0\<rparr>))
         else Go_on (record_hit (no_repeat hit computed st)))"

section \<open>The call\<close>

definition clear_block_ids :: "req_state \<Rightarrow> req_state" where
  "clear_block_ids rs = rs\<lparr>group_states := map (\<lambda>gs. gs\<lparr>block_ids := []\<rparr>) (group_states rs)\<rparr>"

text \<open>The lookup with its two delay metrics.\<close>

definition timed_lookup :: "'s mgr_ops \<Rightarrow> ext_ops \<Rightarrow> ('e, 'v) tracker_ops \<Rightarrow> conn_config \<Rightarrow>
    (clock_site \<Rightarrow> rat) \<Rightarrow> string \<Rightarrow> request \<Rightarrow> req_state \<Rightarrow> ('s, 'e) connector \<Rightarrow>
    (('s, 'e) connector \<times> req_state \<times> int option) res" where
  "timed_lookup M X T cc clk rid rq rs c =
     (if skip_reading_prefix_cache rq then Inr (c, rs, Some 0)
      else
        bindE (lookup_request M X T cc rid rq rs c) (\<lambda>(c, rs, hit).
        bindE (observe_metric ''vllm:kv_offload_lookup_sync_delay_seconds''
                 (clk ClkLookupEnd - clk ClkLookupStart) c) (\<lambda>c.
          case hit of
            None \<Rightarrow>
              Inr (c, (if deferred_lookup_start_time rs = None
                       then rs\<lparr>deferred_lookup_start_time := Some (clk ClkLookupStart)\<rparr> else rs), None)
          | Some h \<Rightarrow>
              bindE (maybe_observe_async_delay (clk ClkAsync) rs c) (\<lambda>(c, rs). Inr (c, rs, Some h)))))"

definition matched_after_gates :: "'s mgr_ops \<Rightarrow> ext_ops \<Rightarrow> ('e, 'v) tracker_ops \<Rightarrow> conn_config \<Rightarrow>
    (clock_site \<Rightarrow> rat) \<Rightarrow> string \<Rightarrow> request \<Rightarrow> int \<Rightarrow> req_state \<Rightarrow> ('s, 'e) connector \<Rightarrow>
    (('s, 'e) connector \<times> req_state \<times> int option \<times> bool) res" where
  "matched_after_gates M X T cc clk rid rq computed rs c =
     bindE (update_offload_keys (cc_sched cc) rq rs) (\<lambda>rs.
     bindE (timed_lookup M X T cc clk rid rq (rs\<lparr>num_locally_computed_tokens := computed\<rparr>) c)
       (\<lambda>(c, rs, hit).
         case claim_gate (cc_knobs cc) clk hit computed (stale rs) of
           Answer st \<Rightarrow> Inr (c, rs\<lparr>stale := st\<rparr>, Some 0, False)
         | Go_on st \<Rightarrow>
             bindE (update_num_hit_chunks (cc_sched cc)
                      (computed + (case hit of None \<Rightarrow> 0 | Some h \<Rightarrow> h)) rs) (\<lambda>rs.
             bindE (touch_request M (cc_sched cc) rq rs c) (\<lambda>c.
               case stale_ladder (cc_knobs cc) clk hit computed (stale rs) of
                 Answer st \<Rightarrow> Inr (c, rs\<lparr>stale := st\<rparr>, Some 0, False)
               | Go_on st \<Rightarrow> Inr (c, rs\<lparr>stale := st\<rparr>, hit, truthy hit)))))"

definition get_num_new_matched_tokens :: "'s mgr_ops \<Rightarrow> ext_ops \<Rightarrow> ('e, 'v) tracker_ops \<Rightarrow>
    conn_config \<Rightarrow> (clock_site \<Rightarrow> rat) \<Rightarrow> string \<Rightarrow> request \<Rightarrow> int \<Rightarrow> ('s, 'e) connector \<Rightarrow>
    (('s, 'e) connector \<times> int option \<times> bool) res" where
  "get_num_new_matched_tokens M X T cc clk rid rq computed c =
     bindE (get_req rid c) (\<lambda>rs.
       let rs = clear_block_ids rs in
       if transfer_jobs rs \<noteq> {} then Inr (put_req rid rs c, None, False)
       else case escape_gate (cc_knobs cc) clk computed (stale rs) of
         Answer st \<Rightarrow> Inr (put_req rid (rs\<lparr>stale := st\<rparr>) c, Some 0, False)
       | Go_on st \<Rightarrow>
           (case pin_gate (cc_knobs cc) clk computed st of
              Answer st \<Rightarrow> Inr (put_req rid (rs\<lparr>stale := st\<rparr>) c, Some 0, False)
            | Go_on st \<Rightarrow>
                bindE (matched_after_gates M X T cc clk rid rq computed (rs\<lparr>stale := st\<rparr>) c)
                  (\<lambda>(c, rs, hit, async). Inr (put_req rid rs c, hit, async))))"

definition is_stale_hit_escape :: "string \<Rightarrow> ('s, 'e) connector \<Rightarrow> bool" where
  "is_stale_hit_escape rid c =
     (case map_of (c_reqs c) rid of None \<Rightarrow> False | Some rs \<Rightarrow> escape (stale rs))"

end
