(* ===== verification/Connector_Loads.thy ===== *)
theory Connector_Loads
  imports Connector_Stale
begin

text \<open>
  Model of the load jobs and of the per-step request bookkeeping of
  \<open>OffloadingConnectorScheduler\<close>
  (\<open>distributed/kv_transfer/kv_connector/v1/offloading/scheduler.py\<close>):
  \<open>update_state_after_alloc\<close>, which turns a reported hit and the blocks the engine allocated
  for it into one load job, and \<open>_update_req_states\<close>, which records the blocks a step allocated
  and zeroes the sliding-window blocks that were given to another request.
\<close>

section \<open>Loading\<close>

record gpu_block =
  gb_id :: int
  gb_null :: bool
  gb_hashed :: bool

record load_plan =
  lp_keys :: "offload_key list"
  lp_dst :: "int list"
  lp_sizes :: "int list"
  lp_indices :: "int list"
  lp_groups :: "group_state list"

text \<open>The index of the first block that is neither a placeholder nor cached, \<open>n\<close> if there is none.\<close>

definition first_uncached :: "int \<Rightarrow> gpu_block list \<Rightarrow> int" where
  "first_uncached n blocks =
     (case find (\<lambda>i. \<not> gb_null (blocks ! i) \<and> \<not> gb_hashed (blocks ! i)) [0..<min (nat n) (length blocks)] of
        None \<Rightarrow> n
      | Some i \<Rightarrow> int i)"

definition load_group :: "ext_ops \<Rightarrow> sched_config \<Rightarrow> request \<Rightarrow> req_state \<Rightarrow> gpu_block list list \<Rightarrow>
    int \<Rightarrow> group_config \<Rightarrow> load_plan \<Rightarrow> load_plan res" where
  "load_group X cfg rq rs blocks cached gc lp =
     (let g = group_idx gc; local = num_locally_computed_tokens rs; tail = partial_tail_boundary rs in
      bindE (nth_res (lp_groups lp) g) (\<lambda>gs.
      bindE (nth_res blocks g) (\<lambda>bs.
        let num_gpu = x_cdiv X cached (tokens_per_block gc);
            first = first_uncached num_gpu bs;
            pending = num_gpu - first;
            num_chunks = x_cdiv X cached (tokens_per_chunk gc);
            end_chunk = num_chunks - (if tail = None then 0 else 1)
        in assertE (int (length bs) \<ge> num_gpu)
          (assertE (local \<le> first * tokens_per_block gc)
          (assertE (case sliding_window_chunks gc of
                      None \<Rightarrow> True | Some w \<Rightarrow> pending \<le> w * blocks_per_chunk cfg + 1)
          (bindE (if pending = 0 then Inr []
                  else assertE (int (length (offload_keys gs)) \<ge> end_chunk)
                    (let ks = py_slice (first div blocks_per_chunk cfg) end_chunk (offload_keys gs)
                     in case tail of
                          None \<Rightarrow> Inr ks
                        | Some b \<Rightarrow> bindE (make_boundary_key cfg rq g b) (\<lambda>k. Inr (ks @ [k])))) (\<lambda>ks.
             Inr (lp\<lparr>lp_keys := lp_keys lp @ ks,
                     lp_dst := lp_dst lp @ map gb_id (py_slice first num_gpu bs),
                     lp_sizes := (lp_sizes lp)[g := pending],
                     lp_indices := (lp_indices lp)[g := first],
                     lp_groups := (if rs_policy rs = BLOCK_LEVEL
                                   then (lp_groups lp)[g := gs\<lparr>next_stored_chunk_idx := num_chunks\<rparr>]
                                   else lp_groups lp)\<rparr>))))))))"

definition allocated_ids :: "int list list \<Rightarrow> int set" where
  "allocated_ids groups = set (filter (\<lambda>i. i \<noteq> 0) (concat groups))"

definition update_state_after_alloc :: "'s mgr_ops \<Rightarrow> ext_ops \<Rightarrow> conn_config \<Rightarrow> string \<Rightarrow> request \<Rightarrow>
    gpu_block list list \<Rightarrow> int \<Rightarrow> ('s, 'e) connector \<Rightarrow> ('s, 'e) connector res" where
  "update_state_after_alloc M X cc rid rq blocks num_external c =
     (if num_external = 0 then Inr c
      else
        let cfg = cc_sched cc; n = num_kv_cache_groups cfg in
        bindE (get_req rid c) (\<lambda>rs.
        let cached = num_locally_computed_tokens rs + num_external in
        assertE (partial_tail_boundary rs = None \<or> partial_tail_boundary rs = Some cached)
        (let c = c\<lparr>c_alloc := c_alloc c \<union> allocated_ids (map (map gb_id) blocks)\<rparr> in
         bindE (foldE (load_group X cfg rq rs blocks cached) (kv_groups cfg)
                  \<lparr>lp_keys = [], lp_dst = [], lp_sizes = replicate n 0, lp_indices = replicate n 0,
                   lp_groups = group_states rs\<rparr>) (\<lambda>lp.
         bindE (ask_manager (m_prepare_load M (lp_keys lp) (rs_context rs)) c) (\<lambda>(c, src).
         bindE (mk_gpu_spec (lp_dst lp) (lp_sizes lp) (lp_indices lp)) (\<lambda>dst.
           let (c, jid) = generate_job_id c in
           assertE (transfer_jobs rs = {})
             (Inr (put_req rid
                    (rs\<lparr>group_states := lp_groups lp, transfer_jobs := {jid},
                        partial_tail_boundary := None\<rparr>)
                    (c\<lparr>c_load_jobs := AList.update jid (LoadJob rid src dst) (c_load_jobs c),
                       c_jobs := AList.update jid
                         \<lparr>js_req_id = rid, js_pending_count = num_workers cfg,
                          js_keys = set (lp_keys lp), js_is_store = False,
                          js_deferred = None, js_fenced = None\<rparr> (c_jobs c),
                       c_loading := map_option (\<lambda>s. s \<union> set (lp_keys lp)) (c_loading c)\<rparr>)))))))))"

section \<open>The requests of a step\<close>

text \<open>
  What the code reads of \<open>SchedulerOutput\<close>; \<open>so_req_data\<close> is what \<open>yield_req_data\<close> yields. An
  absent collection and an empty one are treated alike by the code.
\<close>

record sched_output =
  so_req_data :: "(string \<times> int list list option \<times> bool) list"
  so_new_reqs :: "string list"
  so_preempted :: "string list"
  so_scheduled :: "(string, int) odict"
  so_finished :: "string list"
  so_partial_tails :: "(string, (nat \<times> int \<times> int) list) odict"

definition group_lengths :: "nat list \<Rightarrow> req_state \<Rightarrow> nat list res" where
  "group_lengths gs rs =
     mapE (\<lambda>g. bindE (nth_res (group_states rs) g) (\<lambda>st. Inr (length (block_ids st)))) gs"

definition req_data_one :: "conn_config \<Rightarrow> (string \<Rightarrow> request) \<Rightarrow>
    string \<times> int list list option \<times> bool \<Rightarrow> ('s, 'e) connector \<times> (string, nat list) odict \<Rightarrow>
    (('s, 'e) connector \<times> (string, nat list) odict) res" where
  "req_data_one cc Q d st =
     (let (rid, new, preempted) = d; (c, ends) = st in
      bindE (get_req rid c) (\<lambda>rs.
      bindE (update_offload_keys (cc_sched cc) (Q rid) rs) (\<lambda>rs.
      let rs = (if preempted then clear_block_ids rs else rs) in
      if new = None \<or> new = Some [] then Inr (put_req rid rs c, ends)
      else
        bindE (if sliding_groups cc = [] then Inr ends
               else bindE (group_lengths (sliding_groups cc) rs) (\<lambda>ls. Inr (AList.update rid ls ends)))
          (\<lambda>ends.
        bindE (update_block_id_groups new rs) (\<lambda>rs.
          Inr (put_req rid rs (c\<lparr>c_alloc := c_alloc c \<union> allocated_ids (the new)\<rparr>), ends))))))"

text \<open>Positions \<open>[start, stop)\<close> whose block was allocated in this step are zeroed.\<close>

definition zero_range :: "int set \<Rightarrow> int \<Rightarrow> int \<Rightarrow> int list \<Rightarrow> int list" where
  "zero_range alloc start stop bs =
     map (\<lambda>(j, b). if start \<le> int j \<and> int j < stop \<and> b \<in> alloc then 0 else b)
       (zip [0..<length bs] bs)"

definition zero_group :: "conn_config \<Rightarrow> int set \<Rightarrow> nat \<times> nat option \<Rightarrow> req_state \<Rightarrow> req_state res" where
  "zero_group cc alloc gl rs =
     bindE (nth_res (group_states rs) (fst gl)) (\<lambda>gs.
       let start = next_stored_chunk_idx gs * blocks_per_chunk (cc_sched cc);
           stop = (case snd gl of None \<Rightarrow> int (length (block_ids gs)) | Some n \<Rightarrow> int n)
       in Inr (rs\<lparr>group_states := (group_states rs)[fst gl :=
                 gs\<lparr>block_ids := zero_range alloc start stop (block_ids gs)\<rparr>]\<rparr>))"

definition zero_request :: "conn_config \<Rightarrow> int set \<Rightarrow> (string, nat list) odict \<Rightarrow> string \<times> req_state \<Rightarrow>
    (string \<times> req_state) res" where
  "zero_request cc alloc ends r =
     (let stops = (case map_of ends (fst r) of
                     None \<Rightarrow> map (\<lambda>_. None) (sliding_groups cc)
                   | Some ls \<Rightarrow> map Some ls)
      in bindE (foldE (zero_group cc alloc) (zip (sliding_groups cc) stops) (snd r))
           (\<lambda>rs. Inr (fst r, rs)))"

definition update_req_states :: "conn_config \<Rightarrow> (string \<Rightarrow> request) \<Rightarrow> sched_output \<Rightarrow>
    ('s, 'e) connector \<Rightarrow> ('s, 'e) connector res" where
  "update_req_states cc Q so c =
     bindE (foldE (req_data_one cc Q) (so_req_data so) (c, [])) (\<lambda>(c, ends).
       if sliding_groups cc \<noteq> [] \<and> c_alloc c \<noteq> {}
       then bindE (mapE (zero_request cc (c_alloc c) ends) (c_reqs c)) (\<lambda>reqs.
              Inr (c\<lparr>c_reqs := reqs\<rparr>))
       else Inr c)"

end
