(* ===== verification/Connector_Stores.thy ===== *)
theory Connector_Stores
  imports Connector_Loads
begin

text \<open>
  Model of the store jobs of \<open>OffloadingConnectorScheduler\<close>
  (\<open>distributed/kv_transfer/kv_connector/v1/offloading/scheduler.py\<close>): the partial tails handed
  over by the scheduler, and the chunks of each scheduled or finished request, with the mirror
  re-offers of chunks below the store pointer and their budget.
\<close>

section \<open>Jobs\<close>

text \<open>The job is registered, fenced on \<open>fenced\<close> and returned with the id it got.\<close>

definition add_store_job :: "sched_config \<Rightarrow> string \<Rightarrow> offload_key list \<Rightarrow> int list option \<Rightarrow>
    int list \<Rightarrow> int list option \<Rightarrow> ('s, 'e) connector \<Rightarrow> (('s, 'e) connector \<times> int) res" where
  "add_store_job cfg rid keys deferred fenced fenced_field c =
     (let (c, jid) = generate_job_id c in
      bindE (get_req rid c) (\<lambda>rs.
        Inr (put_req rid (rs\<lparr>transfer_jobs := insert jid (transfer_jobs rs)\<rparr>)
               (c\<lparr>c_pending := fold (fence jid) fenced (c_pending c),
                  c_jobs := AList.update jid
                    \<lparr>js_req_id = rid, js_pending_count = num_workers cfg, js_keys = set keys,
                     js_is_store = True, js_deferred = deferred, js_fenced = fenced_field\<rparr>
                    (c_jobs c)\<rparr>), jid)))"

definition allocation_failure :: "('s, 'e) connector \<Rightarrow> ('s, 'e) connector res" where
  "allocation_failure c = count_metric ''vllm:kv_offload_allocation_failure'' (PyInt 1) c"

section \<open>Partial tails\<close>

text \<open>\<open>{boundary for _, _, boundary in entries}\<close> has to be a singleton.\<close>

definition tail_boundary :: "(nat \<times> int \<times> int) list \<Rightarrow> int res" where
  "tail_boundary entries =
     (case remdups (map (\<lambda>(_, _, b). b) entries) of [b] \<Rightarrow> Inr b | _ \<Rightarrow> Inl AssertionError)"

definition tail_limit :: "request \<Rightarrow> req_state \<Rightarrow> int" where
  "tail_limit rq rs =
     min (num_prompt_tokens rq)
       (case max_offload_tokens rs of
          None \<Rightarrow> num_prompt_tokens rq
        | Some n \<Rightarrow> if n = 0 then num_prompt_tokens rq else n)"

text \<open>The block that holds the tail of one group: the copy-on-write source, or its table entry.\<close>

definition tail_block :: "conn_config \<Rightarrow> (nat \<times> int \<times> int) list \<Rightarrow> req_state \<Rightarrow> int \<Rightarrow> group_config \<Rightarrow>
    int res" where
  "tail_block cc entries rs idx gc =
     (if group_idx gc \<in> cow_groups cc
      then od_get_item (group_idx gc) (map (\<lambda>(g, b, _). (g, b)) (rev entries))
      else bindE (nth_res (group_states rs) (group_idx gc)) (\<lambda>gs. py_nth (block_ids gs) idx))"

definition tail_unallocated :: "conn_config \<Rightarrow> req_state \<Rightarrow> int \<Rightarrow> group_config \<Rightarrow> bool res" where
  "tail_unallocated cc rs idx gc =
     (if group_idx gc \<in> cow_groups cc then Inr False
      else bindE (nth_res (group_states rs) (group_idx gc)) (\<lambda>gs. Inr (idx \<ge> int (length (block_ids gs)))))"

text \<open>The accepted groups in increasing order; of equal keys the later group counts.\<close>

definition accepted_groups :: "(offload_key \<times> nat) list \<Rightarrow> offload_key list \<Rightarrow> nat list res" where
  "accepted_groups key_groups stored =
     bindE (mapE (\<lambda>k. od_get_item k (rev key_groups)) stored) (\<lambda>gs. Inr (sort gs))"

definition set_all :: "nat list \<Rightarrow> 'a \<Rightarrow> 'a list \<Rightarrow> 'a list" where
  "set_all is v xs = fold (\<lambda>i xs. xs[i := v]) is xs"

definition tail_job :: "conn_config \<Rightarrow> ('e, 'v) tracker_ops \<Rightarrow> string \<Rightarrow> int \<Rightarrow> int \<Rightarrow>
    offload_key list \<Rightarrow> int list \<Rightarrow> prepare_store_output \<Rightarrow>
    ('s, 'e) connector \<times> (int, worker_job) odict \<Rightarrow> (('s, 'e) connector \<times> (int, worker_job) odict) res" where
  "tail_job cc T rid boundary idx keys blocks out st =
     (let (c, jobs) = st; cfg = cc_sched cc; n = num_kv_cache_groups cfg;
          gs = map group_idx (kv_groups cfg);
          c = fold (\<lambda>(g, k). track T (RecordPartialStore rid g boundary k))
                (filter (\<lambda>(g, k). k \<in> set (keys_to_store out)) (zip gs keys)) c
      in bindE (accepted_groups (zip keys gs) (keys_to_store out)) (\<lambda>accepted.
         bindE (mapE (\<lambda>g. od_get_item g (rev (zip gs blocks))) accepted) (\<lambda>source.
         bindE (add_store_job cfg rid (keys_to_store out) None source (Some source) c) (\<lambda>(c, jid).
         bindE (mk_gpu_spec source (set_all accepted 1 (replicate n 0)) (set_all accepted idx (replicate n 0)))
           (\<lambda>src. Inr (c, AList.update jid (StoreJob rid src (store_spec out)) jobs))))))"

definition tail_one :: "'s mgr_ops \<Rightarrow> ('e, 'v) tracker_ops \<Rightarrow> conn_config \<Rightarrow> (string \<Rightarrow> request) \<Rightarrow>
    string \<times> (nat \<times> int \<times> int) list \<Rightarrow> ('s, 'e) connector \<times> (int, worker_job) odict \<Rightarrow>
    (('s, 'e) connector \<times> (int, worker_job) odict) res" where
  "tail_one M T cc Q h st =
     (let (rid, entries) = h; (c, jobs) = st; cfg = cc_sched cc; rq = Q rid in
      case map_of (c_reqs c) rid of
        None \<Rightarrow> Inl AssertionError
      | Some rs \<Rightarrow>
          bindE (tail_boundary entries) (\<lambda>boundary.
          assertE (boundary > 0 \<and> boundary mod tokens_per_hash cfg = 0 \<and> boundary \<le> tail_limit rq rs)
          (assertE (cow_groups cc \<subseteq> set (map fst entries))
          (assertE (boundary mod partial_tail_block_size cc \<noteq> 0)
          (let idx = boundary div partial_tail_block_size cc in
           bindE (mapE (tail_unallocated cc rs idx) (kv_groups cfg)) (\<lambda>missing.
           if list_ex (\<lambda>b. b) missing then Inr (c, jobs)
           else
             bindE (boundary_keys cfg rq boundary) (\<lambda>keys.
             bindE (mapE (tail_block cc entries rs idx) (kv_groups cfg)) (\<lambda>blocks.
             assertE (list_all (\<lambda>b. b \<noteq> 0) blocks)
             (bindE (ask_manager (m_prepare_store M keys (rs_context rs) False) c) (\<lambda>(c, out).
              case out of
                None \<Rightarrow> bindE (allocation_failure c) (\<lambda>c. Inr (c, jobs))
              | Some out \<Rightarrow>
                  if keys_to_store out = [] then Inr (c, jobs)
                  else tail_job cc T rid boundary idx keys blocks out (c, jobs)))))))))))"

definition build_partial_tail_store_jobs :: "'s mgr_ops \<Rightarrow> ('e, 'v) tracker_ops \<Rightarrow> conn_config \<Rightarrow>
    (string \<Rightarrow> request) \<Rightarrow> sched_output \<Rightarrow> ('s, 'e) connector \<Rightarrow>
    (('s, 'e) connector \<times> (int, worker_job) odict) res" where
  "build_partial_tail_store_jobs M T cc Q so c =
     (if \<not> supports_partial_tail (cc_sched cc) \<or> so_partial_tails so = [] then Inr (c, [])
      else foldE (tail_one M T cc Q) (so_partial_tails so) (c, []))"

section \<open>What a request offers\<close>

definition tokens_after_batch :: "request \<Rightarrow> string \<Rightarrow> sched_output \<Rightarrow> int res" where
  "tokens_after_batch rq rid so =
     (if aborted rq then Inr (num_computed_tokens rq)
      else if finished rq then Inr (num_tokens rq)
      else bindE (od_get_item rid (so_scheduled so)) (\<lambda>n. Inr (num_computed_tokens rq + n)))"

text \<open>The last block of each chunk from \<open>start\<close> on: \<open>block_ids[start * b + b - 1 : n * b : b]\<close>.\<close>

definition last_blocks :: "int \<Rightarrow> int \<Rightarrow> int \<Rightarrow> int list \<Rightarrow> int list" where
  "last_blocks b start n bs =
     every (slice_index (int (length bs)) (start * b + b - 1)) (nat b)
       (take (slice_index (int (length bs)) (n * b)) bs)"

definition start_chunk :: "knobs \<Rightarrow> group_state \<Rightarrow> int" where
  "start_chunk kn gs = (if mirror_local kn then 0 else next_stored_chunk_idx gs)"

text \<open>
  One chunk of one group. A re-offer below the store pointer is counted against the budget, and
  only if the manager no longer holds the chunk.
\<close>

definition offer_key :: "'s mgr_ops \<Rightarrow> knobs \<Rightarrow> req_context \<Rightarrow> group_config \<Rightarrow> group_state \<Rightarrow> int \<Rightarrow>
    int \<times> offload_key \<times> int \<Rightarrow> ('s, 'e) connector \<times> int \<times> offload_key list \<Rightarrow>
    (('s, 'e) connector \<times> int \<times> offload_key list) res" where
  "offer_key M kn ctx gc gs num_chunks e st =
     (let (idx, key, bid) = e; (c, offered, new) = st in
      if bid = 0 then Inr st
      else
        bindE (is_store_reachable_swa_chunk idx num_chunks (alignment_chunk_count gc)
                 (sliding_window_chunks gc) (is_eagle_group gc)) (\<lambda>reachable.
        if \<not> reachable then Inr st
        else if mirror_local kn \<and> idx < next_stored_chunk_idx gs then
          if mirror_offer_cap kn \<noteq> 0 \<and> offered \<ge> mirror_offer_cap kn
          then Inr (c\<lparr>c_throttled := c_throttled c + 1\<rparr>, offered, new)
          else bindE (ask_manager (m_lookup M key ctx) c) (\<lambda>(c, r).
            if r = HIT \<or> r = HIT_PENDING
            then Inr (c\<lparr>c_skipped_stored := c_skipped_stored c + 1\<rparr>, offered, new)
            else Inr (c, offered + 1, new @ [key]))
        else Inr (c, offered, new @ [key])))"

definition offer_group :: "'s mgr_ops \<Rightarrow> conn_config \<Rightarrow> request \<Rightarrow> req_state \<Rightarrow> int \<Rightarrow> group_config \<Rightarrow>
    ('s, 'e) connector \<times> int \<times> offload_key list \<Rightarrow> (('s, 'e) connector \<times> int \<times> offload_key list) res" where
  "offer_group M cc rq rs offloadable gc st =
     bindE (nth_res (group_states rs) (group_idx gc)) (\<lambda>gs.
       let kn = cc_knobs cc; b = blocks_per_chunk (cc_sched cc);
           n = storable_chunks (cc_sched cc) rq gc gs offloadable;
           start = start_chunk kn gs
       in if n \<le> start then Inr st
          else
            let keys = py_slice start n (offload_keys gs); bids = last_blocks b start n (block_ids gs)
            in assertE (length keys = length bids)
                 (foldE (offer_key M kn (rs_context rs) gc gs n)
                   (zip (map (\<lambda>i. start + int i) [0..<length keys]) (zip keys bids)) st))"

section \<open>The source blocks of a store\<close>

record store_plan =
  sp_src :: "int list"
  sp_fenced :: "int list"
  sp_deferred :: "int list"
  sp_sizes :: "int list"
  sp_indices :: "int list"
  sp_groups :: "group_state list"

text \<open>The blocks of a chunk with their position, without the zero entries.\<close>

definition chunk_blocks :: "int \<Rightarrow> int list \<Rightarrow> int \<Rightarrow> (int \<times> int) list res" where
  "chunk_blocks b bs chunk =
     bindE (mapE (\<lambda>i. bindE (py_nth bs (chunk * b + int i)) (\<lambda>bid. Inr (chunk * b + int i, bid)))
              [0..<nat b])
       (\<lambda>ps. Inr (filter (\<lambda>(_, bid). bid \<noteq> 0) ps))"

definition store_group :: "('e, 'v) tracker_ops \<Rightarrow> conn_config \<Rightarrow> string \<Rightarrow> request \<Rightarrow> int \<Rightarrow>
    offload_key set \<Rightarrow> group_config \<Rightarrow> ('s, 'e) connector \<times> store_plan \<Rightarrow>
    (('s, 'e) connector \<times> store_plan) res" where
  "store_group T cc rid rq offloadable stored gc st =
     (let (c, sp) = st; g = group_idx gc; cfg = cc_sched cc in
      bindE (nth_res (sp_groups sp) g) (\<lambda>gs.
        let n = storable_chunks cfg rq gc gs offloadable;
            start = start_chunk (cc_knobs cc) gs;
            keys = py_slice start n (offload_keys gs);
            chosen = filter (\<lambda>(_, k). k \<in> stored) (zip (map (\<lambda>i. start + int i) [0..<length keys]) keys);
            c = fold (\<lambda>(i, k). track T (RecordStore rid g i k)) chosen c
        in bindE (mapE (\<lambda>(i, _). chunk_blocks (blocks_per_chunk cfg) (block_ids gs) i) chosen) (\<lambda>pss.
          let ps = concat pss; bids = map snd ps; sw = (sliding_window_chunks gc \<noteq> None)
          in Inr (c, sp\<lparr>sp_src := sp_src sp @ bids,
                        sp_fenced := (if sw then sp_fenced sp @ bids else sp_fenced sp),
                        sp_deferred := (if sw then sp_deferred sp else sp_deferred sp @ bids),
                        sp_sizes := (sp_sizes sp)[g := int (length bids)],
                        sp_indices := (sp_indices sp)[g := (case ps of [] \<Rightarrow> 0 | (i, _) # _ \<Rightarrow> i)],
                        sp_groups := (sp_groups sp)[g := gs\<lparr>next_stored_chunk_idx :=
                          max (next_stored_chunk_idx gs) n\<rparr>]\<rparr>))))"

text \<open>A store may be issued while other stores are in flight, not while a load is.\<close>

definition no_load_pending :: "ext_ops \<Rightarrow> req_state \<Rightarrow> ('s, 'e) connector \<Rightarrow> bool res" where
  "no_load_pending X rs c =
     (if transfer_jobs rs = {} then Inr True
      else bindE (od_get_item (x_pick X (transfer_jobs rs)) (c_jobs c)) (\<lambda>js. Inr (js_is_store js)))"

definition fence_finished :: "int \<Rightarrow> int list \<Rightarrow> ('s, 'e) connector \<Rightarrow> ('s, 'e) connector" where
  "fence_finished jid bids c =
     c\<lparr>c_pending := fold (fence jid) bids (c_pending c),
       c_flush := (if list_ex (\<lambda>b. b \<in> c_alloc c) bids then insert jid (c_flush c) else c_flush c)\<rparr>"

definition issue_store :: "ext_ops \<Rightarrow> ('e, 'v) tracker_ops \<Rightarrow> conn_config \<Rightarrow> string \<Rightarrow> request \<Rightarrow>
    int \<Rightarrow> req_state \<Rightarrow> prepare_store_output \<Rightarrow> ('s, 'e) connector \<times> (int, worker_job) odict \<Rightarrow>
    (('s, 'e) connector \<times> (int, worker_job) odict) res" where
  "issue_store X T cc rid rq offloadable rs out st =
     (let (c, jobs) = st; cfg = cc_sched cc; n = num_kv_cache_groups cfg in
      bindE (foldE (store_group T cc rid rq offloadable (set (keys_to_store out))) (kv_groups cfg)
               (c, \<lparr>sp_src = [], sp_fenced = [], sp_deferred = [], sp_sizes = replicate n 0,
                    sp_indices = replicate n 0, sp_groups = group_states rs\<rparr>)) (\<lambda>(c, sp).
      bindE (mk_gpu_spec (sp_src sp) (sp_sizes sp) (sp_indices sp)) (\<lambda>src.
      bindE (no_load_pending X rs c) (\<lambda>ok.
      assertE ok
      (bindE (add_store_job cfg rid (keys_to_store out) (Some (sp_deferred sp)) (sp_fenced sp)
               (if sp_fenced sp = [] then None else Some (sp_fenced sp))
               (put_req rid (rs\<lparr>group_states := sp_groups sp\<rparr>) c)) (\<lambda>(c, jid).
        Inr (if finished rq then fence_finished jid (sp_deferred sp) c else c,
             AList.update jid (StoreJob rid src (store_spec out)) jobs)))))))"

section \<open>The loop over the requests\<close>

definition store_one :: "'s mgr_ops \<Rightarrow> ext_ops \<Rightarrow> ('e, 'v) tracker_ops \<Rightarrow> conn_config \<Rightarrow>
    (string \<Rightarrow> request) \<Rightarrow> sched_output \<Rightarrow> string \<Rightarrow>
    ('s, 'e) connector \<times> int \<times> (int, worker_job) odict \<Rightarrow>
    (('s, 'e) connector \<times> int \<times> (int, worker_job) odict) res" where
  "store_one M X T cc Q so rid st =
     (let (c, offered, jobs) = st; cfg = cc_sched cc; kn = cc_knobs cc; rq = Q rid in
      case map_of (c_reqs c) rid of
        None \<Rightarrow> Inr st
      | Some rs \<Rightarrow>
          bindE (tokens_after_batch rq rid so) (\<lambda>after.
          let offloadable = calc_num_offloadable_tokens cfg rq rs after in
          bindE (foldE (offer_group M cc rq rs offloadable) (kv_groups cfg) (c, offered, []))
            (\<lambda>(c, offered, new).
          let c = (if mirror_local kn then c\<lparr>c_mirror_offered := c_mirror_offered c + int (length new)\<rparr>
                   else c) in
          if new = [] then
            bindE (advance_stored_idx cfg rq offloadable rs) (\<lambda>rs. Inr (put_req rid rs c, offered, jobs))
          else
            bindE (ask_manager (m_prepare_store M new (rs_context rs)
                     (m_takes_bypass M \<and> mirror_local kn)) c) (\<lambda>(c, out).
            case out of
              None \<Rightarrow> bindE (allocation_failure c) (\<lambda>c. Inr (c, offered, jobs))
            | Some out \<Rightarrow>
                if keys_to_store out = [] then
                  bindE (advance_stored_idx cfg rq offloadable rs) (\<lambda>rs.
                    Inr (put_req rid rs c, offered, jobs))
                else
                  bindE (touch_request M cfg rq rs c) (\<lambda>c.
                  bindE (issue_store X T cc rid rq offloadable rs out (c, jobs)) (\<lambda>(c, jobs).
                    Inr (c, offered, jobs)))))))"

definition build_store_jobs :: "'s mgr_ops \<Rightarrow> ext_ops \<Rightarrow> ('e, 'v) tracker_ops \<Rightarrow> conn_config \<Rightarrow>
    (string \<Rightarrow> request) \<Rightarrow> sched_output \<Rightarrow> ('s, 'e) connector \<Rightarrow>
    (('s, 'e) connector \<times> (int, worker_job) odict) res" where
  "build_store_jobs M X T cc Q so c =
     bindE (foldE (store_one M X T cc Q so) (od_keys (so_scheduled so) @ so_finished so) (c, 0, []))
       (\<lambda>(c, offered, jobs). Inr (c, jobs))"

end
