(* ===== verification/Connector_Steps.thy ===== *)
theory Connector_Steps
  imports Connector_Stores
begin

text \<open>
  Model of the remaining operations of \<open>OffloadingConnectorScheduler\<close>
  (\<open>distributed/kv_transfer/kv_connector/v1/offloading/scheduler.py\<close>): the metadata of a step,
  the completions the workers report, the end of a request, statistics, events and the reset.
\<close>

section \<open>The metadata of a step\<close>

record connector_meta =
  meta_load_jobs :: "(int, worker_job) odict"
  meta_store_jobs :: "(int, worker_job) odict"
  meta_flush :: "int set"

definition flush_preempted :: "ext_ops \<Rightarrow> string \<Rightarrow> ('s, 'e) connector \<Rightarrow> ('s, 'e) connector res" where
  "flush_preempted X rid c =
     (case map_of (c_reqs c) rid of
        None \<Rightarrow> Inr c
      | Some rs \<Rightarrow>
          if transfer_jobs rs = {} then Inr c
          else bindE (no_load_pending X rs c) (\<lambda>ok.
            assertE ok (Inr (c\<lparr>c_flush := c_flush c \<union> transfer_jobs rs\<rparr>))))"

text \<open>The jobs that read a block which this step gave away.\<close>

definition reallocated_jobs :: "int set \<Rightarrow> pending \<Rightarrow> int set" where
  "reallocated_jobs alloc p = \<Union> (set (map snd (filter (\<lambda>(bid, _). bid \<in> alloc) p)))"

definition flush_retracted :: "'s mgr_ops \<Rightarrow> ('s, 'e) connector \<Rightarrow> ('s, 'e) connector" where
  "flush_retracted M c =
     (case m_drain_flush M of
        None \<Rightarrow> c
      | Some drain \<Rightarrow>
          let (m, ids) = drain (c_manager c)
          in c\<lparr>c_manager := m, c_flush := c_flush c \<union> set ids\<rparr>)"

definition signal_finished :: "'s mgr_ops \<Rightarrow> string \<Rightarrow> ('s, 'e) connector \<Rightarrow> ('s, 'e) connector res" where
  "signal_finished M rid c =
     (case map_of (c_reqs c) rid of
        None \<Rightarrow> Inr c
      | Some rs \<Rightarrow>
          bindE (tell_manager (m_request_finished M (rs_context rs)) c) (\<lambda>c.
            Inr (if transfer_jobs rs = {} then c\<lparr>c_reqs := AList.delete rid (c_reqs c)\<rparr>
                 else put_req rid (rs\<lparr>finished_signaled := True\<rparr>) c)))"

definition build_connector_meta :: "'s mgr_ops \<Rightarrow> ext_ops \<Rightarrow> ('e, 'v) tracker_ops \<Rightarrow> conn_config \<Rightarrow>
    (string \<Rightarrow> request) \<Rightarrow> sched_output \<Rightarrow> ('s, 'e) connector \<Rightarrow>
    (('s, 'e) connector \<times> connector_meta) res" where
  "build_connector_meta M X T cc Q so c =
     bindE (update_req_states cc Q so c) (\<lambda>c.
     bindE (tell_manager (m_schedule_end M
              \<lparr>new_req_ids = so_new_reqs so, preempted_req_ids = so_preempted so\<rparr>) c) (\<lambda>c.
     bindE (foldE (flush_preempted X) (so_preempted so) c) (\<lambda>c.
     let c = c\<lparr>c_flush := c_flush c \<union> reallocated_jobs (c_alloc c) (c_pending c)\<rparr>;
         c = flush_retracted M c in
     bindE (build_partial_tail_store_jobs M T cc Q so c) (\<lambda>(c, partial_jobs).
     bindE (build_store_jobs M X T cc Q so c) (\<lambda>(c, normal_jobs).
     let meta = \<lparr>meta_load_jobs = c_load_jobs c,
                 meta_store_jobs = fold (\<lambda>(j, w). AList.update j w) normal_jobs partial_jobs,
                 meta_flush = c_flush c\<rparr> in
     bindE (foldE (signal_finished M) (so_finished so) c) (\<lambda>c.
       Inr (c\<lparr>c_load_jobs := [], c_flush := {}, c_alloc := {}\<rparr>, meta)))))))"

definition has_pending_push_work :: "'s mgr_ops \<Rightarrow> ('s, 'e) connector \<Rightarrow> bool" where
  "has_pending_push_work M c \<longleftrightarrow> c_jobs c \<noteq> [] \<or> m_has_pending M (c_manager c)"

section \<open>Completions\<close>

record direction_stats =
  ds_empty :: bool
  ds_bytes :: py_num
  ds_time :: py_num
  ds_sizes :: "py_num list"

record worker_meta =
  wm_stats_empty :: bool
  wm_load :: direction_stats
  wm_store :: direction_stats
  wm_completed :: "(int, int) odict"

definition record_direction :: "string \<Rightarrow> string \<Rightarrow> string \<Rightarrow> direction_stats \<Rightarrow> stats \<Rightarrow> stats res" where
  "record_direction n_bytes n_time n_size d st =
     (if ds_empty d then Inr st
      else bindE (increase_counter st n_bytes (ds_bytes d) []) (\<lambda>st.
           bindE (increase_counter st n_time (ds_time d) []) (\<lambda>st.
           foldE (\<lambda>s st. observe_histogram st n_size s []) (ds_sizes d) st)))"

definition record_transfers :: "worker_meta \<Rightarrow> ('s, 'e) connector \<Rightarrow> ('s, 'e) connector res" where
  "record_transfers meta c =
     (if wm_stats_empty meta then Inr c
      else bindE (record_direction ''vllm:kv_offload_load_bytes'' ''vllm:kv_offload_load_time''
                    ''vllm:kv_offload_load_size'' (wm_load meta) stats_reset) (\<lambda>st.
           bindE (record_direction ''vllm:kv_offload_store_bytes'' ''vllm:kv_offload_store_time''
                    ''vllm:kv_offload_store_size'' (wm_store meta) st) (\<lambda>st.
           bindE (aggregate (c_stats c) st) (\<lambda>st. Inr (c\<lparr>c_stats := st\<rparr>)))))"

text \<open>The transfer is over: tell the manager, and stop waiting for a load.\<close>

definition complete_transfer :: "'s mgr_ops \<Rightarrow> ext_ops \<Rightarrow> job_status \<Rightarrow> req_state \<Rightarrow>
    ('s, 'e) connector \<Rightarrow> ('s, 'e) connector res" where
  "complete_transfer M X js rs c =
     (let keys = x_iter X (js_keys js) in
      if js_is_store js then tell_manager (m_complete_store M keys (rs_context rs)) c
      else bindE (tell_manager (m_complete_load M keys (rs_context rs)) c) (\<lambda>c.
        Inr (c\<lparr>c_loading := map_option (\<lambda>s. s - js_keys js) (c_loading c)\<rparr>)))"

definition release_fences :: "bool \<Rightarrow> int \<Rightarrow> job_status \<Rightarrow> pending \<Rightarrow> pending res" where
  "release_fences fin jid js p =
     (if p = [] then Inr p
      else bindE (remove_pending_job jid (js_fenced js) p) (\<lambda>p.
        if fin then remove_pending_job jid (js_deferred js) p else Inr p))"

definition finish_job :: "'s mgr_ops \<Rightarrow> ext_ops \<Rightarrow> (string \<Rightarrow> request) \<Rightarrow> int \<Rightarrow> job_status \<Rightarrow>
    ('s, 'e) connector \<Rightarrow> ('s, 'e) connector res" where
  "finish_job M X Q jid js c =
     (let rid = js_req_id js in
      bindE (get_req rid c) (\<lambda>rs.
      bindE (complete_transfer M X js rs c) (\<lambda>c.
      bindE (release_fences (finished (Q rid)) jid js (c_pending c)) (\<lambda>p.
      let c = c\<lparr>c_pending := p, c_jobs := AList.delete jid (c_jobs c)\<rparr> in
      if jid \<in> transfer_jobs rs
      then (let rs = rs\<lparr>transfer_jobs := transfer_jobs rs - {jid}\<rparr>
            in Inr (if finished_signaled rs \<and> transfer_jobs rs = {}
                    then c\<lparr>c_reqs := AList.delete rid (c_reqs c)\<rparr>
                    else put_req rid rs c))
      else Inl KeyError))))"

definition complete_one :: "'s mgr_ops \<Rightarrow> ext_ops \<Rightarrow> (string \<Rightarrow> request) \<Rightarrow> int \<times> int \<Rightarrow>
    ('s, 'e) connector \<Rightarrow> ('s, 'e) connector res" where
  "complete_one M X Q jn c =
     (let (jid, n) = jn in
      assertE (n > 0)
        (if jid < c_stale_threshold c then Inr c
         else bindE (od_get_item jid (c_jobs c)) (\<lambda>js.
           let js = js\<lparr>js_pending_count := js_pending_count js - n\<rparr>;
               c = c\<lparr>c_jobs := AList.update jid js (c_jobs c)\<rparr>
           in if js_pending_count js > 0 then Inr c
              else assertE (js_pending_count js = 0) (finish_job M X Q jid js c))))"

definition update_connector_output :: "'s mgr_ops \<Rightarrow> ext_ops \<Rightarrow> (string \<Rightarrow> request) \<Rightarrow>
    worker_meta option \<Rightarrow> ('s, 'e) connector \<Rightarrow> ('s, 'e) connector res" where
  "update_connector_output M X Q meta c =
     (case meta of
        None \<Rightarrow> Inr c
      | Some meta \<Rightarrow>
          bindE (record_transfers meta c) (foldE (complete_one M X Q) (wm_completed meta)))"

section \<open>The end of a request\<close>

definition fence_job :: "int \<Rightarrow> ('s, 'e) connector \<Rightarrow> ('s, 'e) connector res" where
  "fence_job jid c =
     bindE (od_get_item jid (c_jobs c)) (\<lambda>js.
       Inr (c\<lparr>c_pending := fold (fence jid) (case js_deferred js of None \<Rightarrow> [] | Some bs \<Rightarrow> bs)
                             (c_pending c)\<rparr>))"

definition request_finished :: "'s mgr_ops \<Rightarrow> conn_config \<Rightarrow> rat \<Rightarrow> string \<Rightarrow> request \<Rightarrow>
    ('s, 'e) connector \<Rightarrow> ('s, 'e) connector res" where
  "request_finished M cc now rid rq c =
     (case map_of (c_reqs c) rid of
        None \<Rightarrow>
          (let ctx = create_req_context rid rq in
           bindE (ask_manager (m_new_request M ctx) c) (\<lambda>(c, _).
             tell_manager (m_request_finished M ctx) c))
      | Some rs \<Rightarrow>
          bindE (maybe_observe_async_delay now rs c) (\<lambda>(c, rs).
          bindE (update_offload_keys (cc_sched cc) rq rs) (\<lambda>rs.
            foldE fence_job (sorted_list_of_set (transfer_jobs rs)) (put_req rid rs c))))"

section \<open>Statistics, events, reset\<close>

definition add_total :: "string \<Rightarrow> int \<Rightarrow> stats option \<Rightarrow> stats option res" where
  "add_total name n st =
     (if n = 0 then Inr st
      else bindE (increase_counter (case st of None \<Rightarrow> stats_reset | Some s \<Rightarrow> s) name (PyInt n) [])
             (\<lambda>s. Inr (Some s)))"

definition throttle_log :: "rat \<Rightarrow> ('s, 'e) connector \<Rightarrow> ('s, 'e) connector" where
  "throttle_log now c =
     (if (c_skipped_stored c \<noteq> 0 \<or> c_throttled c \<noteq> 0) \<and> now - c_throttle_log_ts c \<ge> 60
      then c\<lparr>c_throttle_log_ts := now\<rparr> else c)"

definition merge_manager_stats :: "stats option \<Rightarrow> stats option \<Rightarrow> stats option res" where
  "merge_manager_stats st ms =
     (case ms of
        None \<Rightarrow> Inr st
      | Some ms \<Rightarrow>
          (case st of
             None \<Rightarrow> Inr (Some ms)
           | Some s \<Rightarrow> bindE (aggregate s ms) (\<lambda>s. Inr (Some s))))"

definition get_stats :: "'s mgr_ops \<Rightarrow> rat \<Rightarrow> ('s, 'e) connector \<Rightarrow>
    (('s, 'e) connector \<times> stats option) res" where
  "get_stats M now c =
     (let st = (if is_empty (c_stats c) then None else Some (c_stats c)) in
      bindE (add_total ''vllm:kv_offload_mirrored_keys'' (c_mirror_offered c) st) (\<lambda>st.
      bindE (add_total ''vllm:kv_offload_touch_keys'' (c_touched c) st) (\<lambda>st.
      bindE (add_total ''vllm:kv_offload_recomputed_after_eviction_blocks_total''
               (c_recomputed_blocks c) st) (\<lambda>st.
      bindE (add_total ''vllm:kv_offload_recomputed_after_eviction_tokens_total''
               (c_recomputed_tokens c) st) (\<lambda>st.
      let c = throttle_log now
                (c\<lparr>c_stats := (if is_empty (c_stats c) then c_stats c else stats_reset),
                   c_mirror_offered := 0, c_touched := 0,
                   c_recomputed_blocks := 0, c_recomputed_tokens := 0\<rparr>) in
      bindE (ask_manager (m_get_stats M) c) (\<lambda>(c, ms).
      bindE (merge_manager_stats st ms) (\<lambda>st. Inr (c, st))))))))"

definition take_events :: "'s mgr_ops \<Rightarrow> ('e, 'v) tracker_ops \<Rightarrow> ('s, 'e) connector \<Rightarrow>
    ('s, 'e) connector \<times> 'v list" where
  "take_events M T c =
     (let (m, evs) = m_take_events M (c_manager c); (e, out) = t_take T evs (c_tracker c)
      in (c\<lparr>c_manager := m, c_tracker := e\<rparr>, out))"

definition drop_finished :: "'s mgr_ops \<Rightarrow> (string \<Rightarrow> request) \<Rightarrow> string \<times> req_state \<Rightarrow>
    ('s, 'e) connector \<Rightarrow> ('s, 'e) connector res" where
  "drop_finished M Q r c =
     (let (rid, rs) = r in
      if finished (Q rid) then
        bindE (if finished_signaled rs then Inr c
               else tell_manager (m_request_finished M (rs_context rs)) c) (\<lambda>c.
          Inr (c\<lparr>c_reqs := AList.delete rid (c_reqs c)\<rparr>))
      else Inr c)"

definition reset_progress :: "req_state \<Rightarrow> req_state" where
  "reset_progress rs =
     rs\<lparr>group_states := map (\<lambda>gs. gs\<lparr>next_stored_chunk_idx := 0\<rparr>) (group_states rs),
        transfer_jobs := {}, partial_tail_boundary := None\<rparr>"

definition reset_cache :: "'s mgr_ops \<Rightarrow> ('e, 'v) tracker_ops \<Rightarrow> (string \<Rightarrow> request) \<Rightarrow>
    ('s, 'e) connector \<Rightarrow> ('s, 'e) connector res" where
  "reset_cache M T Q c =
     assertE (c_load_jobs c = [] \<and> c_flush c = {} \<and> c_alloc c = {})
       (let c = c\<lparr>c_flush := fst ` set (c_jobs c)\<rparr> in
        bindE (foldE (drop_finished M Q) (c_reqs c) c) (\<lambda>c.
        bindE (tell_manager (m_reset M) c) (\<lambda>c.
          Inr (c\<lparr>c_reqs := map (\<lambda>(rid, rs). (rid, reset_progress rs)) (c_reqs c),
                 c_stale_threshold := c_job_counter c, c_jobs := [], c_pending := [],
                 c_tracker := t_reset T (c_tracker c),
                 c_loading := map_option (\<lambda>_. {}) (c_loading c)\<rparr>))))"

end
