(* ===== verification/Connector_Request_Facts.thy ===== *)
theory Connector_Request_Facts
  imports Connector_Request
begin

text \<open>
  Facts on the configuration and on the request state of the connector: which sliding-window
  chunks a load can ever read, the store pointer, the keys of a request.
\<close>

section \<open>Reachable sliding-window chunks\<close>

lemma segment_window:
  fixes i n a r :: int
  assumes "0 \<le> i" "i < n" "0 < a" "0 < r" "r \<le> a"
  shows "min a (n - (i - i mod a)) - r \<le> i mod a \<longleftrightarrow>
     (\<exists>b. (b = n \<or> a dvd b) \<and> b \<le> n \<and> b - r \<le> i \<and> i < b)" (is "?L = ?R")
proof
  have m: "0 \<le> i mod a" "i mod a < a" using assms by auto
  let ?s = "i - i mod a"
  have ds: "a dvd ?s" by (simp add: dvd_minus_mod)
  {
    assume ?L
    show ?R
    proof (cases "?s + a \<le> n")
      case True
      have "a dvd ?s + a" using ds by simp
      moreover have "?s + a - r \<le> i" "i < ?s + a" using \<open>?L\<close> True m by auto
      ultimately show ?thesis using True by blast
    next
      case False
      then have "n - r \<le> i" using \<open>?L\<close> by auto
      with assms show ?thesis by blast
    qed
  next
    assume ?R
    then obtain b where b: "b = n \<or> a dvd b" "b \<le> n" "b - r \<le> i" "i < b" by blast
    show ?L
    proof (cases "a dvd b")
      case True
      have "?s < b" using b(4) m by simp
      then have "0 < b - ?s" by simp
      moreover have "a dvd b - ?s" using True ds by simp
      ultimately have "a \<le> b - ?s" by (rule zdvd_imp_le [rotated])
      with b(3) show ?thesis by simp
    next
      case False
      with b show ?thesis by auto
    qed
  }
qed

lemma reachable_iff_window:
  assumes "0 \<le> i" "i < n" "0 < a" "0 \<le> w" "w < a" and "0 < w \<or> e"
  shows "is_store_reachable_swa_chunk i n (Some a) (Some w) e =
     Inr (\<exists>b. (b = n \<or> a dvd b) \<and> b \<le> n \<and> b - (w + of_bool e) \<le> i \<and> i < b)"
proof -
  have "w + of_bool e \<le> a" "0 < w + of_bool e" using assms by auto
  from segment_window [OF assms(1-3) this(2,1)] show ?thesis
    using assms(3) by (simp add: is_store_reachable_swa_chunk_def py_mod_def Let_def algebra_simps of_bool_def)
qed

section \<open>Operations on every group\<close>

text \<open>A loop over the groups that updates the state of each group on its own.\<close>

lemma fold_groups:
  assumes "distinct (map group_idx gcs)" "\<forall>gc \<in> set gcs. group_idx gc < length gss"
    and step: "\<And>gc gss. gc \<in> set gcs \<Longrightarrow>
      f gc gss = bindE (nth_res gss (group_idx gc)) (\<lambda>gs. Inr (gss[group_idx gc := upd gc gs]))"
  shows "\<exists>gss'. foldE f gcs gss = Inr gss' \<and> length gss' = length gss \<and>
    (\<forall>gc \<in> set gcs. gss' ! group_idx gc = upd gc (gss ! group_idx gc)) \<and>
    (\<forall>i. i \<notin> group_idx ` set gcs \<longrightarrow> gss' ! i = gss ! i)"
  using assms
proof (induction gcs arbitrary: gss)
  case (Cons gc gcs)
  let ?g = "group_idx gc" and ?gss = "gss[group_idx gc := upd gc (gss ! group_idx gc)]"
  have fgc: "f gc gss = Inr ?gss" using Cons.prems by (simp add: nth_res_def)
  obtain gss' where gss': "foldE f gcs ?gss = Inr gss'" "length gss' = length ?gss"
    "\<forall>gc \<in> set gcs. gss' ! group_idx gc = upd gc (?gss ! group_idx gc)"
    "\<forall>i. i \<notin> group_idx ` set gcs \<longrightarrow> gss' ! i = ?gss ! i"
    using Cons.IH [of ?gss] Cons.prems by auto
  have "gss' ! ?g = upd gc (gss ! ?g)" using gss'(4) Cons.prems by auto
  moreover have "\<forall>gc' \<in> set gcs. gss' ! group_idx gc' = upd gc' (gss ! group_idx gc')"
    using gss'(3) Cons.prems(1) by (metis distinct.simps(2) image_eqI image_set list.simps(9) nth_list_update_neq)
  ultimately show ?case using gss' fgc by auto
qed simp

definition groups_ok :: "sched_config \<Rightarrow> req_state \<Rightarrow> bool" where
  "groups_ok cfg rs \<longleftrightarrow>
     distinct (map group_idx (kv_groups cfg)) \<and>
     (\<forall>gc \<in> set (kv_groups cfg). group_idx gc < length (group_states rs))"

abbreviation gstate :: "req_state \<Rightarrow> group_config \<Rightarrow> group_state" where
  "gstate rs gc \<equiv> group_states rs ! group_idx gc"

lemma advance_stored_idx_ok:
  assumes "groups_ok cfg rs"
  shows "\<exists>rs'. advance_stored_idx cfg rq n rs = Inr rs' \<and> groups_ok cfg rs' \<and>
    (\<forall>gc \<in> set (kv_groups cfg). gstate rs' gc = (gstate rs gc)\<lparr>next_stored_chunk_idx :=
       max (next_stored_chunk_idx (gstate rs gc)) (storable_chunks cfg rq gc (gstate rs gc) n)\<rparr>)"
proof -
  let ?upd = "\<lambda>gc gs. gs\<lparr>next_stored_chunk_idx :=
    max (next_stored_chunk_idx gs) (storable_chunks cfg rq gc gs n)\<rparr>"
  obtain gss' where "foldE (advance_group cfg rq n) (kv_groups cfg) (group_states rs) = Inr gss'"
    "length gss' = length (group_states rs)"
    "\<forall>gc \<in> set (kv_groups cfg). gss' ! group_idx gc = ?upd gc (gstate rs gc)"
    using fold_groups [of "kv_groups cfg" "group_states rs" "advance_group cfg rq n" ?upd] assms
    by (auto simp: groups_ok_def advance_group_def)
  then show ?thesis using assms by (auto simp: advance_stored_idx_def groups_ok_def)
qed

lemma update_num_hit_chunks_ok:
  assumes "groups_ok cfg rs"
  shows "\<exists>rs'. update_num_hit_chunks cfg n rs = Inr rs' \<and> groups_ok cfg rs' \<and>
    (\<forall>gc \<in> set (kv_groups cfg). gstate rs' gc = (gstate rs gc)\<lparr>num_hit_chunks := n div tokens_per_chunk gc\<rparr>)"
proof -
  let ?upd = "\<lambda>gc gs. gs\<lparr>num_hit_chunks := n div tokens_per_chunk gc\<rparr>"
  obtain gss' where "foldE (hit_group n) (kv_groups cfg) (group_states rs) = Inr gss'"
    "length gss' = length (group_states rs)"
    "\<forall>gc \<in> set (kv_groups cfg). gss' ! group_idx gc = ?upd gc (gstate rs gc)"
    using fold_groups [of "kv_groups cfg" "group_states rs" "hit_group n" ?upd] assms
    by (auto simp: groups_ok_def hit_group_def)
  then show ?thesis using assms by (auto simp: update_num_hit_chunks_def groups_ok_def)
qed

section \<open>Offload keys\<close>

text \<open>The key of chunk \<open>i\<close> is the hash of its last hash block, with the group index.\<close>

definition chunk_keys :: "nat \<Rightarrow> nat \<Rightarrow> block_hash list \<Rightarrow> offload_key list" where
  "chunk_keys h g hashes =
     map (\<lambda>i. hashes ! (h * i + h - 1) @ be_bytes 4 (int g)) [0..<length hashes div h]"

lemma every_beyond: "length xs \<le> start \<Longrightarrow> every start step xs = []"
  by (simp add: every.simps)

lemma every_step: "start < length xs \<Longrightarrow> 0 < step \<Longrightarrow> every start step xs = xs ! start # every (start + step) step xs"
  by (subst every.simps) simp

lemma every_chunks:
  assumes "0 < h"
  shows "every (h * n + h - 1) h xs = map (\<lambda>i. xs ! (h * i + h - 1)) [n..<length xs div h]"
proof (induction "length xs div h - n" arbitrary: n)
  case 0
  then have "length xs div h < Suc n" by simp
  then have "length xs < h * Suc n" using assms by (metis div_less_iff_less_mult mult.commute)
  with 0 assms show ?case by (simp add: every_beyond)
next
  case (Suc m)
  then have lt: "n < length xs div h" by simp
  then have "Suc n * h \<le> length xs" using assms by (metis Suc_leI less_eq_div_iff_mult_less_eq)
  then have "h * n + h - 1 < length xs" using assms by (simp add: mult.commute)
  moreover have "h * n + h - 1 + h = h * Suc n + h - 1" using assms by simp
  ultimately show ?case using Suc.hyps(1) [of "Suc n"] Suc.hyps(2) lt assms
    by (simp add: every_step upt_conv_Cons)
qed

lemma append_keys:
  assumes "int g < 4294967296"
  shows "foldE (append_key g) hs gs =
    Inr (gs\<lparr>offload_keys := offload_keys gs @ map (\<lambda>h. h @ be_bytes 4 (int g)) hs\<rparr>)"
proof (induction hs arbitrary: gs)
  case (Cons h hs)
  have "append_key g h gs = Inr (gs\<lparr>offload_keys := offload_keys gs @ [h @ be_bytes 4 (int g)]\<rparr>)"
    using assms by (simp add: append_key_def make_offload_key_def to_bytes_big_def)
  with Cons show ?case by simp
qed simp

text \<open>What one group gets: the keys of the chunks it has no key for yet.\<close>

definition extend_keys :: "request \<Rightarrow> group_config \<Rightarrow> group_state \<Rightarrow> group_state" where
  "extend_keys rq gc gs =
     gs\<lparr>offload_keys := offload_keys gs @
        drop (length (offload_keys gs)) (chunk_keys (nat (hashes_per_chunk gc)) (group_idx gc) (block_hashes rq))\<rparr>"

lemma update_group_keys_eq:
  assumes "1 \<le> hashes_per_chunk gc" "int (group_idx gc) < 4294967296"
  shows "update_group_keys rq gc gss =
    bindE (nth_res gss (group_idx gc)) (\<lambda>gs. Inr (gss[group_idx gc := extend_keys rq gc gs]))"
proof -
  let ?h = "nat (hashes_per_chunk gc)"
  have h: "hashes_per_chunk gc = int ?h" "0 < ?h" using assms by auto
  have start: "nat (hashes_per_chunk gc * int n + hashes_per_chunk gc - 1) = ?h * n + ?h - 1" for n
  proof -
    have "hashes_per_chunk gc * int n + hashes_per_chunk gc - 1 = int (?h * n + ?h - 1)"
      using h by (simp add: of_nat_diff)
    then show ?thesis by simp
  qed
  show ?thesis using assms
    by (simp add: update_group_keys_def Let_def start every_chunks [OF h(2), unfolded One_nat_def] append_keys extend_keys_def
        chunk_keys_def drop_map drop_upt comp_def)
qed

definition keys_config_ok :: "sched_config \<Rightarrow> bool" where
  "keys_config_ok cfg \<longleftrightarrow>
     (\<forall>gc \<in> set (kv_groups cfg). 1 \<le> hashes_per_chunk gc \<and> int (group_idx gc) < 4294967296)"

lemma update_offload_keys_ok:
  assumes "groups_ok cfg rs" "keys_config_ok cfg"
  shows "\<exists>rs'. update_offload_keys cfg rq rs = Inr rs' \<and> groups_ok cfg rs' \<and>
    (\<forall>gc \<in> set (kv_groups cfg). gstate rs' gc = extend_keys rq gc (gstate rs gc))"
proof -
  obtain gss' where "foldE (update_group_keys rq) (kv_groups cfg) (group_states rs) = Inr gss'"
    "length gss' = length (group_states rs)"
    "\<forall>gc \<in> set (kv_groups cfg). gss' ! group_idx gc = extend_keys rq gc (gstate rs gc)"
    using fold_groups [of "kv_groups cfg" "group_states rs" "update_group_keys rq" "extend_keys rq"] assms
    by (auto simp: groups_ok_def update_group_keys_eq keys_config_ok_def)
  then show ?thesis using assms by (auto simp: update_offload_keys_def groups_ok_def)
qed

lemma take_chunk_keys:
  assumes "take (length hs) hashes = hs"
  shows "take (length (chunk_keys h g hs)) (chunk_keys h g hashes) = chunk_keys h g hs"
proof -
  have hs: "hs = take (length hs) hashes" "length hs \<le> length hashes" using assms
    by (simp, metis nat_le_linear take_all)
  have "length hs div h \<le> length hashes div h" using hs(2) by (rule div_le_mono)
  moreover have "hashes ! (h * i + h - 1) = hs ! (h * i + h - 1)" if "i < length hs div h" for i
  proof -
    have "0 < h" using that by (cases h) auto
    then have "Suc i * h \<le> length hs" using that by (metis Suc_leI less_eq_div_iff_mult_less_eq)
    then have "h * i + h - 1 < length hs" using \<open>0 < h\<close> by (simp add: mult.commute)
    then show ?thesis by (subst hs(1)) simp
  qed
  ultimately show ?thesis by (simp add: chunk_keys_def take_map)
qed

lemma extend_chunk_keys:
  assumes "offload_keys gs = chunk_keys (nat (hashes_per_chunk gc)) (group_idx gc) hs"
    and "take (length hs) (block_hashes rq) = hs"
  shows "offload_keys (extend_keys rq gc gs) =
    chunk_keys (nat (hashes_per_chunk gc)) (group_idx gc) (block_hashes rq)"
  using take_chunk_keys [OF assms(2), of "nat (hashes_per_chunk gc)" "group_idx gc"] assms(1)
  by (metis append_take_drop_id extend_keys_def group_state.select_convs(1) group_state.surjective
      group_state.update_convs(1))

section \<open>Tier filters\<close>

lemma parse_tier_filter_empty:
  "parse_tier_filter raw = TierFilter [] \<longleftrightarrow> raw = JList []"
  by (cases raw) (auto simp: parse_tier_filter_def Let_def map_filter_simps)

lemma parse_field_value:
  "parse_field p raw = Some v \<longleftrightarrow>
     (raw = None \<and> v = None) \<or> (\<exists>r x. raw = Some r \<and> p r = Some x \<and> v = Some x)"
  by (auto simp: parse_field_def split: option.splits)

end
