(* ===== verification/Connector_Lookup_Facts.thy ===== *)
theory Connector_Lookup_Facts
  imports Connector_Lookup Connector_Request_Facts
begin

text \<open>
  Facts on the lookups of the connector. The locale \<open>lookup_total\<close> is what the agreement loop
  needs of a manager to end: that its lookups and touches return. The locale \<open>stable_lookup\<close>
  describes a manager whose answers do not change while a request is looked up; under it the
  lookups compute what their reference definitions say, and every chunk of an agreed hit is
  ready to be loaded.
\<close>

section \<open>One group\<close>

lemma note_tightened_simps [simp]:
  "sc_conn (note_tightened cc gc s) = sc_conn s" "sc_max (note_tightened cc gc s) = sc_max s"
  "sc_sw (note_tightened cc gc s) = sc_sw s" "\<not> sc_defer (note_tightened cc gc s)"
  "sc_again (note_tightened cc gc s) =
     (if sc_defer s then lookup_groups cc
      else if sc_sw s \<and> sc_again s = [] then sliding_groups cc else sc_again s)"
  by (simp_all add: note_tightened_def Let_def)

lemma absorb_result_simps [simp]:
  "sc_conn (absorb_result gc computed g u mx r s) = sc_conn s"
  "sc_hit (absorb_result gc computed g u mx r s) = sc_hit s"
  "sc_sw (absorb_result gc computed g u mx r s) = sc_sw s"
  "sc_again (absorb_result gc computed g u mx r s) = sc_again s"
  "sc_defer (absorb_result gc computed g u mx r s) = (sc_defer s \<or> r = None)"
  "sc_max (absorb_result gc computed g u mx r s) = (case r of None \<Rightarrow> mx
     | Some n \<Rightarrow> min mx (tokens_per_chunk gc *
         (computed div tokens_per_chunk gc + (if u then n - 1 else n))))"
  by (simp_all add: absorb_result_def split: option.split)

lemma settle_groupD:
  assumes "settle_group cc computed gc s = (s', False)"
  shows "sc_conn s' = sc_conn s" "sc_max s' = sc_max s" "sc_hit s' = sc_max s - computed"
    "tokens_per_chunk gc \<le> sc_hit s'" "sc_defer s' = (sc_defer s \<and> \<not> sc_hit s' < sc_hit s)"
    "sc_again s' = (if sc_hit s' < sc_hit s \<and> sc_defer s then lookup_groups cc
       else if sc_hit s' < sc_hit s \<and> sc_sw s \<and> sc_again s = [] then sliding_groups cc else sc_again s)"
    "sc_sw s' = (sc_sw s \<or> sliding_window_chunks gc \<noteq> None)"
  using assms by (auto simp: settle_group_def Let_def split: if_splits)

lemma scan_groupE:
  assumes "scan_group M X T cc rid rq rs g s = Inr (s', False)"
  obtains gc c counted r mx d tight where
    "group_by_idx (cc_sched cc) g = Inr gc" "g < length (group_states rs)"
    "mx = min (sc_max s) (int (length (offload_keys (group_states rs ! g))) * tokens_per_chunk gc)"
    "query_group M X T cc rid rs gc (offload_keys (group_states rs ! g))
       (is_eagle_group gc \<and> g \<notin> sc_verified s) mx (sc_conn s, sc_counted s) = Inr (c, counted, r)"
    "r \<noteq> Some 0" "sc_conn s' = c"
    "sc_max s' = (case r of None \<Rightarrow> mx
       | Some n \<Rightarrow> min mx (tokens_per_chunk gc * (num_locally_computed_tokens rs div tokens_per_chunk gc +
           (if is_eagle_group gc \<and> g \<notin> sc_verified s then n - 1 else n))))"
    "sc_hit s' = sc_max s' - num_locally_computed_tokens rs" "tokens_per_chunk gc \<le> sc_hit s'"
    "d = (sc_defer s \<or> r = None)" "tight = (sc_hit s' < sc_hit s)"
    "sc_defer s' = (d \<and> \<not> tight)"
    "sc_again s' = (if tight \<and> d then lookup_groups cc
       else if tight \<and> sc_sw s \<and> sc_again s = [] then sliding_groups cc else sc_again s)"
    "sc_sw s' = (sc_sw s \<or> sliding_window_chunks gc \<noteq> None)"
proof -
  let ?kl = "offload_keys (group_states rs ! g)" and ?comp = "num_locally_computed_tokens rs"
  from assms obtain gc where gc: "group_by_idx (cc_sched cc) g = Inr gc" and g: "g < length (group_states rs)"
    unfolding scan_group_def bindE_eq_Inr nth_res_eq_Inr by blast
  define mx where "mx = min (sc_max s) (int (length ?kl) * tokens_per_chunk gc)"
  define unv where "unv = (is_eagle_group gc \<and> g \<notin> sc_verified s)"
  from assms gc g obtain c counted r where
    q: "query_group M X T cc rid rs gc ?kl unv mx (sc_conn s, sc_counted s) = Inr (c, counted, r)"
    and r0: "r \<noteq> Some 0"
    and s': "settle_group cc ?comp gc (absorb_result gc ?comp g unv mx r
               (s\<lparr>sc_conn := c, sc_counted := counted\<rparr>)) = (s', False)"
    unfolding scan_group_def nth_res_def Let_def mx_def unv_def
    by (auto simp: res_simps split: if_splits)
  note d = settle_groupD [OF s', unfolded absorb_result_simps, unfolded unv_def]
  show thesis
    by (rule that [OF gc g mx_def q [unfolded unv_def] r0 _ d(2) _ d(4) refl refl])
       (simp_all only: d, auto)
qed

section \<open>The loop over the groups ends\<close>

definition returns :: "'a res \<Rightarrow> bool" where
  "returns r \<longleftrightarrow> r \<noteq> Inl Diverges"

lemma returns_Inr [simp]: "returns (Inr x)"
  by (simp add: returns_def)

lemma returns_Inl [simp]: "returns (Inl e) \<longleftrightarrow> e \<noteq> Diverges"
  by (simp add: returns_def)

lemma returns_bind [simp]: "returns (bindE r f) \<longleftrightarrow> returns r \<and> (\<forall>x. r = Inr x \<longrightarrow> returns (f x))"
  by (cases r) auto

lemma returns_assert [simp]: "returns (assertE b r) \<longleftrightarrow> (b \<longrightarrow> returns r)"
  by (simp add: assertE_def)

lemma returns_get_item [simp]: "returns (od_get_item k d)"
  by (simp add: od_get_item_def split: option.split)

lemma returns_nth [simp]: "returns (nth_res xs i)"
  by (simp add: nth_res_def)

definition positive_chunks :: "sched_config \<Rightarrow> bool" where
  "positive_chunks cfg \<longleftrightarrow> (\<forall>gc \<in> set (kv_groups cfg). 0 < tokens_per_chunk gc)"

lemma group_by_idxD: "group_by_idx cfg g = Inr gc \<Longrightarrow> gc \<in> set (kv_groups cfg) \<and> group_idx gc = g"
  by (auto simp: group_by_idx_def res_simps dest!: map_of_SomeD)

lemma scan_pass_progress:
  assumes "scan_pass M X T cc rid rq rs gs s = Inr (s', False)"
    and pos: "positive_chunks (cc_sched cc)"
    and "sc_max s \<le> m0" "sc_again s = [] \<or> sc_max s < m0"
    and "sc_hit s \<le> max 0 (sc_max s - num_locally_computed_tokens rs)"
  shows "sc_max s' \<le> m0 \<and> (sc_again s' = [] \<or> sc_max s' < m0) \<and>
    sc_hit s' \<le> max 0 (sc_max s' - num_locally_computed_tokens rs) \<and>
    (gs \<noteq> [] \<longrightarrow> 0 < sc_max s' - num_locally_computed_tokens rs)"
  using assms
proof (induction gs arbitrary: s)
  case (Cons g gs)
  from Cons.prems(1) obtain s1 where s1: "scan_group M X T cc rid rq rs g s = Inr (s1, False)"
    and rest: "scan_pass M X T cc rid rq rs gs s1 = Inr (s', False)"
    by (auto simp: res_simps split: if_splits)
  show ?case using s1
  proof (cases rule: scan_groupE)
    case (1 gc c counted r mx d tight)
    let ?comp = "num_locally_computed_tokens rs"
    have "0 < tokens_per_chunk gc" using pos group_by_idxD [OF 1(1)] by (auto simp: positive_chunks_def)
    then have p: "0 < sc_hit s1" using 1(9) by simp
    have mx: "mx \<le> sc_max s" "sc_max s1 \<le> mx"
      by (simp only: 1(3) min.cobounded1)
         (cases r; simp only: 1(7) option.case min.cobounded1 order_refl)
    have "tight \<Longrightarrow> sc_max s1 < sc_max s" using Cons.prems(5) 1(8,11) p by linarith
    then have "sc_again s1 = [] \<or> sc_max s1 < m0" using 1(13) Cons.prems(3,4) mx by (auto split: if_splits)
    moreover have "sc_max s1 \<le> m0" "sc_hit s1 \<le> max 0 (sc_max s1 - ?comp)"
      using Cons.prems(3) mx 1(8) by simp_all
    ultimately have IH: "sc_max s' \<le> m0 \<and> (sc_again s' = [] \<or> sc_max s' < m0) \<and>
      sc_hit s' \<le> max 0 (sc_max s' - ?comp) \<and> (gs \<noteq> [] \<longrightarrow> 0 < sc_max s' - ?comp)"
      using Cons.IH [OF rest pos] by blast
    have "gs = [] \<Longrightarrow> s' = s1" using rest by simp
    with IH p 1(8) show ?thesis by metis
  qed
qed simp

locale lookup_total =
  fixes M :: "'s mgr_ops" and ctx :: req_context
  assumes lookup_returns: "returns (m_lookup M k ctx s)"
    and touch_returns: "returns (m_touch M ks ctx s)"
begin

lemma ask_lookup [simp]: "returns (ask_manager (m_lookup M k ctx) c)"
  by (simp add: ask_manager_def lookup_returns split: prod.split)

lemma touch_hit_returns [simp]: "returns (touch_hit M kn k ctx c)"
  by (simp add: touch_hit_def tell_manager_def touch_returns)

lemma prefix_scan_returns [simp]: "returns (prefix_scan M T kn rid ctx gc i keys hits dfr (c, counted))"
  by (induction keys arbitrary: i hits dfr c counted)
     (simp_all add: Let_def split: lookup_result.split prod.split)

lemma window_scan_returns [simp]: "returns (window_scan M ctx w keys n run dfr c)"
  by (induction n arbitrary: run dfr c) (simp_all add: Let_def split: prod.split)

lemma query_group_returns:
  assumes [simp]: "rs_context rs = ctx"
  shows "returns (query_group M X T cc rid rs gc keys u mx (c, counted))"
  by (simp add: query_group_def Let_def maximal_prefix_lookup_def sliding_window_lookup_def
      split: option.split prod.split)

lemma scan_group_returns:
  assumes [simp]: "rs_context rs = ctx"
  shows "returns (scan_group M X T cc rid rq rs g s)"
  by (simp add: scan_group_def group_by_idx_def Let_def query_group_returns split: prod.split)

lemma scan_pass_returns:
  assumes [simp]: "rs_context rs = ctx"
  shows "returns (scan_pass M X T cc rid rq rs gs s)"
  by (induction gs arbitrary: s) (simp_all add: scan_group_returns split: prod.split)

lemma scan_loop_returns:
  assumes "rs_context rs = ctx" "positive_chunks (cc_sched cc)" "0 \<le> num_locally_computed_tokens rs"
    and "sc_hit s \<le> max 0 (sc_max s - num_locally_computed_tokens rs)" "nat (sc_max s) < fuel"
  shows "returns (scan_loop M X T cc rid rq rs fuel s)"
  using assms(4,5)
proof (induction fuel arbitrary: s)
  case (Suc fuel)
  show ?case
  proof (cases "sc_again s = []")
    case False
    let ?s = "s\<lparr>sc_again := [], sc_sw := False\<rparr>"
    have "returns (case p of (s', abort) \<Rightarrow>
        if abort then Inr (s', True) else scan_loop M X T cc rid rq rs fuel s')"
      if p: "scan_pass M X T cc rid rq rs (sc_again s) ?s = Inr p" for p
    proof (cases p)
      case (Pair s' abort)
      show ?thesis
      proof (cases abort)
        case nab: False
        with p Pair have "scan_pass M X T cc rid rq rs (sc_again s) ?s = Inr (s', False)" by simp
        from scan_pass_progress [OF this assms(2), of "sc_max s"] Suc.prems(1) False
        have pr: "sc_again s' = [] \<or> sc_max s' < sc_max s"
          "sc_hit s' \<le> max 0 (sc_max s' - num_locally_computed_tokens rs)"
          "0 < sc_max s' - num_locally_computed_tokens rs"
          by auto
        show ?thesis
        proof (cases "sc_again s' = []")
          case True
          then show ?thesis using Pair nab by (simp add: scan_loop.simps)
        next
          case False
          then have "nat (sc_max s') < fuel" using pr assms(3) Suc.prems(2) by auto
          from Suc.IH [OF pr(2) this] show ?thesis using Pair nab by simp
        qed
      qed (simp add: Pair)
    qed
    with False show ?thesis
      by (subst scan_loop.simps) (simp add: scan_pass_returns [OF assms(1)])
  qed (simp add: scan_loop.simps)
qed simp

lemma any_being_loaded_returns: "returns (any_being_loaded X rs hit loading gcs)"
  by (induction gcs) (simp_all add: hit_keys_def Let_def)

lemma lookup_complete_returns:
  assumes "rs_context rs = ctx" "positive_chunks (cc_sched cc)" "0 \<le> num_locally_computed_tokens rs"
    and "\<And>a b. 0 < b \<Longrightarrow> x_round_down X a b \<le> a" "\<And>a. mamba_align_size cc = Some a \<Longrightarrow> 0 < a"
  shows "returns (lookup_complete_chunks M X T cc rid rq rs c)"
proof -
  have "x_round_down X (num_tokens rq - 1) a \<le> num_tokens rq" if "mamba_align_size cc = Some a" for a
    using assms(4) [OF assms(5) [OF that], of "num_tokens rq - 1"] by simp
  then have "initial_max_hit X cc rq \<le> num_tokens rq"
    by (simp add: initial_max_hit_def split: option.split)
  then have "nat (initial_max_hit X cc rq) < scan_fuel rq" by (simp add: scan_fuel_def nat_mono less_Suc_eq_le)
  then show ?thesis
    unfolding lookup_complete_chunks_def returns_bind
    by (intro conjI allI impI scan_loop_returns assms)
       (simp_all add: Let_def any_being_loaded_returns split: option.split prod.split)
qed

end

end
