(* ===== verification/Connector_Agreement.thy ===== *)
theory Connector_Agreement
  imports Connector_Lookup_Facts
begin

text \<open>
  What the lookups compute when the manager's answers do not change meanwhile. The locale
  \<open>stable_lookup\<close> states that contract: the answer to a key is \<open>f\<close> of it, and neither a lookup
  nor a touch changes that. The reference definitions \<open>prefix_result\<close> and \<open>window_result\<close> are
  over the list of answers. The last section shows that the loop over the groups agrees on a
  boundary up to which every group has what it needs.
\<close>

section \<open>Reference definitions\<close>

definition settled :: "lookup_result \<Rightarrow> bool" where
  "settled r \<longleftrightarrow> r = HIT \<or> r = MISS"

definition present :: "lookup_result \<Rightarrow> bool" where
  "present r \<longleftrightarrow> r = HIT \<or> r = HIT_PENDING"

text \<open>The answers before the first miss decide; one that is no plain hit defers.\<close>

definition prefix_result :: "lookup_result list \<Rightarrow> int option" where
  "prefix_result rs =
     (let pre = takeWhile (\<lambda>r. r \<noteq> MISS) rs
      in if list_all (\<lambda>r. r = HIT) pre then Some (int (length pre)) else None)"

text \<open>A window of \<open>w\<close> present answers ends at \<open>e\<close>, and no later one exists.\<close>

definition window_at :: "nat \<Rightarrow> lookup_result list \<Rightarrow> nat \<Rightarrow> bool" where
  "window_at w rs e \<longleftrightarrow> w \<le> e \<and> e \<le> length rs \<and> (\<forall>j \<in> {e - w..<e}. present (rs ! j))"

definition last_window :: "nat \<Rightarrow> lookup_result list \<Rightarrow> nat \<Rightarrow> bool" where
  "last_window w rs e \<longleftrightarrow> window_at w rs e \<and> (\<forall>e' \<in> {e<..length rs}. \<not> window_at w rs e')"

definition window_result :: "nat \<Rightarrow> lookup_result list \<Rightarrow> int option \<Rightarrow> bool" where
  "window_result w rs r \<longleftrightarrow>
     (\<exists>e \<le> length rs. last_window w rs e \<and>
        r = (if \<forall>j \<in> {e - w..<length rs}. settled (rs ! j) then Some (int e) else None)) \<or>
     (\<forall>e \<le> length rs. \<not> window_at w rs e) \<and>
        r = (if list_all settled rs then Some (int (length (takeWhile present rs))) else None)"

text \<open>The scan in mid-flight.\<close>

definition prefix_from :: "bool \<Rightarrow> int \<Rightarrow> lookup_result list \<Rightarrow> int option" where
  "prefix_from dfr hits rs =
     (let pre = takeWhile (\<lambda>r. r \<noteq> MISS) rs
      in if \<not> dfr \<and> list_all (\<lambda>r. r = HIT) pre then Some (hits + int (length pre)) else None)"

lemma prefix_from_simps [simp]:
  "prefix_from dfr hits [] = (if dfr then None else Some hits)"
  "prefix_from dfr hits (HIT # rs) = prefix_from dfr (hits + 1) rs"
  "prefix_from dfr hits (HIT_PENDING # rs) = prefix_from True (hits + 1) rs"
  "prefix_from dfr hits (RETRY # rs) = prefix_from True hits rs"
  "prefix_from dfr hits (MISS # rs) = (if dfr then None else Some hits)"
  by (simp_all add: prefix_from_def Let_def)

lemma prefix_from_start: "prefix_from False 0 rs = prefix_result rs"
  by (simp add: prefix_from_def prefix_result_def Let_def cong: if_cong)

lemma prefix_result_SomeD:
  assumes "prefix_result rs = Some n"
  shows "0 \<le> n \<and> n \<le> int (length rs) \<and> (\<forall>j < nat n. rs ! j = HIT)"
  using assms length_takeWhile_le [of "\<lambda>r. r \<noteq> MISS" rs]
  by (auto simp: prefix_result_def Let_def list_all_length takeWhile_nth split: if_splits)

lemma hit_if_settled: "settled r \<Longrightarrow> present r \<Longrightarrow> r = HIT"
  by (auto simp: settled_def present_def)

lemma window_result_SomeD:
  assumes "window_result w rs (Some n)"
  shows "0 \<le> n \<and> n \<le> int (length rs) \<and> (\<forall>j. n - int w \<le> int j \<and> int j < n \<longrightarrow> rs ! j = HIT)"
  using assms
proof (unfold window_result_def, elim disjE exE conjE, goal_cases)
  case (1 e)
  then have "e \<le> length rs" "n = int e" and st: "\<forall>j \<in> {e - w..<length rs}. settled (rs ! j)" by (auto split: if_splits)
  moreover have "\<forall>j \<in> {e - w..<e}. rs ! j = HIT"
    using 1 st by (auto simp: last_window_def window_at_def intro!: hit_if_settled)
  ultimately show ?case using \<open>e \<le> length rs\<close> by auto
next
  case 2
  then have n: "n = int (length (takeWhile present rs))" and st: "list_all settled rs" by (auto split: if_splits)
  have "rs ! j = HIT" if "j < length (takeWhile present rs)" for j
    using that st length_takeWhile_le [of present rs]
    by (metis hit_if_settled list_all_length nth_mem order_less_le_trans set_takeWhileD takeWhile_nth)
  with n show ?case using length_takeWhile_le [of present rs] by auto
qed

section \<open>Stable managers\<close>

locale stable_lookup =
  fixes M :: "'s mgr_ops" and ctx :: req_context and f :: "offload_key \<Rightarrow> lookup_result"
    and inv :: "'s \<Rightarrow> bool"
  assumes lookup: "inv s \<Longrightarrow> \<exists>s'. m_lookup M k ctx s = Inr (s', f k) \<and> inv s'"
    and touch: "inv s \<Longrightarrow> \<exists>s'. m_touch M ks ctx s = Inr s' \<and> inv s'"
begin

lemma ask:
  assumes "inv (c_manager c)"
  obtains c' where "ask_manager (m_lookup M k ctx) c = Inr (c', f k)" "inv (c_manager c')"
proof -
  obtain s' where s': "m_lookup M k ctx (c_manager c) = Inr (s', f k)" "inv s'"
    using lookup [OF assms] by blast
  show thesis by (rule that [of "c\<lparr>c_manager := s'\<rparr>"]) (simp_all add: ask_manager_def s')
qed

lemma touched:
  assumes "inv (c_manager c)"
  obtains c' where "touch_hit M kn k ctx c = Inr c'" "inv (c_manager c')"
proof (cases "mirror_local kn")
  case True
  obtain s' where s': "m_touch M [k] ctx (c_manager c) = Inr s'" "inv s'"
    using touch [OF assms] by blast
  show thesis
    by (rule that [of "c\<lparr>c_manager := s', c_touched := c_touched c + 1\<rparr>"])
       (simp_all add: touch_hit_def tell_manager_def True s')
qed (use assms in \<open>auto simp: touch_hit_def intro: that\<close>)

lemma note_recompute_manager [simp]:
  "c_manager (fst (note_recompute_after_eviction M gc ks (c, counted))) = c_manager c"
  by (simp add: note_recompute_after_eviction_def split: option.split prod.split)

lemma prefix_scan_ok:
  assumes "inv (c_manager c)"
  shows "\<exists>c' counted'. inv (c_manager c') \<and>
    prefix_scan M T kn rid ctx gc i ks hits dfr (c, counted) =
      Inr (c', counted', prefix_from dfr hits (map f ks))"
  using assms
proof (induction ks arbitrary: i hits dfr c counted)
  case (Cons k ks)
  obtain c1 where c1: "ask_manager (m_lookup M k ctx) c = Inr (c1, f k)" "inv (c_manager c1)"
    using ask [OF Cons.prems] by blast
  show ?case
  proof (cases "f k")
    case HIT
    have "inv (c_manager (track T (RecordLookup rid (group_idx gc) i k) c1))"
      using c1(2) by (simp add: track_def)
    then obtain c2 where "touch_hit M kn k ctx (track T (RecordLookup rid (group_idx gc) i k) c1) = Inr c2"
      "inv (c_manager c2)" by (rule touched)
    with Cons.IH [of c2 "i + 1" "hits + 1" dfr counted] HIT c1 show ?thesis by simp
  next
    case HIT_PENDING
    with Cons.IH [of c1 "i + 1" "hits + 1" True counted] c1 show ?thesis by simp
  next
    case RETRY
    with Cons.IH [of c1 "i + 1" hits True counted] c1 show ?thesis by simp
  next
    case MISS
    obtain c2 counted2 where n: "(if \<not> dfr \<and> m_tombstone M \<noteq> None
        then note_recompute_after_eviction M gc (k # ks) (c1, counted) else (c1, counted)) = (c2, counted2)"
      by fastforce
    have "c_manager c2 = c_manager c1"
      using n by (metis fst_conv note_recompute_manager)
    then have "inv (c_manager c2)" using c1(2) by simp
    with MISS c1 n show ?thesis by (auto simp: Let_def)
  qed
qed simp

lemma maximal_prefix_ok:
  assumes "inv (c_manager c)"
  shows "\<exists>c' counted'. inv (c_manager c') \<and>
    maximal_prefix_lookup M T kn rid ctx gc start ks (c, counted) =
      Inr (c', counted', prefix_result (map f ks))"
  using prefix_scan_ok [OF assms, of T kn rid gc start ks 0 False counted]
  by (simp add: maximal_prefix_lookup_def prefix_from_start)

text \<open>The state of the backward scan: \<open>run\<close> present answers from position \<open>i\<close> on, and no window later.\<close>

lemma window_scan_ok:
  assumes "inv (c_manager c)" "i + run \<le> length ks" "run < w"
    and "\<forall>j \<in> {i..<i + run}. present (f (ks ! j))"
    and "i + run < length ks \<longrightarrow> \<not> present (f (ks ! (i + run)))"
    and "\<forall>e \<in> {i + run<..length ks}. \<not> window_at w (map f ks) e"
    and "dfr = (\<exists>j \<in> {i..<length ks}. \<not> settled (f (ks ! j)))"
  shows "\<exists>c' r. inv (c_manager c') \<and>
    window_scan M ctx (int w) ks i (int run) dfr c = Inr (c', r) \<and> window_result w (map f ks) r"
  using assms
proof (induction i arbitrary: run dfr c)
  case 0
  let ?rs = "map f ks"
  have "\<not> window_at w ?rs e" if "e \<le> length ?rs" for e
    using 0(3,6) that by (cases "run < e") (auto simp: window_at_def)
  moreover have "takeWhile present ?rs = take run ?rs"
    by (rule takeWhile_eq_take_P_nth) (use 0(2,4,5) in auto)
  moreover have "dfr = (\<not> list_all settled ?rs)"
    using 0(7) by (auto simp: list_all_length)
  ultimately have "window_result w ?rs (if dfr then None else Some (int run))"
    using 0(2) by (auto simp: window_result_def)
  with 0(1) show ?case by simp
next
  case (Suc i)
  let ?rs = "map f ks"
  have i: "i < length ks" using Suc.prems(2) by simp
  obtain c1 where c1: "ask_manager (m_lookup M (ks ! i) ctx) c = Inr (c1, f (ks ! i))" "inv (c_manager c1)"
    using ask [OF Suc.prems(1)] by blast
  define dfr' where "dfr' = (\<exists>j \<in> {i..<length ks}. \<not> settled (f (ks ! j)))"
  have dfr': "dfr' = (dfr \<or> \<not> settled (f (ks ! i)))"
  proof -
    have "{i..<length ks} = insert i {Suc i..<length ks}" using i by auto
    then show ?thesis by (auto simp: dfr'_def Suc.prems(7))
  qed
  show ?case
  proof (cases "present (f (ks ! i))")
    case True
    have present: "\<forall>j \<in> {i..<i + Suc run}. present (f (ks ! j))"
    proof -
      have "{i..<i + Suc run} = insert i {Suc i..<Suc i + run}" by auto
      then show ?thesis using True Suc.prems(4) by simp
    qed
    have step: "window_scan M ctx (int w) ks (Suc i) (int run) dfr c =
      (if int (Suc run) = int w then Inr (c1, if dfr' then None else Some (int i + int w))
       else window_scan M ctx (int w) ks i (int (Suc run)) dfr' c1)"
      using True c1(1)
      by (auto simp: Let_def present_def settled_def dfr' add.commute split: lookup_result.split)
    show ?thesis
    proof (cases "Suc run = w")
      case True
      have "last_window w ?rs (i + w)"
        using present Suc.prems(2,6) True by (auto simp: last_window_def window_at_def)
      moreover have "(\<forall>j \<in> {i + w - w..<length ?rs}. settled (?rs ! j)) = (\<not> dfr')"
        by (simp add: dfr'_def)
      moreover have "i + w \<le> length ?rs" using Suc.prems(2) True by simp
      ultimately have "window_result w ?rs (if dfr' then None else Some (int i + int w))"
        unfolding window_result_def by (intro disjI1 exI [of _ "i + w"]) auto
      with step True c1(2) show ?thesis by auto
    next
      case False
      have "\<exists>c' r. inv (c_manager c') \<and>
        window_scan M ctx (int w) ks i (int (Suc run)) dfr' c1 = Inr (c', r) \<and> window_result w ?rs r"
        by (rule Suc.IH [OF c1(2)]) (use Suc.prems False present dfr'_def in auto)
      with step False show ?thesis by auto
    qed
  next
    case False
    have step: "window_scan M ctx (int w) ks (Suc i) (int run) dfr c =
      window_scan M ctx (int w) ks i (int 0) dfr' c1"
      using False c1(1) Suc.prems(3)
      by (auto simp: Let_def present_def settled_def dfr' split: lookup_result.split)
    have "\<not> window_at w ?rs e" if e: "e \<in> {i + 0<..length ks}" for e
    proof (cases "Suc i + run < e")
      case True
      with e Suc.prems(6) show ?thesis by auto
    next
      case le: False
      then have "i \<in> {e - w..<e}" using e Suc.prems(3) by auto
      with False i show ?thesis by (auto simp: window_at_def)
    qed
    then have "\<exists>c' r. inv (c_manager c') \<and>
      window_scan M ctx (int w) ks i (int 0) dfr' c1 = Inr (c', r) \<and> window_result w ?rs r"
      by (intro Suc.IH [OF c1(2)]) (use Suc.prems False dfr'_def i in auto)
    with step show ?thesis by simp
  qed
qed

lemma sliding_window_ok:
  assumes "inv (c_manager c)" "0 < w"
  shows "\<exists>c' r. inv (c_manager c') \<and> sliding_window_lookup M ctx (int w) ks c = Inr (c', r) \<and>
    window_result w (map f ks) r"
  using window_scan_ok [OF assms(1), of "length ks" 0 ks w False] assms(2)
  by (simp add: sliding_window_lookup_def)

end

section \<open>Agreement\<close>

definition cdiv_ok :: "ext_ops \<Rightarrow> bool" where
  "cdiv_ok X \<longleftrightarrow> (\<forall>a b. 0 < b \<longrightarrow> x_cdiv X a b = - ((- a) div b))"

lemma cdiv_le: "cdiv_ok X \<Longrightarrow> 0 < b \<Longrightarrow> x_cdiv X a b \<le> k \<longleftrightarrow> a \<le> b * k"
proof -
  assume "cdiv_ok X" and b: "0 < b"
  then have "x_cdiv X a b \<le> k \<longleftrightarrow> 0 \<le> k + (- a) div b" by (auto simp: cdiv_ok_def)
  also have "k + (- a) div b = (- a + k * b) div b"
    using b div_mult_self1 [of b "- a" k] by (simp only: less_irrefl not_False_eq_True)
  also have "0 \<le> (- a + k * b) div b \<longleftrightarrow> 0 \<le> - a + k * b" by (rule pos_imp_zdiv_nonneg_iff [OF b])
  finally show ?thesis by (simp add: mult.commute)
qed

text \<open>The chunks a load up to token \<open>mx\<close> reads for a group are ready.\<close>

definition chunk_ready :: "ext_ops \<Rightarrow> (offload_key \<Rightarrow> lookup_result) \<Rightarrow> req_state \<Rightarrow> group_config \<Rightarrow>
    int \<Rightarrow> bool" where
  "chunk_ready X f rs gc mx \<longleftrightarrow>
     (let keys = offload_keys (gstate rs gc); start = num_locally_computed_tokens rs div tokens_per_chunk gc;
          e = x_cdiv X mx (tokens_per_chunk gc);
          lo = (case sliding_window_chunks gc of None \<Rightarrow> start | Some w \<Rightarrow> max start (e - w))
      in mx \<le> int (length keys) * tokens_per_chunk gc \<and>
         (\<forall>j. lo \<le> int j \<and> int j < e \<longrightarrow> f (keys ! j) = HIT))"

lemma cdiv_mono: "cdiv_ok X \<Longrightarrow> 0 < b \<Longrightarrow> a \<le> a' \<Longrightarrow> x_cdiv X a b \<le> x_cdiv X a' b"
  using cdiv_le [of X b a "x_cdiv X a' b"] cdiv_le [of X b a' "x_cdiv X a' b"] by simp

lemma cdiv_mult: "cdiv_ok X \<Longrightarrow> 0 < b \<Longrightarrow> x_cdiv X (b * k) b = k"
  by (auto simp: cdiv_ok_def simp flip: mult_minus_right)

lemma cdiv_add: "cdiv_ok X \<Longrightarrow> 0 < b \<Longrightarrow> x_cdiv X (a + b) b = x_cdiv X a b + 1"
proof -
  assume cd: "cdiv_ok X" and b: "0 < b"
  have "x_cdiv X (a + b) b \<le> k \<longleftrightarrow> x_cdiv X a b + 1 \<le> k" for k
    using cdiv_le [OF cd b, of "a + b" k] cdiv_le [OF cd b, of a "k - 1"] by (simp add: algebra_simps)
  then show ?thesis by (meson order_antisym order_refl)
qed

text \<open>
  A hit of \<open>n\<close> chunks from \<open>start\<close> on, with the last window ready, makes the group ready up to
  the boundary the code derives from it. \<open>p\<close> is 1 where a volatile chunk is dropped, else 0.
\<close>

lemma ready_up_to:
  fixes start n p e mx tpc :: int
  assumes cd: "cdiv_ok X" and tpc: "0 < tpc" and p: "0 \<le> p" "p \<le> 1"
    and hits: "\<And>j. (case w of None \<Rightarrow> start | Some w \<Rightarrow> max start (start + n - (w + p))) \<le> int j \<Longrightarrow>
       int j < start + n \<Longrightarrow> f (keys ! j) = HIT"
    and num: "start + n \<le> x_cdiv X mx tpc + p"
    and m: "m = min mx (tpc * (start + (n - p)))"
    and j: "(case w of None \<Rightarrow> start | Some w \<Rightarrow> max start (x_cdiv X m tpc - w)) \<le> int j" "int j < x_cdiv X m tpc"
  shows "f (keys ! j) = HIT"
proof -
  have e: "x_cdiv X m tpc = start + (n - p)"
  proof (cases "tpc * (start + (n - p)) \<le> mx")
    case True
    then show ?thesis using m cdiv_mult [OF cd tpc] by simp
  next
    case False
    then have "m = mx" using m by simp
    moreover have "x_cdiv X mx tpc \<le> start + (n - p)" using False cdiv_le [OF cd tpc] by simp
    ultimately show ?thesis using num by simp
  qed
  show ?thesis
    by (rule hits) (use j e p in \<open>auto split: option.splits\<close>)
qed

definition windows_ok :: "sched_config \<Rightarrow> bool" where
  "windows_ok cfg \<longleftrightarrow> (\<forall>gc \<in> set (kv_groups cfg). \<forall>w. sliding_window_chunks gc = Some w \<longrightarrow> 0 < w)"

lemma length_py_slice: "0 \<le> a \<Longrightarrow> 0 \<le> b \<Longrightarrow> b \<le> int (length xs) \<Longrightarrow> length (py_slice a b xs) = nat (b - a)"
  by (simp add: py_slice_nonneg nat_diff_distrib' min_absorb2 nat_le_iff)

lemma nth_py_slice:
  "0 \<le> a \<Longrightarrow> 0 \<le> b \<Longrightarrow> b \<le> int (length xs) \<Longrightarrow> int j < b - a \<Longrightarrow> py_slice a b xs ! j = xs ! (nat a + j)"
  by (simp add: py_slice_nonneg)

definition lookup_config_ok :: "conn_config \<Rightarrow> bool" where
  "lookup_config_ok cc \<longleftrightarrow>
     positive_chunks (cc_sched cc) \<and> windows_ok (cc_sched cc) \<and>
     (\<forall>g gc. group_by_idx (cc_sched cc) g = Inr gc \<longrightarrow> g \<in> set (lookup_groups cc) \<and>
        (g \<in> set (sliding_groups cc) \<longleftrightarrow> sliding_window_chunks gc \<noteq> None))"

context stable_lookup
begin

lemma query_group_ok:
  assumes inv: "inv (c_manager c)" and ctx: "rs_context rs = ctx"
    and start: "start = num_locally_computed_tokens rs div tokens_per_chunk gc" "0 \<le> start"
    and w: "\<And>w. sliding_window_chunks gc = Some w \<Longrightarrow> 0 < w"
    and num: "num = min (x_cdiv X (if u \<and> sliding_window_chunks gc \<noteq> None
        then min (mx + tokens_per_chunk gc) (int (length keys) * tokens_per_chunk gc) else mx)
        (tokens_per_chunk gc)) (int (length keys))" "0 \<le> num"
    and q: "query_group M X T cc rid rs gc keys u mx (c, counted) = Inr (c', counted', r)"
  shows "inv (c_manager c') \<and> (\<forall>n. r = Some n \<longrightarrow> 0 \<le> n \<and> (0 < n \<longrightarrow> start + n \<le> num) \<and>
    (\<forall>j. (case sliding_window_chunks gc of None \<Rightarrow> start
           | Some w \<Rightarrow> max start (start + n - (if u then w + 1 else w))) \<le> int j \<and> int j < start + n \<longrightarrow>
       f (keys ! j) = HIT))"
proof -
  let ?ks = "py_slice start num keys"
  have len: "length ?ks = nat (num - start)" using start(2) num by (intro length_py_slice) auto
  have nth: "int j < num - start \<Longrightarrow> ?ks ! j = keys ! (nat start + j)" for j
    using start(2) num by (intro nth_py_slice) auto
  have hit: "f (keys ! j) = HIT" if "start \<le> int j" "int j < start + int (length ?ks)"
    "map f ?ks ! nat (int j - start) = HIT" for j
  proof -
    have "nat start + nat (int j - start) = j" using that start(2) by simp
    moreover have "nat (int j - start) < length ?ks" using that by auto
    ultimately show ?thesis using that nth [of "nat (int j - start)"] len by (auto split: if_splits)
  qed
  show ?thesis
  proof (cases "sliding_window_chunks gc")
    case None
    have "query_group M X T cc rid rs gc keys u mx (c, counted) =
        maximal_prefix_lookup M T (cc_knobs cc) rid ctx gc start ?ks (c, counted)"
      using None ctx start(1) num(1) by (simp add: query_group_def Let_def)
    with maximal_prefix_ok [OF inv, of T "cc_knobs cc" rid gc start ?ks counted] q
    have r: "r = prefix_result (map f ?ks)" "inv (c_manager c')" by auto
    show ?thesis
    proof (intro conjI allI impI r(2))
      fix n assume n: "r = Some n"
      note d = prefix_result_SomeD [OF n [unfolded r(1)]]
      then show "0 \<le> n" by simp
      show "0 < n \<Longrightarrow> start + n \<le> num" using d len by (simp split: if_splits)
      fix j assume "(case sliding_window_chunks gc of None \<Rightarrow> start
           | Some w \<Rightarrow> max start (start + n - (if u then w + 1 else w))) \<le> int j \<and> int j < start + n"
      then show "f (keys ! j) = HIT" using None d by (intro hit) auto
    qed
  next
    case (Some w)
    let ?w = "if u then w + 1 else w"
    have w0: "0 < nat ?w" "int (nat ?w) = ?w" using w [OF Some] by auto
    have "query_group M X T cc rid rs gc keys u mx (c, counted) =
        bindE (sliding_window_lookup M ctx ?w ?ks c) (\<lambda>(c, r). Inr (c, counted, r))"
      using Some ctx start(1) num(1) by (simp add: query_group_def Let_def)
    with sliding_window_ok [OF inv w0(1), of ?ks, unfolded w0(2)] q
    have r: "window_result (nat ?w) (map f ?ks) r" "inv (c_manager c')" by auto
    show ?thesis
    proof (intro conjI allI impI r(2))
      fix n assume n: "r = Some n"
      note d = window_result_SomeD [OF r(1) [unfolded n], unfolded w0(2)]
      then show "0 \<le> n" by simp
      show "0 < n \<Longrightarrow> start + n \<le> num" using d len by (simp split: if_splits)
      fix j assume "(case sliding_window_chunks gc of None \<Rightarrow> start
           | Some w \<Rightarrow> max start (start + n - (if u then w + 1 else w))) \<le> int j \<and> int j < start + n"
      then show "f (keys ! j) = HIT" using Some d by (intro hit) auto
    qed
  qed
qed

lemma scan_group_settles:
  assumes inv: "inv (c_manager (sc_conn s))" and ctx: "rs_context rs = ctx"
    and comp: "0 \<le> num_locally_computed_tokens rs"
    and cfg: "cdiv_ok X" "positive_chunks (cc_sched cc)" "windows_ok (cc_sched cc)"
    and step: "scan_group M X T cc rid rq rs g s = Inr (s', False)"
  obtains gc and r :: "int option" where "group_by_idx (cc_sched cc) g = Inr gc" "inv (c_manager (sc_conn s'))"
    "r = None \<or> chunk_ready X f rs gc (sc_max s')" "sc_max s' \<le> sc_max s"
    "sc_hit s' = sc_max s' - num_locally_computed_tokens rs" "0 < sc_hit s'"
    "sc_defer s' = ((sc_defer s \<or> r = None) \<and> \<not> sc_hit s' < sc_hit s)"
    "sc_again s' = (if sc_hit s' < sc_hit s \<and> (sc_defer s \<or> r = None) then lookup_groups cc
       else if sc_hit s' < sc_hit s \<and> sc_sw s \<and> sc_again s = [] then sliding_groups cc else sc_again s)"
    "sc_sw s' = (sc_sw s \<or> sliding_window_chunks gc \<noteq> None)"
  using step
proof (cases rule: scan_groupE)
  case (1 gc c counted r mx d tight)
  let ?tpc = "tokens_per_chunk gc" and ?keys = "offload_keys (group_states rs ! g)"
  let ?start = "num_locally_computed_tokens rs div ?tpc"
  let ?u = "is_eagle_group gc \<and> g \<notin> sc_verified s"
  let ?sw = "sliding_window_chunks gc"
  let ?num = "min (x_cdiv X (if ?u \<and> ?sw \<noteq> None then min (mx + ?tpc) (int (length ?keys) * ?tpc) else mx) ?tpc)
    (int (length ?keys))"
  have gc: "gc \<in> set (kv_groups (cc_sched cc))" "group_idx gc = g" using group_by_idxD [OF 1(1)] by auto
  have tpc: "0 < ?tpc" using cfg(2) gc by (auto simp: positive_chunks_def)
  have w: "?sw = Some w \<Longrightarrow> 0 < w" for w using cfg(3) gc by (auto simp: windows_ok_def)
  have start: "0 \<le> ?start" using comp tpc by (simp add: pos_imp_zdiv_nonneg_iff)
  have mx: "mx \<le> sc_max s" "mx \<le> int (length ?keys) * ?tpc"
    by (simp_all only: 1(3) min.cobounded1 min.cobounded2)
  have max: "sc_max s' \<le> mx" by (cases r; simp only: 1(7) option.case min.cobounded1 order_refl)
  then have "0 < mx" using 1(8,9) comp tpc by linarith
  have ge0: "0 \<le> x_cdiv X a ?tpc" if "0 \<le> a" for a
    using cdiv_le [OF cfg(1) tpc, of a "- 1"] that tpc by auto
  have num: "0 \<le> ?num" using \<open>0 < mx\<close> tpc by (auto intro!: ge0 simp: min_def)
  have numle: "?num \<le> x_cdiv X mx ?tpc + (if ?u then 1 else 0)"
  proof -
    have "x_cdiv X (min (mx + ?tpc) (int (length ?keys) * ?tpc)) ?tpc \<le> x_cdiv X mx ?tpc + 1"
      using cdiv_mono [OF cfg(1) tpc, of "min (mx + ?tpc) (int (length ?keys) * ?tpc)" "mx + ?tpc"]
      by (simp add: cdiv_add [OF cfg(1) tpc])
    then show ?thesis by auto
  qed
  note q = query_group_ok [OF inv ctx refl start w refl num 1(4)]
  have ready: "chunk_ready X f rs gc (sc_max s')" if r: "r = Some n" for n
  proof -
    have n: "0 < n" using q r 1(5) by (cases "n = 0") auto
    have m: "sc_max s' = min mx (?tpc * (?start + (n - (if ?u then 1 else 0))))"
      using 1(7) r by simp
    have "f (?keys ! j) = HIT"
      if "(case ?sw of None \<Rightarrow> ?start | Some w \<Rightarrow> max ?start (x_cdiv X (sc_max s') ?tpc - w)) \<le> int j"
        "int j < x_cdiv X (sc_max s') ?tpc" for j
    proof (rule ready_up_to [OF cfg(1) tpc, where p = "if ?u then 1 else 0" and n = n and w = ?sw])
      show "sc_max s' = min mx (?tpc * (?start + (n - (if ?u then 1 else 0))))" by (rule m)
      show "?start + n \<le> x_cdiv X mx ?tpc + (if ?u then 1 else 0)" using q r n numle by auto
      show "f (?keys ! j) = HIT"
        if "(case ?sw of None \<Rightarrow> ?start | Some w \<Rightarrow> max ?start (?start + n - (w + (if ?u then 1 else 0)))) \<le> int j"
          "int j < ?start + n" for j
        using q r that by (auto split: option.splits if_splits)
    qed (use that in simp_all)
    then show ?thesis using max mx(2) gc(2) by (simp add: chunk_ready_def Let_def)
  qed
  have "r = None \<or> chunk_ready X f rs gc (sc_max s')" using ready by (cases r) simp_all
  moreover have "inv (c_manager (sc_conn s'))" using q 1(6) by simp
  moreover have "sc_max s' \<le> sc_max s" using max mx(1) by (rule order_trans)
  moreover have "0 < sc_hit s'" using 1(9) tpc by simp
  ultimately show thesis
    by (intro that [OF 1(1) _ _ _ 1(8) _ 1(12) [unfolded 1(10,11)] 1(13) [unfolded 1(10,11)] 1(14)])
qed

text \<open>What the loop maintains: each group is still to be looked up, or deferred, or ready.\<close>

definition covered :: "ext_ops \<Rightarrow> conn_config \<Rightarrow> req_state \<Rightarrow> nat set \<Rightarrow> ('s, 'e) scan \<Rightarrow> bool" where
  "covered X cc rs todo s \<longleftrightarrow>
     (\<forall>g gc. group_by_idx (cc_sched cc) g = Inr gc \<longrightarrow>
        g \<in> todo \<or> g \<in> set (sc_again s) \<or> sc_defer s \<or> chunk_ready X f rs gc (sc_max s))"

lemma chunk_ready_mono:
  assumes "cdiv_ok X" "0 < tokens_per_chunk gc" "sliding_window_chunks gc = None"
    and "chunk_ready X f rs gc mx" "mx' \<le> mx"
  shows "chunk_ready X f rs gc mx'"
  using assms(3-5) cdiv_mono [OF assms(1,2,5)] by (auto simp: chunk_ready_def Let_def)

lemma scan_pass_covers:
  assumes "scan_pass M X T cc rid rq rs gs s = Inr (s', False)"
    and "inv (c_manager (sc_conn s))" "rs_context rs = ctx" "0 \<le> num_locally_computed_tokens rs"
    and X: "cdiv_ok X" and cfg: "lookup_config_ok cc"
    and "covered X cc rs (set gs) s" "sc_again s \<in> {[], lookup_groups cc, sliding_groups cc}"
    and "L = lookup_groups cc \<or> L = sliding_groups cc" "L = P @ gs"
    and "P \<noteq> [] \<longrightarrow> sc_hit s = sc_max s - num_locally_computed_tokens rs"
    and "(\<exists>g \<in> set P. g \<in> set (sliding_groups cc)) \<longrightarrow> sc_sw s"
  shows "inv (c_manager (sc_conn s')) \<and> covered X cc rs {} s' \<and>
    sc_again s' \<in> {[], lookup_groups cc, sliding_groups cc} \<and>
    (L \<noteq> [] \<longrightarrow> sc_hit s' = sc_max s' - num_locally_computed_tokens rs)"
  using assms(1,2,3,4,7,8,10,11,12)
proof (induction gs arbitrary: s P)
  case Nil
  then show ?case by simp
next
  case (Cons g gs)
  let ?comp = "num_locally_computed_tokens rs"
  from Cons.prems(1) obtain s1 where s1: "scan_group M X T cc rid rq rs g s = Inr (s1, False)"
    and rest: "scan_pass M X T cc rid rq rs gs s1 = Inr (s', False)"
    by (auto simp: res_simps split: if_splits)
  have pc: "positive_chunks (cc_sched cc)" and wo: "windows_ok (cc_sched cc)"
    using cfg by (simp_all add: lookup_config_ok_def)
  obtain gc and r :: "int option" where g: "group_by_idx (cc_sched cc) g = Inr gc"
    and inv1: "inv (c_manager (sc_conn s1))" and ready: "r = None \<or> chunk_ready X f rs gc (sc_max s1)"
    and le: "sc_max s1 \<le> sc_max s" and hit: "sc_hit s1 = sc_max s1 - ?comp"
    and dfr: "sc_defer s1 = ((sc_defer s \<or> r = None) \<and> \<not> sc_hit s1 < sc_hit s)"
    and again: "sc_again s1 = (if sc_hit s1 < sc_hit s \<and> (sc_defer s \<or> r = None) then lookup_groups cc
       else if sc_hit s1 < sc_hit s \<and> sc_sw s \<and> sc_again s = [] then sliding_groups cc else sc_again s)"
    and sw: "sc_sw s1 = (sc_sw s \<or> sliding_window_chunks gc \<noteq> None)"
    by (rule scan_group_settles [OF Cons.prems(2,3,4) X pc wo s1]) blast
  have again_in: "sc_again s1 \<in> {[], lookup_groups cc, sliding_groups cc}"
    using again Cons.prems(6) by (auto split: if_splits)
  have cov: "covered X cc rs (set gs) s1"
    unfolding covered_def
  proof (intro allI impI)
    fix h hc assume h: "group_by_idx (cc_sched cc) h = Inr hc"
    have in_all: "h \<in> set (lookup_groups cc)"
      and sliding: "h \<in> set (sliding_groups cc) \<longleftrightarrow> sliding_window_chunks hc \<noteq> None"
      using h cfg by (auto simp: lookup_config_ok_def)
    have hc: "0 < tokens_per_chunk hc" using group_by_idxD [OF h] pc by (auto simp: positive_chunks_def)
    show "h \<in> set gs \<or> h \<in> set (sc_again s1) \<or> sc_defer s1 \<or> chunk_ready X f rs hc (sc_max s1)"
    proof (cases "sc_defer s \<or> r = None")
      case True
      then show ?thesis using dfr again in_all by auto
    next
      case nd: False
      show ?thesis
      proof (cases "h = g")
        case True
        then show ?thesis using g h ready nd by auto
      next
        case False
        then have "h \<in> set gs \<or> h \<in> set (sc_again s) \<or> chunk_ready X f rs hc (sc_max s)"
          using Cons.prems(5) h nd by (auto simp: covered_def)
        then consider "h \<in> set gs" | "h \<in> set (sc_again s)" | "h \<notin> set gs" "chunk_ready X f rs hc (sc_max s)" by blast
        then show ?thesis
        proof cases
          case 2
          then show ?thesis using again nd by auto
        next
          case 3
          show ?thesis
          proof (cases "sliding_window_chunks hc = None")
            case True
            then show ?thesis using chunk_ready_mono [OF X hc True 3(2) le] by simp
          next
            case sl: False
            then have hs: "h \<in> set (sliding_groups cc)" using sliding by simp
            then have "h \<in> set L" using in_all assms(9) by auto
            then have hP: "h \<in> set P" using Cons.prems(7) 3(1) False by auto
            show ?thesis
            proof (cases "sc_max s1 = sc_max s")
              case False
              have "sc_hit s1 < sc_hit s" using hit Cons.prems(8) hP le False by auto
              then show ?thesis using again nd hs in_all hP Cons.prems(6,9) by auto
            qed (use 3(2) in simp)
          qed
        qed simp
      qed
    qed
  qed
  have "L = (P @ [g]) @ gs" using Cons.prems(7) by simp
  moreover have "(\<exists>g \<in> set (P @ [g]). g \<in> set (sliding_groups cc)) \<longrightarrow> sc_sw s1"
    using Cons.prems(9) sw g cfg by (auto simp: lookup_config_ok_def)
  ultimately show ?case
    using Cons.IH [OF rest inv1 Cons.prems(3,4) cov again_in, of "P @ [g]"] hit by simp
qed

lemma scan_loop_covers:
  assumes "scan_loop M X T cc rid rq rs fuel s = Inr (s', False)"
    and "inv (c_manager (sc_conn s))" "rs_context rs = ctx" "0 \<le> num_locally_computed_tokens rs"
    and X: "cdiv_ok X" and cfg: "lookup_config_ok cc"
    and "covered X cc rs {} s" "sc_again s \<in> {[], lookup_groups cc, sliding_groups cc}"
  shows "inv (c_manager (sc_conn s')) \<and> covered X cc rs {} s' \<and> sc_again s' = [] \<and>
    (sc_again s \<noteq> [] \<longrightarrow> sc_hit s' = sc_max s' - num_locally_computed_tokens rs)"
  using assms(1,2,7,8)
proof (induction fuel arbitrary: s)
  case 0
  then show ?case by (simp add: scan_loop.simps split: if_splits)
next
  case (Suc fuel)
  show ?case
  proof (cases "sc_again s = []")
    case True
    then show ?thesis using Suc.prems by (simp add: scan_loop.simps)
  next
    case False
    let ?s = "s\<lparr>sc_again := [], sc_sw := False\<rparr>"
    obtain s1 where s1: "scan_pass M X T cc rid rq rs (sc_again s) ?s = Inr (s1, False)"
      and rest: "scan_loop M X T cc rid rq rs fuel s1 = Inr (s', False)"
      using Suc.prems(1) False by (subst (asm) scan_loop.simps) (auto simp: res_simps split: if_splits)
    have "covered X cc rs (set (sc_again s)) ?s" using Suc.prems(3) by (auto simp: covered_def)
    then have p: "inv (c_manager (sc_conn s1))" "covered X cc rs {} s1"
      "sc_again s1 \<in> {[], lookup_groups cc, sliding_groups cc}"
      "sc_hit s1 = sc_max s1 - num_locally_computed_tokens rs"
      using scan_pass_covers [OF s1 _ assms(3,4) X cfg, of "sc_again s" "[]"] Suc.prems(2,4) False by auto
    have "inv (c_manager (sc_conn s')) \<and> covered X cc rs {} s' \<and> sc_again s' = [] \<and>
      (sc_again s1 \<noteq> [] \<longrightarrow> sc_hit s' = sc_max s' - num_locally_computed_tokens rs)"
      by (rule Suc.IH [OF rest p(1-3)])
    moreover have "sc_again s1 = [] \<Longrightarrow> s' = s1" using rest by (simp add: scan_loop.simps)
    ultimately show ?thesis using p(4) by metis
  qed
qed

text \<open>The lookup as a whole: a resolved hit covers what every group would load.\<close>

lemma lookup_complete_ready:
  assumes "inv (c_manager c)" "rs_context rs = ctx" "0 \<le> num_locally_computed_tokens rs"
    and X: "cdiv_ok X" and cfg: "lookup_config_ok cc" and ne: "lookup_groups cc \<noteq> []"
    and res: "lookup_complete_chunks M X T cc rid rq rs c = Inr (c', rs', Some h)" and "h \<noteq> 0"
    and g: "group_by_idx (cc_sched cc) g = Inr gc"
  shows "inv (c_manager c') \<and> chunk_ready X f rs gc (num_locally_computed_tokens rs + h)"
proof -
  define s0 where "s0 = \<lparr>sc_conn = c, sc_counted = tombstone_counted_hashes rs, sc_max = initial_max_hit X cc rq,
    sc_hit = 0, sc_defer = False, sc_verified = {}, sc_again = lookup_groups cc, sc_sw = False\<rparr>"
  have f: "sc_conn s0 = c" "sc_again s0 = lookup_groups cc" by (simp_all add: s0_def)
  obtain s1 abort where s1: "scan_loop M X T cc rid rq rs (scan_fuel rq) s0 = Inr (s1, abort)"
    using res unfolding lookup_complete_chunks_def s0_def [symmetric] bindE_eq_Inr by auto
  have ab: "\<not> abort" and nd: "\<not> sc_defer s1" and h: "h = sc_hit s1" "c' = sc_conn s1"
    using res s1 \<open>h \<noteq> 0\<close>
    unfolding lookup_complete_chunks_def s0_def [symmetric]
    by (auto simp: Let_def res_simps split: if_splits option.splits)
  have "covered X cc rs {} s0" using cfg f by (auto simp: covered_def lookup_config_ok_def)
  then have "inv (c_manager (sc_conn s1)) \<and> covered X cc rs {} s1 \<and> sc_again s1 = [] \<and>
    (sc_again s0 \<noteq> [] \<longrightarrow> sc_hit s1 = sc_max s1 - num_locally_computed_tokens rs)"
    using scan_loop_covers [OF s1 [simplified ab] _ assms(2,3) X cfg] assms(1) f by simp
  with g nd h ne f show ?thesis by (auto simp: covered_def)
qed

end

lemma last_slice:
  "0 < v \<Longrightarrow> py_slice (- v) (int (length xs)) xs = drop (nat (max 0 (int (length xs) - v))) xs"
  by (simp add: py_slice_def slice_index_def)

lemma in_set_dropE:
  assumes "x \<in> set (drop n xs)"
  obtains i where "n \<le> i" "i < length xs" "x = xs ! i"
proof -
  obtain j where "j < length xs - n" "x = drop n xs ! j"
    using assms by (auto simp: in_set_conv_nth)
  then show thesis by (intro that [of "n + j"]) (simp_all add: less_diff_conv)
qed

text \<open>\<open>chunk_ready\<close> is about the keys that the code itself would load.\<close>

lemma ready_hit_keys:
  assumes ready: "chunk_ready X f rs gc (num_locally_computed_tokens rs + h)"
    and nonneg: "0 \<le> num_locally_computed_tokens rs" "0 \<le> h" and tpc: "0 < tokens_per_chunk gc"
    and X: "cdiv_ok X" and w: "\<And>w. sliding_window_chunks gc = Some w \<Longrightarrow> 0 < w"
    and ks: "hit_keys X rs h gc = Inr ks" and k: "k \<in> set ks"
  shows "f k = HIT"
proof -
  let ?keys = "offload_keys (gstate rs gc)" and ?tpc = "tokens_per_chunk gc"
  let ?start = "num_locally_computed_tokens rs div ?tpc" and ?mx = "num_locally_computed_tokens rs + h"
  let ?e = "x_cdiv X ?mx ?tpc"
  let ?ks = "py_slice ?start ?e ?keys"
  have start: "0 \<le> ?start" using nonneg tpc by (simp add: pos_imp_zdiv_nonneg_iff)
  have e: "0 \<le> ?e" "?e \<le> int (length ?keys)"
    using cdiv_le [OF X tpc, of ?mx "- 1"] cdiv_le [OF X tpc, of ?mx "int (length ?keys)"] ready nonneg tpc
    by (auto simp: chunk_ready_def Let_def mult.commute)
  have len: "length ?ks = nat (?e - ?start)" by (rule length_py_slice [OF start e])
  have hit: "f (?ks ! i) = HIT"
    if "i < length ?ks" "case sliding_window_chunks gc of None \<Rightarrow> True | Some w \<Rightarrow> int (length ?ks) - w \<le> int i" for i
  proof -
    have i: "int i < ?e - ?start" using that(1) len by simp
    moreover have "int (length ?ks) = ?e - ?start" using i len by simp
    ultimately have "(case sliding_window_chunks gc of None \<Rightarrow> ?start | Some w \<Rightarrow> max ?start (?e - w)) \<le> int (nat ?start + i)"
      using that(2) start by (auto split: option.splits)
    moreover have "int (nat ?start + i) < ?e" using i start by simp
    ultimately have "f (?keys ! (nat ?start + i)) = HIT" using ready by (auto simp: chunk_ready_def Let_def)
    then show ?thesis using nth_py_slice [OF start e i] by simp
  qed
  show ?thesis
  proof (cases "sliding_window_chunks gc")
    case None
    then have "k \<in> set ?ks" using ks k by (auto simp: hit_keys_def Let_def res_simps)
    with hit None show ?thesis by (auto simp: in_set_conv_nth)
  next
    case (Some v)
    then have "k \<in> set (py_slice (- v) (int (length ?ks)) ?ks)"
      using ks k by (auto simp: hit_keys_def Let_def res_simps)
    then have "k \<in> set (drop (nat (max 0 (int (length ?ks) - v))) ?ks)"
      by (simp only: last_slice [OF w [OF Some]])
    then obtain i where "nat (max 0 (int (length ?ks) - v)) \<le> i" "i < length ?ks" "k = ?ks ! i"
      by (rule in_set_dropE)
    note i = this
    have "int (length ?ks) - v \<le> int i" using i(1) by linarith
    then have "f (?ks ! i) = HIT" by (intro hit [OF i(2)]) (simp only: Some option.case)
    then show ?thesis by (simp only: i(3))
  qed
qed

end
