(* ===== verification/CPU_Manager.thy ===== *)
theory CPU_Manager
  imports Cache_Policy Py_Env Offload_Metrics
begin

text \<open>
  Model of \<open>CPUOffloadingManager\<close> in \<open>v1/kv_offload/cpu/manager.py\<close>: the block pool, the
  reference counts, the store and load skeletons, the eviction tombstones, events and metrics.
  The manager is generic in its cache policy, a record of operations \<open>P\<close> over policy states.
\<close>

section \<open>State\<close>

text \<open>
  The fields in the order of \<open>__init__\<close>. \<open>tombstones\<close> is \<open>None\<close> when the registry is disabled,
  \<open>events\<close> when events are, \<open>counts\<close> when the store threshold is below 2.
\<close>

record 'p manager =
  num_blocks :: int
  num_allocated_blocks :: int
  free_list :: "int list"
  events :: "offloading_event list option"
  policy :: 'p
  num_evictable :: int
  num_write_pending :: int
  evicted_total :: int
  tombstone_capacity :: int
  tombstones :: "(bytes, unit) odict option"
  tombstone_overflows :: int
  tombstone_overflows_emitted :: int
  call_cap :: int
  capped_total :: int
  capped_decay_total :: int
  cap_last_log :: rat
  store_threshold :: int
  max_tracker_size :: int
  stores_skipped :: int
  allocation_sizes :: "int list"
  counts :: "(offload_key, int) odict option"

definition init_manager :: "'p policy_ops \<Rightarrow> int \<Rightarrow> bool \<Rightarrow> int \<Rightarrow> int \<Rightarrow>
    string option \<Rightarrow> string option \<Rightarrow> 'p manager" where
  "init_manager P nblocks enable_events threshold max_tracker env_tombstones env_cap =
     \<lparr>num_blocks = nblocks, num_allocated_blocks = 0, free_list = [],
      events = (if enable_events then Some [] else None),
      policy = pol_init P nblocks, num_evictable = 0, num_write_pending = 0, evicted_total = 0,
      tombstone_capacity = eviction_tombstone_capacity env_tombstones,
      tombstones = (if eviction_tombstone_capacity env_tombstones > 0 then Some [] else None),
      tombstone_overflows = 0, tombstone_overflows_emitted = 0,
      call_cap = eviction_call_cap env_cap, capped_total = 0, capped_decay_total = 0,
      cap_last_log = 0, store_threshold = threshold, max_tracker_size = max_tracker,
      stores_skipped = 0, allocation_sizes = [],
      counts = (if threshold \<ge> 2 then Some [] else None)\<rparr>"

section \<open>Block pool\<close>

definition get_num_free_blocks :: "'p manager \<Rightarrow> int" where
  "get_num_free_blocks m = int (length (free_list m)) + num_blocks m - num_allocated_blocks m"

text \<open>Fresh blocks take the next unused ids, reused ones are popped off the end of the free list.\<close>

definition allocate_blocks :: "nat \<Rightarrow> 'p manager \<Rightarrow> ('p manager \<times> block_status list) res" where
  "allocate_blocks n m =
     (let num_fresh = nat (min (int n) (num_blocks m - num_allocated_blocks m));
          num_reused = int n - min (int n) (num_blocks m - num_allocated_blocks m)
      in assertE (int (length (free_list m)) \<ge> num_reused)
        (let a = num_allocated_blocks m;
             fresh = map (\<lambda>i. new_block (a + int i)) [0..<num_fresh];
             r = nat num_reused;
             reused = map new_block (take r (rev (free_list m)))
         in Inr (m\<lparr>num_allocated_blocks := a + int num_fresh,
                   free_list := take (length (free_list m) - r) (free_list m)\<rparr>,
                 fresh @ reused)))"

definition free_block :: "block_status \<Rightarrow> 'p manager \<Rightarrow> 'p manager" where
  "free_block b m = m\<lparr>free_list := free_list m @ [block_id b]\<rparr>"

definition get_load_store_spec :: "block_status list \<Rightarrow> int list" where
  "get_load_store_spec blocks = map block_id blocks"

section \<open>Lookup, load and touch\<close>

definition cpu_on_new_request :: "req_context \<Rightarrow> offload_policy" where
  "cpu_on_new_request req = BLOCK_LEVEL"

text \<open>The reference counter of \<open>lookup\<close>: most recently looked-up last, bounded in size.\<close>

definition count_lookup :: "offload_key \<Rightarrow> 'p manager \<Rightarrow> 'p manager res" where
  "count_lookup key m =
     (case counts m of
        None \<Rightarrow> Inr m
      | Some cs \<Rightarrow>
          (case map_of cs key of
             Some c \<Rightarrow> Inr (m\<lparr>counts := Some (AList.update key (c + 1) (od_move_to_end key cs))\<rparr>)
           | None \<Rightarrow>
               if int (length cs) \<ge> max_tracker_size m
               then (case cs of [] \<Rightarrow> Inl KeyError
                     | _ # rest \<Rightarrow> Inr (m\<lparr>counts := Some (rest @ [(key, 1)])\<rparr>))
               else Inr (m\<lparr>counts := Some (cs @ [(key, 1)])\<rparr>)))"

definition block_result :: "block_status option \<Rightarrow> lookup_result" where
  "block_result block =
     (case block of None \<Rightarrow> MISS | Some b \<Rightarrow> if \<not> is_ready b then HIT_PENDING else HIT)"

definition cpu_lookup :: "'p policy_ops \<Rightarrow> offload_key \<Rightarrow> 'p manager \<Rightarrow>
    ('p manager \<times> lookup_result) res" where
  "cpu_lookup P key m =
     bindE (count_lookup key m) (\<lambda>m. Inr (m, block_result (pol_get P (policy m) key)))"

definition load_one :: "'p policy_ops \<Rightarrow> offload_key \<Rightarrow> 'p manager \<times> block_status list \<Rightarrow>
    ('p manager \<times> block_status list) res" where
  "load_one P key st =
     (let m = fst st; blocks = snd st in
      case pol_get P (policy m) key of
        None \<Rightarrow> Inl AssertionError
      | Some b \<Rightarrow>
          assertE (is_ready b)
            (bindE (if ref_cnt b = 0
                    then bindE (pol_mark_non_evictable P (policy m) key) (\<lambda>p.
                      let e = num_evictable m - 1
                      in assertE (e \<ge> 0) (Inr (m\<lparr>policy := p, num_evictable := e\<rparr>)))
                    else Inr m) (\<lambda>m.
               let b' = add_ref 1 b
               in Inr (m\<lparr>policy := pol_set_block P (policy m) key b'\<rparr>, blocks @ [b']))))"

definition cpu_prepare_load :: "'p policy_ops \<Rightarrow> offload_key list \<Rightarrow> 'p manager \<Rightarrow>
    ('p manager \<times> int list) res" where
  "cpu_prepare_load P keys m =
     bindE (foldE (load_one P) keys (m, [])) (\<lambda>(m, blocks). Inr (m, get_load_store_spec blocks))"

definition cpu_touch :: "'p policy_ops \<Rightarrow> offload_key list \<Rightarrow> 'p manager \<Rightarrow> 'p manager" where
  "cpu_touch P keys m = m\<lparr>policy := pol_touch P (policy m) keys\<rparr>"

definition unload_one :: "'p policy_ops \<Rightarrow> offload_key \<Rightarrow> 'p manager \<Rightarrow> 'p manager res" where
  "unload_one P key m =
     (case pol_get P (policy m) key of
        None \<Rightarrow> Inl AssertionError
      | Some b \<Rightarrow>
          assertE (ref_cnt b > 0)
            (let b' = add_ref (- 1) b; p = pol_set_block P (policy m) key b'
             in if ref_cnt b' = 0
                then Inr (m\<lparr>num_evictable := num_evictable m + 1,
                            policy := pol_mark_evictable P p key\<rparr>)
                else Inr (m\<lparr>policy := p\<rparr>)))"

definition cpu_complete_load :: "'p policy_ops \<Rightarrow> offload_key list \<Rightarrow> 'p manager \<Rightarrow>
    'p manager res" where
  "cpu_complete_load P keys m = foldE (unload_one P) keys m"

section \<open>Eviction tombstones\<close>

text \<open>
  \<open>_record_eviction_tombstones\<close>: one hash is appended unless present; the inner \<open>while\<close> pops the
  oldest entries until the capacity holds. Its first argument is a generator, which is truthy.
\<close>

definition tombstone_one :: "int \<Rightarrow> bytes \<Rightarrow> (bytes, unit) odict \<times> int \<Rightarrow>
    (bytes, unit) odict \<times> int" where
  "tombstone_one capacity h st =
     (let registry = fst st; overflows = snd st in
      if od_mem h registry then (registry, overflows)
      else let registry = registry @ [(h, ())];
               k = nat (int (length registry) - capacity)
           in (drop k registry, overflows + int k))"

definition record_eviction_tombstones :: "bytes list \<Rightarrow> 'p manager \<Rightarrow> 'p manager" where
  "record_eviction_tombstones hashes m =
     (case tombstones m of
        None \<Rightarrow> m
      | Some registry \<Rightarrow>
          (let (registry, overflows) =
             fold (tombstone_one (tombstone_capacity m)) hashes (registry, 0)
           in m\<lparr>tombstones := Some registry,
                tombstone_overflows := tombstone_overflows m + overflows\<rparr>))"

definition has_eviction_tombstone :: "bytes \<Rightarrow> 'p manager \<Rightarrow> bool" where
  "has_eviction_tombstone h m =
     (case tombstones m of None \<Rightarrow> False | Some registry \<Rightarrow> od_mem h registry)"

section \<open>Store\<close>

definition log_eviction_capped :: "rat \<Rightarrow> 'p manager \<Rightarrow> 'p manager" where
  "log_eviction_capped now m =
     (if now - cap_last_log m < 60 then m else m\<lparr>cap_last_log := now\<rparr>)"

text \<open>The threshold gate at the head of \<open>prepare_store\<close>.\<close>

definition threshold_gate :: "bool \<Rightarrow> offload_key list \<Rightarrow> 'p manager \<Rightarrow>
    'p manager \<times> offload_key list" where
  "threshold_gate bypass keys m =
     (case counts m of
        None \<Rightarrow> (m, keys)
      | Some cs \<Rightarrow>
          if bypass then (m, keys)
          else let kept = filter (\<lambda>k. get_or k 0 cs \<ge> store_threshold m) keys
               in (m\<lparr>stores_skipped :=
                     stores_skipped m + (int (length keys) - int (length kept))\<rparr>, kept))"

text \<open>
  The eviction part: the per-call cap, the two abort conditions, the policy's choice, and the
  freed blocks. \<open>None\<close> is the early \<open>return None\<close>; the counters written before it stay.
\<close>

definition make_room :: "'p policy_ops \<Rightarrow> rat \<Rightarrow> int \<Rightarrow> offload_key list \<Rightarrow> 'p manager \<Rightarrow>
    ('p manager \<times> offload_key list option) res" where
  "make_room P now n_store keys m =
     (let free_before = get_num_free_blocks m; n0 = n_store - free_before in
      if n0 > 0 then
        (let cap = call_cap m;
             capped = (0 < cap \<and> cap < n0);
             n = (if capped then cap else n0);
             m = (if capped
                  then log_eviction_capped now
                    (m\<lparr>capped_total := capped_total m + 1,
                       capped_decay_total := capped_decay_total m + (n0 - cap)\<rparr>)
                  else m)
         in if n > num_evictable m \<or> free_before + n < n_store then Inr (m, None)
            else bindE (pol_evict P (policy m) (nat n) keys) (\<lambda>(p, r).
              case r of
                None \<Rightarrow> Inr (m\<lparr>policy := p\<rparr>, None)
              | Some evicted \<Rightarrow>
                  (let e = num_evictable m - int (length evicted)
                   in assertE (e \<ge> 0)
                     (Inr (fold free_block (map snd evicted) (m\<lparr>policy := p, num_evictable := e\<rparr>),
                           Some (map fst evicted))))))
      else Inr (m, Some []))"

definition note_evicted :: "offload_key list \<Rightarrow> 'p manager \<Rightarrow> 'p manager" where
  "note_evicted to_evict m =
     (if to_evict = [] then m
      else let m = record_eviction_tombstones (map get_offload_block_hash to_evict)
                 (m\<lparr>evicted_total := evicted_total m + int (length to_evict)\<rparr>)
           in case events m of
                None \<Rightarrow> m
              | Some evs \<Rightarrow> m\<lparr>events :=
                  Some (evs @ [\<lparr>ev_keys = to_evict, ev_medium = CPU, ev_removed = True\<rparr>])\<rparr>)"

definition insert_all :: "'p policy_ops \<Rightarrow> (offload_key \<times> block_status) list \<Rightarrow> 'p manager \<Rightarrow>
    'p manager" where
  "insert_all P kbs m = m\<lparr>policy := fold (\<lambda>(k, b) p. pol_insert P p k b) kbs (policy m)\<rparr>"

definition cpu_prepare_store :: "'p policy_ops \<Rightarrow> rat \<Rightarrow> offload_key list \<Rightarrow> bool \<Rightarrow> 'p manager \<Rightarrow>
    ('p manager \<times> prepare_store_output option) res" where
  "cpu_prepare_store P now keys bypass m =
     (let (m, keys) = threshold_gate bypass keys m;
          new_keys = filter (\<lambda>k. pol_get P (policy m) k = None) keys
      in if new_keys = []
         then Inr (m, Some \<lparr>keys_to_store = [], store_spec = get_load_store_spec [],
                            evicted_keys = []\<rparr>)
         else let m = m\<lparr>allocation_sizes := allocation_sizes m @ [int (length new_keys)]\<rparr>
           in bindE (make_room P now (int (length new_keys)) keys m) (\<lambda>(m, r).
             case r of
               None \<Rightarrow> Inr (m, None)
             | Some to_evict \<Rightarrow>
                 bindE (allocate_blocks (length new_keys) (note_evicted to_evict m)) (\<lambda>(m, blocks).
                   assertE (length blocks = length new_keys)
                     (let m = insert_all P (zip new_keys blocks) m
                      in Inr (m\<lparr>num_write_pending := num_write_pending m + int (length new_keys)\<rparr>,
                              Some \<lparr>keys_to_store = new_keys,
                                    store_spec = get_load_store_spec blocks,
                                    evicted_keys = to_evict\<rparr>)))))"

section \<open>Completing a store\<close>

definition store_done :: "'p policy_ops \<Rightarrow> offload_key \<Rightarrow> 'p manager \<times> offload_key list \<Rightarrow>
    'p manager \<times> offload_key list" where
  "store_done P key st =
     (let m = fst st; stored = snd st in
      case pol_get P (policy m) key of
        None \<Rightarrow> (m, stored)
      | Some b \<Rightarrow>
          if is_ready b then (m, stored)
          else (m\<lparr>num_write_pending := num_write_pending m - 1,
                  num_evictable := num_evictable m + 1,
                  policy := pol_mark_evictable P
                    (pol_set_block P (policy m) key (b\<lparr>ref_cnt := 0\<rparr>)) key\<rparr>,
                stored @ [key]))"

definition store_failed :: "'p policy_ops \<Rightarrow> offload_key \<Rightarrow> 'p manager \<Rightarrow> 'p manager res" where
  "store_failed P key m =
     (case pol_get P (policy m) key of
        None \<Rightarrow> Inr m
      | Some b \<Rightarrow>
          if is_ready b then Inr m
          else bindE (pol_remove P (policy m) key) (\<lambda>p.
            Inr (free_block b (m\<lparr>num_write_pending := num_write_pending m - 1, policy := p\<rparr>))))"

definition cpu_complete_store :: "'p policy_ops \<Rightarrow> offload_key list \<Rightarrow> bool \<Rightarrow> 'p manager \<Rightarrow>
    'p manager res" where
  "cpu_complete_store P keys success m =
     (if success then
        (let (m, stored) = fold (store_done P) keys (m, []);
             m = (case tombstones m of
                    None \<Rightarrow> m
                  | Some registry \<Rightarrow>
                      m\<lparr>tombstones := Some (fold (\<lambda>k. AList.delete (get_offload_block_hash k))
                          stored registry)\<rparr>)
         in Inr (case events m of
                   None \<Rightarrow> m
                 | Some evs \<Rightarrow>
                     if stored = [] then m
                     else m\<lparr>events := Some (evs @
                       [\<lparr>ev_keys = stored, ev_medium = CPU, ev_removed = False\<rparr>])\<rparr>))
      else foldE (store_failed P) keys m)"

section \<open>Reset, events and metrics\<close>

definition reset_event_chunk :: nat where
  "reset_event_chunk = 65536"

text \<open>The slices \<open>removed_keys[i : i + chunk]\<close> for \<open>i\<close> in steps of the chunk size.\<close>

function chunks :: "nat \<Rightarrow> 'a list \<Rightarrow> 'a list list" where
  "chunks c xs = (if xs = [] \<or> c = 0 then [] else take c xs # chunks c (drop c xs))"
  by pat_completeness auto
termination
  by (relation "measure (\<lambda>(c, xs). length xs)") auto

declare chunks.simps [simp del]

definition cpu_reset_cache :: "'p policy_ops \<Rightarrow> 'p manager \<Rightarrow> 'p manager" where
  "cpu_reset_cache P m =
     (let removed = pol_stored_keys P (policy m);
          evs = map_option (\<lambda>evs. evs @
            map (\<lambda>ks. \<lparr>ev_keys = ks, ev_medium = CPU, ev_removed = True\<rparr>)
              (chunks reset_event_chunk removed)) (events m)
      in m\<lparr>events := evs, policy := pol_clear P (policy m), num_evictable := 0,
           num_write_pending := 0, free_list := [], num_allocated_blocks := 0\<rparr>)"

definition cpu_take_events :: "'p manager \<Rightarrow> 'p manager \<times> offloading_event list" where
  "cpu_take_events m =
     (case events m of None \<Rightarrow> (m, []) | Some evs \<Rightarrow> (m\<lparr>events := Some []\<rparr>, evs))"

definition cpu_get_stats :: "'p manager \<Rightarrow> ('p manager \<times> stats) res" where
  "cpu_get_stats m =
     (let num_used = num_allocated_blocks m - int (length (free_list m)) - num_evictable m;
          ratio = (\<lambda>n. if num_blocks m > 0 then py_truediv n (num_blocks m) else Inr (Double 0));
          g = (\<lambda>name v s. set_gauge s name v [])
      in bindE (ratio num_used) (\<lambda>usage.
      let s = g ''vllm:kv_offload_cpu_evicted_total'' (PyInt (evicted_total m))
             (g ''vllm:kv_offload_cpu_evictable_len'' (PyInt (num_evictable m))
             (g ''vllm:kv_offload_cpu_free_list_len'' (PyInt (int (length (free_list m))))
             (g ''vllm:kv_offload_cpu_allocated'' (PyInt (num_allocated_blocks m))
             (g ''vllm:kv_offload_cpu_cache_usage_perc'' (PyFloat usage) stats_reset))));
          delta = tombstone_overflows m - tombstone_overflows_emitted m
      in bindE (case tombstones m of
                  None \<Rightarrow> Inr (m, s)
                | Some registry \<Rightarrow>
                    (let s = g ''vllm:kv_offload_eviction_tombstones''
                               (PyInt (int (length registry))) s
                     in if delta > 0 then
                          bindE (increase_counter s
                              ''vllm:kv_offload_eviction_tombstone_overflows_total''
                              (PyInt delta) [])
                            (\<lambda>s. Inr (m\<lparr>tombstone_overflows_emitted :=
                                        tombstone_overflows_emitted m + delta\<rparr>, s))
                        else Inr (m, s)))
           (\<lambda>(m, s).
         bindE (foldE (\<lambda>x s. observe_histogram s ''vllm:kv_offload_cpu_allocation_size''
                               (PyInt x) []) (allocation_sizes m) s)
           (\<lambda>s.
         let m = m\<lparr>allocation_sizes := []\<rparr> in
         bindE (ratio (num_write_pending m)) (\<lambda>write_usage.
         let read_usage = float_max (float_plus usage (float_neg write_usage)) (Double 0);
             s = g ''vllm:kv_offload_cpu_cache_read_usage_perc'' (PyFloat read_usage)
                 (g ''vllm:kv_offload_cpu_cache_write_usage_perc'' (PyFloat write_usage) s)
          in if store_threshold m \<ge> 2 then
               bindE (increase_counter s ''vllm:kv_offload_stores_skipped''
                       (PyInt (stores_skipped m)) [])
                 (\<lambda>s. Inr (m\<lparr>stores_skipped := 0\<rparr>, s))
             else Inr (m, s))))))"

end
