(* ===== verification/Connector_CPU.thy ===== *)
theory Connector_CPU
  imports Connector_Steps Connector_Agreement CPU_Manager LRU_Policy ARC_Policy
begin

text \<open>
  The connector on top of the CPU manager: \<open>CPUOffloadingManager\<close>
  (\<open>v1/kv_offload/cpu/manager.py\<close>) as an instance of the interface the connector calls. The
  methods it inherits from \<open>OffloadingManager\<close> (\<open>v1/kv_offload/base.py\<close>) do nothing; it has an
  eviction registry and no promotions to flush.
\<close>

definition cpu_manager_ops :: "'p policy_ops \<Rightarrow> rat \<Rightarrow> 'p manager mgr_ops" where
  "cpu_manager_ops P now =
     \<lparr>m_lookup = (\<lambda>k ctx m. cpu_lookup P k m),
      m_touch = (\<lambda>ks ctx m. Inr (cpu_touch P ks m)),
      m_prepare_load = (\<lambda>ks ctx m. cpu_prepare_load P ks m),
      m_complete_load = (\<lambda>ks ctx m. cpu_complete_load P ks m),
      m_prepare_store = (\<lambda>ks ctx bypass m. cpu_prepare_store P now ks bypass m),
      m_complete_store = (\<lambda>ks ctx m. cpu_complete_store P ks True m),
      m_new_request = (\<lambda>ctx m. Inr (m, cpu_on_new_request ctx)),
      m_request_finished = (\<lambda>ctx m. Inr m),
      m_schedule_end = (\<lambda>ctx m. Inr m),
      m_take_events = cpu_take_events,
      m_reset = (\<lambda>m. Inr (cpu_reset_cache P m)),
      m_has_pending = (\<lambda>m. False),
      m_get_stats = (\<lambda>m. bindE (cpu_get_stats m) (\<lambda>(m, s). Inr (m, Some s))),
      m_takes_bypass = True,
      m_tombstone = Some has_eviction_tombstone,
      m_drain_flush = None\<rparr>"

text \<open>The answer to a key while the stored blocks are \<open>blocks\<close>, and the states that give it.\<close>

definition cpu_answer :: "(offload_key \<Rightarrow> block_status option) \<Rightarrow> offload_key \<Rightarrow> lookup_result" where
  "cpu_answer blocks k = block_result (blocks k)"

definition cpu_holds :: "'p policy_ops \<Rightarrow> ('p \<Rightarrow> bool) \<Rightarrow> (offload_key \<Rightarrow> block_status option) \<Rightarrow>
    'p manager \<Rightarrow> bool" where
  "cpu_holds P pinv blocks m \<longleftrightarrow>
     pinv (policy m) \<and> pol_get P (policy m) = blocks \<and> 0 < max_tracker_size m"

lemma count_lookup_ok:
  assumes "0 < max_tracker_size m"
  shows "\<exists>m'. count_lookup k m = Inr m' \<and> policy m' = policy m \<and> max_tracker_size m' = max_tracker_size m"
  using assms by (auto simp: count_lookup_def split: option.split list.split)

lemma count_lookup_returns [simp]: "returns (count_lookup k m)"
  by (simp add: count_lookup_def split: option.split list.split)

lemma cpu_stable:
  assumes "cache_policy P pinv"
  shows "stable_lookup (cpu_manager_ops P now) ctx (cpu_answer blocks) (cpu_holds P pinv blocks)"
proof
  fix m k assume m: "cpu_holds P pinv blocks m"
  obtain m' where m': "count_lookup k m = Inr m'" "policy m' = policy m" "max_tracker_size m' = max_tracker_size m"
    using count_lookup_ok m by (auto simp: cpu_holds_def)
  then show "\<exists>m'. m_lookup (cpu_manager_ops P now) k ctx m = Inr (m', cpu_answer blocks k) \<and>
      cpu_holds P pinv blocks m'"
    using m by (auto simp: cpu_manager_ops_def cpu_lookup_def cpu_answer_def cpu_holds_def)
next
  fix m ks assume "cpu_holds P pinv blocks m"
  then show "\<exists>m'. m_touch (cpu_manager_ops P now) ks ctx m = Inr m' \<and> cpu_holds P pinv blocks m'"
    using cache_policy.inv_touch [OF assms] cache_policy.get_touch [OF assms]
    by (auto simp: cpu_manager_ops_def cpu_touch_def cpu_holds_def)
qed

lemma cpu_total: "lookup_total (cpu_manager_ops P now) ctx"
  by unfold_locales (simp_all add: cpu_manager_ops_def cpu_lookup_def)

interpretation cpu_lookup_total: lookup_total "cpu_manager_ops P now" ctx for P now ctx
  by (rule cpu_total)

interpretation lru_stable: stable_lookup "cpu_manager_ops lru_ops now" ctx "cpu_answer blocks"
    "cpu_holds lru_ops lru_inv blocks" for now ctx blocks
  by (rule cpu_stable [OF lru_policy.cache_policy_axioms])

interpretation arc_stable: stable_lookup "cpu_manager_ops arc_ops now" ctx "cpu_answer blocks"
    "cpu_holds arc_ops arc_inv blocks" for now ctx blocks
  by (rule cpu_stable [OF arc_policy.cache_policy_axioms])

end
