(* ===== verification/Block_Pool.thy ===== *)
theory Block_Pool
  imports Cache_Policy "HOL-Library.Multiset"
begin

text \<open>
  Abstract accounting of the CPU block pool, over the finite map from keys to blocks that a
  cache policy implements: which slot ids the map owns, the conservation law with the free
  list, and how many keys hold a given reference count.
\<close>

type_synonym block_map = "offload_key \<rightharpoonup> block_status"

section \<open>Ownership of slots\<close>

definition slot_ids :: "block_map \<Rightarrow> int multiset" where
  "slot_ids M = image_mset (\<lambda>k. block_id (the (M k))) (mset_set (dom M))"

text \<open>
  Every slot below \<open>a\<close> is owned exactly once, by the free list or by one key: no slot is lost,
  and none is shared.
\<close>

definition owned :: "int \<Rightarrow> int list \<Rightarrow> block_map \<Rightarrow> bool" where
  "owned a fl M \<longleftrightarrow> mset fl + slot_ids M = mset_set {0..<a}"

lemma finite_dom_upd: "finite (dom M) \<Longrightarrow> finite (dom (M(k := x)))"
  by (cases x) simp_all

lemma slot_ids_insert:
  assumes "finite (dom M)" and "M k = None"
  shows "slot_ids (M(k \<mapsto> b)) = add_mset (block_id b) (slot_ids M)"
proof -
  have k: "k \<notin> dom M" using assms(2) by (simp add: domIff)
  have "image_mset (\<lambda>j. block_id (the ((M(k \<mapsto> b)) j))) (mset_set (dom M)) = slot_ids M"
    unfolding slot_ids_def using k assms(1) by (intro image_mset_cong) auto
  then show ?thesis using assms(1) k by (simp add: slot_ids_def)
qed

lemma slot_ids_remove:
  assumes "finite (dom M)" and "M k = Some b"
  shows "slot_ids M = add_mset (block_id b) (slot_ids (M(k := None)))"
proof -
  have "slot_ids ((M(k := None))(k \<mapsto> b)) = add_mset (block_id b) (slot_ids (M(k := None)))"
    using assms(1) by (intro slot_ids_insert) simp_all
  with assms(2) show ?thesis by (simp add: fun_upd_idem)
qed

lemma slot_ids_update:
  assumes "finite (dom M)" and "M k = Some b" and "block_id b' = block_id b"
  shows "slot_ids (M(k \<mapsto> b')) = slot_ids M"
proof -
  have "slot_ids ((M(k := None))(k \<mapsto> b')) = add_mset (block_id b') (slot_ids (M(k := None)))"
    using assms(1) by (intro slot_ids_insert) simp_all
  with slot_ids_remove [OF assms(1,2)] assms(3) show ?thesis by simp
qed

lemma owned_update:
  "owned a fl M \<Longrightarrow> finite (dom M) \<Longrightarrow> M k = Some b \<Longrightarrow> block_id b' = block_id b \<Longrightarrow>
   owned a fl (M(k \<mapsto> b'))"
  by (simp add: owned_def slot_ids_update)

lemma owned_remove:
  "owned a fl M \<Longrightarrow> finite (dom M) \<Longrightarrow> M k = Some b \<Longrightarrow> owned a (fl @ [block_id b]) (M(k := None))"
  by (simp add: owned_def slot_ids_remove)

text \<open>Two keys never share a slot, and no key holds a free one.\<close>

lemma owned_distinct:
  assumes "owned a fl M" and "finite (dom M)" and "M k = Some b" and "M k' = Some b'" and "k \<noteq> k'"
  shows "block_id b \<noteq> block_id b'"
proof
  assume eq: "block_id b = block_id b'"
  let ?M = "M(k := None)"
  have "slot_ids M = add_mset (block_id b) (add_mset (block_id b') (slot_ids (?M(k' := None))))"
    using assms(2-5) slot_ids_remove [of M k b] slot_ids_remove [of ?M k' b'] by simp
  then have "2 \<le> count (mset_set {0..<a}) (block_id b)"
    using assms(1) eq by (simp add: owned_def flip: assms(1) [unfolded owned_def])
  moreover have "count (mset_set {0..<a}) (block_id b) \<le> 1" by (simp add: count_mset_set')
  ultimately show False by linarith
qed

lemma owned_range:
  assumes "owned a fl M" and "finite (dom M)" and "M k = Some b"
  shows "0 \<le> block_id b \<and> block_id b < a \<and> block_id b \<notin> set fl"
proof -
  have eq: "mset fl + add_mset (block_id b) (slot_ids (M(k := None))) = mset_set {0..<a}"
    using assms slot_ids_remove [OF assms(2,3)] by (simp add: owned_def)
  then have "block_id b \<in># mset_set {0..<a}" by (metis union_iff add_mset_add_single multi_member_last union_single_eq_member)
  moreover have "count (mset fl) (block_id b) + 1 \<le> count (mset_set {0..<a}) (block_id b)"
    unfolding eq [symmetric] by simp
  then have "count (mset fl) (block_id b) = 0"
    by (simp add: count_mset_set' split: if_splits)
  ultimately show ?thesis by (simp add: count_mset_0_iff)
qed

lemma owned_length:
  assumes "owned a fl M" and "finite (dom M)" and "0 \<le> a"
  shows "int (length fl) + int (card (dom M)) = a"
proof -
  have "size (mset fl + slot_ids M) = size (mset_set {0..<a})" using assms(1) by (simp add: owned_def)
  with assms(3) show ?thesis by (simp add: slot_ids_def)
qed

section \<open>Reference counts\<close>

definition num_ref :: "int \<Rightarrow> block_map \<Rightarrow> int" where
  "num_ref r M = int (card {k. map_option ref_cnt (M k) = Some r})"

lemma finite_ref: "finite (dom M) \<Longrightarrow> finite {k. map_option ref_cnt (M k) = Some r}"
  by (rule finite_subset [of _ "dom M"]) auto

lemma num_ref_nonneg [simp]: "0 \<le> num_ref r M"
  by (simp add: num_ref_def)

lemma num_ref_delete:
  assumes "finite (dom M)"
  shows "num_ref r (M(k := None)) =
    num_ref r M - (if map_option ref_cnt (M k) = Some r then 1 else 0)"
proof -
  let ?S = "{k. map_option ref_cnt (M k) = Some r}"
  have "{j. map_option ref_cnt ((M(k := None)) j) = Some r} = ?S - {k}" by auto
  moreover have "int (card (?S - {k})) = int (card ?S) - (if k \<in> ?S then 1 else 0)"
    using finite_ref [OF assms, of r] card_gt_0_iff [of ?S] by (auto simp: card_Diff_singleton_if)
  ultimately show ?thesis by (simp add: num_ref_def)
qed

lemma num_ref_update:
  assumes "finite (dom M)"
  shows "num_ref r (M(k \<mapsto> b)) = num_ref r M
    - (if map_option ref_cnt (M k) = Some r then 1 else 0) + (if ref_cnt b = r then 1 else 0)"
proof -
  let ?M = "M(k := None)"
  let ?S = "{k. map_option ref_cnt (?M k) = Some r}"
  have "{j. map_option ref_cnt ((M(k \<mapsto> b)) j) = Some r} = (if ref_cnt b = r then insert k ?S else ?S)"
    by auto
  moreover have "finite ?S" using assms by (intro finite_ref finite_dom_upd)
  ultimately have "num_ref r (M(k \<mapsto> b)) = num_ref r ?M + (if ref_cnt b = r then 1 else 0)"
    by (simp add: num_ref_def)
  then show ?thesis by (simp add: num_ref_delete [OF assms])
qed

lemma num_ref_pos: "finite (dom M) \<Longrightarrow> M k = Some b \<Longrightarrow> 0 < num_ref (ref_cnt b) M"
  using finite_ref [of M "ref_cnt b"] by (auto simp: num_ref_def card_gt_0_iff)

section \<open>Evicting and allocating several blocks\<close>

lemma restrict_Cons:
  "M |` (- fst ` set ((k, b) # ev)) = (M(k := None)) |` (- fst ` set ev)"
  by (auto simp: restrict_map_def fun_eq_iff)

lemma evicted_pool:
  assumes "owned a fl M" and "finite (dom M)" and "distinct (map fst ev)"
    and "\<forall>(k, b) \<in> set ev. M k = Some b \<and> ref_cnt b = r"
  shows "owned a (fl @ map (\<lambda>e. block_id (snd e)) ev) (M |` (- fst ` set ev)) \<and>
    (\<forall>r'. num_ref r' (M |` (- fst ` set ev)) = num_ref r' M - (if r' = r then int (length ev) else 0))"
  using assms
proof (induction ev arbitrary: fl M)
  case Nil
  then show ?case by simp
next
  case (Cons e ev)
  obtain k b where e: "e = (k, b)" by (cases e)
  have kb: "M k = Some b" "ref_cnt b = r" using Cons.prems(4) e by auto
  let ?M = "M(k := None)"
  obtain N where N: "N = ?M |` (- fst ` set ev)" by blast
  have "owned a ((fl @ [block_id b]) @ map (\<lambda>e. block_id (snd e)) ev) N \<and>
    (\<forall>r'. num_ref r' N = num_ref r' ?M - (if r' = r then int (length ev) else 0))"
    unfolding N
  proof (rule Cons.IH)
    show "owned a (fl @ [block_id b]) ?M" using Cons.prems(1,2) kb(1) by (rule owned_remove)
    show "finite (dom ?M)" using Cons.prems(2) by simp
    show "distinct (map fst ev)" using Cons.prems(3) by simp
    have "k \<notin> fst ` set ev" using Cons.prems(3) e by simp
    then show "\<forall>(k', b') \<in> set ev. ?M k' = Some b' \<and> ref_cnt b' = r"
      using Cons.prems(4) by force
  qed
  then show ?case
    unfolding e restrict_Cons N [symmetric] using kb
    by (auto simp: num_ref_delete [OF Cons.prems(2)])
qed

fun put_all :: "(offload_key \<times> block_status) list \<Rightarrow> block_map \<Rightarrow> block_map" where
  "put_all [] M = M"
| "put_all ((k, b) # kbs) M = put_all kbs (M(k \<mapsto> b))"

lemma put_all_notin: "k \<notin> fst ` set kbs \<Longrightarrow> put_all kbs M k = M k"
  by (induction kbs arbitrary: M) (auto simp: fun_upd_apply)

lemma put_all_in:
  "distinct (map fst kbs) \<Longrightarrow> (k, b) \<in> set kbs \<Longrightarrow> put_all kbs M k = Some b"
proof (induction kbs arbitrary: M)
  case (Cons e kbs)
  then show ?case by (cases e) (auto simp: put_all_notin)
qed simp

lemma dom_put_all [simp]: "dom (put_all kbs M) = fst ` set kbs \<union> dom M"
proof (induction kbs arbitrary: M)
  case (Cons e kbs)
  obtain k b where e: "e = (k, b)" by (cases e)
  have "dom (put_all (e # kbs) M) = fst ` set kbs \<union> dom (M(k \<mapsto> b))"
    unfolding e put_all.simps by (rule Cons.IH)
  then show ?case by (simp add: e dom_fun_upd)
qed simp

lemma insert_pool:
  assumes "finite (dom M)" and "distinct ks" and "length bs = length ks"
    and "\<forall>k \<in> set ks. M k = None" and "\<forall>b \<in> set bs. ref_cnt b = r"
  shows "slot_ids (put_all (zip ks bs) M) = mset (map block_id bs) + slot_ids M \<and>
    (\<forall>r'. num_ref r' (put_all (zip ks bs) M) =
      num_ref r' M + (if r' = r then int (length ks) else 0))"
  using assms
proof (induction ks arbitrary: bs M)
  case Nil
  then show ?case by simp
next
  case (Cons k ks)
  then obtain b bs' where bs: "bs = b # bs'" "length bs' = length ks" by (cases bs) auto
  let ?M = "M(k \<mapsto> b)"
  have "slot_ids (put_all (zip ks bs') ?M) = mset (map block_id bs') + slot_ids ?M \<and>
    (\<forall>r'. num_ref r' (put_all (zip ks bs') ?M) =
      num_ref r' ?M + (if r' = r then int (length ks) else 0))"
    using Cons.prems bs by (intro Cons.IH finite_dom_upd) auto
  moreover have "slot_ids ?M = add_mset (block_id b) (slot_ids M)"
    using Cons.prems by (intro slot_ids_insert) auto
  moreover have "num_ref r' ?M = num_ref r' M + (if r' = r then 1 else 0)" for r'
    using Cons.prems bs by (auto simp: num_ref_update)
  ultimately show ?case using bs by (auto simp: ac_simps)
qed

text \<open>The slots of blocks just inserted for distinct keys are distinct.\<close>

lemma owned_slots_distinct:
  assumes "owned a fl M" and "finite (dom M)" and "distinct ks" and "length bs = length ks"
    and "M = put_all (zip ks bs) M0"
  shows "distinct (map block_id bs)"
proof (rule distinct_conv_nth [THEN iffD2], intro allI impI)
  fix i j
  assume ij: "i < length (map block_id bs)" "j < length (map block_id bs)" "i \<noteq> j"
  have at: "M (ks ! n) = Some (bs ! n)" if "n < length bs" for n
    unfolding assms(5) using that assms(3,4) by (intro put_all_in) (auto simp: set_zip)
  have "ks ! i \<noteq> ks ! j" using ij assms(3,4) by (simp add: nth_eq_iff_index_eq)
  from owned_distinct [OF assms(1,2) at at this] ij
  show "map block_id bs ! i \<noteq> map block_id bs ! j" by simp
qed

end
