(* ===== verification/CPU_Manager_Facts.thy ===== *)
theory CPU_Manager_Facts
  imports CPU_Manager Block_Pool LRU_Policy ARC_Policy
begin

text \<open>
  The invariant of the CPU manager and what each operation does to the abstract block map,
  proved once for every policy that meets the contract \<open>cache_policy\<close>; the two policies are
  imported so that each lemma is also a fact of their interpretations.
\<close>

abbreviation bmap :: "'p policy_ops \<Rightarrow> 'p manager \<Rightarrow> block_map" where
  "bmap P m \<equiv> pol_get P (policy m)"

section \<open>Invariant\<close>

definition ref_bounds :: "block_map \<Rightarrow> bool" where
  "ref_bounds M \<longleftrightarrow> (\<forall>k b. M k = Some b \<longrightarrow> - 1 \<le> ref_cnt b \<and> ref_cnt b < 2147483648)"

definition pool_inv :: "'p policy_ops \<Rightarrow> ('p \<Rightarrow> bool) \<Rightarrow> 'p manager \<Rightarrow> bool" where
  "pool_inv P pinv m \<longleftrightarrow> pinv (policy m) \<and>
     0 \<le> num_allocated_blocks m \<and> num_allocated_blocks m \<le> num_blocks m \<and>
     num_blocks m < 9223372036854775808 \<and>
     owned (num_allocated_blocks m) (free_list m) (bmap P m) \<and>
     num_evictable m = num_ref 0 (bmap P m) \<and> num_write_pending m = num_ref (- 1) (bmap P m) \<and>
     ref_bounds (bmap P m)"

definition tomb_inv :: "'p manager \<Rightarrow> bool" where
  "tomb_inv m \<longleftrightarrow> (\<forall>r. tombstones m = Some r \<longrightarrow> od_ok r \<and> int (length r) \<le> tombstone_capacity m)"

definition mgr_inv :: "'p policy_ops \<Rightarrow> ('p \<Rightarrow> bool) \<Rightarrow> 'p manager \<Rightarrow> bool" where
  "mgr_inv P pinv m \<longleftrightarrow> pool_inv P pinv m \<and> tomb_inv m"

text \<open>The reference counts after \<open>d\<close> is added once per occurrence of a key in \<open>keys\<close>.\<close>

definition add_refs :: "int \<Rightarrow> offload_key list \<Rightarrow> block_map \<Rightarrow> block_map" where
  "add_refs d keys M =
     (\<lambda>k. map_option (\<lambda>b. b\<lparr>ref_cnt := ref_cnt b + d * int (count_list keys k)\<rparr>) (M k))"

lemma add_refs_Nil [simp]: "add_refs d [] M = M"
  by (simp add: add_refs_def fun_eq_iff map_option_case split: option.split)

lemma add_refs_Cons:
  assumes "M k = Some b"
  shows "add_refs d (k # ks) M = add_refs d ks (M(k \<mapsto> b\<lparr>ref_cnt := ref_cnt b + d\<rparr>))"
  using assms by (auto simp: add_refs_def fun_eq_iff algebra_simps)

lemma add_refs_inverse: "add_refs (- d) ks (add_refs d ks M) = M"
  by (auto simp: add_refs_def fun_eq_iff option.map_comp comp_def map_option_case split: option.split)

lemma add_ref_small:
  "- 2147483648 \<le> ref_cnt b + d \<Longrightarrow> ref_cnt b + d < 2147483648 \<Longrightarrow>
   add_ref d b = b\<lparr>ref_cnt := ref_cnt b + d\<rparr>"
  by (simp add: add_ref_def c_int32_id)

text \<open>The parts of the state a load or an unload leaves alone.\<close>

definition same_pool :: "'p manager \<Rightarrow> 'p manager \<Rightarrow> bool" where
  "same_pool m m' \<longleftrightarrow> (\<exists>p e. m' = m\<lparr>policy := p, num_evictable := e\<rparr>)"

lemma same_poolI: "same_pool m (m\<lparr>policy := p, num_evictable := e\<rparr>)"
  unfolding same_pool_def by (intro exI) (rule refl)

lemma same_pool_refl [simp]: "same_pool m m"
  unfolding same_pool_def by (rule exI [of _ "policy m"], rule exI [of _ "num_evictable m"]) simp

lemma same_pool_trans: "same_pool m m' \<Longrightarrow> same_pool m' m'' \<Longrightarrow> same_pool m m''"
proof -
  assume "same_pool m m'" and "same_pool m' m''"
  then obtain p e p' e' where "m'' = m\<lparr>policy := p, num_evictable := e\<rparr>\<lparr>policy := p', num_evictable := e'\<rparr>"
    unfolding same_pool_def by blast
  then have "m'' = m\<lparr>policy := p', num_evictable := e'\<rparr>" by simp
  then show ?thesis by (simp only: same_poolI)
qed

context cache_policy
begin

lemma pool_finite: "pool_inv P inv m \<Longrightarrow> finite (dom (bmap P m))"
  by (simp add: pool_inv_def finite_dom_get)

lemma init_inv:
  assumes "0 \<le> n" and "n < 9223372036854775808"
  shows "mgr_inv P inv (init_manager P n ev th mx e1 e2)"
  using assms inv_init [of n]
  by (simp add: mgr_inv_def pool_inv_def tomb_inv_def init_manager_def get_init owned_def slot_ids_def
    num_ref_def ref_bounds_def knobs_nonneg)

section \<open>Loads\<close>

lemma load_one_ok:
  assumes m: "pool_inv P inv m" and k: "bmap P m k = Some b" and r: "0 \<le> ref_cnt b"
    and w: "ref_cnt b + 1 < 2147483648"
  shows "\<exists>m'. load_one P k (m, bs) = Inr (m', bs @ [b\<lparr>ref_cnt := ref_cnt b + 1\<rparr>]) \<and>
    pool_inv P inv m' \<and> bmap P m' = (bmap P m)(k \<mapsto> b\<lparr>ref_cnt := ref_cnt b + 1\<rparr>) \<and> same_pool m m'"
proof -
  let ?b = "b\<lparr>ref_cnt := ref_cnt b + 1\<rparr>"
  have ar: "add_ref 1 b = ?b" using r w by (simp add: add_ref_small)
  have pinv: "inv (policy m)" and fin: "finite (dom (bmap P m))"
    using m pool_finite by (auto simp: pool_inv_def)
  have step: "\<exists>p e. load_one P k (m, bs) = Inr (m\<lparr>policy := p, num_evictable := e\<rparr>, bs @ [?b]) \<and>
    inv p \<and> pol_get P p = (bmap P m)(k \<mapsto> ?b) \<and>
    e = num_evictable m - (if ref_cnt b = 0 then 1 else 0)"
  proof (cases "ref_cnt b = 0")
    case True
    from non_evictable [OF pinv k True, of ?b] True obtain p where
      p: "pol_mark_non_evictable P (policy m) k = Inr p" "inv (pol_set_block P p k ?b)"
      "pol_get P (pol_set_block P p k ?b) = (bmap P m)(k \<mapsto> ?b)" by auto
    have "1 \<le> num_evictable m"
      using m num_ref_pos [OF fin k] True by (simp add: pool_inv_def)
    then have "load_one P k (m, bs) = Inr (m\<lparr>policy := pol_set_block P p k ?b,
        num_evictable := num_evictable m - 1\<rparr>, bs @ [?b])"
      using k True p(1) ar by (simp add: load_one_def is_ready_def Let_def)
    with p True show ?thesis by auto
  next
    case False
    with r have "ref_cnt b \<noteq> 0" "ref_cnt ?b \<noteq> 0" by auto
    from set_block [OF pinv k this] k r False ar show ?thesis
      by (intro exI [of _ "pol_set_block P (policy m) k ?b"] exI [of _ "num_evictable m"])
         (simp add: load_one_def is_ready_def Let_def)
  qed
  then obtain p e where pe: "load_one P k (m, bs) = Inr (m\<lparr>policy := p, num_evictable := e\<rparr>, bs @ [?b])"
    "inv p" "pol_get P p = (bmap P m)(k \<mapsto> ?b)"
    "e = num_evictable m - (if ref_cnt b = 0 then 1 else 0)" by blast
  have "owned (num_allocated_blocks m) (free_list m) ((bmap P m)(k \<mapsto> ?b))"
    using m fin k by (intro owned_update [of _ _ _ _ b]) (auto simp: pool_inv_def)
  moreover have "ref_bounds ((bmap P m)(k \<mapsto> ?b))"
    using m r w by (auto simp: pool_inv_def ref_bounds_def)
  ultimately have ip: "pool_inv P inv (m\<lparr>policy := p, num_evictable := e\<rparr>)"
    using m pe(2-4) r k by (auto simp: pool_inv_def num_ref_update [OF fin])
  have gp: "bmap P (m\<lparr>policy := p, num_evictable := e\<rparr>) = (bmap P m)(k \<mapsto> ?b)"
    using pe(3) by simp
  show ?thesis
    by (intro exI conjI) (rule pe(1), rule ip, rule gp, rule same_poolI)
qed

lemma load_all_ok:
  assumes "pool_inv P inv m"
    and "\<forall>k \<in> set ks. \<exists>b. bmap P m k = Some b \<and> 0 \<le> ref_cnt b \<and>
      ref_cnt b + int (count_list ks k) < 2147483648"
  shows "\<exists>m' bs'. foldE (load_one P) ks (m, bs) = Inr (m', bs @ bs') \<and> pool_inv P inv m' \<and>
    bmap P m' = add_refs 1 ks (bmap P m) \<and> same_pool m m' \<and>
    map block_id bs' = map (\<lambda>k. block_id (the (bmap P m k))) ks"
  using assms
proof (induction ks arbitrary: m bs)
  case Nil
  then show ?case by simp
next
  case (Cons k ks)
  from Cons.prems(2) obtain b where b: "bmap P m k = Some b" "0 \<le> ref_cnt b"
    "ref_cnt b + 1 + int (count_list ks k) < 2147483648" by auto
  let ?b = "b\<lparr>ref_cnt := ref_cnt b + 1\<rparr>"
  from load_one_ok [OF Cons.prems(1) b(1,2), of bs] b(3) obtain m1 where
    m1: "load_one P k (m, bs) = Inr (m1, bs @ [?b])" "pool_inv P inv m1"
    "bmap P m1 = (bmap P m)(k \<mapsto> ?b)" "same_pool m m1" by auto
  have "\<exists>b. bmap P m1 j = Some b \<and> 0 \<le> ref_cnt b \<and>
      ref_cnt b + int (count_list ks j) < 2147483648" if j: "j \<in> set ks" for j
  proof (cases "j = k")
    case True
    with b m1(3) show ?thesis by simp
  next
    case False
    with Cons.prems(2) j have "\<exists>b. bmap P m j = Some b \<and> 0 \<le> ref_cnt b \<and>
      ref_cnt b + int (count_list (k # ks) j) < 2147483648" by auto
    with False m1(3) show ?thesis by simp
  qed
  from Cons.IH [OF m1(2), of "bs @ [?b]"] this obtain m' bs' where
    m': "foldE (load_one P) ks (m1, bs @ [?b]) = Inr (m', (bs @ [?b]) @ bs')" "pool_inv P inv m'"
    "bmap P m' = add_refs 1 ks (bmap P m1)" "same_pool m1 m'"
    "map block_id bs' = map (\<lambda>k. block_id (the (bmap P m1 k))) ks" by blast
  have "map (\<lambda>k. block_id (the (bmap P m1 k))) ks = map (\<lambda>k. block_id (the (bmap P m k))) ks"
    using m1(3) b(1) by auto
  with m1 m' b(1) show ?case
    by (intro exI [of _ m'] exI [of _ "?b # bs'"])
       (auto simp: add_refs_Cons intro: same_pool_trans)
qed

lemma prepare_load_ok:
  assumes "pool_inv P inv m"
    and "\<forall>k \<in> set ks. \<exists>b. bmap P m k = Some b \<and> 0 \<le> ref_cnt b \<and>
      ref_cnt b + int (count_list ks k) < 2147483648"
  shows "\<exists>m'. cpu_prepare_load P ks m = Inr (m', map (\<lambda>k. block_id (the (bmap P m k))) ks) \<and>
    pool_inv P inv m' \<and> bmap P m' = add_refs 1 ks (bmap P m) \<and> same_pool m m'"
  using load_all_ok [OF assms, of "[]"] by (auto simp: cpu_prepare_load_def get_load_store_spec_def)

lemma unload_one_ok:
  assumes m: "pool_inv P inv m" and k: "bmap P m k = Some b" and r: "0 < ref_cnt b"
  shows "\<exists>m'. unload_one P k m = Inr m' \<and> pool_inv P inv m' \<and>
    bmap P m' = (bmap P m)(k \<mapsto> b\<lparr>ref_cnt := ref_cnt b + - 1\<rparr>) \<and> same_pool m m'"
proof -
  let ?b = "b\<lparr>ref_cnt := ref_cnt b + - 1\<rparr>"
  have pinv: "inv (policy m)" and fin: "finite (dom (bmap P m))" and w: "ref_cnt b < 2147483648"
    using m k pool_finite by (auto simp: pool_inv_def ref_bounds_def)
  have ar: "add_ref (- 1) b = ?b" using r w by (intro add_ref_small) auto
  have step: "\<exists>p e. unload_one P k m = Inr (m\<lparr>policy := p, num_evictable := e\<rparr>) \<and>
    inv p \<and> pol_get P p = (bmap P m)(k \<mapsto> ?b) \<and>
    e = num_evictable m + (if ref_cnt b = 1 then 1 else 0)"
  proof (cases "ref_cnt b = 1")
    case True
    from evictable [OF pinv k, of ?b] True k r ar show ?thesis
      by (intro exI [of _ "pol_mark_evictable P (pol_set_block P (policy m) k ?b) k"]
          exI [of _ "num_evictable m + 1"]) (simp add: unload_one_def Let_def)
  next
    case False
    with r have "ref_cnt b \<noteq> 0" "ref_cnt ?b \<noteq> 0" by auto
    from set_block [OF pinv k this] k r False ar show ?thesis
      by (intro exI [of _ "pol_set_block P (policy m) k ?b"] exI [of _ "num_evictable m"])
         (simp add: unload_one_def Let_def)
  qed
  then obtain p e where pe: "unload_one P k m = Inr (m\<lparr>policy := p, num_evictable := e\<rparr>)"
    "inv p" "pol_get P p = (bmap P m)(k \<mapsto> ?b)"
    "e = num_evictable m + (if ref_cnt b = 1 then 1 else 0)" by blast
  have "owned (num_allocated_blocks m) (free_list m) ((bmap P m)(k \<mapsto> ?b))"
    using m fin k by (intro owned_update [of _ _ _ _ b]) (auto simp: pool_inv_def)
  moreover have "ref_bounds ((bmap P m)(k \<mapsto> ?b))"
    using m r w by (auto simp: pool_inv_def ref_bounds_def)
  ultimately have ip: "pool_inv P inv (m\<lparr>policy := p, num_evictable := e\<rparr>)"
    using m pe(2-4) r k by (auto simp: pool_inv_def num_ref_update [OF fin])
  have gp: "bmap P (m\<lparr>policy := p, num_evictable := e\<rparr>) = (bmap P m)(k \<mapsto> ?b)"
    using pe(3) by simp
  show ?thesis
    by (intro exI conjI) (rule pe(1), rule ip, rule gp, rule same_poolI)
qed

lemma complete_load_ok:
  assumes "pool_inv P inv m"
    and "\<forall>k \<in> set ks. \<exists>b. bmap P m k = Some b \<and> int (count_list ks k) \<le> ref_cnt b"
  shows "\<exists>m'. cpu_complete_load P ks m = Inr m' \<and> pool_inv P inv m' \<and>
    bmap P m' = add_refs (- 1) ks (bmap P m) \<and> same_pool m m'"
  unfolding cpu_complete_load_def using assms
proof (induction ks arbitrary: m)
  case Nil
  then show ?case by simp
next
  case (Cons k ks)
  from Cons.prems(2) obtain b where b: "bmap P m k = Some b"
    "1 + int (count_list ks k) \<le> ref_cnt b" by auto
  then have "0 < ref_cnt b" by linarith
  let ?b = "b\<lparr>ref_cnt := ref_cnt b + - 1\<rparr>"
  from unload_one_ok [OF Cons.prems(1) b(1) \<open>0 < ref_cnt b\<close>] obtain m1 where
    m1: "unload_one P k m = Inr m1" "pool_inv P inv m1" "bmap P m1 = (bmap P m)(k \<mapsto> ?b)"
    "same_pool m m1" by auto
  have "\<exists>b. bmap P m1 j = Some b \<and> int (count_list ks j) \<le> ref_cnt b" if j: "j \<in> set ks" for j
  proof (cases "j = k")
    case True
    with b m1(3) show ?thesis by simp
  next
    case False
    with Cons.prems(2) j have "\<exists>b. bmap P m j = Some b \<and> int (count_list (k # ks) j) \<le> ref_cnt b"
      by auto
    with False m1(3) show ?thesis by simp
  qed
  from Cons.IH [OF m1(2)] this obtain m' where
    m': "foldE (unload_one P) ks m1 = Inr m'" "pool_inv P inv m'"
    "bmap P m' = add_refs (- 1) ks (bmap P m1)" "same_pool m1 m'" by blast
  with m1 b(1) show ?case by (auto simp: add_refs_Cons intro: same_pool_trans)
qed

end

end
