(* ===== verification/CPU_Store_Facts.thy ===== *)
theory CPU_Store_Facts
  imports CPU_Manager_Facts
begin

text \<open>
  What \<open>prepare_store\<close>, \<open>complete_store\<close> and \<open>reset_cache\<close> do to the abstract block map and
  the pool, for every cache policy that meets the contract.
\<close>

section \<open>Eviction tombstones\<close>

lemma tomb_inv_cong:
  "tombstones m = tombstones m' \<Longrightarrow> tombstone_capacity m = tombstone_capacity m' \<Longrightarrow>
   tomb_inv m = tomb_inv m'"
  by (simp add: tomb_inv_def)

lemma tombstone_one_inv:
  assumes "od_ok r" and "int (length r) \<le> cap"
  shows "od_ok (fst (tombstone_one cap h (r, n))) \<and>
    int (length (fst (tombstone_one cap h (r, n)))) \<le> cap"
proof -
  have d: "distinct (map fst (drop k (r @ [(h, ())])))" if "h \<notin> fst ` set r" for k
  proof -
    have "distinct (drop k (map fst (r @ [(h, ())])))"
      using assms(1) that by (intro distinct_drop) auto
    then show ?thesis by (simp only: drop_map)
  qed
  then show ?thesis using assms by (auto simp: tombstone_one_def Let_def)
qed

lemma tombstone_fold_inv:
  assumes "od_ok r" and "int (length r) \<le> cap"
  shows "od_ok (fst (fold (tombstone_one cap) hs (r, n))) \<and>
    int (length (fst (fold (tombstone_one cap) hs (r, n)))) \<le> cap"
  using assms
proof (induction hs arbitrary: r n)
  case (Cons h hs)
  obtain r' n' where t: "tombstone_one cap h (r, n) = (r', n')" by (cases "tombstone_one cap h (r, n)")
  show ?case using tombstone_one_inv [OF Cons.prems, of h n] Cons.IH t by simp
qed simp

lemma record_tombstones_form:
  "\<exists>t x. record_eviction_tombstones hs m = m\<lparr>tombstones := t, tombstone_overflows := x\<rparr> \<and>
    (tomb_inv m \<longrightarrow> tomb_inv (m\<lparr>tombstones := t, tombstone_overflows := x\<rparr>))"
proof (cases "tombstones m")
  case None
  then have "record_eviction_tombstones hs m =
      m\<lparr>tombstones := tombstones m, tombstone_overflows := tombstone_overflows m\<rparr>"
    by (simp add: record_eviction_tombstones_def)
  moreover have "tomb_inv m \<longrightarrow> tomb_inv (m\<lparr>tombstones := tombstones m,
      tombstone_overflows := tombstone_overflows m\<rparr>)" by simp
  ultimately show ?thesis by (intro exI conjI)
next
  case (Some r)
  obtain r' x where f: "fold (tombstone_one (tombstone_capacity m)) hs (r, 0) = (r', x)"
    by (cases "fold (tombstone_one (tombstone_capacity m)) hs (r, 0)")
  have "tomb_inv m \<Longrightarrow> od_ok r' \<and> int (length r') \<le> tombstone_capacity m"
    using tombstone_fold_inv [of r "tombstone_capacity m" hs 0] Some f by (simp add: tomb_inv_def)
  moreover have "record_eviction_tombstones hs m =
      m\<lparr>tombstones := Some r', tombstone_overflows := tombstone_overflows m + x\<rparr>"
    using Some f by (simp add: record_eviction_tombstones_def)
  ultimately show ?thesis by (intro exI conjI) (assumption, simp add: tomb_inv_def)
qed

text \<open>Noting an eviction changes counters, tombstones and events only.\<close>

lemma note_evicted_form:
  "\<exists>t x y z. note_evicted ev m =
     m\<lparr>evicted_total := x, tombstones := t, tombstone_overflows := y, events := z\<rparr> \<and>
     (tomb_inv m \<longrightarrow> tomb_inv (note_evicted ev m))"
proof (cases "ev = []")
  case True
  then have "note_evicted ev m = m\<lparr>evicted_total := evicted_total m, tombstones := tombstones m,
      tombstone_overflows := tombstone_overflows m, events := events m\<rparr>"
    by (simp add: note_evicted_def)
  then show ?thesis using True by (intro exI conjI) (assumption, simp add: note_evicted_def)
next
  case False
  let ?m = "m\<lparr>evicted_total := evicted_total m + int (length ev)\<rparr>"
  from record_tombstones_form [of "map get_offload_block_hash ev" ?m] obtain t x where
    r: "record_eviction_tombstones (map get_offload_block_hash ev) ?m =
      ?m\<lparr>tombstones := t, tombstone_overflows := x\<rparr>"
    "tomb_inv ?m \<Longrightarrow> tomb_inv (?m\<lparr>tombstones := t, tombstone_overflows := x\<rparr>)" by blast
  then have t: "tomb_inv m \<Longrightarrow> tomb_inv (m\<lparr>tombstones := t\<rparr>)" by (simp add: tomb_inv_def)
  let ?z = "case events m of None \<Rightarrow> None | Some evs \<Rightarrow>
    Some (evs @ [\<lparr>ev_keys = ev, ev_medium = CPU, ev_removed = True\<rparr>])"
  have eq: "note_evicted ev m = m\<lparr>evicted_total := evicted_total m + int (length ev),
      tombstones := t, tombstone_overflows := x, events := ?z\<rparr>"
  proof (cases "events m")
    case None
    with False r(1) have "note_evicted ev m = ?m\<lparr>tombstones := t, tombstone_overflows := x\<rparr>"
      by (simp only: note_evicted_def Let_def if_False) simp
    then show ?thesis using None by (simp only:) (rule manager.equality; simp)
  next
    case (Some evs)
    with False r(1) have "note_evicted ev m = ?m\<lparr>tombstones := t, tombstone_overflows := x,
        events := Some (evs @ [\<lparr>ev_keys = ev, ev_medium = CPU, ev_removed = True\<rparr>])\<rparr>"
      by (simp only: note_evicted_def Let_def if_False) simp
    then show ?thesis using Some by (simp only:) simp
  qed
  have "tomb_inv m \<longrightarrow> tomb_inv (note_evicted ev m)"
  proof
    assume "tomb_inv m"
    then have "tomb_inv (m\<lparr>tombstones := t\<rparr>)" by (rule t)
    moreover have "tomb_inv (note_evicted ev m) = tomb_inv (m\<lparr>tombstones := t\<rparr>)"
      unfolding eq by (rule tomb_inv_cong) simp_all
    ultimately show "tomb_inv (note_evicted ev m)" by simp
  qed
  with eq show ?thesis by (intro exI conjI)
qed

lemma fold_free_block:
  "fold free_block bs m = m\<lparr>free_list := free_list m @ map block_id bs\<rparr>"
  by (induction bs arbitrary: m) (simp_all add: free_block_def)

section \<open>Making room\<close>

context cache_policy
begin

lemma make_room_cases:
  assumes m: "pool_inv P inv m"
  obtains (fits) "n \<le> get_num_free_blocks m" "make_room P now n keys m = Inr (m, Some [])"
  | (refused) x y z where "get_num_free_blocks m < n" "make_room P now n keys m =
      Inr (m\<lparr>capped_total := x, capped_decay_total := y, cap_last_log := z\<rparr>, None)"
  | (evicted) p ev where "get_num_free_blocks m < n"
      "make_room P now n keys m = Inr (m\<lparr>policy := p,
        num_evictable := num_evictable m - int (length ev),
        free_list := free_list m @ map (\<lambda>e. block_id (snd e)) ev\<rparr>, Some (map fst ev))"
      "\<not> (0 < call_cap m \<and> call_cap m < n - get_num_free_blocks m)"
      "inv p" "int (length ev) = n - get_num_free_blocks m" "int (length ev) \<le> num_evictable m"
      "distinct (map fst ev)"
      "\<And>k b. (k, b) \<in> set ev \<Longrightarrow> bmap P m k = Some b \<and> ref_cnt b = 0 \<and> k \<notin> set keys"
      "pol_get P p = bmap P m |` (- fst ` set ev)"
proof (cases "n \<le> get_num_free_blocks m")
  case True
  then show thesis by (intro fits) (simp_all add: make_room_def Let_def)
next
  case False
  let ?n = "n - get_num_free_blocks m"
  have n: "0 < ?n" using False by simp
  show thesis
  proof (cases "0 < call_cap m \<and> call_cap m < ?n")
    case True
    let ?m = "log_eviction_capped now (m\<lparr>capped_total := capped_total m + 1,
      capped_decay_total := capped_decay_total m + (?n - call_cap m)\<rparr>)"
    have "make_room P now n keys m = Inr (?m, None)"
      using True n by (auto simp: make_room_def Let_def)
    moreover have "?m = m\<lparr>capped_total := capped_total m + 1,
        capped_decay_total := capped_decay_total m + (?n - call_cap m),
        cap_last_log := (if now - cap_last_log m < 60 then cap_last_log m else now)\<rparr>"
      by (simp add: log_eviction_capped_def)
    ultimately show thesis using False by (intro refused) simp_all
  next
    case uncapped: False
    have pinv: "inv (policy m)" using m by (simp add: pool_inv_def)
    have eq: "make_room P now n keys m =
        (if ?n > num_evictable m then Inr (m, None)
         else bindE (pol_evict P (policy m) (nat ?n) keys) (\<lambda>(p, r).
              case r of
                None \<Rightarrow> Inr (m\<lparr>policy := p\<rparr>, None)
              | Some evicted \<Rightarrow>
                  (let e = num_evictable m - int (length evicted)
                   in assertE (e \<ge> 0)
                     (Inr (fold free_block (map snd evicted) (m\<lparr>policy := p, num_evictable := e\<rparr>),
                           Some (map fst evicted))))))"
    proof -
      have "(0 < call_cap m \<and> call_cap m < ?n) = False" using uncapped by blast
      moreover have "(?n > 0) = True" using n by simp
      moreover have "(get_num_free_blocks m + ?n < n) = False" by simp
      ultimately show ?thesis
        unfolding make_room_def Let_def by (simp only: if_True if_False simp_thms)
    qed
    show thesis
    proof (cases "?n > num_evictable m")
      case True
      with eq have "make_room P now n keys m = Inr (m, None)" by simp
      with False show thesis
        by (intro refused [where x = "capped_total m" and y = "capped_decay_total m"
            and z = "cap_last_log m"]) simp_all
    next
      case enough: False
      from pinv show thesis
      proof (cases rule: evictE [of _ "nat ?n" keys])
        case 1
        with eq enough have "make_room P now n keys m = Inr (m, None)" by simp
        with False show thesis
        by (intro refused [where x = "capped_total m" and y = "capped_decay_total m"
            and z = "cap_last_log m"]) simp_all
      next
        case (2 p' ev)
        have le: "int (length ev) \<le> num_evictable m" using enough n 2(3) by simp
        show thesis
        proof (rule evicted [where p = p' and ev = ev])
          show "make_room P now n keys m = Inr (m\<lparr>policy := p',
              num_evictable := num_evictable m - int (length ev),
              free_list := free_list m @ map (\<lambda>e. block_id (snd e)) ev\<rparr>, Some (map fst ev))"
            using eq enough 2(1) le by (simp add: fold_free_block comp_def)
        qed (use 2 False uncapped n le in auto)
      qed
    qed
  qed
qed

lemma evict_pool_inv:
  assumes m: "pool_inv P inv m" and p: "inv p" and le: "int (length ev) \<le> num_evictable m"
    and ev: "distinct (map fst ev)"
      "\<And>k b. (k, b) \<in> set ev \<Longrightarrow> bmap P m k = Some b \<and> ref_cnt b = 0"
    and get: "pol_get P p = bmap P m |` (- fst ` set ev)"
  shows "pool_inv P inv (m\<lparr>policy := p, num_evictable := num_evictable m - int (length ev),
    free_list := free_list m @ map (\<lambda>e. block_id (snd e)) ev\<rparr>)"
proof -
  have "\<forall>(k, b) \<in> set ev. bmap P m k = Some b \<and> ref_cnt b = 0" using ev(2) by auto
  then have "owned (num_allocated_blocks m) (free_list m @ map (\<lambda>e. block_id (snd e)) ev) (pol_get P p)"
    "num_ref r (pol_get P p) = num_ref r (bmap P m) - (if r = 0 then int (length ev) else 0)" for r
    using evicted_pool [of _ _ _ ev 0] m pool_finite [OF m] ev(1) get by (auto simp: pool_inv_def)
  moreover have "ref_bounds (pol_get P p)"
    using m unfolding get pool_inv_def ref_bounds_def by (auto simp: restrict_map_def)
  ultimately show ?thesis using m p by (simp add: pool_inv_def)
qed

end

end
