(* ===== verification/CPU_Prepare_Facts.thy ===== *)
theory CPU_Prepare_Facts
  imports CPU_Store_Facts
begin

text \<open>
  Allocation and \<open>prepare_store\<close>: the reservation of a store keeps the pool invariant, stores
  exactly the keys that were absent, and evicts only idle, unprotected ones.
\<close>

section \<open>Allocation\<close>

lemma mset_fresh: "mset (map (\<lambda>i. a + int i) [0..<n]) = mset_set {a..<a + int n}"
proof (induction n)
  case (Suc n)
  have "{a..<a + int (Suc n)} = insert (a + int n) {a..<a + int n}" by auto
  with Suc show ?case by simp
qed simp

lemma mset_take_rev: "mset (take (length xs - n) xs) + mset (take n (rev xs)) = mset xs"
  by (simp add: take_rev flip: mset_append)

lemma owned_free_range:
  assumes "owned a fl M" and "x \<in> set fl"
  shows "0 \<le> x \<and> x < a"
proof -
  from assms(2) have "x \<in># mset fl + slot_ids M" by simp
  also have "mset fl + slot_ids M = mset_set {0..<a}" using assms(1) by (simp add: owned_def)
  finally show ?thesis by simp
qed

lemma map_new_block_ids:
  "(\<And>x. x \<in> set xs \<Longrightarrow> 0 \<le> x \<and> x < 9223372036854775808) \<Longrightarrow> map (\<lambda>x. block_id (new_block x)) xs = xs"
  by (induction xs) (simp_all add: block_id_new_block)

context cache_policy
begin

lemma allocate_ok:
  assumes m: "pool_inv P inv m" and n: "int n \<le> get_num_free_blocks m"
  obtains a fl bs where
    "allocate_blocks n m = Inr (m\<lparr>num_allocated_blocks := a, free_list := fl\<rparr>, bs)"
    "length bs = n" "\<forall>b \<in> set bs. ref_cnt b = - 1"
    "num_allocated_blocks m \<le> a" "a \<le> num_blocks m"
    "mset fl + mset (map block_id bs) = mset (free_list m) + mset_set {num_allocated_blocks m..<a}"
proof -
  let ?a = "num_allocated_blocks m" and ?fl = "free_list m"
  let ?f = "nat (min (int n) (num_blocks m - ?a))"
  let ?r = "nat (int n - min (int n) (num_blocks m - ?a))"
  let ?fresh = "map (\<lambda>i. new_block (?a + int i)) [0..<?f]"
  let ?reused = "map new_block (take ?r (rev ?fl))"
  have b: "0 \<le> ?a" "?a \<le> num_blocks m" "num_blocks m < 9223372036854775808"
    and ow: "owned ?a ?fl (bmap P m)" using m by (simp_all add: pool_inv_def)
  have r: "int n - min (int n) (num_blocks m - ?a) \<le> int (length ?fl)"
    using n by (simp add: get_num_free_blocks_def)
  have f: "?a + int ?f \<le> num_blocks m" using b by simp
  have eq: "allocate_blocks n m = Inr (m\<lparr>num_allocated_blocks := ?a + int ?f,
      free_list := take (length ?fl - ?r) ?fl\<rparr>, ?fresh @ ?reused)"
    using r by (simp add: allocate_blocks_def Let_def)
  have len: "length (?fresh @ ?reused) = n" using r b by auto
  have "map (\<lambda>x. block_id (new_block x)) (map (\<lambda>i. ?a + int i) [0..<?f]) = map (\<lambda>i. ?a + int i) [0..<?f]"
    using b f by (intro map_new_block_ids) auto
  then have ids: "mset (map block_id ?fresh) = mset_set {?a..<?a + int ?f}"
    using mset_fresh [of ?a ?f] by (simp only: map_map comp_def)
  have "map (\<lambda>x. block_id (new_block x)) (take ?r (rev ?fl)) = take ?r (rev ?fl)"
    using owned_free_range [OF ow] b by (intro map_new_block_ids) (fastforce dest: in_set_takeD)
  then have "mset (map block_id ?reused) = mset (take ?r (rev ?fl))"
    by (simp only: map_map comp_def)
  then have "mset (take (length ?fl - ?r) ?fl) + mset (map block_id (?fresh @ ?reused)) =
      mset_set {?a..<?a + int ?f} + (mset (take (length ?fl - ?r) ?fl) + mset (take ?r (rev ?fl)))"
    using ids by (simp only: map_append mset_append ac_simps)
  also have "\<dots> = mset_set {?a..<?a + int ?f} + mset ?fl" by (simp only: mset_take_rev)
  also have "\<dots> = mset ?fl + mset_set {?a..<?a + int ?f}" by (rule add.commute)
  finally have ms: "mset (take (length ?fl - ?r) ?fl) + mset (map block_id (?fresh @ ?reused)) =
      mset ?fl + mset_set {?a..<?a + int ?f}" .
  have "\<forall>b \<in> set (?fresh @ ?reused). ref_cnt b = - 1" by auto
  moreover have "?a \<le> ?a + int ?f" by simp
  ultimately show thesis by (rule that [OF eq len _ _ f ms])
qed

section \<open>Insertion\<close>

lemma insert_loop:
  assumes "inv p" and "distinct (map fst kbs)"
    and "\<forall>(k, b) \<in> set kbs. pol_get P p k = None \<and> ref_cnt b \<noteq> 0"
  shows "inv (fold (\<lambda>(k, b) p. pol_insert P p k b) kbs p) \<and>
    pol_get P (fold (\<lambda>(k, b) p. pol_insert P p k b) kbs p) = put_all kbs (pol_get P p)"
  using assms
proof (induction kbs arbitrary: p)
  case (Cons e kbs)
  obtain k b where e: "e = (k, b)" by (cases e)
  have kb: "pol_get P p k = None" "ref_cnt b \<noteq> 0" using Cons.prems(3) e by auto
  let ?p = "pol_insert P p k b"
  have g: "pol_get P ?p = (pol_get P p)(k \<mapsto> b)" using Cons.prems(1) kb(1) by (rule get_insert)
  have "k \<notin> fst ` set kbs" using Cons.prems(2) e by simp
  then have "\<forall>(k', b') \<in> set kbs. pol_get P ?p k' = None \<and> ref_cnt b' \<noteq> 0"
    unfolding g using Cons.prems(3) by force
  with Cons.IH [of ?p] inv_insert [OF Cons.prems(1) kb] Cons.prems(2) show ?case
    unfolding e g [symmetric] put_all.simps by simp
qed simp

text \<open>Allocating blocks for fresh keys and inserting them, as one step on the pool.\<close>

lemma reserve_ok:
  assumes m: "pool_inv P inv m" and n: "int (length ks) \<le> get_num_free_blocks m"
    and ks: "distinct ks" "\<forall>k \<in> set ks. bmap P m k = None"
  obtains a fl bs p where
    "allocate_blocks (length ks) m = Inr (m\<lparr>num_allocated_blocks := a, free_list := fl\<rparr>, bs)"
    "length bs = length ks" "\<forall>b \<in> set bs. ref_cnt b = - 1"
    "insert_all P (zip ks bs) (m\<lparr>num_allocated_blocks := a, free_list := fl\<rparr>) =
      m\<lparr>policy := p, num_allocated_blocks := a, free_list := fl\<rparr>"
    "pol_get P p = put_all (zip ks bs) (bmap P m)"
    "pool_inv P inv (m\<lparr>policy := p, num_allocated_blocks := a, free_list := fl,
      num_write_pending := num_write_pending m + int (length ks)\<rparr>)"
proof -
  from allocate_ok [OF m n] obtain a fl bs where
    al: "allocate_blocks (length ks) m = Inr (m\<lparr>num_allocated_blocks := a, free_list := fl\<rparr>, bs)"
    and bs: "length bs = length ks" "\<forall>b \<in> set bs. ref_cnt b = - 1"
    and a: "num_allocated_blocks m \<le> a" "a \<le> num_blocks m"
    and ms: "mset fl + mset (map block_id bs) =
      mset (free_list m) + mset_set {num_allocated_blocks m..<a}" .
  have pinv: "inv (policy m)" and na: "0 \<le> num_allocated_blocks m"
    and ow: "owned (num_allocated_blocks m) (free_list m) (bmap P m)"
    and rb: "ref_bounds (bmap P m)"
    using m by (simp_all add: pool_inv_def)
  let ?kbs = "zip ks bs"
  let ?p = "fold (\<lambda>(k, b) p. pol_insert P p k b) ?kbs (policy m)"
  have "map fst ?kbs = ks" using bs by simp
  moreover have zb: "\<forall>(k, b) \<in> set ?kbs. k \<in> set ks \<and> ref_cnt b = - 1"
    using bs by (auto dest: set_zip_leftD set_zip_rightD)
  ultimately have "distinct (map fst ?kbs)"
    "\<forall>(k, b) \<in> set ?kbs. bmap P m k = None \<and> ref_cnt b \<noteq> 0"
    using ks by auto
  from insert_loop [OF pinv this] have
    ins: "inv ?p" "pol_get P ?p = put_all ?kbs (bmap P m)" by simp_all
  have pool: "slot_ids (put_all ?kbs (bmap P m)) = mset (map block_id bs) + slot_ids (bmap P m)"
    "num_ref r (put_all ?kbs (bmap P m)) =
      num_ref r (bmap P m) + (if r = - 1 then int (length ks) else 0)" for r
    using insert_pool [OF pool_finite [OF m] ks(1) bs(1) ks(2) bs(2)] by auto
  have "{0..<a} = {0..<num_allocated_blocks m} \<union> {num_allocated_blocks m..<a}"
    using na a by auto
  then have "mset_set {0..<a} = mset_set {0..<num_allocated_blocks m} +
      mset_set {num_allocated_blocks m..<a}"
    by (simp add: mset_set_Union)
  then have "owned a fl (put_all ?kbs (bmap P m))"
    using ow ms unfolding owned_def pool by (metis add.assoc add.commute)
  moreover have "ref_bounds (put_all ?kbs (bmap P m))"
    unfolding ref_bounds_def
  proof (intro allI impI)
    fix k b
    assume k: "put_all ?kbs (bmap P m) k = Some b"
    show "- 1 \<le> ref_cnt b \<and> ref_cnt b < 2147483648"
    proof (cases "k \<in> fst ` set ?kbs")
      case True
      then obtain b' where b': "(k, b') \<in> set ?kbs" by auto
      then have "put_all ?kbs (bmap P m) k = Some b'"
        using ks(1) bs(1) by (intro put_all_in) simp_all
      with k zb b' show ?thesis by auto
    next
      case False
      with k rb show ?thesis by (simp add: put_all_notin ref_bounds_def)
    qed
  qed
  ultimately have "pool_inv P inv (m\<lparr>policy := ?p, num_allocated_blocks := a, free_list := fl,
      num_write_pending := num_write_pending m + int (length ks)\<rparr>)"
    using m ins a by (simp add: pool_inv_def pool)
  then show thesis
    using al bs ins(2) by (intro that) (simp_all add: insert_all_def)
qed

section \<open>prepare_store\<close>

lemma pool_inv_same:
  assumes "pool_inv P inv m" and "policy m' = policy m" and "num_blocks m' = num_blocks m"
    and "num_allocated_blocks m' = num_allocated_blocks m" and "free_list m' = free_list m"
    and "num_evictable m' = num_evictable m" and "num_write_pending m' = num_write_pending m"
  shows "pool_inv P inv m'"
  using assms by (simp add: pool_inv_def)

lemma threshold_gate_form:
  "\<exists>x. threshold_gate bypass keys m = (m\<lparr>stores_skipped := x\<rparr>, snd (threshold_gate bypass keys m)) \<and>
    (distinct keys \<longrightarrow> distinct (snd (threshold_gate bypass keys m))) \<and>
    set (snd (threshold_gate bypass keys m)) \<subseteq> set keys"
proof (cases "counts m = None \<or> bypass")
  case True
  then have "threshold_gate bypass keys m = (m\<lparr>stores_skipped := stores_skipped m\<rparr>, keys)"
    by (auto simp: threshold_gate_def split: option.split)
  then show ?thesis by (intro exI [of _ "stores_skipped m"]) simp
next
  case False
  then show ?thesis by (auto simp: threshold_gate_def Let_def)
qed

lemma prepare_store_cases:
  fixes bypass :: bool and keys :: "offload_key list"
  assumes inv_m: "mgr_inv P inv m" and dk: "distinct keys"
  defines "ks \<equiv> snd (threshold_gate bypass keys m)"
  defines "new \<equiv> filter (\<lambda>k. bmap P m k = None) ks"
  obtains (no_new) m' where "new = []"
      "cpu_prepare_store P now keys bypass m = Inr (m', Some \<lparr>keys_to_store = [], store_spec = [],
        evicted_keys = []\<rparr>)" "mgr_inv P inv m'" "bmap P m' = bmap P m"
  | (refused) m' where "get_num_free_blocks m < int (length new)"
      "cpu_prepare_store P now keys bypass m = Inr (m', None)"
      "mgr_inv P inv m'" "bmap P m' = bmap P m"
  | (reserved) m' ev bs where "new \<noteq> []" "cpu_prepare_store P now keys bypass m =
        Inr (m', Some \<lparr>keys_to_store = new, store_spec = map block_id bs, evicted_keys = ev\<rparr>)"
      "mgr_inv P inv m'" "bmap P m' = put_all (zip new bs) (bmap P m |` (- set ev))"
      "length bs = length new" "\<forall>b \<in> set bs. ref_cnt b = - 1" "distinct ev"
      "int (length ev) = max 0 (int (length new) - get_num_free_blocks m)"
      "\<forall>k \<in> set ev. \<exists>b. bmap P m k = Some b \<and> ref_cnt b = 0 \<and> k \<notin> set ks"
proof -
  from threshold_gate_form [of bypass keys m] obtain x where
    tg: "threshold_gate bypass keys m = (m\<lparr>stores_skipped := x\<rparr>, ks)" and dks: "distinct ks"
    unfolding ks_def using dk by blast
  then have dn: "distinct new" by (simp add: new_def)
  let ?m1 = "m\<lparr>stores_skipped := x\<rparr>"
  let ?m2 = "m\<lparr>stores_skipped := x, allocation_sizes := allocation_sizes m @ [int (length new)]\<rparr>"
  let ?n = "int (length new)"
  let ?rest = "\<lambda>(m, r). case r of
               None \<Rightarrow> Inr (m, None)
             | Some to_evict \<Rightarrow>
                 bindE (allocate_blocks (length new) (note_evicted to_evict m)) (\<lambda>(m, blocks).
                   assertE (length blocks = length new)
                     (Inr (insert_all P (zip new blocks) m\<lparr>num_write_pending :=
                             num_write_pending (insert_all P (zip new blocks) m) + int (length new)\<rparr>,
                              Some \<lparr>keys_to_store = new,
                                    store_spec = get_load_store_spec blocks,
                                    evicted_keys = to_evict\<rparr>)))"
  have pool: "pool_inv P inv m" and tomb: "tomb_inv m" using inv_m by (simp_all add: mgr_inv_def)
  have pool2: "pool_inv P inv ?m2" by (rule pool_inv_same [OF pool]) simp_all
  have free2: "get_num_free_blocks ?m2 = get_num_free_blocks m" by (simp add: get_num_free_blocks_def)
  show thesis
  proof (cases "new = []")
    case True
    have "cpu_prepare_store P now keys bypass m = Inr (?m1, Some \<lparr>keys_to_store = [], store_spec = [],
        evicted_keys = []\<rparr>)"
      using True by (simp add: cpu_prepare_store_def tg new_def get_load_store_spec_def)
    moreover have "mgr_inv P inv ?m1"
      using pool_inv_same [OF pool, of ?m1] tomb by (simp add: mgr_inv_def tomb_inv_def)
    ultimately show thesis using True by (intro no_new [of ?m1]) simp_all
  next
    case ne: False
    have eq: "cpu_prepare_store P now keys bypass m = bindE (make_room P now ?n ks ?m2) ?rest"
      using ne by (simp add: cpu_prepare_store_def tg Let_def flip: new_def)
    have commit: thesis
      if mr: "make_room P now ?n ks ?m2 = Inr (m3, Some ev)" and p3: "pool_inv P inv m3"
        and t3: "tomb_inv m3" and free3: "?n \<le> get_num_free_blocks m3"
        and g3: "bmap P m3 = bmap P m |` (- set ev)" and ev: "distinct ev"
        "int (length ev) = max 0 (?n - get_num_free_blocks m)"
        "\<forall>k \<in> set ev. \<exists>b. bmap P m k = Some b \<and> ref_cnt b = 0 \<and> k \<notin> set ks"
      for m3 ev
    proof -
      let ?m4 = "note_evicted ev m3"
      from note_evicted_form [of ev m3] obtain x1 x2 x3 x4 where
        f4: "?m4 = m3\<lparr>evicted_total := x1, tombstones := x2, tombstone_overflows := x3, events := x4\<rparr>"
        and t4: "tomb_inv ?m4" using t3 by blast
      have p4: "pool_inv P inv ?m4" unfolding f4 by (rule pool_inv_same [OF p3]) simp_all
      have g4: "bmap P ?m4 = bmap P m |` (- set ev)" unfolding f4 using g3 by simp
      have free4: "?n \<le> get_num_free_blocks ?m4"
        unfolding f4 using free3 by (simp add: get_num_free_blocks_def)
      have abs: "\<forall>k \<in> set new. bmap P ?m4 k = None"
        unfolding g4 by (simp add: new_def restrict_map_def)
      from reserve_ok [OF p4 free4 dn abs] obtain a fl bs p where
        al: "allocate_blocks (length new) ?m4 =
          Inr (?m4\<lparr>num_allocated_blocks := a, free_list := fl\<rparr>, bs)"
        and bs: "length bs = length new" "\<forall>b \<in> set bs. ref_cnt b = - 1"
        and ins: "insert_all P (zip new bs) (?m4\<lparr>num_allocated_blocks := a, free_list := fl\<rparr>) =
          ?m4\<lparr>policy := p, num_allocated_blocks := a, free_list := fl\<rparr>"
        and gp: "pol_get P p = put_all (zip new bs) (bmap P ?m4)"
        and p5: "pool_inv P inv (?m4\<lparr>policy := p, num_allocated_blocks := a, free_list := fl,
          num_write_pending := num_write_pending ?m4 + ?n\<rparr>)" .
      let ?m5 = "?m4\<lparr>policy := p, num_allocated_blocks := a, free_list := fl,
          num_write_pending := num_write_pending ?m4 + ?n\<rparr>"
      have "cpu_prepare_store P now keys bypass m = Inr (?m5, Some \<lparr>keys_to_store = new,
          store_spec = map block_id bs, evicted_keys = ev\<rparr>)"
        unfolding eq mr by (simp add: al bs(1) ins get_load_store_spec_def)
      moreover have "mgr_inv P inv ?m5"
        using p5 t4 tomb_inv_cong [of ?m5 ?m4] by (simp add: mgr_inv_def)
      moreover have "bmap P ?m5 = put_all (zip new bs) (bmap P m |` (- set ev))"
        using gp g4 by simp
      ultimately show thesis using ne bs ev by (intro reserved)
    qed
    from pool2 show thesis
    proof (cases rule: make_room_cases [of _ ?n now ks])
      case fits
      show thesis
      proof (rule commit [OF fits(2) pool2])
        show "tomb_inv ?m2" using tomb by (simp add: tomb_inv_def)
      qed (use fits free2 in \<open>simp_all add: restrict_map_def\<close>)
    next
      case (refused y1 y2 y3)
      let ?m3 = "?m2\<lparr>capped_total := y1, capped_decay_total := y2, cap_last_log := y3\<rparr>"
      have "cpu_prepare_store P now keys bypass m = Inr (?m3, None)"
        unfolding eq refused(2) by simp
      moreover have "pool_inv P inv ?m3" by (rule pool_inv_same [OF pool2]) simp_all
      moreover have "tomb_inv ?m3" using tomb by (simp add: tomb_inv_def)
      moreover have "get_num_free_blocks m < ?n" using refused(1) free2 by linarith
      moreover have "bmap P ?m3 = bmap P m" by simp
      ultimately show thesis by (intro that(2) [of ?m3]) (simp_all only: mgr_inv_def simp_thms)
    next
      case (evicted p evs)
      show thesis
      proof (rule commit [OF evicted(2)])
        show "pool_inv P inv (?m2\<lparr>policy := p,
            num_evictable := num_evictable ?m2 - int (length evs),
            free_list := free_list ?m2 @ map (\<lambda>e. block_id (snd e)) evs\<rparr>)"
          by (rule evict_pool_inv [OF pool2 evicted(4,6,7) _ evicted(9)]) (use evicted(8) in blast)
        show "\<forall>k \<in> set (map fst evs). \<exists>b. bmap P m k = Some b \<and> ref_cnt b = 0 \<and> k \<notin> set ks"
          using evicted(8) by fastforce
        show "tomb_inv (?m2\<lparr>policy := p,
            num_evictable := num_evictable ?m2 - int (length evs),
            free_list := free_list ?m2 @ map (\<lambda>e. block_id (snd e)) evs\<rparr>)"
          using tomb by (simp add: tomb_inv_def)
        show "?n \<le> get_num_free_blocks (?m2\<lparr>policy := p,
            num_evictable := num_evictable ?m2 - int (length evs),
            free_list := free_list ?m2 @ map (\<lambda>e. block_id (snd e)) evs\<rparr>)"
          using evicted(5) free2 by (simp add: get_num_free_blocks_def)
      qed (use evicted free2 in simp_all)
    qed
  qed
qed

end

end
