(* ===== verification/CPU_Complete_Facts.thy ===== *)
theory CPU_Complete_Facts
  imports CPU_Prepare_Facts
begin

text \<open>
  What \<open>complete_store\<close> and \<open>reset_cache\<close> do: a successful store makes exactly its pending
  blocks readable, a failed one gives their slots back, a reset empties the pool.
\<close>

section \<open>The abstract effects\<close>

definition pending :: "block_map \<Rightarrow> offload_key \<Rightarrow> bool" where
  "pending M k \<longleftrightarrow> (case M k of None \<Rightarrow> False | Some b \<Rightarrow> \<not> is_ready b)"

definition mark_ready :: "offload_key list \<Rightarrow> block_map \<Rightarrow> block_map" where
  "mark_ready ks M =
     (\<lambda>k. if k \<in> set ks \<and> pending M k then map_option (\<lambda>b. b\<lparr>ref_cnt := 0\<rparr>) (M k) else M k)"

definition drop_pending :: "offload_key list \<Rightarrow> block_map \<Rightarrow> block_map" where
  "drop_pending ks M = (\<lambda>k. if k \<in> set ks \<and> pending M k then None else M k)"

definition same_meta :: "'p manager \<Rightarrow> 'p manager \<Rightarrow> bool" where
  "same_meta m m' \<longleftrightarrow> num_blocks m' = num_blocks m \<and> tombstones m' = tombstones m \<and>
     tombstone_capacity m' = tombstone_capacity m \<and> events m' = events m"

lemma same_meta_refl [simp]: "same_meta m m"
  by (simp add: same_meta_def)

lemma same_meta_trans: "same_meta m m' \<Longrightarrow> same_meta m' m'' \<Longrightarrow> same_meta m m''"
  by (simp add: same_meta_def)

lemma same_meta_tomb: "same_meta m m' \<Longrightarrow> tomb_inv m \<Longrightarrow> tomb_inv m'"
  by (simp add: same_meta_def tomb_inv_def)

lemma mark_ready_Nil [simp]: "mark_ready [] M = M"
  by (simp add: mark_ready_def)

lemma drop_pending_Nil [simp]: "drop_pending [] M = M"
  by (simp add: drop_pending_def)

lemma mark_ready_skip: "\<not> pending M k \<Longrightarrow> mark_ready (k # ks) M = mark_ready ks M"
  by (auto simp: mark_ready_def fun_eq_iff)

lemma drop_pending_skip: "\<not> pending M k \<Longrightarrow> drop_pending (k # ks) M = drop_pending ks M"
  by (auto simp: drop_pending_def fun_eq_iff)

lemma mark_ready_step:
  "M k = Some b \<Longrightarrow> \<not> is_ready b \<Longrightarrow>
   mark_ready (k # ks) M = mark_ready ks (M(k \<mapsto> b\<lparr>ref_cnt := 0\<rparr>))"
  by (auto simp: mark_ready_def pending_def is_ready_def fun_eq_iff)

lemma drop_pending_step:
  "M k = Some b \<Longrightarrow> \<not> is_ready b \<Longrightarrow> drop_pending (k # ks) M = drop_pending ks (M(k := None))"
  by (auto simp: drop_pending_def pending_def is_ready_def fun_eq_iff)

lemma pending_upd:
  "pending (M(k \<mapsto> b\<lparr>ref_cnt := 0\<rparr>)) j \<longleftrightarrow> j \<noteq> k \<and> pending M j"
  by (auto simp: pending_def is_ready_def)

section \<open>Successful stores\<close>

context cache_policy
begin

lemma pending_ref: "pool_inv P inv m \<Longrightarrow> bmap P m k = Some b \<Longrightarrow> \<not> is_ready b \<Longrightarrow> ref_cnt b = - 1"
  unfolding pool_inv_def ref_bounds_def is_ready_def by (metis int_one_le_iff_zero_less
    linorder_not_le order_antisym_conv zle_add1_eq_le add.left_inverse)

lemma store_done_ok:
  assumes m: "pool_inv P inv m" and k: "bmap P m k = Some b" and r: "\<not> is_ready b"
  obtains p where "store_done P k (m, st) = (m\<lparr>policy := p, num_evictable := num_evictable m + 1,
      num_write_pending := num_write_pending m - 1\<rparr>, st @ [k])"
    "pool_inv P inv (m\<lparr>policy := p, num_evictable := num_evictable m + 1,
      num_write_pending := num_write_pending m - 1\<rparr>)"
    "pol_get P p = (bmap P m)(k \<mapsto> b\<lparr>ref_cnt := 0\<rparr>)"
proof -
  let ?b = "b\<lparr>ref_cnt := 0\<rparr>"
  let ?p = "pol_mark_evictable P (pol_set_block P (policy m) k ?b) k"
  let ?m = "m\<lparr>policy := ?p, num_evictable := num_evictable m + 1,
      num_write_pending := num_write_pending m - 1\<rparr>"
  have pinv: "inv (policy m)" and fin: "finite (dom (bmap P m))" and r1: "ref_cnt b = - 1"
    using m pool_finite pending_ref [OF m k r] by (auto simp: pool_inv_def)
  from evictable [OF pinv k, of ?b] r1 have
    p: "inv ?p" "pol_get P ?p = (bmap P m)(k \<mapsto> ?b)" by auto
  have "owned (num_allocated_blocks m) (free_list m) ((bmap P m)(k \<mapsto> ?b))"
    using m fin k by (intro owned_update [of _ _ _ _ b]) (auto simp: pool_inv_def)
  moreover have "ref_bounds ((bmap P m)(k \<mapsto> ?b))"
    using m by (auto simp: pool_inv_def ref_bounds_def)
  ultimately have "pool_inv P inv ?m"
    using m p k r1 by (simp add: pool_inv_def num_ref_update [OF fin])
  moreover have "store_done P k (m, st) = (?m, st @ [k])"
    using k r by (simp add: store_done_def)
  ultimately show thesis using p(2) by (intro that)
qed

lemma store_done_skip: "\<not> pending (bmap P m) k \<Longrightarrow> store_done P k (m, st) = (m, st)"
  by (auto simp: store_done_def pending_def split: option.splits)

lemma stores_done_ok:
  assumes "pool_inv P inv m"
  shows "\<exists>m' st'. fold (store_done P) ks (m, st) = (m', st @ st') \<and> pool_inv P inv m' \<and>
    bmap P m' = mark_ready ks (bmap P m) \<and> same_meta m m' \<and>
    distinct st' \<and> set st' = {k \<in> set ks. pending (bmap P m) k}"
  using assms
proof (induction ks arbitrary: m st)
  case Nil
  then show ?case by simp
next
  case (Cons k ks)
  show ?case
  proof (cases "pending (bmap P m) k")
    case True
    then obtain b where b: "bmap P m k = Some b" "\<not> is_ready b"
      by (auto simp: pending_def split: option.splits)
    from store_done_ok [OF Cons.prems b, of st] obtain p where
      p: "store_done P k (m, st) = (m\<lparr>policy := p, num_evictable := num_evictable m + 1,
        num_write_pending := num_write_pending m - 1\<rparr>, st @ [k])"
      "pool_inv P inv (m\<lparr>policy := p, num_evictable := num_evictable m + 1,
        num_write_pending := num_write_pending m - 1\<rparr>)"
      "pol_get P p = (bmap P m)(k \<mapsto> b\<lparr>ref_cnt := 0\<rparr>)" .
    obtain m1 where m1: "m1 = m\<lparr>policy := p, num_evictable := num_evictable m + 1,
        num_write_pending := num_write_pending m - 1\<rparr>" by blast
    have g1: "bmap P m1 = (bmap P m)(k \<mapsto> b\<lparr>ref_cnt := 0\<rparr>)" using p(3) m1 by simp
    from Cons.IH [of m1 "st @ [k]"] p(2) obtain m' st' where
      m': "fold (store_done P) ks (m1, st @ [k]) = (m', (st @ [k]) @ st')" "pool_inv P inv m'"
      "bmap P m' = mark_ready ks (bmap P m1)" "same_meta m1 m'"
      "distinct st'" "set st' = {j \<in> set ks. pending (bmap P m1) j}"
      unfolding m1 by blast
    have "same_meta m m1" by (simp add: m1 same_meta_def)
    then have "same_meta m m'" using m'(4) by (rule same_meta_trans)
    moreover have "bmap P m' = mark_ready (k # ks) (bmap P m)"
      unfolding mark_ready_step [of "bmap P m", OF b] m'(3) g1 ..
    moreover have "fold (store_done P) (k # ks) (m, st) = (m', st @ (k # st'))"
      using p(1) m'(1) m1 by simp
    moreover have "set (k # st') = {j \<in> set (k # ks). pending (bmap P m) j}"
      using m'(6) True unfolding g1 pending_upd by auto
    moreover have "distinct (k # st')" using m'(5,6) unfolding g1 pending_upd by simp
    ultimately show ?thesis using m'(2) by blast
  next
    case False
    from Cons.IH [OF Cons.prems, of st] obtain m' st' where
      m': "fold (store_done P) ks (m, st) = (m', st @ st')" "pool_inv P inv m'"
      "bmap P m' = mark_ready ks (bmap P m)" "same_meta m m'"
      "distinct st'" "set st' = {j \<in> set ks. pending (bmap P m) j}" by blast
    moreover have "{j \<in> set (k # ks). pending (bmap P m) j} = {j \<in> set ks. pending (bmap P m) j}"
      using False by auto
    ultimately show ?thesis
      using False by (simp add: store_done_skip mark_ready_skip)
  qed
qed

text \<open>The tombstones of stored blocks are cleared.\<close>

lemma fold_delete_inv:
  "od_ok r \<Longrightarrow> int (length r) \<le> cap \<Longrightarrow>
   od_ok (fold (\<lambda>k. AList.delete (f k)) ks r) \<and> int (length (fold (\<lambda>k. AList.delete (f k)) ks r)) \<le> cap"
proof (induction ks arbitrary: r)
  case (Cons k ks)
  have "length (AList.delete (f k) r) \<le> length r" by (simp add: AList.length_delete_le)
  with Cons show ?case by simp
qed simp

lemma fold_delete_mem:
  "fst ` set (fold (\<lambda>k. AList.delete (f k)) ks r) = fst ` set r - f ` set ks"
  by (induction ks arbitrary: r) auto

lemma complete_store_success:
  assumes m: "mgr_inv P inv m"
  obtains m' st where "cpu_complete_store P ks True m = Inr m'" "mgr_inv P inv m'"
    "bmap P m' = mark_ready ks (bmap P m)" "num_blocks m' = num_blocks m"
    "distinct st" "set st = {k \<in> set ks. pending (bmap P m) k}"
    "events m' = map_option (\<lambda>evs. if st = [] then evs else evs @
       [\<lparr>ev_keys = st, ev_medium = CPU, ev_removed = False\<rparr>]) (events m)"
    "\<forall>h. has_eviction_tombstone h m' \<longleftrightarrow>
       has_eviction_tombstone h m \<and> h \<notin> get_offload_block_hash ` set st"
proof -
  from m have pool: "pool_inv P inv m" and tomb: "tomb_inv m" by (simp_all add: mgr_inv_def)
  from stores_done_ok [OF pool, of ks "[]"] obtain m1 st where
    f: "fold (store_done P) ks (m, []) = (m1, st)" and p1: "pool_inv P inv m1"
    and g1: "bmap P m1 = mark_ready ks (bmap P m)" and meta: "same_meta m m1"
    and st: "distinct st" "set st = {k \<in> set ks. pending (bmap P m) k}" by auto
  let ?t = "map_option (fold (\<lambda>k. AList.delete (get_offload_block_hash k)) st) (tombstones m1)"
  let ?e = "map_option (\<lambda>evs. if st = [] then evs else evs @
       [\<lparr>ev_keys = st, ev_medium = CPU, ev_removed = False\<rparr>]) (events m1)"
  let ?m = "m1\<lparr>tombstones := ?t, events := ?e\<rparr>"
  let ?m2 = "m1\<lparr>tombstones := ?t\<rparr>"
  have a: "(case tombstones m1 of None \<Rightarrow> m1
      | Some registry \<Rightarrow> m1\<lparr>tombstones := Some (fold (\<lambda>k. AList.delete (get_offload_block_hash k))
          st registry)\<rparr>) = ?m2"
    by (cases "tombstones m1") (rule manager.equality; simp)+
  have b: "(case events x of None \<Rightarrow> x
      | Some evs \<Rightarrow> if st = [] then x else x\<lparr>events := Some (evs @
          [\<lparr>ev_keys = st, ev_medium = CPU, ev_removed = False\<rparr>])\<rparr>) =
      x\<lparr>events := map_option (\<lambda>evs. if st = [] then evs else evs @
       [\<lparr>ev_keys = st, ev_medium = CPU, ev_removed = False\<rparr>]) (events x)\<rparr>" for x :: "'a manager"
    by (cases "events x"; cases "st = []") (rule manager.equality; simp)+
  have eq: "cpu_complete_store P ks True m = Inr ?m"
    unfolding cpu_complete_store_def if_True f Let_def prod.case a b by simp
  have "tomb_inv m1" using same_meta_tomb [OF meta tomb] .
  then have "tomb_inv ?m" by (auto simp: tomb_inv_def fold_delete_inv)
  moreover have "pool_inv P inv ?m" by (rule pool_inv_same [OF p1]) simp_all
  ultimately have "mgr_inv P inv ?m" by (simp add: mgr_inv_def)
  moreover have "has_eviction_tombstone h ?m \<longleftrightarrow>
      has_eviction_tombstone h m \<and> h \<notin> get_offload_block_hash ` set st" for h
    using meta by (auto simp: has_eviction_tombstone_def same_meta_def fold_delete_mem
      split: option.splits)
  ultimately show thesis using eq g1 meta st by (intro that [of ?m st]) (simp_all add: same_meta_def)
qed

section \<open>Failed stores\<close>

lemma store_failed_ok:
  assumes m: "pool_inv P inv m" and k: "bmap P m k = Some b" and r: "\<not> is_ready b"
  obtains p where "store_failed P k m = Inr (m\<lparr>policy := p,
      num_write_pending := num_write_pending m - 1, free_list := free_list m @ [block_id b]\<rparr>)"
    "pool_inv P inv (m\<lparr>policy := p, num_write_pending := num_write_pending m - 1,
      free_list := free_list m @ [block_id b]\<rparr>)"
    "pol_get P p = (bmap P m)(k := None)"
proof -
  have pinv: "inv (policy m)" and fin: "finite (dom (bmap P m))" and r1: "ref_cnt b = - 1"
    using m pool_finite pending_ref [OF m k r] by (auto simp: pool_inv_def)
  from remove [OF pinv k] obtain p where
    p: "pol_remove P (policy m) k = Inr p" "inv p" "pol_get P p = (bmap P m)(k := None)" by auto
  let ?m = "m\<lparr>policy := p, num_write_pending := num_write_pending m - 1,
      free_list := free_list m @ [block_id b]\<rparr>"
  have "owned (num_allocated_blocks m) (free_list m @ [block_id b]) ((bmap P m)(k := None))"
    using m fin k by (intro owned_remove) (auto simp: pool_inv_def)
  moreover have "ref_bounds ((bmap P m)(k := None))"
    using m by (auto simp: pool_inv_def ref_bounds_def)
  ultimately have "pool_inv P inv ?m"
    using m p k r1 by (simp add: pool_inv_def num_ref_delete [OF fin])
  moreover have "store_failed P k m = Inr ?m"
    using k r p(1) by (simp add: store_failed_def free_block_def)
  ultimately show thesis using p(3) by (intro that [of p]) simp_all
qed

lemma complete_store_failure_pool:
  assumes "pool_inv P inv m"
  shows "\<exists>m'. foldE (store_failed P) ks m = Inr m' \<and> pool_inv P inv m' \<and>
    bmap P m' = drop_pending ks (bmap P m) \<and> same_meta m m'"
  using assms
proof (induction ks arbitrary: m)
  case Nil
  then show ?case by simp
next
  case (Cons k ks)
  show ?case
  proof (cases "pending (bmap P m) k")
    case True
    then obtain b where b: "bmap P m k = Some b" "\<not> is_ready b"
      by (auto simp: pending_def split: option.splits)
    from store_failed_ok [OF Cons.prems b] obtain p where
      p: "store_failed P k m = Inr (m\<lparr>policy := p, num_write_pending := num_write_pending m - 1,
        free_list := free_list m @ [block_id b]\<rparr>)"
      "pool_inv P inv (m\<lparr>policy := p, num_write_pending := num_write_pending m - 1,
        free_list := free_list m @ [block_id b]\<rparr>)"
      "pol_get P p = (bmap P m)(k := None)" .
    obtain m1 where m1: "m1 = m\<lparr>policy := p, num_write_pending := num_write_pending m - 1,
        free_list := free_list m @ [block_id b]\<rparr>" by blast
    have g1: "bmap P m1 = (bmap P m)(k := None)" using p(3) m1 by simp
    from Cons.IH [of m1] p(2) obtain m' where
      m': "foldE (store_failed P) ks m1 = Inr m'" "pool_inv P inv m'"
      "bmap P m' = drop_pending ks (bmap P m1)" "same_meta m1 m'"
      unfolding m1 by blast
    have "same_meta m m1" by (simp add: m1 same_meta_def)
    then have "same_meta m m'" using m'(4) by (rule same_meta_trans)
    moreover have "bmap P m' = drop_pending (k # ks) (bmap P m)"
      unfolding drop_pending_step [of "bmap P m", OF b] m'(3) g1 ..
    moreover have "foldE (store_failed P) (k # ks) m = Inr m'"
      using p(1) m'(1) m1 by simp
    ultimately show ?thesis using m'(2) by blast
  next
    case False
    then have "store_failed P k m = Inr m"
      by (auto simp: store_failed_def pending_def split: option.splits)
    with Cons.IH [OF Cons.prems] False show ?thesis by (simp add: drop_pending_skip)
  qed
qed

lemma complete_store_failure:
  assumes m: "mgr_inv P inv m"
  obtains m' where "cpu_complete_store P ks False m = Inr m'" "mgr_inv P inv m'"
    "bmap P m' = drop_pending ks (bmap P m)" "num_blocks m' = num_blocks m"
    "events m' = events m" "tombstones m' = tombstones m"
proof -
  from m have pool: "pool_inv P inv m" and tomb: "tomb_inv m" by (simp_all add: mgr_inv_def)
  from complete_store_failure_pool [OF pool, of ks] obtain m' where
    m': "foldE (store_failed P) ks m = Inr m'" "pool_inv P inv m'"
    "bmap P m' = drop_pending ks (bmap P m)" "same_meta m m'" by blast
  have "mgr_inv P inv m'" using m'(2) same_meta_tomb [OF m'(4) tomb] by (simp add: mgr_inv_def)
  with m' show thesis
    by (intro that [of m']) (simp_all add: cpu_complete_store_def same_meta_def)
qed

section \<open>Touch, lookup and reset\<close>

lemma touch_ok:
  assumes "mgr_inv P inv m"
  shows "mgr_inv P inv (cpu_touch P ks m) \<and> bmap P (cpu_touch P ks m) = bmap P m"
  using assms by (simp add: mgr_inv_def pool_inv_def tomb_inv_def cpu_touch_def inv_touch get_touch)

lemma free_blocks_eq:
  assumes "pool_inv P inv m"
  shows "get_num_free_blocks m = num_blocks m - int (card (dom (bmap P m)))"
proof -
  have "owned (num_allocated_blocks m) (free_list m) (bmap P m)" "0 \<le> num_allocated_blocks m"
    using assms by (simp_all add: pool_inv_def)
  from owned_length [OF this(1) pool_finite [OF assms] this(2)] show ?thesis
    by (simp add: get_num_free_blocks_def)
qed

lemma reset_ok:
  assumes m: "mgr_inv P inv m"
  shows "mgr_inv P inv (cpu_reset_cache P m) \<and> bmap P (cpu_reset_cache P m) = Map.empty \<and>
    get_num_free_blocks (cpu_reset_cache P m) = num_blocks m"
proof -
  have "inv (pol_clear P (policy m))" using m by (simp add: mgr_inv_def pool_inv_def inv_clear)
  then show ?thesis
    using m by (simp add: mgr_inv_def pool_inv_def tomb_inv_def cpu_reset_cache_def Let_def get_clear
      owned_def slot_ids_def num_ref_def ref_bounds_def get_num_free_blocks_def)
qed

lemma load_mgr_ok:
  assumes m: "mgr_inv P inv m"
    and r: "\<forall>k \<in> set ks. \<exists>b. bmap P m k = Some b \<and> 0 \<le> ref_cnt b \<and>
      ref_cnt b + int (count_list ks k) < 2147483648"
  obtains m' where "cpu_prepare_load P ks m = Inr (m', map (\<lambda>k. block_id (the (bmap P m k))) ks)"
    "mgr_inv P inv m'" "bmap P m' = add_refs 1 ks (bmap P m)" "num_blocks m' = num_blocks m"
proof -
  have pool: "pool_inv P inv m" using m by (simp add: mgr_inv_def)
  from prepare_load_ok [OF pool r] obtain m' where
    m': "cpu_prepare_load P ks m = Inr (m', map (\<lambda>k. block_id (the (bmap P m k))) ks)"
    "pool_inv P inv m'" "bmap P m' = add_refs 1 ks (bmap P m)" "same_pool m m'" by blast
  have "same_meta m m'" using m'(4) by (auto simp: same_pool_def same_meta_def)
  with m' m that show thesis
    using same_meta_tomb [of m m'] unfolding mgr_inv_def same_meta_def by blast
qed

lemma unload_mgr_ok:
  assumes m: "mgr_inv P inv m"
    and r: "\<forall>k \<in> set ks. \<exists>b. bmap P m k = Some b \<and> int (count_list ks k) \<le> ref_cnt b"
  obtains m' where "cpu_complete_load P ks m = Inr m'"
    "mgr_inv P inv m'" "bmap P m' = add_refs (- 1) ks (bmap P m)" "num_blocks m' = num_blocks m"
proof -
  have pool: "pool_inv P inv m" using m by (simp add: mgr_inv_def)
  from complete_load_ok [OF pool r] obtain m' where
    m': "cpu_complete_load P ks m = Inr m'"
    "pool_inv P inv m'" "bmap P m' = add_refs (- 1) ks (bmap P m)" "same_pool m m'" by blast
  have "same_meta m m'" using m'(4) by (auto simp: same_pool_def same_meta_def)
  with m' m that show thesis
    using same_meta_tomb [of m m'] unfolding mgr_inv_def same_meta_def by blast
qed

end

section \<open>The events of a reset\<close>

lemma concat_chunks: "0 < c \<Longrightarrow> concat (chunks c xs) = xs"
proof (induction c xs rule: chunks.induct)
  case (1 c xs)
  show ?case
  proof (cases "xs = []")
    case False
    have "concat (chunks c xs) = take c xs @ concat (chunks c (drop c xs))"
      using False 1(2) by (subst chunks.simps) simp
    also have "\<dots> = xs" using 1(1) [OF _ 1(2)] False 1(2) by simp
    finally show ?thesis .
  qed (simp add: chunks.simps)
qed

lemma chunks_size: "ys \<in> set (chunks c xs) \<Longrightarrow> ys \<noteq> [] \<and> length ys \<le> c"
proof (induction c xs rule: chunks.induct)
  case (1 c xs)
  have ne: "xs \<noteq> []" "c \<noteq> 0" using 1(2) by (auto simp: chunks.simps [of c xs] split: if_splits)
  then have "ys = take c xs \<or> ys \<in> set (chunks c (drop c xs))"
    using 1(2) by (subst (asm) chunks.simps) simp
  with 1(1) ne show ?case by auto
qed

end
