(* ===== verification/CPU_Protocol.thy ===== *)
theory CPU_Protocol
  imports CPU_Complete_Facts
begin

text \<open>
  The CPU manager driven by its client: a step relation over the manager and the load batches
  in flight, in the order in which the scheduler side issues the calls. In every reachable
  state the pool invariant holds, a block under load keeps its slot, and no assertion of the
  manager fails.
\<close>

section \<open>Steps\<close>

type_synonym 'p cpu_config = "'p manager \<times> offload_key list list"

text \<open>
  The client's discipline is in the guards: it loads keys that \<open>lookup\<close> reports as \<open>HIT\<close>,
  completes each batch once, and stores batches of distinct keys. It may reset at any time; the
  batches in flight are then abandoned: the connector's stale threshold keeps it from completing a
  job of before the reset, and it flushes these jobs to the workers before new stores begin. The
  bound on the keys in flight is the range of the C field \<open>ref_cnt\<close>.
\<close>

inductive cpu_step :: "'p policy_ops \<Rightarrow> 'p cpu_config \<Rightarrow> 'p cpu_config \<Rightarrow> bool"
  for P :: "'p policy_ops" where
  lookup: "cpu_lookup P k m = Inr (m', r) \<Longrightarrow> cpu_step P (m, ls) (m', ls)"
| touch: "cpu_step P (m, ls) (cpu_touch P ks m, ls)"
| load: "\<forall>k \<in> set ks. block_result (pol_get P (policy m) k) = HIT \<Longrightarrow>
    int (length (concat ls)) + int (length ks) < 2147483648 \<Longrightarrow>
    cpu_prepare_load P ks m = Inr (m', ids) \<Longrightarrow> cpu_step P (m, ls) (m', ks # ls)"
| load_done: "cpu_complete_load P ks m = Inr m' \<Longrightarrow>
    cpu_step P (m, ls1 @ ks # ls2) (m', ls1 @ ls2)"
| store: "distinct ks \<Longrightarrow> cpu_prepare_store P now ks bypass m = Inr (m', out) \<Longrightarrow>
    cpu_step P (m, ls) (m', ls)"
| stored: "cpu_complete_store P ks success m = Inr m' \<Longrightarrow> cpu_step P (m, ls) (m', ls)"
| events: "cpu_take_events m = (m', evs) \<Longrightarrow> cpu_step P (m, ls) (m', ls)"
| reset: "cpu_step P (m, ls) (cpu_reset_cache P m, [])"

inductive cpu_reach :: "'p policy_ops \<Rightarrow> 'p cpu_config \<Rightarrow> 'p cpu_config \<Rightarrow> bool"
  for P :: "'p policy_ops" where
  start: "cpu_reach P c c"
| step: "cpu_reach P c c' \<Longrightarrow> cpu_step P c' c'' \<Longrightarrow> cpu_reach P c c''"

section \<open>The reference counts count the loads\<close>

definition in_flight :: "offload_key list list \<Rightarrow> offload_key \<Rightarrow> int" where
  "in_flight ls k = int (count_list (concat ls) k)"

definition refs_ok :: "block_map \<Rightarrow> offload_key list list \<Rightarrow> bool" where
  "refs_ok M ls \<longleftrightarrow>
     (\<forall>k. case M k of None \<Rightarrow> in_flight ls k = 0
        | Some b \<Rightarrow> ref_cnt b = in_flight ls k \<or> (ref_cnt b = - 1 \<and> in_flight ls k = 0))"

definition config_inv :: "'p policy_ops \<Rightarrow> ('p \<Rightarrow> bool) \<Rightarrow> 'p cpu_config \<Rightarrow> bool" where
  "config_inv P pinv c \<longleftrightarrow> mgr_inv P pinv (fst c) \<and> refs_ok (bmap P (fst c)) (snd c)"

lemma refs_ok_Some:
  "refs_ok M ls \<Longrightarrow> M k = Some b \<Longrightarrow>
   ref_cnt b = in_flight ls k \<or> (ref_cnt b = - 1 \<and> in_flight ls k = 0)"
  unfolding refs_ok_def by (drule spec [of _ k]) simp

lemma refs_ok_None: "refs_ok M ls \<Longrightarrow> M k = None \<Longrightarrow> in_flight ls k = 0"
  unfolding refs_ok_def by (drule spec [of _ k]) simp

lemma refs_okI:
  assumes "\<And>k. M k = None \<Longrightarrow> in_flight ls k = 0"
    and "\<And>k b. M k = Some b \<Longrightarrow>
      ref_cnt b = in_flight ls k \<or> (ref_cnt b = - 1 \<and> in_flight ls k = 0)"
  shows "refs_ok M ls"
  using assms by (auto simp: refs_ok_def split: option.split)

lemma in_flight_nonneg [simp]: "0 \<le> in_flight ls k"
  by (simp add: in_flight_def)

lemma in_flight_Cons: "in_flight (ks # ls) k = int (count_list ks k) + in_flight ls k"
  by (simp add: in_flight_def)

lemma in_flight_mid:
  "in_flight (ls1 @ ks # ls2) k = int (count_list ks k) + in_flight (ls1 @ ls2) k"
  by (simp add: in_flight_def)

lemma in_flight_le: "in_flight ls k \<le> int (length (concat ls))"
  unfolding in_flight_def by (simp only: of_nat_le_iff count_le_length)

lemma refs_ok_load:
  assumes r: "refs_ok M ls" and h: "\<forall>k \<in> set ks. block_result (M k) = HIT"
  shows "refs_ok (add_refs 1 ks M) (ks # ls)"
proof (rule refs_okI)
  fix k
  assume "add_refs 1 ks M k = None"
  then have n: "M k = None" by (simp add: add_refs_def)
  with h have "k \<notin> set ks" by (auto simp: block_result_def)
  then show "in_flight (ks # ls) k = 0"
    using refs_ok_None [OF r n] by (simp add: in_flight_Cons count_list_0_iff)
next
  fix k b
  assume "add_refs 1 ks M k = Some b"
  then obtain b0 where b0: "M k = Some b0" "ref_cnt b = ref_cnt b0 + int (count_list ks k)"
    by (auto simp: add_refs_def)
  show "ref_cnt b = in_flight (ks # ls) k \<or> (ref_cnt b = - 1 \<and> in_flight (ks # ls) k = 0)"
  proof (cases "k \<in> set ks")
    case True
    with h b0 have "0 \<le> ref_cnt b0" by (auto simp: block_result_def is_ready_def split: if_splits)
    with refs_ok_Some [OF r b0(1)] b0(2) show ?thesis by (auto simp: in_flight_Cons)
  next
    case False
    then have "count_list ks k = 0" by (simp add: count_list_0_iff)
    with refs_ok_Some [OF r b0(1)] b0(2) show ?thesis by (auto simp: in_flight_Cons)
  qed
qed

lemma refs_ok_unload_pre:
  assumes r: "refs_ok M (ls1 @ ks # ls2)"
  shows "\<forall>k \<in> set ks. \<exists>b. M k = Some b \<and> int (count_list ks k) \<le> ref_cnt b"
proof
  fix k
  assume "k \<in> set ks"
  then have "0 < count_list ks k" by (simp add: count_list_0_iff flip: neq0_conv)
  then have pos: "0 < in_flight (ls1 @ ks # ls2) k"
    unfolding in_flight_mid using in_flight_nonneg [of "ls1 @ ls2" k] by linarith
  then obtain b where b: "M k = Some b" using refs_ok_None [OF r, of k] by (cases "M k") auto
  have "int (count_list ks k) \<le> ref_cnt b"
    using refs_ok_Some [OF r b] pos in_flight_nonneg [of "ls1 @ ls2" k]
    unfolding in_flight_mid by linarith
  with b show "\<exists>b. M k = Some b \<and> int (count_list ks k) \<le> ref_cnt b" by blast
qed

lemma refs_ok_unload:
  assumes r: "refs_ok M (ls1 @ ks # ls2)"
  shows "refs_ok (add_refs (- 1) ks M) (ls1 @ ls2)"
proof (rule refs_okI)
  fix k
  assume "add_refs (- 1) ks M k = None"
  then have "M k = None" by (simp add: add_refs_def)
  from refs_ok_None [OF r this] show "in_flight (ls1 @ ls2) k = 0"
    unfolding in_flight_mid using in_flight_nonneg [of "ls1 @ ls2" k] by linarith
next
  fix k b
  assume "add_refs (- 1) ks M k = Some b"
  then obtain b0 where b0: "M k = Some b0" "ref_cnt b = ref_cnt b0 - int (count_list ks k)"
    by (auto simp: add_refs_def)
  from refs_ok_Some [OF r b0(1)] b0(2)
  show "ref_cnt b = in_flight (ls1 @ ls2) k \<or> (ref_cnt b = - 1 \<and> in_flight (ls1 @ ls2) k = 0)"
    unfolding in_flight_mid using in_flight_nonneg [of "ls1 @ ls2" k] by linarith
qed

lemma refs_ok_mark_ready: "refs_ok M ls \<Longrightarrow> refs_ok (mark_ready ks M) ls"
proof (rule refs_okI)
  fix k
  assume r: "refs_ok M ls" and "mark_ready ks M k = None"
  then have "M k = None" by (auto simp: mark_ready_def split: if_splits)
  with r show "in_flight ls k = 0" by (rule refs_ok_None)
next
  fix k b
  assume r: "refs_ok M ls" and mb: "mark_ready ks M k = Some b"
  then obtain b0 where b0: "M k = Some b0" by (auto simp: mark_ready_def split: if_splits)
  have "b = b0 \<or> (ref_cnt b = 0 \<and> ref_cnt b0 < 0)"
    using mb b0 by (auto simp: mark_ready_def pending_def is_ready_def split: if_splits)
  then show "ref_cnt b = in_flight ls k \<or> (ref_cnt b = - 1 \<and> in_flight ls k = 0)"
  proof
    assume "b = b0"
    with refs_ok_Some [OF r b0] show ?thesis by simp
  next
    assume "ref_cnt b = 0 \<and> ref_cnt b0 < 0"
    with refs_ok_Some [OF r b0] in_flight_nonneg [of ls k] show ?thesis by linarith
  qed
qed

lemma refs_ok_drop_pending: "refs_ok M ls \<Longrightarrow> refs_ok (drop_pending ks M) ls"
proof (rule refs_okI)
  fix k
  assume r: "refs_ok M ls" and dn: "drop_pending ks M k = None"
  show "in_flight ls k = 0"
  proof (cases "M k")
    case None
    with r show ?thesis by (rule refs_ok_None)
  next
    case (Some b)
    then have "ref_cnt b < 0"
      using dn by (auto simp: drop_pending_def pending_def is_ready_def split: if_splits)
    with refs_ok_Some [OF r Some] in_flight_nonneg [of ls k] show ?thesis by linarith
  qed
next
  fix k b
  assume r: "refs_ok M ls" and "drop_pending ks M k = Some b"
  then have "M k = Some b" by (auto simp: drop_pending_def split: if_splits)
  with r show "ref_cnt b = in_flight ls k \<or> (ref_cnt b = - 1 \<and> in_flight ls k = 0)"
    by (rule refs_ok_Some)
qed

lemma refs_ok_reserve:
  assumes r: "refs_ok M ls" and ev: "\<forall>k \<in> set ev. \<exists>b. M k = Some b \<and> ref_cnt b = 0"
    and ks: "distinct ks" "\<forall>k \<in> set ks. M k = None" "length bs = length ks"
    and bs: "\<forall>b \<in> set bs. ref_cnt b = - 1"
  shows "refs_ok (put_all (zip ks bs) (M |` (- set ev))) ls" (is "refs_ok ?M ls")
proof (rule refs_okI)
  fix k
  assume n: "?M k = None"
  then have "k \<notin> dom ?M" by (simp only: domIff not_not)
  then have k: "k \<notin> fst ` set (zip ks bs)" "k \<notin> dom (M |` (- set ev))" by (simp_all only: dom_put_all Un_iff de_Morgan_disj not_False_eq_True)
  show "in_flight ls k = 0"
  proof (cases "M k")
    case None
    with r show ?thesis by (rule refs_ok_None)
  next
    case (Some b)
    with k(2) have "k \<in> set ev" by (auto simp: restrict_map_def dom_def split: if_splits)
    with ev Some have "ref_cnt b = 0" by auto
    with refs_ok_Some [OF r Some] show ?thesis by auto
  qed
next
  fix k b
  assume kb: "?M k = Some b"
  show "ref_cnt b = in_flight ls k \<or> (ref_cnt b = - 1 \<and> in_flight ls k = 0)"
  proof (cases "k \<in> fst ` set (zip ks bs)")
    case True
    then obtain b' where b': "(k, b') \<in> set (zip ks bs)" by auto
    then have "?M k = Some b'" using ks(1,3) by (intro put_all_in) simp_all
    with kb b' bs have "ref_cnt b = - 1" by (auto dest: set_zip_rightD)
    moreover have "M k = None" using b' ks(2) by (auto dest: set_zip_leftD)
    ultimately show ?thesis using refs_ok_None [OF r] by blast
  next
    case False
    then have "M k = Some b" using kb by (simp add: put_all_notin restrict_map_def split: if_splits)
    with r show ?thesis by (rule refs_ok_Some)
  qed
qed

lemma in_flight_Nil [simp]: "in_flight [] k = 0"
  by (simp add: in_flight_def)

lemma count_lookup_form:
  "count_lookup k m = Inr m' \<Longrightarrow> \<exists>c. m' = m\<lparr>counts := c\<rparr>"
proof -
  assume a: "count_lookup k m = Inr m'"
  show ?thesis
  proof (cases "counts m")
    case None
    with a have "m' = m\<lparr>counts := counts m\<rparr>" by (simp add: count_lookup_def)
    then show ?thesis by blast
  next
    case (Some cs)
    with a show ?thesis
      by (auto simp: count_lookup_def split: option.splits if_splits list.splits)
  qed
qed

context cache_policy
begin

lemma init_config:
  assumes "0 \<le> n" and "n < 9223372036854775808"
  shows "config_inv P inv (init_manager P n ev th mx e1 e2, [])"
proof -
  have "bmap P (init_manager P n ev th mx e1 e2) = Map.empty"
    by (simp add: init_manager_def get_init)
  then show ?thesis using init_inv [OF assms] by (simp add: config_inv_def refs_ok_def)
qed

lemma lookup_form:
  assumes "cpu_lookup P k m = Inr (m', r)"
  shows "r = block_result (bmap P m k) \<and> (\<exists>c. m' = m\<lparr>counts := c\<rparr>)"
proof -
  from assms obtain m1 where "count_lookup k m = Inr m1" "m' = m1" "r = block_result (bmap P m1 k)"
    by (auto simp: cpu_lookup_def res_simps)
  with count_lookup_form [of k m m1] show ?thesis by auto
qed

text \<open>The client's guards are enough for a load and its completion to return.\<close>

lemma load_pre:
  assumes c: "config_inv P inv (m, ls)"
    and h: "\<forall>k \<in> set ks. block_result (bmap P m k) = HIT"
    and n: "int (length (concat ls)) + int (length ks) < 2147483648"
  shows "\<forall>k \<in> set ks. \<exists>b. bmap P m k = Some b \<and> 0 \<le> ref_cnt b \<and>
      ref_cnt b + int (count_list ks k) < 2147483648"
proof
  fix k
  assume "k \<in> set ks"
  with h obtain b where b: "bmap P m k = Some b" "0 \<le> ref_cnt b"
    by (auto simp: block_result_def is_ready_def split: option.splits if_splits)
  have "ref_cnt b = in_flight ls k"
    using refs_ok_Some [of "bmap P m" ls k b] b c by (auto simp: config_inv_def)
  moreover have "int (count_list ks k) \<le> int (length ks)" by (simp only: of_nat_le_iff count_le_length)
  ultimately have "ref_cnt b + int (count_list ks k) < 2147483648"
    using in_flight_le [of ls k] n by linarith
  with b show "\<exists>b. bmap P m k = Some b \<and> 0 \<le> ref_cnt b \<and>
      ref_cnt b + int (count_list ks k) < 2147483648" by blast
qed

lemma step_config:
  assumes "cpu_step P c c'" and "config_inv P inv c"
  shows "config_inv P inv c'"
  using assms
proof (cases rule: cpu_step.cases)
  case (lookup k m m' r ls)
  then obtain x where "m' = m\<lparr>counts := x\<rparr>" using lookup_form by blast
  with lookup assms(2) show ?thesis
    using pool_inv_same [of m m'] tomb_inv_cong [of m m'] by (simp add: config_inv_def mgr_inv_def)
next
  case (touch m ls ks)
  with assms(2) touch_ok [of m ks] show ?thesis by (simp add: config_inv_def)
next
  case (load ks m ls m' ids)
  have c: "config_inv P inv (m, ls)" using load(1) assms(2) by simp
  then have m: "mgr_inv P inv m" by (simp add: config_inv_def)
  from load_mgr_ok [OF m load_pre [OF c load(3,4)]] load(5) have
    "mgr_inv P inv m'" "bmap P m' = add_refs 1 ks (bmap P m)" by auto
  with c load(2,3) show ?thesis by (simp add: config_inv_def refs_ok_load)
next
  case (load_done ks m m' ls1 ls2)
  have c: "config_inv P inv (m, ls1 @ ks # ls2)" using load_done(1) assms(2) by simp
  then have m: "mgr_inv P inv m" and r: "refs_ok (bmap P m) (ls1 @ ks # ls2)"
    by (simp_all add: config_inv_def)
  from unload_mgr_ok [OF m refs_ok_unload_pre [OF r]] load_done(3) have
    "mgr_inv P inv m'" "bmap P m' = add_refs (- 1) ks (bmap P m)" by auto
  with load_done(2) refs_ok_unload [OF r] show ?thesis by (simp add: config_inv_def)
next
  case (store ks now bypass m m' out ls)
  have m: "mgr_inv P inv m" and r: "refs_ok (bmap P m) ls"
    using store(1) assms(2) by (simp_all add: config_inv_def)
  let ?ks = "snd (threshold_gate bypass ks m)"
  let ?new = "filter (\<lambda>k. bmap P m k = None) ?ks"
  have dn: "distinct ?new" using threshold_gate_form [of bypass ks m] store(3) by auto
  from m store(3) have "mgr_inv P inv m' \<and> refs_ok (bmap P m') ls"
  proof (cases rule: prepare_store_cases [of m ks bypass now])
    case (reserved m1 ev bs)
    then have "m' = m1" using store(4) by simp
    moreover have "refs_ok (put_all (zip ?new bs) (bmap P m |` (- set ev))) ls"
      using reserved r dn by (intro refs_ok_reserve) auto
    ultimately show ?thesis using reserved by simp
  qed (use store(4) r in simp_all)
  with store(2) show ?thesis by (simp add: config_inv_def)
next
  case (stored ks success m m' ls)
  have m: "mgr_inv P inv m" and r: "refs_ok (bmap P m) ls"
    using stored(1) assms(2) by (simp_all add: config_inv_def)
  show ?thesis
  proof (cases success)
    case True
    from complete_store_success [OF m, of ks] stored(3) True have
      "mgr_inv P inv m'" "bmap P m' = mark_ready ks (bmap P m)" by auto
    with stored(2) r show ?thesis by (simp add: config_inv_def refs_ok_mark_ready)
  next
    case False
    from complete_store_failure [OF m, of ks] stored(3) False have
      "mgr_inv P inv m'" "bmap P m' = drop_pending ks (bmap P m)" by auto
    with stored(2) r show ?thesis by (simp add: config_inv_def refs_ok_drop_pending)
  qed
next
  case (events m m' evs ls)
  then have "m' = m\<lparr>events := map_option (\<lambda>_. []) (manager.events m)\<rparr>"
    by (cases "manager.events m") (auto simp: cpu_take_events_def intro: manager.equality)
  with events assms(2) show ?thesis
    using pool_inv_same [of m m'] tomb_inv_cong [of m m'] by (simp add: config_inv_def mgr_inv_def)
next
  case (reset m ls)
  with assms(2) reset_ok [of m] show ?thesis by (simp add: config_inv_def refs_ok_def)
qed

lemma reach_config:
  "cpu_reach P c c' \<Longrightarrow> config_inv P inv c \<Longrightarrow> config_inv P inv c'"
  by (induction rule: cpu_reach.induct) (auto intro: step_config)

section \<open>A block under load keeps its slot\<close>

lemma mark_ready_id:
  "M k = Some b \<Longrightarrow> \<exists>b'. mark_ready ks M k = Some b' \<and> block_id b' = block_id b"
  by (simp add: mark_ready_def)

lemma step_slot:
  assumes st: "cpu_step P c c'" and c: "config_inv P inv c" and pos: "0 < in_flight (snd c) k"
  shows "c' = (cpu_reset_cache P (fst c), []) \<or>
    (\<exists>b b'. bmap P (fst c) k = Some b \<and> bmap P (fst c') k = Some b' \<and> block_id b' = block_id b)"
proof (cases "c' = (cpu_reset_cache P (fst c), [])")
  case nr: False
  from refs_ok_None [of "bmap P (fst c)" "snd c" k] c pos obtain b where
    b: "bmap P (fst c) k = Some b" by (cases "bmap P (fst c) k") (auto simp: config_inv_def)
  with refs_ok_Some [of "bmap P (fst c)" "snd c" k b] c pos have
    rc: "ref_cnt b = in_flight (snd c) k" by (auto simp: config_inv_def)
  have "\<exists>b'. bmap P (fst c') k = Some b' \<and> block_id b' = block_id b"
    using st
  proof (cases rule: cpu_step.cases)
    case (lookup j m m' r ls)
    then obtain x where "m' = m\<lparr>counts := x\<rparr>" using lookup_form by blast
    with lookup b show ?thesis by simp
  next
    case (touch m ls ks)
    with b c touch_ok [of m ks] show ?thesis by (simp add: config_inv_def)
  next
    case (load ks m ls m' ids)
    have ci: "config_inv P inv (m, ls)" using load(1) c by simp
    then have m: "mgr_inv P inv m" by (simp add: config_inv_def)
    from load_mgr_ok [OF m load_pre [OF ci load(3,4)]] load(5) have
      "bmap P m' = add_refs 1 ks (bmap P m)" by auto
    with load b show ?thesis by (simp add: add_refs_def)
  next
    case (load_done ks m m' ls1 ls2)
    have ci: "config_inv P inv (m, ls1 @ ks # ls2)" using load_done(1) c by simp
    then have m: "mgr_inv P inv m" and r: "refs_ok (bmap P m) (ls1 @ ks # ls2)"
      by (simp_all add: config_inv_def)
    from unload_mgr_ok [OF m refs_ok_unload_pre [OF r]] load_done(3) have
      "bmap P m' = add_refs (- 1) ks (bmap P m)" by auto
    with load_done b show ?thesis by (simp add: add_refs_def)
  next
    case (store ks now bypass m m' out ls)
    have m: "mgr_inv P inv m" using store(1) c by (simp add: config_inv_def)
    have bm: "bmap P m k = Some b" "ref_cnt b \<noteq> 0" using store(1) b rc pos by auto
    from m store(3) have "\<exists>b'. bmap P m' k = Some b' \<and> block_id b' = block_id b"
    proof (cases rule: prepare_store_cases [of m ks bypass now])
      case (reserved m1 ev bs)
      let ?new = "filter (\<lambda>k. bmap P m k = None) (snd (threshold_gate bypass ks m))"
      have "k \<notin> fst ` set (zip ?new bs)" using bm(1) by (auto dest: set_zip_leftD)
      moreover have "k \<notin> set ev" using reserved(9) bm by auto
      ultimately have "bmap P m1 k = Some b" unfolding reserved(4) by (simp add: put_all_notin bm(1))
      moreover have "m' = m1" using reserved store(4) by simp
      ultimately show ?thesis by simp
    qed (use store(4) bm in simp_all)
    with store(2) show ?thesis by simp
  next
    case (stored ks success m m' ls)
    have m: "mgr_inv P inv m" using stored(1) c by (simp add: config_inv_def)
    have bm: "bmap P m k = Some b" "0 < ref_cnt b" using stored(1) b rc pos by auto
    show ?thesis
    proof (cases success)
      case True
      from complete_store_success [OF m, of ks] stored(3) True have
        "bmap P m' = mark_ready ks (bmap P m)" by auto
      with stored(2) bm mark_ready_id [of "bmap P m" k b] show ?thesis by simp
    next
      case False
      from complete_store_failure [OF m, of ks] stored(3) False have
        "bmap P m' = drop_pending ks (bmap P m)" by auto
      with stored(2) bm show ?thesis by (simp add: drop_pending_def pending_def is_ready_def)
    qed
  next
    case (events m m' evs ls)
    then have "policy m' = policy m"
      by (cases "manager.events m") (auto simp: cpu_take_events_def)
    with events b show ?thesis by simp
  next
    case (reset m ls)
    with nr show ?thesis by simp
  qed
  with b show ?thesis by blast
qed simp

section \<open>No call of the client raises\<close>

lemma calls_return:
  assumes c: "config_inv P inv (m, ls)"
  shows "\<forall>k \<in> set ks. block_result (bmap P m k) = HIT \<Longrightarrow>
      int (length (concat ls)) + int (length ks) < 2147483648 \<Longrightarrow>
      \<exists>m'. cpu_prepare_load P ks m = Inr (m', map (\<lambda>k. block_id (the (bmap P m k))) ks)"
    and "js \<in> set ls \<Longrightarrow> \<exists>m'. cpu_complete_load P js m = Inr m'"
    and "distinct ks \<Longrightarrow> \<exists>m' out. cpu_prepare_store P now ks bypass m = Inr (m', out)"
    and "\<exists>m'. cpu_complete_store P ks success m = Inr m'"
proof -
  have m: "mgr_inv P inv m" and r: "refs_ok (bmap P m) ls" using c by (simp_all add: config_inv_def)
  show "\<exists>m'. cpu_prepare_load P ks m = Inr (m', map (\<lambda>k. block_id (the (bmap P m k))) ks)"
    if "\<forall>k \<in> set ks. block_result (bmap P m k) = HIT"
      "int (length (concat ls)) + int (length ks) < 2147483648"
    using load_mgr_ok [OF m load_pre [OF c that]] by blast
  show "\<exists>m'. cpu_complete_load P js m = Inr m'" if "js \<in> set ls"
  proof -
    from that obtain ls1 ls2 where "ls = ls1 @ js # ls2" by (metis split_list)
    with r have "refs_ok (bmap P m) (ls1 @ js # ls2)" by simp
    from unload_mgr_ok [OF m refs_ok_unload_pre [OF this]] show ?thesis by blast
  qed
  show "\<exists>m' out. cpu_prepare_store P now ks bypass m = Inr (m', out)" if "distinct ks"
    using m that by (cases rule: prepare_store_cases [of m ks bypass now]) blast+
  show "\<exists>m'. cpu_complete_store P ks success m = Inr m'"
  proof (cases success)
    case True
    with complete_store_success [OF m, of ks] show ?thesis by (metis (full_types))
  next
    case False
    with complete_store_failure [OF m, of ks] show ?thesis by (metis (full_types))
  qed
qed

end

end
