(* ===== verification/CPU_Properties.thy ===== *)
theory CPU_Properties
  imports CPU_Protocol Policy_Properties
begin

text \<open>
  The properties of the CPU offloading manager on the two policies of the code, each obtained
  from the interpretation of \<open>cache_policy\<close> for that policy.
\<close>

section \<open>A short run\<close>

text \<open>Two slots; one key is stored, completed, and loaded.\<close>

lemma projr_pair: "\<not> isl r \<Longrightarrow> r = Inr (fst (projr r), snd (projr r))"
  by (cases r) auto

lemma projr_Inr: "\<not> isl r \<Longrightarrow> r = Inr (projr r)"
  by (cases r) auto

definition run0 :: "lru manager" where
  "run0 = init_manager lru_ops 2 True 0 0 None None"

definition run1 :: "lru manager" where
  "run1 = fst (projr (cpu_prepare_store lru_ops 0 [[7]] False run0))"

definition run2 :: "lru manager" where
  "run2 = projr (cpu_complete_store lru_ops [[7]] True run1)"

definition run3 :: "lru manager" where
  "run3 = fst (projr (cpu_prepare_load lru_ops [[7]] run2))"

lemma run_steps:
  "\<not> isl (cpu_prepare_store lru_ops 0 [[7]] False run0)"
  "\<not> isl (cpu_complete_store lru_ops [[7]] True run1)"
  "\<not> isl (cpu_prepare_load lru_ops [[7]] run2)"
  "block_result (lru_get (policy run2) [7]) = HIT"
  by code_simp+

lemma run_reach: "cpu_reach lru_ops (run0, []) (run3, [[[7]]])"
proof -
  note run_eqs = projr_pair [OF run_steps(1), folded run1_def] projr_Inr [OF run_steps(2), folded run2_def]
    projr_pair [OF run_steps(3), folded run3_def]
  have "cpu_step lru_ops (run0, []) (run1, [])"
    by (rule cpu_step.store [OF _ run_eqs(1)]) simp
  moreover have "cpu_step lru_ops (run1, []) (run2, [])" by (rule cpu_step.stored [OF run_eqs(2)])
  moreover have "cpu_step lru_ops (run2, []) (run3, [[[7]]])"
    by (rule cpu_step.load [OF _ _ run_eqs(3)]) (simp_all add: run_steps(4))
  ultimately show ?thesis by (blast intro: cpu_reach.intros)
qed

section \<open>Reachable states\<close>

text \<open>
  C1: in every state that a client can bring the CPU manager (LRU policy) to, each slot id below
  the allocation mark is owned exactly once, by the free list or by one key; the two usage
  counters count the idle and the write-pending blocks; and the reference count of a ready block
  is the number of loads in flight on it.
\<close>

theorem cpu_pool_conserved:
  assumes "0 \<le> n" and "n < 9223372036854775808"
    and "cpu_reach lru_ops (init_manager lru_ops n ev th mx e1 e2, []) (m, ls)"
  shows "mset (free_list m) + slot_ids (lru_get (policy m)) = mset_set {0..<num_allocated_blocks m}
    \<and> num_allocated_blocks m \<le> num_blocks m
    \<and> num_evictable m = num_ref 0 (lru_get (policy m))
    \<and> num_write_pending m = num_ref (- 1) (lru_get (policy m))
    \<and> refs_ok (lru_get (policy m)) ls"
  using lru_policy.reach_config [OF assms(3) lru_policy.init_config [OF assms(1,2)]]
  by (simp add: config_inv_def mgr_inv_def pool_inv_def owned_def)

theorem cpu_pool_conserved_witness:
  "mset (free_list run3) + slot_ids (lru_get (policy run3)) = mset_set {0..<num_allocated_blocks run3}
    \<and> num_evictable run3 = num_ref 0 (lru_get (policy run3))"
  using cpu_pool_conserved [OF _ _ run_reach [unfolded run0_def]] by simp


definition arun0 :: "arc manager" where
  "arun0 = init_manager arc_ops 2 True 0 0 None None"

definition arun1 :: "arc manager" where
  "arun1 = fst (projr (cpu_prepare_store arc_ops 0 [[7]] False arun0))"

definition arun2 :: "arc manager" where
  "arun2 = projr (cpu_complete_store arc_ops [[7]] True arun1)"

definition arun3 :: "arc manager" where
  "arun3 = fst (projr (cpu_prepare_load arc_ops [[7]] arun2))"

lemma arun_steps:
  "\<not> isl (cpu_prepare_store arc_ops 0 [[7]] False arun0)"
  "\<not> isl (cpu_complete_store arc_ops [[7]] True arun1)"
  "\<not> isl (cpu_prepare_load arc_ops [[7]] arun2)"
  "block_result (arc_get (policy arun2) [7]) = HIT"
  by code_simp+

lemma arun_reach: "cpu_reach arc_ops (arun0, []) (arun3, [[[7]]])"
proof -
  note run_eqs = projr_pair [OF arun_steps(1), folded arun1_def] projr_Inr [OF arun_steps(2), folded arun2_def]
    projr_pair [OF arun_steps(3), folded arun3_def]
  have "cpu_step arc_ops (arun0, []) (arun1, [])"
    by (rule cpu_step.store [OF _ run_eqs(1)]) simp
  moreover have "cpu_step arc_ops (arun1, []) (arun2, [])" by (rule cpu_step.stored [OF run_eqs(2)])
  moreover have "cpu_step arc_ops (arun2, []) (arun3, [[[7]]])"
    by (rule cpu_step.load [OF _ _ run_eqs(3)]) (simp_all add: arun_steps(4))
  ultimately show ?thesis by (blast intro: cpu_reach.intros)
qed


text \<open>
  C15: the client's own guards are enough for the manager's assertions never to fail: loading
  keys that the lookup reported as hits returns their slots, completing a batch in flight,
  reserving distinct keys and completing a store all return. Stated for the ARC policy.
\<close>

theorem cpu_calls_return:
  assumes "0 \<le> n" and "n < 9223372036854775808"
    and "cpu_reach arc_ops (init_manager arc_ops n ev th mx e1 e2, []) (m, ls)"
  shows "(\<forall>ks. (\<forall>k \<in> set ks. block_result (arc_get (policy m) k) = HIT) \<and>
        int (length (concat ls)) + int (length ks) < 2147483648 \<longrightarrow>
        (\<exists>m'. cpu_prepare_load arc_ops ks m =
          Inr (m', map (\<lambda>k. block_id (the (arc_get (policy m) k))) ks))) \<and>
    (\<forall>ks \<in> set ls. \<exists>m'. cpu_complete_load arc_ops ks m = Inr m') \<and>
    (\<forall>ks now bypass. distinct ks \<longrightarrow>
        (\<exists>m' out. cpu_prepare_store arc_ops now ks bypass m = Inr (m', out))) \<and>
    (\<forall>ks success. \<exists>m'. cpu_complete_store arc_ops ks success m = Inr m')"
proof -
  have "config_inv arc_ops arc_inv (m, ls)"
    using arc_policy.reach_config [OF assms(3) arc_policy.init_config [OF assms(1,2)]] .
  from arc_policy.calls_return [OF this] show ?thesis by simp
qed

theorem cpu_calls_return_witness:
  "\<exists>m'. cpu_complete_load arc_ops [[7]] arun3 = Inr m'"
  using cpu_calls_return [OF _ _ arun_reach [unfolded arun0_def]] by simp

section \<open>Single operations\<close>

lemma run3_inv: "mgr_inv lru_ops lru_inv run3" and run1_inv: "mgr_inv lru_ops lru_inv run1"
proof -
  have i: "config_inv lru_ops lru_inv (run0, [])" unfolding run0_def by (rule lru_policy.init_config) simp_all
  from lru_policy.reach_config [OF run_reach i] show "mgr_inv lru_ops lru_inv run3"
    by (simp add: config_inv_def)
  have "cpu_step lru_ops (run0, []) (run1, [])"
    by (rule cpu_step.store [OF _ projr_pair [OF run_steps(1), folded run1_def]]) simp
  from lru_policy.step_config [OF this i] show "mgr_inv lru_ops lru_inv run1"
    by (simp add: config_inv_def)
qed

text \<open>
  C24: a \<open>prepare_store\<close> that returns a reservation reserves exactly the keys it was asked for
  (after the threshold gate) that are not stored yet, in their order, with one slot each, all
  write-pending; it evicts exactly as many blocks as slots were missing, all idle and none of
  the requested keys; everything else stays as it was.
\<close>

theorem cpu_prepare_store_reserves:
  assumes "mgr_inv lru_ops lru_inv m" and "distinct keys"
    and "cpu_prepare_store lru_ops now keys bypass m = Inr (m', Some out)"
    and "keys_to_store out \<noteq> []"
  shows "keys_to_store out =
      filter (\<lambda>k. lru_get (policy m) k = None) (snd (threshold_gate bypass keys m)) \<and>
    length (store_spec out) = length (keys_to_store out) \<and> distinct (store_spec out) \<and>
    int (length (evicted_keys out)) =
      max 0 (int (length (keys_to_store out)) - get_num_free_blocks m) \<and>
    (\<forall>k \<in> set (evicted_keys out). \<exists>b. lru_get (policy m) k = Some b \<and> ref_cnt b = 0 \<and>
      k \<notin> set (snd (threshold_gate bypass keys m))) \<and>
    lru_get (policy m') =
      put_all (zip (keys_to_store out) (map (\<lambda>i. \<lparr>ref_cnt = - 1, block_id = i\<rparr>) (store_spec out)))
        (lru_get (policy m) |` (- set (evicted_keys out)))"
  using assms(1,2)
proof (cases rule: lru_policy.prepare_store_cases [of m keys bypass now])
  case (reserved m1 ev bs)
  let ?new = "filter (\<lambda>k. lru_get (policy m) k = None) (snd (threshold_gate bypass keys m))"
  have out: "m' = m1" "keys_to_store out = ?new" "store_spec out = map block_id bs" "evicted_keys out = ev"
    using reserved assms(3) by auto
  have bs: "map (\<lambda>i. \<lparr>ref_cnt = - 1, block_id = i\<rparr>) (map block_id bs) = bs"
    using reserved(6) by (auto simp: comp_def intro!: map_idI block_status.equality)
  have dn: "distinct ?new" using lru_policy.threshold_gate_form [of bypass keys m] assms(2) by auto
  have len: "length bs = length ?new" using reserved(5) by simp
  have get: "lru_get (policy m') = put_all (zip ?new bs) (lru_get (policy m) |` (- set ev))"
    using reserved(4) out(1) by simp
  have "pool_inv lru_ops lru_inv m'" using reserved(3) out(1) by (simp add: mgr_inv_def)
  then have "owned (num_allocated_blocks m') (free_list m') (lru_get (policy m'))"
    "finite (dom (lru_get (policy m')))"
    using lru_policy.pool_finite [of m'] by (simp_all add: pool_inv_def)
  then have ds: "distinct (map block_id bs)" using dn len get by (rule owned_slots_distinct)
  have l: "length (map block_id bs) = length ?new" using len by simp
  show ?thesis
    unfolding out(2-4) bs
    by (intro conjI refl l ds get reserved(8,9) [unfolded lru_ops_simps])
qed (use assms(3,4) in auto)

theorem cpu_prepare_store_reserves_witness:
  "\<exists>m' out. cpu_prepare_store lru_ops 0 [[7], [8]] False run3 = Inr (m', Some out) \<and>
     keys_to_store out = [[8]] \<and> evicted_keys out = []"
proof -
  let ?r = "cpu_prepare_store lru_ops 0 [[7], [8]] False run3"
  have "\<not> isl ?r" "snd (projr ?r) \<noteq> None" "keys_to_store (the (snd (projr ?r))) \<noteq> []"
    by code_simp+
  then have r: "?r = Inr (fst (projr ?r), Some (the (snd (projr ?r))))"
    "keys_to_store (the (snd (projr ?r))) \<noteq> []" by (auto dest: projr_pair)
  have gate: "filter (\<lambda>k. lru_get (policy run3) k = None) (snd (threshold_gate False [[7], [8]] run3)) = [[8]]"
    "get_num_free_blocks run3 = 1"
    by code_simp+
  obtain m' out where mo: "?r = Inr (m', Some out)" "keys_to_store out \<noteq> []" using r by blast
  from cpu_prepare_store_reserves [OF run3_inv _ mo] gate mo(1) show ?thesis by auto
qed

text \<open>
  C25: completing a store successfully makes exactly its write-pending keys readable with no
  reference, leaves every other key alone, reports the newly stored keys in one event and clears
  their eviction tombstones; a failed completion instead removes exactly those keys and reports
  nothing.
\<close>

theorem cpu_complete_store_effect:
  assumes "mgr_inv lru_ops lru_inv m"
  shows "(\<exists>m' st. cpu_complete_store lru_ops ks True m = Inr m' \<and>
      lru_get (policy m') = mark_ready ks (lru_get (policy m)) \<and>
      distinct st \<and> set st = {k \<in> set ks. pending (lru_get (policy m)) k} \<and>
      events m' = map_option (\<lambda>evs. if st = [] then evs else evs @
        [\<lparr>ev_keys = st, ev_medium = CPU, ev_removed = False\<rparr>]) (events m) \<and>
      (\<forall>h. has_eviction_tombstone h m' \<longleftrightarrow>
         has_eviction_tombstone h m \<and> h \<notin> get_offload_block_hash ` set st)) \<and>
    (\<exists>m'. cpu_complete_store lru_ops ks False m = Inr m' \<and>
      lru_get (policy m') = drop_pending ks (lru_get (policy m)) \<and> events m' = events m \<and>
      get_num_free_blocks m' = num_blocks m - int (card (dom (drop_pending ks (lru_get (policy m))))))"
proof (rule conjI)
  from lru_policy.complete_store_success [OF assms, of ks] obtain m' st where a:
    "cpu_complete_store lru_ops ks True m = Inr m'"
    "mgr_inv lru_ops lru_inv m'"
    "bmap lru_ops m' = mark_ready ks (bmap lru_ops m)" "num_blocks m' = num_blocks m"
    "distinct st" "set st = {k \<in> set ks. pending (bmap lru_ops m) k}"
    "events m' = map_option (\<lambda>evs. if st = [] then evs else evs @
       [\<lparr>ev_keys = st, ev_medium = CPU, ev_removed = False\<rparr>]) (events m)"
    "\<forall>h. has_eviction_tombstone h m' \<longleftrightarrow>
       has_eviction_tombstone h m \<and> h \<notin> get_offload_block_hash ` set st" .
  show "\<exists>m' st. cpu_complete_store lru_ops ks True m = Inr m' \<and>
      lru_get (policy m') = mark_ready ks (lru_get (policy m)) \<and>
      distinct st \<and> set st = {k \<in> set ks. pending (lru_get (policy m)) k} \<and>
      events m' = map_option (\<lambda>evs. if st = [] then evs else evs @
        [\<lparr>ev_keys = st, ev_medium = CPU, ev_removed = False\<rparr>]) (events m) \<and>
      (\<forall>h. has_eviction_tombstone h m' \<longleftrightarrow>
         has_eviction_tombstone h m \<and> h \<notin> get_offload_block_hash ` set st)"
    by (rule exI [of _ m'], rule exI [of _ st])
       (intro conjI allI a(1,5,7,8) a(3,6) [unfolded lru_ops_simps])
  from lru_policy.complete_store_failure [OF assms, of ks] obtain m' where
    "cpu_complete_store lru_ops ks False m = Inr m'" "mgr_inv lru_ops lru_inv m'"
    "bmap lru_ops m' = drop_pending ks (bmap lru_ops m)" "num_blocks m' = num_blocks m"
    "events m' = events m" .
  moreover from this(2) have "get_num_free_blocks m' = num_blocks m' - int (card (dom (bmap lru_ops m')))"
    by (intro lru_policy.free_blocks_eq) (simp add: mgr_inv_def)
  ultimately show "\<exists>m'. cpu_complete_store lru_ops ks False m = Inr m' \<and>
      lru_get (policy m') = drop_pending ks (lru_get (policy m)) \<and> events m' = events m \<and>
      get_num_free_blocks m' = num_blocks m - int (card (dom (drop_pending ks (lru_get (policy m)))))"
    by simp
qed

theorem cpu_complete_store_effect_witness:
  "\<exists>m'. cpu_complete_store lru_ops [[7]] False run1 = Inr m' \<and> get_num_free_blocks m' = 2"
proof -
  from cpu_complete_store_effect [OF run1_inv, of "[[7]]"] obtain m' where
    m': "cpu_complete_store lru_ops [[7]] False run1 = Inr m'"
    "get_num_free_blocks m' = num_blocks run1 - int (card (dom (drop_pending [[7]] (lru_get (policy run1)))))"
    by blast
  have "lru_blocks (policy run1) = [([7], \<lparr>ref_cnt = - 1, block_id = 0\<rparr>)]" "num_blocks run1 = 2"
    by code_simp+
  then have "drop_pending [[7]] (lru_get (policy run1)) = Map.empty" "num_blocks run1 = 2"
    by (auto simp: drop_pending_def pending_def lru_get_def is_ready_def fun_eq_iff)
  with m' show ?thesis by simp
qed

text \<open>
  Preparing a load and completing it again restores the block map: every slot, every
  reference count. The load returns the slot of each key, in order.
\<close>

lemma cpu_load_roundtrip:
  assumes "mgr_inv arc_ops arc_inv m"
    and "\<forall>k \<in> set ks. \<exists>b. arc_get (policy m) k = Some b \<and> 0 \<le> ref_cnt b \<and>
      ref_cnt b + int (count_list ks k) < 2147483648"
  shows "\<exists>m1 m2. cpu_prepare_load arc_ops ks m =
      Inr (m1, map (\<lambda>k. block_id (the (arc_get (policy m) k))) ks) \<and>
    cpu_complete_load arc_ops ks m1 = Inr m2 \<and> arc_get (policy m2) = arc_get (policy m) \<and>
    num_evictable m2 = num_evictable m"
proof -
  from arc_policy.load_mgr_ok [OF assms(1), of ks] assms(2) obtain m1 where
    m1: "cpu_prepare_load arc_ops ks m = Inr (m1, map (\<lambda>k. block_id (the (arc_get (policy m) k))) ks)"
    "mgr_inv arc_ops arc_inv m1" "arc_get (policy m1) = add_refs 1 ks (arc_get (policy m))" by auto
  have "\<forall>k \<in> set ks. \<exists>b. bmap arc_ops m1 k = Some b \<and> int (count_list ks k) \<le> ref_cnt b"
    using assms(2) m1(3) by (fastforce simp: add_refs_def)
  from arc_policy.unload_mgr_ok [OF m1(2) this] obtain m2 where
    m2: "cpu_complete_load arc_ops ks m1 = Inr m2" "mgr_inv arc_ops arc_inv m2"
    "arc_get (policy m2) = add_refs (- 1) ks (arc_get (policy m1))" by auto
  have get: "arc_get (policy m2) = arc_get (policy m)" unfolding m2(3) m1(3) by (rule add_refs_inverse)
  then have "num_evictable m2 = num_evictable m"
    using assms(1) m2(2) by (simp add: mgr_inv_def pool_inv_def)
  with m1 m2 get show ?thesis by blast
qed

lemma cpu_load_roundtrip_witness:
  "\<exists>m1 m2. cpu_prepare_load arc_ops [[7], [7]] arun3 = Inr (m1, [0, 0]) \<and>
    cpu_complete_load arc_ops [[7], [7]] m1 = Inr m2 \<and> arc_get (policy m2) = arc_get (policy arun3)"
proof -
  have "config_inv arc_ops arc_inv (arun0, [])" unfolding arun0_def by (rule arc_policy.init_config) simp_all
  from arc_policy.reach_config [OF arun_reach this] have i: "mgr_inv arc_ops arc_inv arun3"
    by (simp add: config_inv_def)
  have "arc_get (policy arun3) [7] = Some \<lparr>ref_cnt = 1, block_id = 0\<rparr>" by code_simp
  with cpu_load_roundtrip [OF i, of "[[7], [7]]"] show ?thesis by auto
qed

text \<open>
  C26: a reset empties the cache, makes all slots available again, and, with events enabled,
  reports every key that was stored exactly once, in removal events of at most 65536 keys.
\<close>

theorem cpu_reset_reports_all:
  assumes "mgr_inv arc_ops arc_inv m" and "events m = Some evs"
  shows "arc_get (policy (cpu_reset_cache arc_ops m)) = Map.empty \<and>
    get_num_free_blocks (cpu_reset_cache arc_ops m) = num_blocks m \<and>
    (\<exists>new. events (cpu_reset_cache arc_ops m) = Some (evs @ new) \<and>
      distinct (concat (map ev_keys new)) \<and>
      set (concat (map ev_keys new)) = dom (arc_get (policy m)) \<and>
      (\<forall>e \<in> set new. ev_removed e \<and> ev_keys e \<noteq> [] \<and> length (ev_keys e) \<le> 65536))"
proof -
  let ?new = "map (\<lambda>ks. \<lparr>ev_keys = ks, ev_medium = CPU, ev_removed = True\<rparr>)
    (chunks reset_event_chunk (arc_stored_keys (policy m)))"
  have "events (cpu_reset_cache arc_ops m) = Some (evs @ ?new)"
    using assms(2) by (simp add: cpu_reset_cache_def Let_def)
  moreover have "concat (map ev_keys ?new) = arc_stored_keys (policy m)"
    by (simp add: comp_def concat_chunks reset_event_chunk_def)
  moreover have "distinct (arc_stored_keys (policy m)) \<and>
      set (arc_stored_keys (policy m)) = dom (arc_get (policy m))"
    using arc_policy.stored_keys [of "policy m"] assms(1) by (simp add: mgr_inv_def pool_inv_def)
  moreover have "\<forall>e \<in> set ?new. ev_removed e \<and> ev_keys e \<noteq> [] \<and> length (ev_keys e) \<le> 65536"
    by (auto dest!: chunks_size simp: reset_event_chunk_def)
  ultimately have "\<exists>new. events (cpu_reset_cache arc_ops m) = Some (evs @ new) \<and>
      distinct (concat (map ev_keys new)) \<and>
      set (concat (map ev_keys new)) = dom (arc_get (policy m)) \<and>
      (\<forall>e \<in> set new. ev_removed e \<and> ev_keys e \<noteq> [] \<and> length (ev_keys e) \<le> 65536)"
    by (intro exI [of _ ?new]) simp
  then show ?thesis using arc_policy.reset_ok [OF assms(1)] by simp
qed

theorem cpu_reset_reports_all_witness:
  "\<exists>new. events (cpu_reset_cache arc_ops arun3) = Some (the (events arun3) @ new) \<and>
     set (concat (map ev_keys new)) = dom (arc_get (policy arun3))"
proof -
  have "config_inv arc_ops arc_inv (arun0, [])" unfolding arun0_def by (rule arc_policy.init_config) simp_all
  from arc_policy.reach_config [OF arun_reach this] have i: "mgr_inv arc_ops arc_inv arun3"
    by (simp add: config_inv_def)
  have "events arun3 \<noteq> None" by code_simp
  then have "events arun3 = Some (the (events arun3))" by auto
  from cpu_reset_reports_all [OF i this] show ?thesis by blast
qed

end
