(* ===== verification/Lookup_Properties.thy ===== *)
theory Lookup_Properties
  imports Connector_CPU CPU_Properties
begin

text \<open>
  The properties of the connector's lookups: they end, they compute what they are specified to,
  and a hit on which the groups agree covers exactly what the load will read. The first is about
  any manager, the others about the CPU manager with any replacement policy, through the
  interpretations of \<open>lookup_total\<close> and \<open>stable_lookup\<close>.
\<close>

section \<open>A small engine\<close>

text \<open>
  A full-attention group and a group with a window of one chunk, four tokens per chunk; a
  request of nine tokens; three of its four chunks are stored.
\<close>

definition demo_ext :: ext_ops where
  "demo_ext = \<lparr>x_cdiv = (\<lambda>a b. - ((- a) div b)), x_round_down = (\<lambda>a b. a div b * b),
     x_float = (\<lambda>_. None), x_iter = (\<lambda>_. []), x_pick = Min\<rparr>"

definition demo_tracker :: "(unit, unit) tracker_ops" where
  "demo_tracker = \<lparr>t_record = (\<lambda>_ e. e), t_take = (\<lambda>_ e. (e, [])), t_reset = (\<lambda>e. e)\<rparr>"

definition demo_group :: "nat \<Rightarrow> int option \<Rightarrow> group_config" where
  "demo_group g w = \<lparr>group_idx = g, tokens_per_block = 4, tokens_per_chunk = 4, hashes_per_chunk = 1,
     sliding_window_chunks = w, requires_cow_source = False, alignment_chunk_count = None,
     is_eagle_group = False\<rparr>"

definition demo_sched :: sched_config where
  "demo_sched = \<lparr>kv_groups = [demo_group 0 None, demo_group 1 (Some 1)], num_kv_cache_groups = 2,
     blocks_per_chunk = 1, tokens_per_hash = 4, num_workers = 1, offload_prompt_only = False,
     supports_partial_tail = False\<rparr>"

definition demo_knobs :: knobs where
  "demo_knobs = read_knobs (\<lambda>_. None) (\<lambda>_. None)"

definition demo_cc :: conn_config where
  "demo_cc = mk_conn_config demo_sched None demo_knobs"

definition demo_request :: request where
  "demo_request = \<lparr>block_hashes = [[1], [2]], num_tokens = 9, num_prompt_tokens = 9,
     num_computed_tokens = 0, finished = False, aborted = False, skip_reading_prefix_cache = False,
     kv_transfer_params = None\<rparr>"

definition demo_ctx :: req_context where
  "demo_ctx = create_req_context ''r'' demo_request"

definition demo_rs :: req_state where
  "demo_rs = (init_req_state demo_sched demo_request demo_ctx BLOCK_LEVEL)
     \<lparr>group_states := [init_group_state\<lparr>offload_keys := [[1, 0, 0, 0, 0], [2, 0, 0, 0, 0]]\<rparr>,
        init_group_state\<lparr>offload_keys := [[1, 0, 0, 0, 1], [2, 0, 0, 0, 1]]\<rparr>]\<rparr>"

definition demo_mgr :: "lru manager" where
  "demo_mgr = (init_manager lru_ops 4 True 0 64 None None)
     \<lparr>num_allocated_blocks := 3, num_evictable := 3, policy :=
        \<lparr>lru_capacity = 4,
         lru_evictable = [([1, 0, 0, 0, 0], ()), ([2, 0, 0, 0, 0], ()), ([2, 0, 0, 0, 1], ())],
         lru_blocks = [([1, 0, 0, 0, 0], \<lparr>ref_cnt = 0, block_id = 0\<rparr>),
           ([2, 0, 0, 0, 0], \<lparr>ref_cnt = 0, block_id = 1\<rparr>),
           ([2, 0, 0, 0, 1], \<lparr>ref_cnt = 0, block_id = 2\<rparr>)]\<rparr>\<rparr>"

lemma demo_mgr_inv: "lru_inv (policy demo_mgr) \<and> 0 < max_tracker_size demo_mgr"
  by (auto simp: demo_mgr_def init_manager_def lru_inv_def lru_get_def split: if_splits)

definition demo_conn :: "(lru manager, unit) connector" where
  "demo_conn = put_req ''r'' demo_rs
     (init_connector \<lparr>world_size = 1, dcp_size = 1, use_eagle = False, prefix_caching = True\<rparr> demo_mgr ())"

section \<open>Group orders\<close>

lemma group_by_idx_iff:
  assumes "distinct (map group_idx (kv_groups cfg))"
  shows "group_by_idx cfg g = Inr gc \<longleftrightarrow> gc \<in> set (kv_groups cfg) \<and> group_idx gc = g"
proof -
  have "distinct (map fst (map (\<lambda>g. (group_idx g, g)) (rev (kv_groups cfg))))"
    using assms by (simp add: comp_def distinct_map)
  then show ?thesis
    unfolding group_by_idx_def od_get_item_eq_Inr by (subst map_of_eq_Some_iff) auto
qed

definition layout_ok :: "sched_config \<Rightarrow> bool" where
  "layout_ok cfg \<longleftrightarrow>
     kv_groups cfg \<noteq> [] \<and> distinct (map group_idx (kv_groups cfg)) \<and> positive_chunks cfg \<and> windows_ok cfg"

lemma mk_conn_config_ok:
  assumes "layout_ok cfg"
  shows "lookup_config_ok (mk_conn_config cfg a kn) \<and> lookup_groups (mk_conn_config cfg a kn) \<noteq> []"
proof -
  have d: "distinct (map group_idx (kv_groups cfg))" using assms by (simp add: layout_ok_def)
  let ?sw = "{gc \<in> set (kv_groups cfg). sliding_window_chunks gc \<noteq> None}"
    and ?full = "{gc \<in> set (kv_groups cfg). sliding_window_chunks gc = None}"
  have sliding: "set (sliding_groups (mk_conn_config cfg a kn)) = group_idx ` ?sw"
    by (simp add: mk_conn_config_def Let_def)
  have "set (lookup_groups (mk_conn_config cfg a kn)) = group_idx ` (?full \<union> ?sw)"
    by (simp add: mk_conn_config_def Let_def image_Un)
  moreover have "?full \<union> ?sw = set (kv_groups cfg)" by blast
  ultimately have all: "set (lookup_groups (mk_conn_config cfg a kn)) = group_idx ` set (kv_groups cfg)" by simp
  have "g \<in> set (lookup_groups (mk_conn_config cfg a kn)) \<and>
      (g \<in> set (sliding_groups (mk_conn_config cfg a kn)) \<longleftrightarrow> sliding_window_chunks gc \<noteq> None)"
    if gc: "gc \<in> set (kv_groups cfg)" "group_idx gc = g" for g gc
  proof -
    have "gc' = gc" if "gc' \<in> set (kv_groups cfg)" "group_idx gc' = g" for gc'
      using d gc that by (metis distinct_map inj_onD)
    then show ?thesis unfolding sliding all using gc by blast
  qed
  moreover have "lookup_groups (mk_conn_config cfg a kn) \<noteq> []"
    using all assms by (metis image_is_empty layout_ok_def set_empty)
  moreover have "cc_sched (mk_conn_config cfg a kn) = cfg" by (simp add: mk_conn_config_def Let_def)
  ultimately show ?thesis
    using assms by (auto simp: lookup_config_ok_def layout_ok_def group_by_idx_iff)
qed

section \<open>The lookup of all groups\<close>

text \<open>
  C37: the loop in which the groups agree on a boundary ends. For any manager whose lookups and
  touches end, \<open>lookup_complete_chunks\<close>, which allows one iteration per token of the request and
  one more, never runs out of iterations, whatever the manager answers.
\<close>

theorem lookup_terminates:
  assumes "lookup_total M (rs_context rs)" and "positive_chunks (cc_sched cc)"
    and "0 \<le> num_locally_computed_tokens rs" and "\<And>a b. 0 < b \<Longrightarrow> x_round_down X a b \<le> a"
    and "\<And>a. mamba_align_size cc = Some a \<Longrightarrow> 0 < a"
  shows "lookup_complete_chunks M X T cc rid rq rs c \<noteq> Inl Diverges"
  using lookup_total.lookup_complete_returns [OF assms(1) refl assms(2-5)] by (simp add: returns_def)

theorem lookup_terminates_witness:
  "lookup_complete_chunks (cpu_manager_ops lru_ops 0) demo_ext demo_tracker demo_cc ''r'' demo_request demo_rs demo_conn
     \<noteq> Inl Diverges"
proof (rule lookup_terminates [OF cpu_total])
  show "positive_chunks (cc_sched demo_cc)"
    by (simp add: positive_chunks_def demo_cc_def mk_conn_config_def Let_def demo_sched_def demo_group_def)
  show "0 \<le> num_locally_computed_tokens demo_rs" by code_simp
  show "x_round_down demo_ext a b \<le> a" if "0 < b" for a b
    using that pos_mod_sign [of b a] by (simp add: demo_ext_def minus_mod_eq_div_mult [symmetric])
qed (simp add: demo_cc_def mk_conn_config_def Let_def)

text \<open>
  C36: a hit is loadable. When the lookup of all groups resolves to a hit on the CPU manager, every
  chunk that a load of that hit would read, of every group, is stored and readable.
\<close>

theorem lookup_hit_loadable:
  assumes "cache_policy P pinv" and m: "pinv (policy (c_manager c))" "0 < max_tracker_size (c_manager c)"
    and X: "cdiv_ok X" and cfg: "layout_ok cfg" and comp: "0 \<le> num_locally_computed_tokens rs"
    and hit: "lookup_complete_chunks (cpu_manager_ops P now) X T (mk_conn_config cfg a kn) rid rq rs c =
      Inr (c', rs', Some h)" "0 < h"
    and k: "gc \<in> set (kv_groups cfg)" "hit_keys X rs h gc = Inr ks" "k \<in> set ks"
  shows "\<exists>b. pol_get P (policy (c_manager c')) k = Some b \<and> is_ready b"
proof -
  let ?cc = "mk_conn_config cfg a kn" and ?blocks = "pol_get P (policy (c_manager c))"
  note cc = mk_conn_config_ok [OF cfg, of a kn]
  have sched: "cc_sched ?cc = cfg" by (simp add: mk_conn_config_def Let_def)
  have gc: "group_by_idx (cc_sched ?cc) (group_idx gc) = Inr gc"
    using cfg k(1) by (simp add: sched layout_ok_def group_by_idx_iff)
  have inv: "cpu_holds P pinv ?blocks (c_manager c)" using m by (simp add: cpu_holds_def)
  from stable_lookup.lookup_complete_ready [OF cpu_stable [OF assms(1)] inv refl comp X _ _ hit(1) _ gc] cc hit(2)
  have r: "cpu_holds P pinv ?blocks (c_manager c')"
    "chunk_ready X (cpu_answer ?blocks) rs gc (num_locally_computed_tokens rs + h)" by auto
  have "0 < tokens_per_chunk gc" "\<And>w. sliding_window_chunks gc = Some w \<Longrightarrow> 0 < w"
    using cfg k(1) by (auto simp: layout_ok_def positive_chunks_def windows_ok_def)
  from ready_hit_keys [OF r(2) comp _ this(1) X this(2) k(2,3)] hit(2)
  have "cpu_answer ?blocks k = HIT" by simp
  with r(1) show ?thesis
    by (auto simp: cpu_answer_def cpu_holds_def block_result_def split: option.splits if_splits)
qed

definition demo_lookup :: "((lru manager, unit) connector \<times> req_state \<times> int option) res" where
  "demo_lookup = lookup_complete_chunks (cpu_manager_ops lru_ops 0) demo_ext demo_tracker demo_cc ''r''
     demo_request demo_rs demo_conn"

lemma bindE_weak_cong: "r = r' \<Longrightarrow> bindE r f = bindE r' f"
  by simp

lemma demo_cc_eq: "demo_cc = \<lparr>cc_sched = demo_sched, sliding_groups = [1], lookup_groups = [0, 1],
    mamba_align_size = None, partial_tail_block_size = 0, cow_groups = {}, cc_knobs = demo_knobs\<rparr>"
  by code_simp

lemma demo_mirror: "mirror_local demo_knobs"
  by code_simp

lemmas demo_eval = demo_cc_eq demo_mirror demo_sched_def demo_group_def demo_request_def demo_rs_def
  demo_ext_def demo_tracker_def init_req_state_def init_group_state_def

lemma demo_mgr_eval:
  "counts demo_mgr = None" "policy demo_mgr =
    \<lparr>lru_capacity = 4,
     lru_evictable = [([1, 0, 0, 0, 0], ()), ([2, 0, 0, 0, 0], ()), ([2, 0, 0, 0, 1], ())],
     lru_blocks = [([1, 0, 0, 0, 0], \<lparr>ref_cnt = 0, block_id = 0\<rparr>),
       ([2, 0, 0, 0, 0], \<lparr>ref_cnt = 0, block_id = 1\<rparr>), ([2, 0, 0, 0, 1], \<lparr>ref_cnt = 0, block_id = 2\<rparr>)]\<rparr>"
  by (simp_all add: demo_mgr_def init_manager_def)

lemmas lookup_eval = scan_loop.simps numeral_eq_Suc scan_group_def group_by_idx_def od_get_item_def
  nth_res_def query_group_def Let_def py_slice_def slice_index_def maximal_prefix_lookup_def
  sliding_window_lookup_def ask_manager_def touch_hit_def tell_manager_def track_def
  absorb_result_def settle_group_def note_tightened_def cpu_manager_ops_def cpu_lookup_def
  count_lookup_def cpu_touch_def block_result_def is_ready_def lru_get_def lru_touch_def

lemma demo_hit:
  "\<exists>c rs. demo_lookup = Inr (c, rs, Some 8)"
  unfolding demo_lookup_def lookup_complete_chunks_def
  by (simp add: scan_fuel_def initial_max_hit_def demo_eval cong: bindE_weak_cong)
     (simp add: lookup_eval demo_eval demo_conn_def put_req_def init_connector_def demo_mgr_eval
        cong: bindE_weak_cong)

lemma demo_layout: "layout_ok demo_sched"
  by (simp add: layout_ok_def positive_chunks_def windows_ok_def demo_sched_def demo_group_def)

lemma demo_cdiv: "cdiv_ok demo_ext"
  by (simp add: cdiv_ok_def demo_ext_def)

lemma demo_conn_mgr [simp]: "c_manager demo_conn = demo_mgr"
  by (simp add: demo_conn_def put_req_def init_connector_def)

theorem lookup_hit_loadable_witness:
  "\<exists>c rs b. demo_lookup = Inr (c, rs, Some 8) \<and>
     lru_get (policy (c_manager c)) [2, 0, 0, 0, 1] = Some b \<and> is_ready b"
proof -
  from demo_hit obtain c rs where hit: "demo_lookup = Inr (c, rs, Some 8)" by blast
  have g: "demo_group 1 (Some 1) \<in> set (kv_groups demo_sched)" by (simp add: demo_sched_def)
  have k: "hit_keys demo_ext demo_rs 8 (demo_group 1 (Some 1)) = Inr [[2, 0, 0, 0, 1]]"
    by code_simp
  have "0 \<le> num_locally_computed_tokens demo_rs" by (simp add: demo_eval)
  from lookup_hit_loadable [OF lru_policy.cache_policy_axioms _ _ demo_cdiv demo_layout this
      hit [unfolded demo_lookup_def demo_cc_def] _ g k] demo_mgr_inv hit
  show ?thesis by auto
qed

section \<open>The lookup of one group\<close>

text \<open>
  The prefix lookup of a full-attention group is the scan its documentation describes: the
  answers before the first miss are counted, and if one of them is not a plain hit the lookup is
  deferred. The blocks stored by the manager do not change.
\<close>

theorem prefix_lookup_spec:
  assumes "cache_policy P pinv" and "pinv (policy (c_manager c))" "0 < max_tracker_size (c_manager c)"
  shows "\<exists>c' counted'. maximal_prefix_lookup (cpu_manager_ops P now) T kn rid ctx gc start ks (c, counted) =
      Inr (c', counted', prefix_result (map (\<lambda>k. block_result (pol_get P (policy (c_manager c)) k)) ks)) \<and>
    pol_get P (policy (c_manager c')) = pol_get P (policy (c_manager c))"
  using stable_lookup.maximal_prefix_ok [OF cpu_stable [OF assms(1)], of "pol_get P (policy (c_manager c))" c] assms(2,3)
  by (fastforce simp: cpu_holds_def cpu_answer_def [abs_def])

theorem prefix_lookup_spec_witness:
  "\<exists>c' counted'. maximal_prefix_lookup (cpu_manager_ops lru_ops 0) demo_tracker demo_knobs ''r'' demo_ctx
     (demo_group 0 None) 0 [[1, 0, 0, 0, 0], [2, 0, 0, 0, 0], [9], [2, 0, 0, 0, 1]] (demo_conn, {}) =
   Inr (c', counted', Some 2)"
  using prefix_lookup_spec [OF lru_policy.cache_policy_axioms, of demo_conn 0 demo_tracker demo_knobs "''r''"
      demo_ctx "demo_group 0 None" 0 "[[1, 0, 0, 0, 0], [2, 0, 0, 0, 0], [9], [2, 0, 0, 0, 1]]" "{}"] demo_mgr_inv
  by (auto simp: prefix_result_def demo_mgr_eval lookup_eval)

text \<open>
  The backward scan of a sliding-window group finds the last window. It returns the end of the
  last run of \<open>w\<close> present chunks; with no such run, the number of present chunks at the front;
  and it defers when a chunk that is not settled lies in the part it had to look at.
\<close>

lemma sliding_lookup_spec:
  assumes "cache_policy P pinv" and "pinv (policy (c_manager c))" "0 < max_tracker_size (c_manager c)" and "0 < w"
  shows "\<exists>c' r. sliding_window_lookup (cpu_manager_ops P now) ctx (int w) ks c = Inr (c', r) \<and>
    window_result w (map (\<lambda>k. block_result (pol_get P (policy (c_manager c)) k)) ks) r \<and>
    pol_get P (policy (c_manager c')) = pol_get P (policy (c_manager c))"
  using stable_lookup.sliding_window_ok [OF cpu_stable [OF assms(1)], of "pol_get P (policy (c_manager c))" c w] assms(2-4)
  by (fastforce simp: cpu_holds_def cpu_answer_def [abs_def])

lemma sliding_lookup_spec_witness:
  "\<exists>c' r. sliding_window_lookup (cpu_manager_ops lru_ops 0) demo_ctx 2
     [[1, 0, 0, 0, 0], [2, 0, 0, 0, 0], [9], [2, 0, 0, 0, 1]] demo_conn = Inr (c', r) \<and>
   window_result 2 [HIT, HIT, MISS, HIT] r"
  using sliding_lookup_spec [OF lru_policy.cache_policy_axioms, of demo_conn 2 0 demo_ctx
      "[[1, 0, 0, 0, 0], [2, 0, 0, 0, 0], [9], [2, 0, 0, 0, 1]]"] demo_mgr_inv
  by (auto simp: demo_mgr_eval lookup_eval)

end
