(* ===== verification/Config_Properties.thy ===== *)
theory Config_Properties
  imports Lookup_Properties
begin

text \<open>
  The configuration of the connector is well formed: a specification whose groups exist in the
  KV cache layout gives a configuration that meets what the lookups and the store planning
  presume.
\<close>

section \<open>Well-formed specifications\<close>

fun kind_ok :: "kv_spec \<Rightarrow> bool" where
  "kind_ok (SlidingWindowSpec w) \<longleftrightarrow> 0 < w"
| "kind_ok (ChunkedLocalAttentionSpec c) \<longleftrightarrow> 0 < c"
| "kind_ok (MambaSpec mode) \<longleftrightarrow> True"
| "kind_ok FullAttentionSpec \<longleftrightarrow> True"
| "kind_ok OtherSpec \<longleftrightarrow> False"

definition spec_ok :: "offload_spec \<Rightarrow> kv_cache_group list \<Rightarrow> bool" where
  "spec_ok spec kgs \<longleftrightarrow>
     spec_groups spec \<noteq> [] \<and> distinct (map og_idx (spec_groups spec)) \<and> 0 < spec_blocks_per_chunk spec \<and>
     (\<forall>g \<in> set (spec_groups spec). 0 < og_tokens_per_block g \<and> og_idx g < length kgs \<and>
        kind_ok (kg_spec (kgs ! og_idx g)))"

text \<open>What the code relies on in the configuration of one group.\<close>

definition group_typed :: "offload_spec \<Rightarrow> offload_group \<Rightarrow> group_config \<Rightarrow> bool" where
  "group_typed spec g gc \<longleftrightarrow> group_idx gc = og_idx g \<and> tokens_per_block gc = og_tokens_per_block g \<and>
     tokens_per_chunk gc = og_tokens_per_block g * spec_blocks_per_chunk spec \<and> 0 < tokens_per_chunk gc \<and>
     hashes_per_chunk gc = tokens_per_chunk gc div spec_tokens_per_hash spec \<and>
     (\<forall>w. sliding_window_chunks gc = Some w \<longrightarrow> 0 < w) \<and>
     (\<forall>a. alignment_chunk_count gc = Some a \<longrightarrow> (\<exists>w. sliding_window_chunks gc = Some w \<and> w < a))"

lemma window_total:
  assumes "\<And>a b. 0 < b \<Longrightarrow> cdiv a b = - ((- a) div b)" and "kind_ok s" and "0 < tpc"
  shows "\<exists>sw. get_sliding_window_size_in_chunks cdiv s tpc = Inr sw \<and> (\<forall>w. sw = Some w \<longrightarrow> 0 < w)"
proof -
  have "0 < cdiv a tpc" if "0 < a" for a
    using assms(1) [OF assms(3)] that assms(3) by (simp add: pos_imp_zdiv_neg_iff)
  then show ?thesis using assms(2) by (cases s) (simp_all add: get_sliding_window_size_in_chunks_def)
qed

lemma alignment_total:
  assumes "0 < tpc"
  shows "\<exists>al'. alignment_chunks al tpc sw = Inr al' \<and> (\<forall>a. al' = Some a \<longrightarrow> (\<exists>w. sw = Some w \<and> w < a))"
  using assms by (cases al; cases sw) (simp_all add: alignment_chunks_def py_div_def)

lemma foldE_snoc:
  assumes "\<And>x acc. x \<in> set xs \<Longrightarrow> \<exists>y. f x acc = Inr (acc @ [y]) \<and> R x y"
  shows "\<exists>ys. foldE f xs acc = Inr (acc @ ys) \<and> list_all2 R xs ys"
  using assms
proof (induction xs arbitrary: acc)
  case (Cons x xs)
  then obtain y where y: "f x acc = Inr (acc @ [y])" "R x y" by (metis list.set_intros(1))
  obtain ys where "foldE f xs (acc @ [y]) = Inr ((acc @ [y]) @ ys)" "list_all2 R xs ys"
    using Cons.IH [of "acc @ [y]"] Cons.prems by auto
  with y show ?case by auto
qed simp

lemma group_config_typed:
  assumes cd: "\<And>a b. 0 < b \<Longrightarrow> cdiv a b = - ((- a) div b)" and spec: "spec_ok spec kgs" and g: "g \<in> set (spec_groups spec)"
    and hash: "spec_tokens_per_hash spec \<noteq> 0"
  shows "\<exists>gc. group_config_of cdiv spec kgs al eagle g acc = Inr (acc @ [gc]) \<and> group_typed spec g gc"
proof -
  let ?tpc = "og_tokens_per_block g * spec_blocks_per_chunk spec"
  have s: "og_idx g < length kgs" "kind_ok (kg_spec (kgs ! og_idx g))" "0 < ?tpc"
    using spec g by (auto simp: spec_ok_def)
  from window_total [OF cd s(2,3)] obtain sw where sw: "get_sliding_window_size_in_chunks cdiv (kg_spec (kgs ! og_idx g)) ?tpc = Inr sw"
    "\<forall>w. sw = Some w \<longrightarrow> 0 < w" by blast
  obtain al' where al: "alignment_chunks al ?tpc sw = Inr al'" "\<forall>a. al' = Some a \<longrightarrow> (\<exists>w. sw = Some w \<and> w < a)"
    using alignment_total [OF s(3)] by blast
  with s sw hash show ?thesis by (simp add: group_config_of_def py_div_def nth_res_def Let_def group_typed_def)
qed

lemma full_sizes_total:
  assumes cd: "\<And>a b. 0 < b \<Longrightarrow> cdiv a b = - ((- a) div b)" and spec: "spec_ok spec kgs"
  shows "\<exists>sizes. foldE (full_attention_sizes cdiv spec kgs) (spec_groups spec) {} = Inr sizes"
proof -
  have "\<exists>s'. full_attention_sizes cdiv spec kgs g sizes = Inr s' \<and> True" if "g \<in> set (spec_groups spec)" for g sizes
  proof -
    have s: "og_idx g < length kgs" "kind_ok (kg_spec (kgs ! og_idx g))" "0 < og_tokens_per_block g * spec_blocks_per_chunk spec"
      using spec that by (auto simp: spec_ok_def)
    with window_total [OF cd s(2,3)] show ?thesis by (auto simp: full_attention_sizes_def nth_res_def)
  qed
  then show ?thesis
    using foldE_total [of "\<lambda>_. True" "{}" "spec_groups spec" "full_attention_sizes cdiv spec kgs"] by blast
qed

lemma from_spec_no_hash:
  assumes cd: "\<And>a b. 0 < b \<Longrightarrow> cdiv a b = - ((- a) div b)" and spec: "spec_ok spec kgs" and zero: "spec_tokens_per_hash spec = 0"
  shows "from_spec cdiv spec eng kgs = Inl ZeroDivisionError"
proof -
  obtain sizes where sizes: "foldE (full_attention_sizes cdiv spec kgs) (spec_groups spec) {} = Inr sizes"
    using full_sizes_total [OF cd spec] by blast
  obtain g gs where gs: "spec_groups spec = g # gs" using spec by (cases "spec_groups spec") (auto simp: spec_ok_def)
  have s: "og_idx g < length kgs" "kind_ok (kg_spec (kgs ! og_idx g))" "0 < og_tokens_per_block g * spec_blocks_per_chunk spec"
    using spec gs by (auto simp: spec_ok_def)
  have "group_config_of cdiv spec kgs al eagle g acc = Inl ZeroDivisionError" for al eagle acc
    using window_total [OF cd s(2,3)] s(1) zero by (auto simp: group_config_of_def py_div_def nth_res_def Let_def)
  then show ?thesis using sizes gs by (simp add: from_spec_def)
qed

lemma from_spec_typed:
  assumes cd: "\<And>a b. 0 < b \<Longrightarrow> cdiv a b = - ((- a) div b)" and spec: "spec_ok spec kgs"
    and hash: "spec_tokens_per_hash spec \<noteq> 0"
  obtains cfg where "from_spec cdiv spec eng kgs = Inr cfg" "list_all2 (group_typed spec) (spec_groups spec) (kv_groups cfg)"
    "num_kv_cache_groups cfg = length kgs" "blocks_per_chunk cfg = spec_blocks_per_chunk spec"
    "tokens_per_hash cfg = spec_tokens_per_hash spec"
proof -
  obtain sizes where sizes: "foldE (full_attention_sizes cdiv spec kgs) (spec_groups spec) {} = Inr sizes"
    using full_sizes_total [OF cd spec] by blast
  let ?f = "group_config_of cdiv spec kgs (the_single sizes) (eagle_groups (use_eagle eng) kgs)"
  obtain gcs where "foldE ?f (spec_groups spec) [] = Inr gcs" "list_all2 (group_typed spec) (spec_groups spec) gcs"
    using foldE_snoc [of "spec_groups spec" ?f "group_typed spec" "[]"] group_config_typed [OF cd spec _ hash] by auto
  then show thesis using sizes by (auto intro!: that simp: from_spec_def)
qed

text \<open>
  C22: configurations are well typed. For a specification whose groups are distinct, non-empty
  groups of the layout with windows of positive size, \<open>from_spec\<close> raises \<open>ZeroDivisionError\<close> if a
  hash has no tokens. Otherwise it succeeds; it has one configuration per group, in order, with an
  index of the layout, positive chunks and windows and the number of complete hashes in a chunk, and
  no call of \<open>is_store_reachable_swa_chunk\<close> on it fails its assertion or takes a remainder by
  zero.
\<close>

theorem from_spec_well_typed:
  assumes cd: "\<And>a b. 0 < b \<Longrightarrow> cdiv a b = - ((- a) div b)" and spec: "spec_ok spec kgs"
  shows "if spec_tokens_per_hash spec = 0 then from_spec cdiv spec eng kgs = Inl ZeroDivisionError
    else \<exists>cfg. from_spec cdiv spec eng kgs = Inr cfg \<and> layout_ok cfg \<and>
      map group_idx (kv_groups cfg) = map og_idx (spec_groups spec) \<and>
      (\<forall>gc \<in> set (kv_groups cfg). group_idx gc < num_kv_cache_groups cfg \<and>
         tokens_per_chunk gc = tokens_per_block gc * blocks_per_chunk cfg \<and>
         hashes_per_chunk gc = tokens_per_chunk gc div tokens_per_hash cfg \<and>
         (\<forall>a. alignment_chunk_count gc = Some a \<longrightarrow> 1 < a) \<and>
         (\<forall>i n. \<exists>b. is_store_reachable_swa_chunk i n (alignment_chunk_count gc)
            (sliding_window_chunks gc) (is_eagle_group gc) = Inr b))"
proof (cases "spec_tokens_per_hash spec = 0")
  case True
  then show ?thesis using from_spec_no_hash [OF cd spec] by simp
next
  case False
  obtain cfg where cfg: "from_spec cdiv spec eng kgs = Inr cfg"
    and gcs: "list_all2 (group_typed spec) (spec_groups spec) (kv_groups cfg)"
    and c: "num_kv_cache_groups cfg = length kgs" "blocks_per_chunk cfg = spec_blocks_per_chunk spec"
      "tokens_per_hash cfg = spec_tokens_per_hash spec"
    using from_spec_typed [OF cd spec False] .
  have idx: "map group_idx (kv_groups cfg) = map og_idx (spec_groups spec)"
    using gcs by (induction) (auto simp: group_typed_def)
  have typed: "\<exists>g \<in> set (spec_groups spec). group_typed spec g gc" if "gc \<in> set (kv_groups cfg)" for gc
    using gcs that by (metis list_all2_conv_all_nth in_set_conv_nth)
  have "distinct (map group_idx (kv_groups cfg))" using spec idx by (simp add: spec_ok_def)
  moreover have "kv_groups cfg \<noteq> []" using spec idx by (auto simp: spec_ok_def)
  ultimately have "layout_ok cfg"
    using typed by (fastforce simp: layout_ok_def positive_chunks_def windows_ok_def group_typed_def)
  moreover have "group_idx gc < num_kv_cache_groups cfg \<and>
       tokens_per_chunk gc = tokens_per_block gc * blocks_per_chunk cfg \<and>
       hashes_per_chunk gc = tokens_per_chunk gc div tokens_per_hash cfg \<and>
       (\<forall>a. alignment_chunk_count gc = Some a \<longrightarrow> 1 < a) \<and>
       (\<forall>i n. \<exists>b. is_store_reachable_swa_chunk i n (alignment_chunk_count gc)
          (sliding_window_chunks gc) (is_eagle_group gc) = Inr b)" if gc: "gc \<in> set (kv_groups cfg)" for gc
  proof -
    obtain g where g: "g \<in> set (spec_groups spec)" "group_typed spec g gc" using typed gc by auto
    then have "alignment_chunk_count gc = Some a \<Longrightarrow> 1 < a" for a by (fastforce simp: group_typed_def)
    moreover have "og_idx g < length kgs" using spec g(1) by (simp add: spec_ok_def)
    ultimately show ?thesis using g(2) c
      by (auto simp: group_typed_def is_store_reachable_swa_chunk_def py_mod_def Let_def split: option.split)
  qed
  ultimately show ?thesis using False cfg idx by simp
qed

text \<open>A hybrid model: full attention over chunks of 64 tokens, a window of 20 tokens over chunks of 16.\<close>

definition demo_layout_groups :: "kv_cache_group list" where
  "demo_layout_groups = [\<lparr>kg_spec = FullAttentionSpec, kg_eagle = False\<rparr>, \<lparr>kg_spec = SlidingWindowSpec 20, kg_eagle = False\<rparr>]"

definition demo_spec :: offload_spec where
  "demo_spec = \<lparr>spec_groups = [\<lparr>og_idx = 0, og_tokens_per_block = 64\<rparr>, \<lparr>og_idx = 1, og_tokens_per_block = 16\<rparr>],
     spec_blocks_per_chunk = 1, spec_tokens_per_hash = 16, spec_prompt_only = False\<rparr>"

definition demo_engine :: engine_config where
  "demo_engine = \<lparr>world_size = 1, dcp_size = 1, use_eagle = False, prefix_caching = True\<rparr>"

theorem from_spec_well_typed_witness:
  "\<exists>cfg. from_spec (\<lambda>a b. - ((- a) div b)) demo_spec demo_engine demo_layout_groups = Inr cfg \<and> layout_ok cfg \<and>
     map group_idx (kv_groups cfg) = [0, 1] \<and>
     map alignment_chunk_count (kv_groups cfg) = [None, Some 4] \<and> map sliding_window_chunks (kv_groups cfg) = [None, Some 2]"
proof -
  have ok: "spec_ok demo_spec demo_layout_groups"
    by (simp add: spec_ok_def demo_spec_def demo_layout_groups_def)
  obtain cfg where c: "from_spec (\<lambda>a b. - ((- a) div b)) demo_spec demo_engine demo_layout_groups = Inr cfg"
    "layout_ok cfg" "map group_idx (kv_groups cfg) = [0, 1]"
    using from_spec_well_typed [OF _ ok, of "\<lambda>a b. - ((- a) div b)" demo_engine] by (auto simp: demo_spec_def)
  moreover have "map_sum id (\<lambda>cfg. (map alignment_chunk_count (kv_groups cfg), map sliding_window_chunks (kv_groups cfg)))
      (from_spec (\<lambda>a b. - ((- a) div b)) demo_spec demo_engine demo_layout_groups) = Inr ([None, Some 4], [None, Some 2])"
    by code_simp
  ultimately show ?thesis by auto
qed

end
