(* ===== verification/Res_Conditions.thy ===== *)
theory Res_Conditions
  imports Prelude
begin

text \<open>
  Verification conditions for code that may raise: \<open>ok P r\<close> is partial correctness of a result,
  and the collection \<open>vc\<close> has one rule per construct, so that \<open>intro vc\<close> reduces a statement
  about an operation to its leaves.
\<close>

section \<open>Verification conditions\<close>

text \<open>\<open>ok P r\<close>: if the code returns, the result satisfies \<open>P\<close>. One rule per construct of the code.\<close>

definition ok :: "('a \<Rightarrow> bool) \<Rightarrow> 'a res \<Rightarrow> bool" where
  "ok P r \<longleftrightarrow> (\<forall>x. r = Inr x \<longrightarrow> P x)"

named_theorems vc \<open>rules that take a goal \<open>ok P r\<close> apart along the code\<close>

lemma okD: "ok P r \<Longrightarrow> r = Inr x \<Longrightarrow> P x"
  by (simp add: ok_def)

lemma ok_Inr [vc]: "P x \<Longrightarrow> ok P (Inr x)"
  by (simp add: ok_def)

lemma ok_Inl [vc]: "ok P (Inl e)"
  by (simp add: ok_def)

lemma ok_bind [vc]: "(\<And>x. r = Inr x \<Longrightarrow> ok P (f x)) \<Longrightarrow> ok P (bindE r f)"
  by (cases r) (simp_all add: ok_def)

lemma ok_assert [vc]: "(b \<Longrightarrow> ok P r) \<Longrightarrow> ok P (assertE b r)"
  by (simp add: ok_def assertE_def)

lemma ok_if [vc]: "(b \<Longrightarrow> ok P r) \<Longrightarrow> (\<not> b \<Longrightarrow> ok P r') \<Longrightarrow> ok P (if b then r else r')"
  by simp

lemma ok_let [vc]: "ok P (f x) \<Longrightarrow> ok P (let y = x in f y)"
  by simp

lemma ok_prod [vc]: "(\<And>a b. x = (a, b) \<Longrightarrow> ok P (f a b)) \<Longrightarrow> ok P (case x of (a, b) \<Rightarrow> f a b)"
  by (cases x) simp

lemma ok_option [vc]:
  "(x = None \<Longrightarrow> ok P r) \<Longrightarrow> (\<And>y. x = Some y \<Longrightarrow> ok P (f y)) \<Longrightarrow>
   ok P (case x of None \<Rightarrow> r | Some y \<Rightarrow> f y)"
  by (cases x) simp_all

lemma ok_foldE:
  assumes "P s" and "\<And>x s. x \<in> set xs \<Longrightarrow> P s \<Longrightarrow> ok P (f x s)"
  shows "ok P (foldE f xs s)"
  unfolding ok_def
proof (intro allI impI)
  fix x assume "foldE f xs s = Inr x"
  then show "P x" by (rule foldE_inv [where P = P, OF _ assms(1)]) (use assms(2) okD in metis)
qed

end
