(* ===== verification/CPU_Refinement.thy ===== *)
theory CPU_Refinement
  imports CPU_Properties Res_Conditions
begin

text \<open>
  What the CPU manager promises its client, as an abstract cache without slots, reference counts
  or replacement: a set of readable keys and the load batches in flight. The manager, together
  with the memory its slots stand for, refines it, and a load reads the data of the keys it
  asked for.
\<close>

section \<open>The abstract cache\<close>

text \<open>
  A state is the set of readable keys and the batches being loaded. Keys may be forgotten unless
  they are being loaded; published, within the capacity; and loaded while they are readable.
\<close>

type_synonym cache_view = "offload_key set \<times> offload_key list list"

inductive cache_step :: "int \<Rightarrow> cache_view \<Rightarrow> cache_view \<Rightarrow> bool"
  for n :: int where
  stay: "cache_step n (R, ls) (R, ls)"
| forget: "E \<inter> set (concat ls) = {} \<Longrightarrow> cache_step n (R, ls) (R - E, ls)"
| publish: "finite (R \<union> S) \<Longrightarrow> int (card (R \<union> S)) \<le> n \<Longrightarrow> cache_step n (R, ls) (R \<union> S, ls)"
| begin_load: "set ks \<subseteq> R \<Longrightarrow> cache_step n (R, ls) (R, ks # ls)"
| end_load: "cache_step n (R, ls1 @ ks # ls2) (R, ls1 @ ls2)"

definition readable :: "'p policy_ops \<Rightarrow> 'p manager \<Rightarrow> offload_key set" where
  "readable P m = {k. block_result (pol_get P (policy m) k) = HIT}"

section \<open>The manager with its memory\<close>

text \<open>
  The memory of the pool: for each slot the key whose data were last written there. A worker
  writes a slot that is reserved for a key and still write-pending; a call of the client may
  publish a key only after its slot was written. A reset waits for nobody: that the jobs of before
  it write no slot which is reserved anew is up to the connector, which flushes them first.
\<close>

type_synonym 'p cpu_system = "'p cpu_config \<times> (int \<Rightarrow> offload_key option)"

inductive system_step :: "'p policy_ops \<Rightarrow> 'p cpu_system \<Rightarrow> 'p cpu_system \<Rightarrow> bool"
  for P :: "'p policy_ops" where
  call: "cpu_step P (m, ls) (m', ls') \<Longrightarrow>
    \<forall>k b. k \<in> readable P m' - readable P m \<longrightarrow> pol_get P (policy m') k = Some b \<longrightarrow> mem (block_id b) = Some k \<Longrightarrow>
    system_step P ((m, ls), mem) ((m', ls'), mem)"
| worker: "pol_get P (policy m) k = Some b \<Longrightarrow> \<not> is_ready b \<Longrightarrow>
    system_step P ((m, ls), mem) ((m, ls), mem(block_id b := Some k))"

inductive system_reach :: "'p policy_ops \<Rightarrow> 'p cpu_system \<Rightarrow> 'p cpu_system \<Rightarrow> bool"
  for P :: "'p policy_ops" where
  start: "system_reach P s s"
| step: "system_reach P s s' \<Longrightarrow> system_step P s' s'' \<Longrightarrow> system_reach P s s''"

definition view :: "'p policy_ops \<Rightarrow> 'p cpu_system \<Rightarrow> cache_view" where
  "view P s = (readable P (fst (fst s)), snd (fst s))"

definition memory_ok :: "'p policy_ops \<Rightarrow> 'p cpu_system \<Rightarrow> bool" where
  "memory_ok P s \<longleftrightarrow>
     (\<forall>k b. pol_get P (policy (fst (fst s))) k = Some b \<longrightarrow> is_ready b \<longrightarrow> snd s (block_id b) = Some k)"

section \<open>The number of slots is fixed\<close>

lemma free_blocks_num: "num_blocks (fold free_block bs m) = num_blocks m"
  by (induction bs arbitrary: m) (simp_all add: free_block_def)

lemma note_evicted_num: "num_blocks (note_evicted ev m) = num_blocks m"
  by (simp add: note_evicted_def record_eviction_tombstones_def Let_def split: option.split prod.split)

lemma make_room_num: "ok (\<lambda>st. num_blocks (fst st) = num_blocks m) (make_room P now n keys m)"
  unfolding make_room_def Let_def
  by (intro vc) (simp_all add: free_blocks_num log_eviction_capped_def)

lemma allocate_num: "ok (\<lambda>st. num_blocks (fst st) = num_blocks m) (allocate_blocks n m)"
  unfolding allocate_blocks_def Let_def by (intro vc) simp_all

lemma gate_num: "threshold_gate bypass keys m = (m', ks) \<Longrightarrow> num_blocks m' = num_blocks m"
  by (auto simp: threshold_gate_def Let_def split: option.splits if_splits)

lemma prepare_store_num:
  "ok (\<lambda>st. num_blocks (fst st) = num_blocks m) (cpu_prepare_store P now keys bypass m)"
  unfolding cpu_prepare_store_def Let_def
  by (intro vc)
    (drule gate_num, (drule okD [OF make_room_num])?, (drule okD [OF allocate_num])?,
      simp add: insert_all_def note_evicted_num)+

context cache_policy
begin

lemma step_num_blocks:
  assumes "cpu_step P (m, ls) (m', ls')" and c: "config_inv P inv (m, ls)"
  shows "num_blocks m' = num_blocks m"
  using assms(1)
proof cases
  case (lookup k r)
  then show ?thesis using lookup_form by fastforce
next
  case (load ks ids)
  then show ?thesis using load_mgr_ok [OF _ load_pre [OF c load(2,3)]] c by (auto simp: config_inv_def)
next
  case (load_done ks ls1 ls2)
  then show ?thesis using unload_mgr_ok [OF _ refs_ok_unload_pre] c by (fastforce simp: config_inv_def)
next
  case (store ks now bypass out)
  then show ?thesis using okD [OF prepare_store_num] by fastforce
next
  case (stored ks success)
  then show ?thesis using complete_store_success [of m ks] complete_store_failure [of m ks] c
    by (cases success) (fastforce simp: config_inv_def)+
qed (auto simp: cpu_touch_def cpu_take_events_def cpu_reset_cache_def Let_def split: option.splits)

lemma readable_iff: "k \<in> readable P m \<longleftrightarrow> (\<exists>b. bmap P m k = Some b \<and> 0 \<le> ref_cnt b)"
  by (auto simp: readable_def block_result_def is_ready_def split: option.splits if_splits)

lemma view_stays:
  "bmap P m' = bmap P m \<Longrightarrow> cache_step n (readable P m, ls) (readable P m', ls) \<and>
    (\<forall>k \<in> readable P m \<inter> readable P m'. \<forall>b b'. bmap P m k = Some b \<longrightarrow> bmap P m' k = Some b' \<longrightarrow> block_id b' = block_id b)"
  using cache_step.stay [of n "readable P m" ls] by (simp add: readable_def)

lemma step_readable:
  assumes st: "cpu_step P (m, ls) (m', ls')" and c: "config_inv P inv (m, ls)"
  shows "(cache_step (num_blocks m) (readable P m, ls) (readable P m', ls') \<or>
      m' = cpu_reset_cache P m \<and> readable P m' = {} \<and> ls' = []) \<and>
    (\<forall>k \<in> readable P m \<inter> readable P m'. \<forall>b b'. bmap P m k = Some b \<longrightarrow> bmap P m' k = Some b' \<longrightarrow> block_id b' = block_id b)"
  using st
proof cases
  case (lookup k r)
  then obtain x where "m' = m\<lparr>counts := x\<rparr>" using lookup_form by blast
  with lookup show ?thesis using view_stays by simp
next
  case (touch ks)
  then show ?thesis using c touch_ok [of m ks] view_stays by (simp add: config_inv_def)
next
  case (load ks ids)
  have m: "mgr_inv P inv m" using c by (simp add: config_inv_def)
  from load_mgr_ok [OF m load_pre [OF c load(2,3)]] load(4) have
    g: "bmap P m' = add_refs 1 ks (bmap P m)" by auto
  have hit: "set ks \<subseteq> readable P m" using load(2) by (auto simp: readable_def)
  have "readable P m' = readable P m"
  proof (intro set_eqI iffI)
    fix k assume "k \<in> readable P m'"
    then obtain b where b: "bmap P m k = Some b" "0 \<le> ref_cnt b + int (count_list ks k)"
      by (auto simp: readable_iff g add_refs_def)
    show "k \<in> readable P m"
    proof (cases "k \<in> set ks")
      case True
      then show ?thesis using hit by blast
    next
      case False
      then show ?thesis using b by (auto simp: readable_iff count_list_0_iff)
    qed
  qed (auto simp: readable_iff g add_refs_def)
  then show ?thesis using hit load(1) by (auto simp: g add_refs_def intro: cache_step.begin_load)
next
  case (load_done ks ls1 ls2)
  have m: "mgr_inv P inv m" and r: "refs_ok (bmap P m) (ls1 @ ks # ls2)"
    using c load_done(1) by (simp_all add: config_inv_def)
  from unload_mgr_ok [OF m refs_ok_unload_pre [OF r]] load_done(3) have
    g: "bmap P m' = add_refs (- 1) ks (bmap P m)" by auto
  have "readable P m' = readable P m"
  proof (intro set_eqI iffI)
    fix k assume "k \<in> readable P m"
    then obtain b where b: "bmap P m k = Some b" "0 \<le> ref_cnt b" by (auto simp: readable_iff)
    have "int (count_list ks k) \<le> ref_cnt b"
    proof (cases "k \<in> set ks")
      case True
      then show ?thesis using refs_ok_unload_pre [OF r] b(1) by fastforce
    next
      case False
      then show ?thesis using b(2) by (simp add: count_list_0_iff [THEN iffD2])
    qed
    then show "k \<in> readable P m'" using b by (simp add: readable_iff g add_refs_def)
  qed (auto simp: readable_iff g add_refs_def)
  then show ?thesis using load_done(1,2) by (auto simp: g add_refs_def intro: cache_step.end_load)
next
  case (store ks now bypass out)
  have m: "mgr_inv P inv m" and r: "refs_ok (bmap P m) ls" using c by (simp_all add: config_inv_def)
  have same: ?thesis if "bmap P m' = bmap P m" using view_stays [OF that, where ls = ls] unfolding store(1) by blast
  from m store(2) show ?thesis
  proof (cases rule: prepare_store_cases [of m ks bypass now])
    case (reserved m1 ev bs)
    let ?new = "filter (\<lambda>k. bmap P m k = None) (snd (threshold_gate bypass ks m))"
    have g: "bmap P m' = put_all (zip ?new bs) (bmap P m |` (- set ev))" using reserved(2,4) store(3) by simp
    have dn: "distinct ?new" using threshold_gate_form [of bypass ks m] store(2) by auto
    have fresh: "ref_cnt b = - 1" if k: "k \<in> set ?new" and kb: "bmap P m' k = Some b" for k b
    proof -
      obtain b' where b': "(k, b') \<in> set (zip ?new bs)"
        by (rule in_set_impl_in_set_zip1 [OF reserved(5) [symmetric] k])
      then have "bmap P m' k = Some b'" unfolding g using dn reserved(5) by (intro put_all_in) simp_all
      then show ?thesis using kb b' reserved(6) by (auto dest: set_zip_rightD)
    qed
    have old: "bmap P m' k = (bmap P m |` (- set ev)) k" if "k \<notin> set ?new" for k
      unfolding g by (rule put_all_notin) (use that in \<open>auto dest: set_zip_leftD\<close>)
    have "readable P m' = readable P m - set ev"
    proof (intro set_eqI iffI)
      fix k assume "k \<in> readable P m'"
      then obtain b where b: "bmap P m' k = Some b" "0 \<le> ref_cnt b" by (auto simp: readable_iff)
      then have "k \<notin> set ?new" using fresh by force
      then show "k \<in> readable P m - set ev" using b old by (auto simp: readable_iff restrict_map_def split: if_splits)
    next
      fix k assume k: "k \<in> readable P m - set ev"
      then have "k \<notin> set ?new" by (auto simp: readable_iff)
      then show "k \<in> readable P m'" using k old by (auto simp: readable_iff restrict_map_def)
    qed
    moreover have "set ev \<inter> set (concat ls) = {}"
    proof -
      have "k \<notin> set (concat ls)" if "k \<in> set ev" for k
      proof -
        obtain b where b: "bmap P m k = Some b" "ref_cnt b = 0" using reserved(9) \<open>k \<in> set ev\<close> by blast
        then have "in_flight ls k = 0" using refs_ok_Some [OF r b(1)] by auto
        then show ?thesis by (simp add: in_flight_def count_list_0_iff)
      qed
      then show ?thesis by blast
    qed
    moreover have "block_id b' = block_id b"
      if "bmap P m k = Some b" "bmap P m' k = Some b'" for k b b'
    proof -
      have "k \<notin> set ?new" using that(1) by simp
      then show ?thesis using that old by (auto simp: restrict_map_def split: if_splits)
    qed
    ultimately show ?thesis
      using cache_step.forget [of "set ev" ls "num_blocks m" "readable P m"] unfolding store(1) by metis
  next
    case (no_new m1)
    then have "m' = m1" using store(3) by simp
    with no_new same show ?thesis by simp
  next
    case (refused m1)
    then have "m' = m1" using store(3) by simp
    with refused same show ?thesis by simp
  qed
next
  case (stored ks success)
  have m: "mgr_inv P inv m" using c by (simp add: config_inv_def)
  show ?thesis
  proof (cases success)
    case True
    from complete_store_success [OF m, of ks] stored(2) True have
      g: "bmap P m' = mark_ready ks (bmap P m)" and m': "mgr_inv P inv m'" and n: "num_blocks m' = num_blocks m" by auto
    have R: "readable P m' = readable P m \<union> {k \<in> set ks. pending (bmap P m) k}"
      by (auto simp: readable_iff g mark_ready_def pending_def is_ready_def split: option.splits if_splits)
    have p: "pool_inv P inv m'" using m' by (simp add: mgr_inv_def)
    have sub: "readable P m' \<subseteq> dom (bmap P m')" by (auto simp: readable_iff)
    have "finite (readable P m')" by (rule finite_subset [OF sub pool_finite [OF p]])
    moreover have "int (card (readable P m')) \<le> num_blocks m'"
    proof -
      have "card (readable P m') \<le> card (dom (bmap P m'))" by (rule card_mono [OF pool_finite [OF p] sub])
      moreover have "int (card (dom (bmap P m'))) \<le> num_blocks m'"
        using owned_length [of "num_allocated_blocks m'" "free_list m'" "bmap P m'"] p pool_finite [OF p]
        by (simp add: pool_inv_def)
      ultimately show ?thesis by linarith
    qed
    ultimately have "cache_step (num_blocks m) (readable P m, ls) (readable P m', ls)"
      unfolding R n [symmetric] by (intro cache_step.publish) (simp_all add: n)
    then show ?thesis using stored(1) by (auto simp: g mark_ready_def split: if_splits)
  next
    case False
    from complete_store_failure [OF m, of ks] stored(2) False have
      g: "bmap P m' = drop_pending ks (bmap P m)" by auto
    have "readable P m' = readable P m"
      by (auto simp: readable_iff g drop_pending_def pending_def is_ready_def split: if_splits)
    then show ?thesis using stored(1) by (auto simp: g drop_pending_def split: if_splits intro: cache_step.stay)
  qed
next
  case (events evs)
  then have "policy m' = policy m" by (cases "manager.events m") (auto simp: cpu_take_events_def)
  with events(1) show ?thesis using view_stays by simp
next
  case reset
  then have "readable P m' = {}" using c reset_ok [of m] by (auto simp: config_inv_def readable_iff)
  then show ?thesis using reset by simp
qed

text \<open>The invariant of the system, and the data it keeps.\<close>

lemma system_step_inv:
  assumes "system_step P s s'" and "config_inv P inv (fst s)" and "memory_ok P s"
  shows "config_inv P inv (fst s') \<and> memory_ok P s' \<and> num_blocks (fst (fst s')) = num_blocks (fst (fst s)) \<and>
    (cache_step (num_blocks (fst (fst s))) (view P s) (view P s') \<or>
     fst (fst s') = cpu_reset_cache P (fst (fst s)) \<and> view P s' = ({}, []))"
  using assms(1)
proof cases
  case (call m ls m' ls' mem)
  have c: "config_inv P inv (m, ls)" using assms(2) call(1) by simp
  note r = step_readable [OF call(3) c]
  have "mem (block_id b') = Some k" if k: "bmap P m' k = Some b'" "is_ready b'" for k b'
  proof (cases "k \<in> readable P m")
    case True
    then obtain b where b: "bmap P m k = Some b" "is_ready b" by (auto simp: readable_iff is_ready_def)
    moreover have "k \<in> readable P m'" using k by (auto simp: readable_iff is_ready_def)
    ultimately have "block_id b' = block_id b" using r True k(1) by blast
    then show ?thesis using assms(3) b call(1) by (simp add: memory_ok_def)
  next
    case False
    moreover have "k \<in> readable P m'" using k by (auto simp: readable_iff is_ready_def)
    ultimately show ?thesis using call(4) k(1) by blast
  qed
  then have "memory_ok P s'" using call(2) by (simp add: memory_ok_def)
  then show ?thesis
    using r step_config [OF call(3) c] step_num_blocks [OF call(3) c] call(1,2) by (simp add: view_def)
next
  case (worker m k b ls mem)
  have c: "mgr_inv P inv m" using assms(2) worker(1) by (simp add: config_inv_def)
  then have p: "pool_inv P inv m" by (simp add: mgr_inv_def)
  have "(mem(block_id b := Some k)) (block_id b') = Some k'" if k: "bmap P m k' = Some b'" "is_ready b'" for k' b'
  proof -
    have "k' \<noteq> k" using k worker(3,4) by auto
    moreover have "owned (num_allocated_blocks m) (free_list m) (bmap P m)" using p by (simp add: pool_inv_def)
    ultimately have "block_id b' \<noteq> block_id b"
      using owned_distinct [OF _ pool_finite [OF p] k(1) worker(3)] by blast
    then show ?thesis using assms(3) k worker(1) by (simp add: memory_ok_def)
  qed
  then have "memory_ok P s'" using worker(2) by (simp add: memory_ok_def)
  then show ?thesis using assms(2) worker(1,2) by (simp add: view_def cache_step.stay)
qed

lemma system_reach_inv:
  "system_reach P s s' \<Longrightarrow> config_inv P inv (fst s) \<Longrightarrow> memory_ok P s \<Longrightarrow>
   config_inv P inv (fst s') \<and> memory_ok P s' \<and> num_blocks (fst (fst s')) = num_blocks (fst (fst s))"
  by (induction rule: system_reach.induct) (metis system_step_inv)+

text \<open>A load that returns gets, slot by slot, the data of its keys.\<close>

lemma load_reads:
  assumes c: "config_inv P inv (m, ls)" and mem: "memory_ok P ((m, ls), mem)"
    and h: "set ks \<subseteq> readable P m" and n: "int (length (concat ls)) + int (length ks) < 2147483648"
    and ret: "cpu_prepare_load P ks m = Inr (m', ids)"
  shows "map mem ids = map Some ks"
proof -
  have hit: "\<forall>k \<in> set ks. block_result (bmap P m k) = HIT" using h by (auto simp: readable_def)
  have "mgr_inv P inv m" using c by (simp add: config_inv_def)
  from load_mgr_ok [OF this load_pre [OF c hit n]] ret
  have "ids = map (\<lambda>k. block_id (the (bmap P m k))) ks" by auto
  moreover have "mem (block_id (the (bmap P m k))) = Some k" if "k \<in> set ks" for k
  proof -
    have "k \<in> readable P m" using h \<open>k \<in> set ks\<close> by blast
    then obtain b where "bmap P m k = Some b" "is_ready b" by (auto simp: readable_iff is_ready_def)
    then show ?thesis using mem by (simp add: memory_ok_def)
  qed
  ultimately show ?thesis by simp
qed

end

section \<open>The two policies\<close>

lemma init_memory:
  "memory_ok lru_ops ((init_manager lru_ops n ev th mx e1 e2, []), mem)"
  "memory_ok arc_ops ((init_manager arc_ops n ev th mx e1 e2, []), mem)"
  by (simp_all add: memory_ok_def init_manager_def lru_policy.get_init [unfolded lru_ops_simps]
      arc_policy.get_init [unfolded arc_ops_simps])





text \<open>
  C2: a load reads the data it asks for: whenever the manager (ARC policy) is in a state that its
  client and the workers can reach, preparing a load of readable keys returns slots whose memory
  holds, position by position, the data of these keys, whatever was evicted, overwritten or
  stored before.
\<close>

theorem cpu_load_reads_data:
  assumes "0 \<le> n" and "n < 9223372036854775808"
    and "system_reach arc_ops ((init_manager arc_ops n ev th mx e1 e2, []), mem0) ((m, ls), mem)"
    and "set ks \<subseteq> readable arc_ops m" and "int (length (concat ls)) + int (length ks) < 2147483648"
  shows "\<exists>m' ids. cpu_prepare_load arc_ops ks m = Inr (m', ids) \<and> map mem ids = map Some ks"
proof -
  have i: "config_inv arc_ops arc_inv (m, ls)" "memory_ok arc_ops ((m, ls), mem)"
    using arc_policy.system_reach_inv [OF assms(3)] arc_policy.init_config [OF assms(1,2)] init_memory
    by simp_all
  have "\<forall>k \<in> set ks. block_result (arc_get (policy m) k) = HIT" using assms(4) by (auto simp: readable_def)
  with arc_policy.calls_return(1) [OF i(1), of ks] assms(5) obtain m' ids where
    "cpu_prepare_load arc_ops ks m = Inr (m', ids)" by auto
  with arc_policy.load_reads [OF i assms(4,5)] show ?thesis by blast
qed

lemma arun_system: "system_reach arc_ops ((arun0, []), \<lambda>_. None) ((arun2, []), (\<lambda>_. None)(0 := Some [7]))"
proof -
  note run_eqs = projr_pair [OF arun_steps(1), folded arun1_def] projr_Inr [OF arun_steps(2), folded arun2_def]
  have g: "arc_get (policy arun1) [7] = Some \<lparr>ref_cnt = - 1, block_id = 0\<rparr>" by code_simp
  have b: "arc_t1 (policy arun1) = [([7], \<lparr>ref_cnt = - 1, block_id = 0\<rparr>)]" "arc_t2 (policy arun1) = []"
    "arc_t1 (policy arun2) = [([7], \<lparr>ref_cnt = 0, block_id = 0\<rparr>)]" "arc_t2 (policy arun2) = []"
    by code_simp+
  have r: "readable arc_ops arun1 = {}" "readable arc_ops arun2 = {[7]}"
    using b by (auto simp: readable_def block_result_def arc_get_def is_ready_def split: option.splits if_splits)
  have "system_step arc_ops ((arun0, []), \<lambda>_. None) ((arun1, []), \<lambda>_. None)"
    by (rule system_step.call [OF cpu_step.store [OF _ run_eqs(1)]]) (simp_all add: r)
  moreover have "system_step arc_ops ((arun1, []), \<lambda>_. None) ((arun1, []), (\<lambda>_. None)(0 := Some [7]))"
    using system_step.worker [of arc_ops arun1 "[7]" "\<lparr>ref_cnt = - 1, block_id = 0\<rparr>" "[]" "\<lambda>_. None"] g
    by (simp add: is_ready_def)
  moreover have "system_step arc_ops ((arun1, []), (\<lambda>_. None)(0 := Some [7])) ((arun2, []), (\<lambda>_. None)(0 := Some [7]))"
  proof (rule system_step.call [OF cpu_step.stored [OF run_eqs(2)]])
    have "arc_get (policy arun2) [7] = Some \<lparr>ref_cnt = 0, block_id = 0\<rparr>" by code_simp
    then show "\<forall>k b. k \<in> readable arc_ops arun2 - readable arc_ops arun1 \<longrightarrow>
        pol_get arc_ops (policy arun2) k = Some b \<longrightarrow> ((\<lambda>_. None)(0 := Some [7])) (block_id b) = Some k"
      by (simp add: r)
  qed
  ultimately show ?thesis by (blast intro: system_reach.intros)
qed

theorem cpu_load_reads_data_witness:
  "\<exists>m' ids. cpu_prepare_load arc_ops [[7]] arun2 = Inr (m', ids) \<and>
     map ((\<lambda>_. None)(0 := Some [7])) ids = [Some ([7] :: offload_key)]"
proof -
  have "set [[7]] \<subseteq> readable arc_ops arun2" using arun_steps(4) by (simp add: readable_def)
  from cpu_load_reads_data [OF _ _ arun_system [unfolded arun0_def] this] show ?thesis by simp
qed

end
