(* ===== verification/Tiering_Manager.thy ===== *)
theory Tiering_Manager
  imports CPU_Manager
begin

text \<open>
  Model of \<open>TieringOffloadingManager\<close> in \<open>v1/kv_offload/tiering/manager.py\<close>: the orchestration of
  the CPU primary tier and the secondary tiers, with its job table, deferred promotions, the two
  wall-clock retraction scans and the per-request state.

  The secondary tiers and the metrics tracker are not part of this repository. A tier is a
  record of operations \<open>tier_ops\<close> over an opaque state \<open>'s\<close>, a parameter of every definition that
  calls it; the metrics tracker and the log only observe and are left out. The reads of
  \<open>time.monotonic()\<close> within one operation are one instant, the argument \<open>now\<close>.
\<close>

section \<open>Data\<close>

type_synonym job_id = int

record transfer_job =
  tj_id :: job_id
  tj_keys :: "offload_key list"
  tj_block_ids :: "int list"
  tj_promotion :: bool
  tj_req :: req_context

record job_result =
  jr_id :: job_id
  jr_success :: bool
  jr_successful_keys :: "offload_key list option"

record pending_promotion =
  pp_req :: req_context
  pp_keys :: "offload_key list"
  pp_block_ids :: "int list"

record request_state =
  rs_req :: req_context
  rs_pending_stores :: int
  rs_finished :: bool
  rs_request_level :: "nat list option"

text \<open>
  What a tier may ask of its parent while it serves external requests, and the answers: the
  methods of \<open>_SecondaryTierFacingParent\<close>. A \<open>serving\<close> is the tier's side of that dialogue.
\<close>

datatype parent_call =
    P_new_request req_context
  | P_lookup offload_key req_context
  | P_store_job "offload_key list" req_context
  | P_request_finished req_context

datatype parent_reply =
    R_policy offload_policy
  | R_lookup lookup_result
  | R_job transfer_job
  | R_none

datatype 's serving =
    Served 's
  | Ask parent_call "parent_reply \<Rightarrow> 's serving"

record 's tier_ops =
  tier_medium :: "medium option"
  tier_locality :: "locality option"
  tier_get_finished :: "'s \<Rightarrow> job_result list \<times> 's"
  tier_lookup :: "offload_key \<Rightarrow> req_context \<Rightarrow> 's \<Rightarrow> lookup_result \<times> 's"
  tier_submit_load :: "transfer_job \<Rightarrow> 's \<Rightarrow> 's"
  tier_submit_store :: "transfer_job \<Rightarrow> 's \<Rightarrow> 's"
  tier_touch :: "offload_key list \<Rightarrow> 's \<Rightarrow> 's"
  tier_new_request :: "req_context \<Rightarrow> 's \<Rightarrow> offload_policy \<times> 's"
  tier_request_finished :: "req_context \<Rightarrow> 's \<Rightarrow> 's"
  tier_serve :: "'s \<Rightarrow> 's serving"
  tier_schedule_end :: "schedule_end_context \<Rightarrow> 's \<Rightarrow> 's"
  tier_has_pending :: "'s \<Rightarrow> bool"
  tier_take_events :: "'s \<Rightarrow> offloading_event list \<times> 's"
  tier_drain :: "'s \<Rightarrow> 's"
  tier_get_stats :: "'s \<Rightarrow> stats option \<times> 's"

record ('p, 's) tiering =
  primary :: "'p manager"
  tiers :: "('s tier_ops \<times> 's) list"
  job_counter :: job_id
  jobs :: "(job_id, transfer_job \<times> nat) odict"
  pending_loads :: "(nat, (string, pending_promotion) odict) odict"
  processed_this_step :: bool
  promotion_ttl :: rat
  promotion_fail_ttl :: rat
  job_started_at :: "(job_id, rat) odict"
  promotion_failures :: "(offload_key, rat) odict"
  retracted_ids :: "job_id list"
  drained_retracted :: "(job_id, rat) odict"
  store_ttl :: rat
  store_deadline :: "(offload_key, rat) odict"
  store_owner :: "(offload_key, req_context \<times> job_id) odict"
  store_retracted_total :: int
  store_last_log :: rat
  req_states :: "(string, request_state) odict"

section \<open>Construction\<close>

text \<open>\<open>parse\<close> is the built-in \<open>float\<close> on finite decimals, \<open>None\<close> where it raises.\<close>

definition env_float :: "(string \<Rightarrow> rat option) \<Rightarrow> string option \<Rightarrow> rat \<Rightarrow> rat" where
  "env_float parse env default_value =
     (case env of
        None \<Rightarrow> if default_value < 0 then 0 else default_value
      | Some s \<Rightarrow> (case parse s of None \<Rightarrow> default_value | Some v \<Rightarrow> if v < 0 then 0 else v))"

definition tiering_init :: "(string \<Rightarrow> rat option) \<Rightarrow> string option \<Rightarrow> string option \<Rightarrow> string option \<Rightarrow>
    'p manager \<Rightarrow> ('s tier_ops \<times> 's) list \<Rightarrow> ('p, 's) tiering" where
  "tiering_init parse env_ttl env_fail_ttl env_store_ttl prim secondary =
     \<lparr>primary = prim, tiers = secondary, job_counter = 0, jobs = [], pending_loads = [],
      processed_this_step = False, promotion_ttl = env_float parse env_ttl 30,
      promotion_fail_ttl = env_float parse env_fail_ttl 10,
      job_started_at = [], promotion_failures = [], retracted_ids = [], drained_retracted = [],
      store_ttl = env_float parse env_store_ttl 30, store_deadline = [], store_owner = [],
      store_retracted_total = 0, store_last_log = 0, req_states = []\<rparr>"

section \<open>Calls to the tiers\<close>

definition call_tier :: "nat \<Rightarrow> ('s tier_ops \<Rightarrow> 's \<Rightarrow> 'a \<times> 's) \<Rightarrow> ('p, 's) tiering \<Rightarrow>
    (('p, 's) tiering \<times> 'a) res" where
  "call_tier i f t =
     (if i < length (tiers t)
      then let (a, s) = f (fst (tiers t ! i)) (snd (tiers t ! i))
           in Inr (t\<lparr>tiers := (tiers t)[i := (fst (tiers t ! i), s)]\<rparr>, a)
      else Inl IndexError)"

definition tell_tier :: "nat \<Rightarrow> ('s tier_ops \<Rightarrow> 's \<Rightarrow> 's) \<Rightarrow> ('p, 's) tiering \<Rightarrow>
    ('p, 's) tiering res" where
  "tell_tier i f t = bindE (call_tier i (\<lambda>ops s. ((), f ops s)) t) (\<lambda>(t, _). Inr t)"

definition tell_all :: "('s tier_ops \<Rightarrow> 's \<Rightarrow> 's) \<Rightarrow> ('p, 's) tiering \<Rightarrow> ('p, 's) tiering" where
  "tell_all f t = t\<lparr>tiers := map (\<lambda>(ops, s). (ops, f ops s)) (tiers t)\<rparr>"

definition on_primary :: "('p manager \<Rightarrow> 'p manager res) \<Rightarrow> ('p, 's) tiering \<Rightarrow>
    ('p, 's) tiering res" where
  "on_primary f t = bindE (f (primary t)) (\<lambda>m. Inr (t\<lparr>primary := m\<rparr>))"

section \<open>Jobs\<close>

definition next_job_id :: "('p, 's) tiering \<Rightarrow> ('p, 's) tiering \<times> job_id" where
  "next_job_id t = (t\<lparr>job_counter := job_counter t + 1\<rparr>, job_counter t)"

definition register_job :: "rat \<Rightarrow> transfer_job \<Rightarrow> nat \<Rightarrow> ('p, 's) tiering \<Rightarrow> ('p, 's) tiering" where
  "register_job now job i t =
     t\<lparr>jobs := AList.update (tj_id job) (job, i) (jobs t),
       job_started_at := AList.update (tj_id job) now (job_started_at t)\<rparr>"

definition pop_job :: "job_id \<Rightarrow> ('p, 's) tiering \<Rightarrow> ('p, 's) tiering \<times> (transfer_job \<times> nat) option" where
  "pop_job j t =
     (t\<lparr>job_started_at := AList.delete j (job_started_at t), jobs := AList.delete j (jobs t)\<rparr>,
      map_of (jobs t) j)"

definition suppress_failures :: "rat \<Rightarrow> offload_key list \<Rightarrow> ('p, 's) tiering \<Rightarrow> ('p, 's) tiering" where
  "suppress_failures now keys t =
     (if promotion_fail_ttl t \<le> 0 then t
      else t\<lparr>promotion_failures :=
        fold (\<lambda>k. AList.update k (now + promotion_fail_ttl t)) keys (promotion_failures t)\<rparr>)"

text \<open>
  The keys of \<open>_complete_promotion\<close> that succeeded and failed. The failed ones are a Python set
  in the partial case; the model lists them in the order of the job's keys.
\<close>

definition promotion_outcome :: "transfer_job \<Rightarrow> job_result \<Rightarrow>
    (offload_key list \<times> offload_key list) res" where
  "promotion_outcome job cj =
     (if jr_success cj then Inr (tj_keys job, [])
      else case jr_successful_keys cj of
        Some (k # ks) \<Rightarrow>
          assertE (set (k # ks) \<subseteq> set (tj_keys job))
            (Inr (k # ks, remdups (filter (\<lambda>j. j \<notin> set (k # ks)) (tj_keys job))))
      | _ \<Rightarrow> Inr ([], tj_keys job))"

definition complete_promotion :: "'p policy_ops \<Rightarrow> rat \<Rightarrow> transfer_job \<Rightarrow> job_result \<Rightarrow>
    ('p, 's) tiering \<Rightarrow> ('p, 's) tiering res" where
  "complete_promotion P now job cj t =
     bindE (promotion_outcome job cj) (\<lambda>(good, bad).
     bindE (if good = [] then Inr t else on_primary (cpu_complete_store P good True) t) (\<lambda>t.
     bindE (if bad = [] then Inr t else on_primary (cpu_complete_store P bad False) t) (\<lambda>t.
       let t = t\<lparr>promotion_failures := fold AList.delete good (promotion_failures t)\<rparr>
       in Inr (if bad \<noteq> [] \<and> promotion_fail_ttl t > 0 then suppress_failures now bad t else t))))"

section \<open>Polling\<close>

definition finished_one :: "'p policy_ops \<Rightarrow> rat \<Rightarrow> nat \<Rightarrow> job_result \<Rightarrow> ('p, 's) tiering \<Rightarrow>
    ('p, 's) tiering res" where
  "finished_one P now i cj t =
     (let j = jr_id cj in
      if j \<in> set (retracted_ids t) \<or> od_mem j (drained_retracted t)
      then Inr (t\<lparr>retracted_ids := removeAll j (retracted_ids t),
                  drained_retracted := AList.delete j (drained_retracted t)\<rparr>)
      else let (t, found) = pop_job j t in
        case found of
          None \<Rightarrow> Inl AssertionError
        | Some (job, idx) \<Rightarrow>
            assertE (idx = i)
              (if tj_promotion job then complete_promotion P now job cj t
               else on_primary (cpu_complete_load P (tj_keys job)) t))"

definition poll_tier :: "'p policy_ops \<Rightarrow> rat \<Rightarrow> nat \<Rightarrow> ('p, 's) tiering \<Rightarrow> ('p, 's) tiering res" where
  "poll_tier P now i t =
     bindE (call_tier i tier_get_finished t) (\<lambda>(t, done).
       foldE (finished_one P now i) done t)"

text \<open>
  \<open>_expire_stale_promotions\<close>. The scan reads the job table once; each expired job is dropped
  from it, its id is retracted and its reservation freed.
\<close>

definition stale_promotions :: "rat \<Rightarrow> ('p, 's) tiering \<Rightarrow> job_id list" where
  "stale_promotions now t =
     map fst (filter (\<lambda>(j, (job, _)). tj_promotion job \<and>
       (case map_of (job_started_at t) j of
          None \<Rightarrow> False | Some started \<Rightarrow> now - started > promotion_ttl t)) (jobs t))"

definition retract_promotion :: "'p policy_ops \<Rightarrow> rat \<Rightarrow> job_id \<Rightarrow> ('p, 's) tiering \<Rightarrow>
    ('p, 's) tiering res" where
  "retract_promotion P now j t =
     (let (t, found) = pop_job j (t\<lparr>retracted_ids := List.insert j (retracted_ids t)\<rparr>) in
      case found of
        None \<Rightarrow> Inr t
      | Some (job, _) \<Rightarrow>
          bindE (on_primary (cpu_complete_store P (tj_keys job) False) t) (\<lambda>t.
            Inr (suppress_failures now (tj_keys job) t)))"

definition expire_promotions :: "'p policy_ops \<Rightarrow> rat \<Rightarrow> ('p, 's) tiering \<Rightarrow> ('p, 's) tiering res" where
  "expire_promotions P now t =
     (if promotion_ttl t \<le> 0 then Inr t
      else foldE (retract_promotion P now) (stale_promotions now t) t)"

text \<open>
  \<open>_expire_stale_store_pends\<close>: the expired keys, grouped by their store batch in the order of
  first occurrence.
\<close>

definition group_expired :: "(offload_key, req_context \<times> job_id) odict \<Rightarrow> offload_key \<Rightarrow>
    (job_id, offload_key list) odict \<Rightarrow> (job_id, offload_key list) odict" where
  "group_expired owner k groups =
     (case map_of owner k of
        None \<Rightarrow> groups
      | Some (_, batch) \<Rightarrow>
          AList.update batch ((case map_of groups batch of None \<Rightarrow> [] | Some ks \<Rightarrow> ks) @ [k]) groups)"

definition retract_store :: "'p policy_ops \<Rightarrow> job_id \<times> offload_key list \<Rightarrow> ('p, 's) tiering \<Rightarrow>
    ('p, 's) tiering res" where
  "retract_store P g t =
     bindE (on_primary (cpu_complete_store P (snd g) False)
              (t\<lparr>retracted_ids := List.insert (fst g) (retracted_ids t)\<rparr>)) (\<lambda>t.
       Inr (t\<lparr>store_retracted_total := store_retracted_total t + 1\<rparr>))"

definition expire_store_pends :: "'p policy_ops \<Rightarrow> rat \<Rightarrow> ('p, 's) tiering \<Rightarrow> ('p, 's) tiering res" where
  "expire_store_pends P now t =
     (if store_ttl t \<le> 0 then Inr t
      else let expired = map fst (filter (\<lambda>(_, deadline). now > deadline) (store_deadline t)) in
        if expired = [] then Inr t
        else let groups = fold (group_expired (store_owner t)) expired [] in
          bindE (foldE (retract_store P) groups
            (t\<lparr>store_deadline := od_minus (store_deadline t) (set expired),
               store_owner := od_minus (store_owner t) (set expired)\<rparr>)) (\<lambda>t.
            Inr (if now - store_last_log t \<ge> 60 then t\<lparr>store_last_log := now\<rparr> else t)))"

definition process_finished :: "'p policy_ops \<Rightarrow> rat \<Rightarrow> ('p, 's) tiering \<Rightarrow> ('p, 's) tiering res" where
  "process_finished P now t =
     bindE (foldE (poll_tier P now) [0..<length (tiers t)] t) (\<lambda>t.
     bindE (expire_promotions P now t) (expire_store_pends P now))"

definition maybe_process :: "'p policy_ops \<Rightarrow> rat \<Rightarrow> ('p, 's) tiering \<Rightarrow> ('p, 's) tiering res" where
  "maybe_process P now t =
     (if processed_this_step t then Inr t
      else process_finished P now (t\<lparr>processed_this_step := True\<rparr>))"

definition drain_flush_job_ids :: "rat \<Rightarrow> ('p, 's) tiering \<Rightarrow> ('p, 's) tiering \<times> job_id list" where
  "drain_flush_job_ids now t =
     (let retracted = retracted_ids t;
          drained = fold (\<lambda>j. AList.update j (now + 600)) retracted (drained_retracted t);
          drained = filter (\<lambda>(_, deadline). \<not> deadline < now) drained
      in (t\<lparr>retracted_ids := [], drained_retracted := drained\<rparr>, retracted))"

end
