(* ===== verification/Tiering_Ops.thy ===== *)
theory Tiering_Ops
  imports Tiering_Manager
begin

text \<open>
  The operations that \<open>TieringOffloadingManager\<close> offers to the connector and to its tiers:
  lookup with staged promotion, load, store with cascading, the request lifecycle, the
  end-of-step hook, the reset.
\<close>

section \<open>Lookup and promotion\<close>

definition initiate_promotion :: "'p policy_ops \<Rightarrow> rat \<Rightarrow> nat \<Rightarrow> offload_key \<Rightarrow> req_context \<Rightarrow>
    ('p, 's) tiering \<Rightarrow> (('p, 's) tiering \<times> bool) res" where
  "initiate_promotion P now i key req t =
     bindE (cpu_prepare_store P now [key] False (primary t)) (\<lambda>(m, out).
       let t = t\<lparr>primary := m\<rparr> in
       case out of
         None \<Rightarrow> Inr (t, False)
       | Some out \<Rightarrow>
           (let pend = get_or i [] (pending_loads t);
                entry = get_or (req_id req) \<lparr>pp_req = req, pp_keys = [], pp_block_ids = []\<rparr> pend;
                entry = entry\<lparr>pp_keys := pp_keys entry @ keys_to_store out,
                              pp_block_ids := pp_block_ids entry @ store_spec out\<rparr>
            in Inr (t\<lparr>pending_loads :=
                       AList.update i (AList.update (req_id req) entry pend) (pending_loads t)\<rparr>, True)))"

text \<open>A hit of a tier on a key in the negative cache counts as a miss until the entry expires.\<close>

definition negative_cached :: "rat \<Rightarrow> offload_key \<Rightarrow> lookup_result \<Rightarrow> ('p, 's) tiering \<Rightarrow>
    ('p, 's) tiering \<times> lookup_result" where
  "negative_cached now key r t =
     (if r = HIT then
        (case map_of (promotion_failures t) key of
           None \<Rightarrow> (t, r)
         | Some expiry \<Rightarrow>
             if expiry > now then (t, MISS)
             else (t\<lparr>promotion_failures := AList.delete key (promotion_failures t)\<rparr>, r))
      else (t, r))"

text \<open>The loop over the secondary tiers, from tier \<open>i\<close> on, \<open>n\<close> tiers to go.\<close>

fun scan_tiers :: "'p policy_ops \<Rightarrow> rat \<Rightarrow> offload_key \<Rightarrow> req_context \<Rightarrow> nat option \<Rightarrow> bool \<Rightarrow>
    nat list \<Rightarrow> ('p, 's) tiering \<Rightarrow> (('p, 's) tiering \<times> lookup_result) res" where
  "scan_tiers P now key req excl any_retry [] t = Inr (t, if any_retry then RETRY else MISS)"
| "scan_tiers P now key req excl any_retry (i # is) t =
     (if Some i = excl \<or>
         \<not> (i < length (tiers t) \<longrightarrow> allows (load_tier_filter req)
              (tier_medium (fst (tiers t ! i))) (tier_locality (fst (tiers t ! i))))
      then scan_tiers P now key req excl any_retry is t
      else bindE (call_tier i (\<lambda>ops. tier_lookup ops key req) t) (\<lambda>(t, r).
        let (t, r) = negative_cached now key r t in
        if r = HIT then
          bindE (initiate_promotion P now i key req t) (\<lambda>(t, promoted).
            Inr (t, if promoted then HIT_PENDING else MISS))
        else scan_tiers P now key req excl (any_retry \<or> r = RETRY) is t))"

definition tiering_lookup :: "'p policy_ops \<Rightarrow> rat \<Rightarrow> offload_key \<Rightarrow> req_context \<Rightarrow> nat option \<Rightarrow>
    ('p, 's) tiering \<Rightarrow> (('p, 's) tiering \<times> lookup_result) res" where
  "tiering_lookup P now key req excl t =
     bindE (maybe_process P now t) (\<lambda>t.
     bindE (cpu_lookup P key (primary t)) (\<lambda>(m, r).
       let t = t\<lparr>primary := m\<rparr> in
       if r = HIT then Inr (t, HIT)
       else if r = HIT_PENDING then Inr (t, HIT_PENDING)
       else scan_tiers P now key req excl False [0..<length (tiers t)] t))"

text \<open>One batched job per tier and request.\<close>

definition flush_entry :: "rat \<Rightarrow> nat \<Rightarrow> pending_promotion \<Rightarrow> ('p, 's) tiering \<Rightarrow>
    ('p, 's) tiering res" where
  "flush_entry now i entry t =
     (let (t, j) = next_job_id t;
          job = \<lparr>tj_id = j, tj_keys = pp_keys entry, tj_block_ids = pp_block_ids entry,
                 tj_promotion = True, tj_req = pp_req entry\<rparr>
      in tell_tier i (\<lambda>ops. tier_submit_load ops job) (register_job now job i t))"

definition flush_promotions :: "rat \<Rightarrow> ('p, 's) tiering \<Rightarrow> ('p, 's) tiering res" where
  "flush_promotions now t =
     bindE (foldE (\<lambda>(i, by_ctx). foldE (\<lambda>(_, entry). flush_entry now i entry) by_ctx)
              (pending_loads t) t) (\<lambda>t.
       Inr (t\<lparr>pending_loads := []\<rparr>))"

section \<open>Load and touch\<close>

definition tiering_prepare_load :: "'p policy_ops \<Rightarrow> offload_key list \<Rightarrow> ('p, 's) tiering \<Rightarrow>
    (('p, 's) tiering \<times> int list) res" where
  "tiering_prepare_load P keys t =
     bindE (cpu_prepare_load P keys (primary t)) (\<lambda>(m, ids). Inr (t\<lparr>primary := m\<rparr>, ids))"

definition tiering_touch :: "'p policy_ops \<Rightarrow> offload_key list \<Rightarrow> ('p, 's) tiering \<Rightarrow>
    ('p, 's) tiering" where
  "tiering_touch P keys t =
     tell_all (\<lambda>ops. tier_touch ops keys) (t\<lparr>primary := cpu_touch P keys (primary t)\<rparr>)"

definition tiering_complete_load :: "'p policy_ops \<Rightarrow> offload_key list \<Rightarrow> ('p, 's) tiering \<Rightarrow>
    ('p, 's) tiering res" where
  "tiering_complete_load P keys = on_primary (cpu_complete_load P keys)"

section \<open>Store\<close>

definition create_store_job :: "'p policy_ops \<Rightarrow> rat \<Rightarrow> offload_key list \<Rightarrow> req_context \<Rightarrow> nat \<Rightarrow>
    ('p, 's) tiering \<Rightarrow> (('p, 's) tiering \<times> transfer_job) res" where
  "create_store_job P now keys req i t =
     bindE (cpu_prepare_load P keys (primary t)) (\<lambda>(m, ids).
       let (t, j) = next_job_id (t\<lparr>primary := m\<rparr>);
           job = \<lparr>tj_id = j, tj_keys = keys, tj_block_ids = ids, tj_promotion = False, tj_req = req\<rparr>
       in Inr (register_job now job i t, job))"

definition cascade_to :: "'p policy_ops \<Rightarrow> rat \<Rightarrow> offload_key list \<Rightarrow> req_context \<Rightarrow> nat \<Rightarrow>
    ('p, 's) tiering \<Rightarrow> ('p, 's) tiering res" where
  "cascade_to P now keys req i t =
     bindE (create_store_job P now keys req i t) (\<lambda>(t, job).
       tell_tier i (\<lambda>ops. tier_submit_store ops job) t)"

text \<open>The lookups of the filter go through the primary tier's counter.\<close>

definition ready_one :: "'p policy_ops \<Rightarrow> offload_key \<Rightarrow> 'p manager \<times> offload_key list \<Rightarrow>
    ('p manager \<times> offload_key list) res" where
  "ready_one P k st =
     bindE (cpu_lookup P k (fst st)) (\<lambda>(m, r). Inr (m, if r = HIT then snd st @ [k] else snd st))"

definition cascade_existing :: "'p policy_ops \<Rightarrow> rat \<Rightarrow> offload_key list \<Rightarrow> req_context \<Rightarrow> nat list \<Rightarrow>
    ('p, 's) tiering \<Rightarrow> ('p, 's) tiering res" where
  "cascade_existing P now keys req level_tiers t =
     bindE (foldE (ready_one P) keys (primary t, [])) (\<lambda>(m, ready).
       let t = t\<lparr>primary := m\<rparr> in
       if ready = [] then Inr t
       else foldE (cascade_to P now ready req) level_tiers t)"

definition arm_store_ttl :: "rat \<Rightarrow> offload_key list \<Rightarrow> req_context \<Rightarrow> ('p, 's) tiering \<Rightarrow>
    ('p, 's) tiering" where
  "arm_store_ttl now keys req t =
     (if store_ttl t > 0 then
        (let deadline = now + store_ttl t; (t, batch) = next_job_id t
         in t\<lparr>store_deadline := fold (\<lambda>k. AList.update k deadline) keys (store_deadline t),
              store_owner := fold (\<lambda>k. AList.update k (req, batch)) keys (store_owner t)\<rparr>)
      else t)"

definition tiering_prepare_store :: "'p policy_ops \<Rightarrow> rat \<Rightarrow> offload_key list \<Rightarrow> req_context \<Rightarrow>
    ('p, 's) tiering \<Rightarrow> (('p, 's) tiering \<times> prepare_store_output option) res" where
  "tiering_prepare_store P now keys req t =
     bindE (maybe_process P now t) (\<lambda>t.
     bindE (cpu_prepare_store P now keys False (primary t)) (\<lambda>(m, out).
       let t = t\<lparr>primary := m\<rparr> in
       case out of
         None \<Rightarrow> Inr (t, None)
       | Some out \<Rightarrow>
           bindE (od_get_item (req_id req) (req_states t)) (\<lambda>state.
             let state = (if keys_to_store out \<noteq> []
                          then state\<lparr>rs_pending_stores := rs_pending_stores state + 1\<rparr> else state);
                 t = t\<lparr>req_states := AList.update (req_id req) state (req_states t)\<rparr>;
                 t = (if keys_to_store out \<noteq> [] then arm_store_ttl now (keys_to_store out) req t else t)
             in case rs_request_level state of
                  Some (i # is) \<Rightarrow>
                    (let existing = filter (\<lambda>k. k \<notin> set (keys_to_store out)) keys
                     in bindE (if existing = [] then Inr t
                               else cascade_existing P now existing req (i # is) t)
                          (\<lambda>t. Inr (t, Some out)))
                | _ \<Rightarrow> Inr (t, Some out))))"

text \<open>Finalization is delayed until no prepared store of the request is open.\<close>

definition tell_finished :: "req_context \<Rightarrow> nat option \<Rightarrow> ('p, 's) tiering \<Rightarrow> ('p, 's) tiering res" where
  "tell_finished req excl t =
     foldE (\<lambda>i t. if Some i = excl then Inr t
                  else tell_tier i (\<lambda>ops. tier_request_finished ops req) t)
       [0..<length (tiers t)] t"

definition maybe_finalize :: "string \<Rightarrow> nat option \<Rightarrow> ('p, 's) tiering \<Rightarrow> ('p, 's) tiering res" where
  "maybe_finalize rid excl t =
     bindE (od_get_item rid (req_states t)) (\<lambda>state.
       if \<not> rs_finished state \<or> rs_pending_stores state \<noteq> 0 then Inr t
       else bindE (tell_finished (rs_req state) excl t) (\<lambda>t.
         Inr (t\<lparr>req_states := AList.delete rid (req_states t)\<rparr>)))"

definition disarm_one :: "offload_key \<Rightarrow> ('p, 's) tiering \<Rightarrow> ('p, 's) tiering" where
  "disarm_one k t =
     (if od_mem k (store_deadline t)
      then t\<lparr>store_deadline := AList.delete k (store_deadline t),
             store_owner := AList.delete k (store_owner t)\<rparr>
      else t)"

definition tiering_complete_store :: "'p policy_ops \<Rightarrow> rat \<Rightarrow> offload_key list \<Rightarrow> req_context \<Rightarrow> bool \<Rightarrow>
    ('p, 's) tiering \<Rightarrow> ('p, 's) tiering res" where
  "tiering_complete_store P now keys req success t =
     bindE (on_primary (cpu_complete_store P keys success) t) (\<lambda>t.
       let t = fold disarm_one keys t in
     bindE (if success then foldE (cascade_to P now keys req) [0..<length (tiers t)] t else Inr t) (\<lambda>t.
     bindE (od_get_item (req_id req) (req_states t)) (\<lambda>state.
       assertE (rs_pending_stores state > 0)
         (maybe_finalize (req_id req) None
            (t\<lparr>req_states := AList.update (req_id req)
                 (state\<lparr>rs_pending_stores := rs_pending_stores state - 1\<rparr>) (req_states t)\<rparr>)))))"

section \<open>Request lifecycle\<close>

definition ask_policy :: "req_context \<Rightarrow> nat option \<Rightarrow> nat \<Rightarrow> ('p, 's) tiering \<times> nat list \<Rightarrow>
    (('p, 's) tiering \<times> nat list) res" where
  "ask_policy req excl i st =
     (if Some i = excl then Inr st
      else bindE (call_tier i (\<lambda>ops. tier_new_request ops req) (fst st)) (\<lambda>(t, pol).
        Inr (t, if pol = REQUEST_LEVEL then snd st @ [i] else snd st)))"

definition tiering_new_request :: "req_context \<Rightarrow> nat option \<Rightarrow> ('p, 's) tiering \<Rightarrow>
    (('p, 's) tiering \<times> offload_policy) res" where
  "tiering_new_request req excl t =
     bindE (foldE (ask_policy req excl) [0..<length (tiers t)] (t, [])) (\<lambda>(t, level).
       let state = \<lparr>rs_req = req, rs_pending_stores = 0, rs_finished = False,
                    rs_request_level = (if level = [] then None else Some level)\<rparr>
       in Inr (t\<lparr>req_states := AList.update (req_id req) state (req_states t)\<rparr>,
               if level = [] then BLOCK_LEVEL else REQUEST_LEVEL))"

definition tiering_request_finished :: "req_context \<Rightarrow> nat option \<Rightarrow> ('p, 's) tiering \<Rightarrow>
    ('p, 's) tiering res" where
  "tiering_request_finished req excl t =
     bindE (od_get_item (req_id req) (req_states t)) (\<lambda>state.
       maybe_finalize (req_id req) excl
         (t\<lparr>req_states := AList.update (req_id req) (state\<lparr>rs_finished := True\<rparr>) (req_states t)\<rparr>))"

section \<open>End of step\<close>

text \<open>The parent's side of the dialogue; \<open>i\<close> is the tier that asks, excluded from its own calls.\<close>

fun parent_answer :: "'p policy_ops \<Rightarrow> rat \<Rightarrow> nat \<Rightarrow> parent_call \<Rightarrow> ('p, 's) tiering \<Rightarrow>
    (('p, 's) tiering \<times> parent_reply) res" where
  "parent_answer P now i (P_new_request req) t =
     bindE (tiering_new_request req (Some i) t) (\<lambda>(t, pol). Inr (t, R_policy pol))"
| "parent_answer P now i (P_lookup key req) t =
     bindE (tiering_lookup P now key req (Some i) t) (\<lambda>(t, r). Inr (t, R_lookup r))"
| "parent_answer P now i (P_store_job keys req) t =
     bindE (create_store_job P now keys req i t) (\<lambda>(t, job). Inr (t, R_job job))"
| "parent_answer P now i (P_request_finished req) t =
     bindE (tiering_request_finished req (Some i) t) (\<lambda>t. Inr (t, R_none))"

primrec serve :: "'p policy_ops \<Rightarrow> rat \<Rightarrow> nat \<Rightarrow> 's serving \<Rightarrow> ('p, 's) tiering \<Rightarrow>
    ('p, 's) tiering res" where
  "serve P now i (Served s) = (\<lambda>t. tell_tier i (\<lambda>_ _. s) t)"
| "serve P now i (Ask c k) = (\<lambda>t. bindE (parent_answer P now i c t) (\<lambda>(t, r). serve P now i (k r) t))"

definition serve_tier :: "'p policy_ops \<Rightarrow> rat \<Rightarrow> nat \<Rightarrow> ('p, 's) tiering \<Rightarrow> ('p, 's) tiering res" where
  "serve_tier P now i t =
     (if i < length (tiers t)
      then serve P now i (tier_serve (fst (tiers t ! i)) (snd (tiers t ! i))) t else Inl IndexError)"

definition tiering_schedule_end :: "'p policy_ops \<Rightarrow> rat \<Rightarrow> schedule_end_context \<Rightarrow>
    ('p, 's) tiering \<Rightarrow> ('p, 's) tiering res" where
  "tiering_schedule_end P now ctx t =
     bindE (maybe_process P now t) (\<lambda>t.
     bindE (foldE (serve_tier P now) [0..<length (tiers t)] t) (\<lambda>t.
     bindE (flush_promotions now (t\<lparr>processed_this_step := False\<rparr>)) (\<lambda>t.
       Inr (tell_all (\<lambda>ops. tier_schedule_end ops ctx) t))))"

definition tiering_has_pending :: "('p, 's) tiering \<Rightarrow> bool" where
  "tiering_has_pending t \<longleftrightarrow>
     jobs t \<noteq> [] \<or> list_ex (\<lambda>(ops, s). tier_has_pending ops s) (tiers t)"

definition take_tier_events :: "nat \<Rightarrow> ('p, 's) tiering \<times> offloading_event list \<Rightarrow>
    (('p, 's) tiering \<times> offloading_event list) res" where
  "take_tier_events i st =
     bindE (call_tier i tier_take_events (fst st)) (\<lambda>(t, evs). Inr (t, snd st @ evs))"

definition tiering_take_events :: "('p, 's) tiering \<Rightarrow>
    (('p, 's) tiering \<times> offloading_event list) res" where
  "tiering_take_events t =
     (let (m, evs) = cpu_take_events (primary t)
      in foldE take_tier_events [0..<length (tiers t)] (t\<lparr>primary := m\<rparr>, evs))"

section \<open>Reset and statistics\<close>

definition reset_request :: "string \<times> request_state \<Rightarrow> ('p, 's) tiering \<Rightarrow> ('p, 's) tiering res" where
  "reset_request rs t =
     (let t = t\<lparr>req_states := AList.update (fst rs) ((snd rs)\<lparr>rs_pending_stores := 0\<rparr>) (req_states t)\<rparr>
      in if rs_finished (snd rs) then tell_finished (rs_req (snd rs)) None t else Inr t)"

definition tiering_reset :: "'p policy_ops \<Rightarrow> rat \<Rightarrow> ('p, 's) tiering \<Rightarrow> ('p, 's) tiering res" where
  "tiering_reset P now t =
     bindE (process_finished P now (tell_all tier_drain t)) (\<lambda>t.
     assertE (jobs t = [])
      (bindE (foldE reset_request (req_states t)
               (t\<lparr>pending_loads := [], store_deadline := [], store_owner := []\<rparr>)) (\<lambda>t.
         Inr (t\<lparr>primary := cpu_reset_cache P (primary t),
                req_states := filter (\<lambda>(_, s). \<not> rs_finished s) (req_states t),
                processed_this_step := False\<rparr>))))"

text \<open>\<open>metrics\<close> is what the tracker's \<open>take_stats\<close> returns.\<close>

definition merge_stats :: "stats option \<Rightarrow> stats option \<Rightarrow> stats option res" where
  "merge_stats acc new =
     (case new of
        None \<Rightarrow> Inr acc
      | Some n \<Rightarrow> (case acc of None \<Rightarrow> Inr (Some n)
                 | Some a \<Rightarrow> bindE (aggregate a n) (\<lambda>s. Inr (Some s))))"

definition tier_stats_step :: "nat \<Rightarrow> ('p, 's) tiering \<times> stats option \<Rightarrow>
    (('p, 's) tiering \<times> stats option) res" where
  "tier_stats_step i st =
     bindE (call_tier i tier_get_stats (fst st)) (\<lambda>(t, new).
       bindE (case new of None \<Rightarrow> Inr (snd st)
              | Some n \<Rightarrow> if is_empty n then Inr (snd st) else merge_stats (snd st) (Some n))
         (\<lambda>acc. Inr (t, acc)))"

definition tiering_get_stats :: "stats option \<Rightarrow> ('p, 's) tiering \<Rightarrow>
    (('p, 's) tiering \<times> stats option) res" where
  "tiering_get_stats metrics t =
     bindE (cpu_get_stats (primary t)) (\<lambda>(m, s).
     bindE (merge_stats (if is_empty s then None else Some s) metrics) (\<lambda>acc.
       foldE tier_stats_step [0..<length (tiers t)] (t\<lparr>primary := m\<rparr>, acc)))"

end
