(* ===== verification/Tiering_Facts.thy ===== *)
theory Tiering_Facts
  imports Tiering_Ops CPU_Protocol
begin

text \<open>
  The invariant of the tiering manager and its preservation by every operation that returns:
  the primary tier keeps its own invariant, the job table and the registration times agree, job
  ids are fresh, a retracted id is never in the job table, and the two maps of pending stores
  have the same keys.
\<close>

section \<open>Invariant\<close>

definition jobs_inv :: "('p, 's) tiering \<Rightarrow> bool" where
  "jobs_inv t \<longleftrightarrow> od_ok (jobs t) \<and> od_ok (job_started_at t) \<and>
     fst ` set (job_started_at t) = fst ` set (jobs t) \<and>
     (\<forall>j \<in> fst ` set (jobs t) \<union> set (retracted_ids t) \<union> fst ` set (drained_retracted t).
        0 \<le> j \<and> j < job_counter t) \<and>
     fst ` set (jobs t) \<inter> (set (retracted_ids t) \<union> fst ` set (drained_retracted t)) = {} \<and>
     0 \<le> job_counter t"

definition batches :: "('p, 's) tiering \<Rightarrow> job_id set" where
  "batches t = (snd \<circ> snd) ` set (store_owner t)"

definition stores_inv :: "('p, 's) tiering \<Rightarrow> bool" where
  "stores_inv t \<longleftrightarrow> od_ok (store_deadline t) \<and> od_ok (store_owner t) \<and>
     fst ` set (store_owner t) = fst ` set (store_deadline t) \<and>
     (\<forall>b \<in> batches t. 0 \<le> b \<and> b < job_counter t \<and> b \<notin> fst ` set (jobs t))"

definition tiering_inv :: "'p policy_ops \<Rightarrow> ('p \<Rightarrow> bool) \<Rightarrow> ('p, 's) tiering \<Rightarrow> bool" where
  "tiering_inv P pinv t \<longleftrightarrow> mgr_inv P pinv (primary t) \<and> jobs_inv t \<and> stores_inv t"

definition same_jobs :: "('p, 's) tiering \<Rightarrow> ('p, 's) tiering \<Rightarrow> bool" where
  "same_jobs t t' \<longleftrightarrow> job_counter t' = job_counter t \<and> jobs t' = jobs t \<and>
     job_started_at t' = job_started_at t \<and> retracted_ids t' = retracted_ids t \<and>
     drained_retracted t' = drained_retracted t \<and> store_deadline t' = store_deadline t \<and>
     store_owner t' = store_owner t"

lemma tiering_inv_same:
  "tiering_inv P pinv t \<Longrightarrow> same_jobs t t' \<Longrightarrow> mgr_inv P pinv (primary t') \<Longrightarrow> tiering_inv P pinv t'"
  by (simp add: tiering_inv_def same_jobs_def jobs_inv_def stores_inv_def batches_def)

lemma same_jobs_simps [simp]:
  "same_jobs t t" "same_jobs t (t\<lparr>primary := m\<rparr>)" "same_jobs t (t\<lparr>tiers := ts\<rparr>)"
  "same_jobs t (t\<lparr>processed_this_step := b\<rparr>)" "same_jobs t (t\<lparr>pending_loads := p\<rparr>)"
  "same_jobs t (t\<lparr>promotion_failures := f\<rparr>)" "same_jobs t (t\<lparr>req_states := r\<rparr>)"
  by (simp_all add: same_jobs_def)

lemma same_jobs_trans: "same_jobs t t' \<Longrightarrow> same_jobs t' t'' \<Longrightarrow> same_jobs t t''"
  by (simp add: same_jobs_def)

lemma tiering_inv_upd:
  assumes "tiering_inv P pinv t"
  shows "tiering_inv P pinv (t\<lparr>tiers := ts\<rparr>)" and "tiering_inv P pinv (t\<lparr>processed_this_step := b\<rparr>)"
    and "tiering_inv P pinv (t\<lparr>pending_loads := pl\<rparr>)"
    and "tiering_inv P pinv (t\<lparr>promotion_failures := f\<rparr>)"
    and "tiering_inv P pinv (t\<lparr>req_states := rs\<rparr>)"
    and "mgr_inv P pinv m \<Longrightarrow> tiering_inv P pinv (t\<lparr>primary := m\<rparr>)"
  using assms by (simp_all add: tiering_inv_def jobs_inv_def stores_inv_def batches_def)

lemma call_tier_form:
  "call_tier i f t = Inr (t', a) \<Longrightarrow> \<exists>ts. t' = t\<lparr>tiers := ts\<rparr>"
  by (auto simp: call_tier_def Let_def split: if_splits prod.splits)

lemma tell_tier_form: "tell_tier i f t = Inr t' \<Longrightarrow> \<exists>ts. t' = t\<lparr>tiers := ts\<rparr>"
  by (auto simp: tell_tier_def res_simps dest!: call_tier_form)

lemma suppress_form: "\<exists>f. suppress_failures now ks t = t\<lparr>promotion_failures := f\<rparr>"
proof (cases "promotion_fail_ttl t \<le> 0")
  case True
  then have "suppress_failures now ks t = t\<lparr>promotion_failures := promotion_failures t\<rparr>"
    by (simp add: suppress_failures_def)
  then show ?thesis by blast
qed (auto simp: suppress_failures_def)

text \<open>Registering a fresh job and dropping a job.\<close>

lemma register_inv:
  assumes t: "tiering_inv P pinv t" and j: "tj_id job = job_counter t"
  shows "tiering_inv P pinv (register_job now job i (fst (next_job_id t)))"
proof -
  have fresh: "job_counter t \<notin> fst ` set (jobs t)" "job_counter t \<notin> set (retracted_ids t)"
    "job_counter t \<notin> fst ` set (drained_retracted t)" "job_counter t \<notin> batches t"
    using t by (auto simp: tiering_inv_def jobs_inv_def stores_inv_def)
  let ?t = "register_job now job i (fst (next_job_id t))"
  have "jobs_inv ?t"
    using t fresh j unfolding tiering_inv_def jobs_inv_def register_job_def next_job_id_def
    by (auto intro: less_imp_le)
  moreover have "stores_inv ?t"
    using t fresh j by (auto simp: tiering_inv_def stores_inv_def register_job_def next_job_id_def batches_def)
  moreover have "primary ?t = primary t" by (simp add: register_job_def next_job_id_def)
  ultimately show ?thesis using t by (simp add: tiering_inv_def)
qed

lemma pop_inv:
  assumes "tiering_inv P pinv t"
  shows "tiering_inv P pinv (fst (pop_job j t))"
  using assms by (auto simp: tiering_inv_def jobs_inv_def stores_inv_def pop_job_def batches_def)

text \<open>Forgetting retired ids, or moving them from one set to the other.\<close>

lemma retire_inv:
  assumes t: "tiering_inv P pinv t"
    and sub: "set r \<union> fst ` set d \<subseteq> set (retracted_ids t) \<union> fst ` set (drained_retracted t)"
  shows "tiering_inv P pinv (t\<lparr>retracted_ids := r, drained_retracted := d\<rparr>)"
proof -
  have j: "jobs_inv t" using t by (simp add: tiering_inv_def)
  note rest = j [unfolded jobs_inv_def, THEN conjunct2, THEN conjunct2, THEN conjunct2]
  from ball_Un_mono [OF rest [THEN conjunct1] sub]
    disjoint_Un_mono [OF rest [THEN conjunct2, THEN conjunct1] sub]
  have "jobs_inv (t\<lparr>retracted_ids := r, drained_retracted := d\<rparr>)"
    using j by (simp add: jobs_inv_def)
  then show ?thesis using t by (simp add: tiering_inv_def stores_inv_def batches_def)
qed

context cache_policy
begin

lemma complete_store_inv:
  assumes "mgr_inv P inv m"
  shows "\<exists>m'. cpu_complete_store P ks s m = Inr m' \<and> mgr_inv P inv m' \<and>
    bmap P m' = (if s then mark_ready ks (bmap P m) else drop_pending ks (bmap P m))"
proof (cases s)
  case True
  with complete_store_success [OF assms, of ks] show ?thesis by (metis (full_types))
next
  case False
  with complete_store_failure [OF assms, of ks] show ?thesis by (metis (full_types))
qed

lemma prepare_store_inv:
  assumes "mgr_inv P inv m" and "distinct ks" and "cpu_prepare_store P now ks b m = Inr (m', out)"
  shows "mgr_inv P inv m'"
  using assms(1,2)
  by (cases rule: prepare_store_cases [of m ks b now]) (use assms(3) in auto)

lemma lookup_inv:
  "mgr_inv P inv m \<Longrightarrow> cpu_lookup P k m = Inr (m', r) \<Longrightarrow>
   mgr_inv P inv m' \<and> r = block_result (bmap P m k) \<and> bmap P m' = bmap P m"
  using lookup_form [of k m m' r] pool_inv_same [of m m'] tomb_inv_cong [of m m']
  by (auto simp: mgr_inv_def)

lemma on_primary_store:
  assumes "tiering_inv P inv t"
  shows "\<exists>m. on_primary (cpu_complete_store P ks s) t = Inr (t\<lparr>primary := m\<rparr>) \<and>
    tiering_inv P inv (t\<lparr>primary := m\<rparr>) \<and>
    bmap P m = (if s then mark_ready ks (bmap P (primary t)) else drop_pending ks (bmap P (primary t)))"
proof -
  have "mgr_inv P inv (primary t)" using assms by (simp add: tiering_inv_def)
  from complete_store_inv [OF this, of ks s] obtain m where
    m: "cpu_complete_store P ks s (primary t) = Inr m" "mgr_inv P inv m"
    "bmap P m = (if s then mark_ready ks (bmap P (primary t)) else drop_pending ks (bmap P (primary t)))"
    by blast
  moreover have "tiering_inv P inv (t\<lparr>primary := m\<rparr>)"
    using assms m(2) by (auto intro: tiering_inv_same)
  ultimately show ?thesis by (auto simp: on_primary_def)
qed

lemma inv_primary: "tiering_inv P inv t \<Longrightarrow> mgr_inv P inv (primary t)"
  by (simp add: tiering_inv_def)

lemma suppress_inv: "tiering_inv P inv t \<Longrightarrow> tiering_inv P inv (suppress_failures now ks t)"
  using suppress_form [of now ks t] by (auto intro: tiering_inv_upd)

lemma complete_promotion_inv:
  assumes "tiering_inv P inv t" and "complete_promotion P now job cj t = Inr t'"
  shows "tiering_inv P inv t'"
proof -
  from assms(2) obtain good bad t1 t2 where
    t1: "(if good = [] then Inr t else on_primary (cpu_complete_store P good True) t) = Inr t1"
    and t2: "(if bad = [] then Inr t1 else on_primary (cpu_complete_store P bad False) t1) = Inr t2"
    and t': "t' = (let t = t2\<lparr>promotion_failures := fold AList.delete good (promotion_failures t2)\<rparr>
       in if bad \<noteq> [] \<and> promotion_fail_ttl t > 0 then suppress_failures now bad t else t)"
    by (auto simp: complete_promotion_def res_simps Let_def split: prod.splits)
  have "tiering_inv P inv t1"
    using t1 on_primary_store [OF assms(1), of good True] assms(1) by (auto split: if_splits)
  then have "tiering_inv P inv t2"
    using t2 on_primary_store [of t1 bad False] by (auto split: if_splits)
  then have "tiering_inv P inv (t2\<lparr>promotion_failures := f\<rparr>)" for f
    by (rule tiering_inv_upd)
  then show ?thesis unfolding t' Let_def by (auto intro: suppress_inv)
qed

lemma unload_one_inv:
  assumes "mgr_inv P inv m" and "unload_one P k m = Inr m'"
  shows "mgr_inv P inv m'"
proof -
  have pool: "pool_inv P inv m" and tomb: "tomb_inv m" using assms(1) by (simp_all add: mgr_inv_def)
  from assms(2) obtain b where b: "bmap P m k = Some b" "0 < ref_cnt b"
    by (auto simp: unload_one_def res_simps split: option.splits)
  from unload_one_ok [OF pool b] assms(2) have p: "pool_inv P inv m'" and "same_pool m m'" by auto
  then have "same_meta m m'" by (auto simp: same_pool_def same_meta_def)
  with p show ?thesis using same_meta_tomb [of m m'] tomb by (simp add: mgr_inv_def)
qed

lemma complete_load_inv:
  assumes "mgr_inv P inv m" and "cpu_complete_load P ks m = Inr m'"
  shows "mgr_inv P inv m'"
  using assms(2,1) unfolding cpu_complete_load_def by (rule foldE_inv) (rule unload_one_inv)

lemma finished_one_inv:
  assumes "tiering_inv P inv t" and "finished_one P now i cj t = Inr t'"
  shows "tiering_inv P inv t'"
proof (cases "jr_id cj \<in> set (retracted_ids t) \<or> od_mem (jr_id cj) (drained_retracted t)")
  case True
  with assms(2) have t': "t' = t\<lparr>retracted_ids := removeAll (jr_id cj) (retracted_ids t),
      drained_retracted := AList.delete (jr_id cj) (drained_retracted t)\<rparr>"
    by (simp add: finished_one_def Let_def)
  show ?thesis unfolding t' by (rule retire_inv [OF assms(1)]) auto
next
  case False
  obtain t1 found where p: "pop_job (jr_id cj) t = (t1, found)" by (cases "pop_job (jr_id cj) t")
  have i1: "tiering_inv P inv t1" using pop_inv [OF assms(1), of "jr_id cj"] p by simp
  from False assms(2) p obtain job where
    r: "(if tj_promotion job then complete_promotion P now job cj t1
      else on_primary (cpu_complete_load P (tj_keys job)) t1) = Inr t'"
    by (auto simp: finished_one_def Let_def res_simps split: option.splits)
  show ?thesis
  proof (cases "tj_promotion job")
    case True
    with r complete_promotion_inv [OF i1] show ?thesis by simp
  next
    case False
    with r obtain m where m: "cpu_complete_load P (tj_keys job) (primary t1) = Inr m"
      and t': "t' = t1\<lparr>primary := m\<rparr>" by (auto simp: on_primary_def res_simps)
    from complete_load_inv [OF inv_primary [OF i1] m] show ?thesis
      unfolding t' by (rule tiering_inv_upd(6) [OF i1])
  qed
qed

lemma poll_tier_inv:
  assumes "tiering_inv P inv t" and "poll_tier P now i t = Inr t'"
  shows "tiering_inv P inv t'"
proof -
  from assms(2) obtain t1 fin where t1: "call_tier i tier_get_finished t = Inr (t1, fin)"
    and f: "foldE (finished_one P now i) fin t1 = Inr t'"
    by (auto simp: poll_tier_def res_simps)
  from call_tier_form [OF t1] assms(1) have "tiering_inv P inv t1"
    by (auto intro: tiering_inv_upd)
  with f show ?thesis by (rule foldE_inv) (rule finished_one_inv)
qed

end

end
