(* ===== verification/Tiering_Poll.thy ===== *)
theory Tiering_Poll
  imports Tiering_Facts
begin

text \<open>
  Polling, the two retraction scans and the lookup: preservation of the invariant, and what is
  known after each.
\<close>

lemma disarm_inv:
  assumes t: "tiering_inv P pinv t"
  shows "tiering_inv P pinv (t\<lparr>store_deadline := od_minus (store_deadline t) A,
    store_owner := od_minus (store_owner t) A\<rparr>)"
proof -
  have "set (od_minus (store_owner t) A) \<subseteq> set (store_owner t)" by (auto simp: od_minus_def)
  then show ?thesis
    using t by (auto simp: tiering_inv_def jobs_inv_def stores_inv_def batches_def)
qed

lemma add_retracted_inv:
  assumes t: "tiering_inv P pinv t" and j: "0 \<le> j" "j < job_counter t" "j \<notin> fst ` set (jobs t)"
  shows "tiering_inv P pinv (t\<lparr>retracted_ids := List.insert j (retracted_ids t)\<rparr>)"
proof -
  have "jobs_inv t" using t by (simp add: tiering_inv_def)
  then have "jobs_inv (t\<lparr>retracted_ids := List.insert j (retracted_ids t)\<rparr>)"
    using j by (simp add: jobs_inv_def ball_Un)
  then show ?thesis using t by (simp add: tiering_inv_def stores_inv_def batches_def)
qed

lemma jobs_range: "tiering_inv P pinv t \<Longrightarrow> j \<in> fst ` set (jobs t) \<Longrightarrow> 0 \<le> j \<and> j < job_counter t"
  by (auto simp: tiering_inv_def jobs_inv_def)

lemma fold_update_same:
  "map_of (fold (\<lambda>k. AList.update k v) ks d) j = (if j \<in> set ks then Some v else map_of d j)"
  by (induction ks arbitrary: d) (auto simp: map_of_od_update)

lemma suppress_lookup:
  "map_of (promotion_failures (suppress_failures now ks t)) k =
    (if promotion_fail_ttl t > 0 \<and> k \<in> set ks then Some (now + promotion_fail_ttl t)
     else map_of (promotion_failures t) k)"
  by (simp add: suppress_failures_def fold_update_same)

text \<open>Everything but the primary tier, the negative cache, the job table and the retired ids.\<close>

definition same_rest :: "('p, 's) tiering \<Rightarrow> ('p, 's) tiering \<Rightarrow> bool" where
  "same_rest t t' \<longleftrightarrow> tiers t' = tiers t \<and> job_counter t' = job_counter t \<and>
     pending_loads t' = pending_loads t \<and> promotion_ttl t' = promotion_ttl t \<and>
     promotion_fail_ttl t' = promotion_fail_ttl t \<and> store_ttl t' = store_ttl t \<and>
     drained_retracted t' = drained_retracted t \<and> req_states t' = req_states t \<and>
     processed_this_step t' = processed_this_step t"

lemma same_rest_refl [simp]: "same_rest t t"
  by (simp add: same_rest_def)

lemma same_rest_trans: "same_rest t t' \<Longrightarrow> same_rest t' t'' \<Longrightarrow> same_rest t t''"
  by (simp add: same_rest_def)

lemma same_rest_suppress:
  "same_rest t (suppress_failures now ks t)"
  "primary (suppress_failures now ks t) = primary t" "jobs (suppress_failures now ks t) = jobs t"
  "job_started_at (suppress_failures now ks t) = job_started_at t"
  "retracted_ids (suppress_failures now ks t) = retracted_ids t"
  "store_deadline (suppress_failures now ks t) = store_deadline t"
  "store_owner (suppress_failures now ks t) = store_owner t"
  by (simp_all add: suppress_failures_def same_rest_def)

context cache_policy
begin

lemma retract_promotion_ok:
  assumes t: "tiering_inv P inv t" and j: "map_of (jobs t) j = Some (job, i)"
  obtains t' where "retract_promotion P now j t = Inr t'" "tiering_inv P inv t'" "same_rest t t'"
    "bmap P (primary t') = drop_pending (tj_keys job) (bmap P (primary t))"
    "jobs t' = AList.delete j (jobs t)" "job_started_at t' = AList.delete j (job_started_at t)"
    "retracted_ids t' = List.insert j (retracted_ids t)"
    "store_deadline t' = store_deadline t" "store_owner t' = store_owner t"
    "\<forall>k. map_of (promotion_failures t') k =
      (if promotion_fail_ttl t > 0 \<and> k \<in> set (tj_keys job) then Some (now + promotion_fail_ttl t)
       else map_of (promotion_failures t) k)"
proof -
  have jm: "j \<in> fst ` set (jobs t)" using j by (metis in_keys_iff)
  let ?t0 = "t\<lparr>job_started_at := AList.delete j (job_started_at t), jobs := AList.delete j (jobs t)\<rparr>"
  obtain t1 where t1: "t1 = t\<lparr>retracted_ids := List.insert j (retracted_ids t),
      job_started_at := AList.delete j (job_started_at t), jobs := AList.delete j (jobs t)\<rparr>" by blast
  have "tiering_inv P inv ?t0" using pop_inv [OF t, of j] by (simp add: pop_job_def)
  from add_retracted_inv [OF this, of j] jobs_range [OF t jm]
  have i: "tiering_inv P inv (?t0\<lparr>retracted_ids := List.insert j (retracted_ids t)\<rparr>)" by simp
  have i1: "tiering_inv P inv t1"
    by (rule tiering_inv_same [OF i]) (use inv_primary [OF i] in \<open>simp_all add: t1 same_jobs_def\<close>)
  from on_primary_store [OF i1, of "tj_keys job" False] obtain m where
    m: "on_primary (cpu_complete_store P (tj_keys job) False) t1 = Inr (t1\<lparr>primary := m\<rparr>)"
    "tiering_inv P inv (t1\<lparr>primary := m\<rparr>)"
    "bmap P m = drop_pending (tj_keys job) (bmap P (primary t1))" by auto
  let ?t' = "suppress_failures now (tj_keys job) (t1\<lparr>primary := m\<rparr>)"
  have "retract_promotion P now j t = Inr ?t'"
    using j m(1) t1 by (simp add: retract_promotion_def pop_job_def Let_def)
  moreover have "tiering_inv P inv ?t'" by (rule suppress_inv [OF m(2)])
  moreover have "same_rest t ?t'"
    using same_rest_suppress(1) [of "t1\<lparr>primary := m\<rparr>"] by (simp add: same_rest_def t1)
  moreover have "\<forall>k. map_of (promotion_failures ?t') k =
      (if promotion_fail_ttl t > 0 \<and> k \<in> set (tj_keys job) then Some (now + promotion_fail_ttl t)
       else map_of (promotion_failures t) k)"
    by (simp add: suppress_lookup t1)
  ultimately show thesis using m(3) by (intro that [of ?t']) (simp_all add: same_rest_suppress t1)
qed

text \<open>The ids of the stale promotions are keys of the job table; each is retracted once.\<close>

lemma retract_all_ok:
  assumes "tiering_inv P inv t" and "distinct js" and "set js \<subseteq> fst ` set (jobs t)"
  shows "\<exists>t'. foldE (retract_promotion P now) js t = Inr t' \<and> tiering_inv P inv t' \<and> same_rest t t' \<and>
    jobs t' = od_minus (jobs t) (set js) \<and> set (retracted_ids t') = set (retracted_ids t) \<union> set js \<and>
    store_deadline t' = store_deadline t \<and> store_owner t' = store_owner t \<and>
    (\<forall>k. bmap P (primary t') k = (if (\<exists>j \<in> set js. k \<in> set (tj_keys (fst (the (map_of (jobs t) j)))))
        \<and> pending (bmap P (primary t)) k then None else bmap P (primary t) k))"
  using assms
proof (induction js arbitrary: t)
  case Nil
  then show ?case by simp
next
  case (Cons j js)
  from Cons.prems(3) obtain job i where j: "map_of (jobs t) j = Some (job, i)"
    by (metis in_keys_iff list.set_intros(1) subsetD surj_pair)
  from retract_promotion_ok [OF Cons.prems(1) j] obtain t1 where
    t1: "retract_promotion P now j t = Inr t1" "tiering_inv P inv t1" "same_rest t t1"
    "bmap P (primary t1) = drop_pending (tj_keys job) (bmap P (primary t))"
    "jobs t1 = AList.delete j (jobs t)" "retracted_ids t1 = List.insert j (retracted_ids t)"
    "store_deadline t1 = store_deadline t" "store_owner t1 = store_owner t" by metis
  have "set js \<subseteq> fst ` set (jobs t1)" using Cons.prems(2,3) t1(5) by auto
  from Cons.IH [OF t1(2) _ this] Cons.prems(2) obtain t' where
    t': "foldE (retract_promotion P now) js t1 = Inr t'" "tiering_inv P inv t'" "same_rest t1 t'"
    "jobs t' = od_minus (jobs t1) (set js)" "set (retracted_ids t') = set (retracted_ids t1) \<union> set js"
    "store_deadline t' = store_deadline t1" "store_owner t' = store_owner t1"
    "\<forall>k. bmap P (primary t') k = (if (\<exists>j \<in> set js. k \<in> set (tj_keys (fst (the (map_of (jobs t1) j)))))
        \<and> pending (bmap P (primary t1)) k then None else bmap P (primary t1) k)" by auto
  have same: "map_of (jobs t1) i = map_of (jobs t) i" if "i \<in> set js" for i
    using that Cons.prems(2) t1(5) by (auto simp: map_of_od_delete)
  have "bmap P (primary t') k = (if (\<exists>i \<in> set (j # js). k \<in> set (tj_keys (fst (the (map_of (jobs t) i)))))
        \<and> pending (bmap P (primary t)) k then None else bmap P (primary t) k)" for k
  proof -
    have ex: "(\<exists>i \<in> set js. k \<in> set (tj_keys (fst (the (map_of (jobs t1) i))))) =
        (\<exists>i \<in> set js. k \<in> set (tj_keys (fst (the (map_of (jobs t) i)))))" using same by auto
    show ?thesis
      unfolding t'(8) [THEN spec, of k] ex t1(4) using j by (auto simp: drop_pending_def pending_def)
  qed
  moreover have "set (retracted_ids t') = set (retracted_ids t) \<union> set (j # js)"
    using t'(5) t1(6) by auto
  moreover have "jobs t' = od_minus (jobs t) (set (j # js))" using t'(4) t1(5) by simp
  ultimately show ?case
    using t1(1,7,8) t'(1,2,6,7) same_rest_trans [OF t1(3) t'(3)] by simp
qed

lemma expire_promotions_ok:
  assumes t: "tiering_inv P inv t"
  shows "\<exists>t'. expire_promotions P now t = Inr t' \<and> tiering_inv P inv t' \<and> same_rest t t' \<and>
    store_deadline t' = store_deadline t \<and> store_owner t' = store_owner t \<and>
    (promotion_ttl t > 0 \<longrightarrow> jobs t' = od_minus (jobs t) (set (stale_promotions now t)) \<and>
       set (retracted_ids t') = set (retracted_ids t) \<union> set (stale_promotions now t))"
proof (cases "promotion_ttl t \<le> 0")
  case True
  with t show ?thesis by (simp add: expire_promotions_def)
next
  case False
  have "od_ok (jobs t)" using t by (simp add: tiering_inv_def jobs_inv_def)
  then have "distinct (stale_promotions now t)" by (simp add: stale_promotions_def distinct_map_filter)
  moreover have "set (stale_promotions now t) \<subseteq> fst ` set (jobs t)"
    by (auto simp: stale_promotions_def)
  ultimately show ?thesis
    using retract_all_ok [OF t, of "stale_promotions now t" now] False
    by (auto simp: expire_promotions_def)
qed

section \<open>Pending stores\<close>

lemma retract_store_ok:
  assumes t: "tiering_inv P inv t" and b: "0 \<le> fst g" "fst g < job_counter t" "fst g \<notin> fst ` set (jobs t)"
  obtains t' where "retract_store P g t = Inr t'" "tiering_inv P inv t'" "same_rest t t'"
    "bmap P (primary t') = drop_pending (snd g) (bmap P (primary t))" "jobs t' = jobs t"
    "retracted_ids t' = List.insert (fst g) (retracted_ids t)"
    "store_deadline t' = store_deadline t" "store_owner t' = store_owner t"
    "job_started_at t' = job_started_at t"
proof -
  let ?t1 = "t\<lparr>retracted_ids := List.insert (fst g) (retracted_ids t)\<rparr>"
  have i1: "tiering_inv P inv ?t1" by (rule add_retracted_inv [OF t b])
  from on_primary_store [OF i1, of "snd g" False] obtain m where
    m: "on_primary (cpu_complete_store P (snd g) False) ?t1 = Inr (?t1\<lparr>primary := m\<rparr>)"
    "tiering_inv P inv (?t1\<lparr>primary := m\<rparr>)"
    "bmap P m = drop_pending (snd g) (bmap P (primary t))" by auto
  obtain t2 where t2: "t2 = ?t1\<lparr>primary := m\<rparr>" by blast
  let ?t' = "t2\<lparr>store_retracted_total := store_retracted_total t2 + 1\<rparr>"
  have "retract_store P g t = Inr ?t'"
    unfolding retract_store_def m(1) t2 [symmetric] by simp
  moreover have "tiering_inv P inv ?t'"
    by (rule tiering_inv_same [of _ _ t2]) (use m(2) in \<open>simp_all add: t2 same_jobs_def tiering_inv_def\<close>)
  ultimately show thesis using m(3) by (intro that [of ?t']) (simp_all add: same_rest_def t2)
qed

lemma drop_pending_append: "drop_pending (ks @ js) M = drop_pending js (drop_pending ks M)"
  by (auto simp: drop_pending_def pending_def fun_eq_iff)

lemma retract_stores_ok:
  assumes "tiering_inv P inv t"
    and "\<forall>g \<in> set gs. 0 \<le> fst g \<and> fst g < job_counter t \<and> fst g \<notin> fst ` set (jobs t)"
  shows "\<exists>t'. foldE (retract_store P) gs t = Inr t' \<and> tiering_inv P inv t' \<and> same_rest t t' \<and>
    bmap P (primary t') = drop_pending (concat (map snd gs)) (bmap P (primary t)) \<and>
    jobs t' = jobs t \<and> set (retracted_ids t') = set (retracted_ids t) \<union> fst ` set gs \<and>
    store_deadline t' = store_deadline t \<and> store_owner t' = store_owner t"
  using assms
proof (induction gs arbitrary: t)
  case Nil
  then show ?case by simp
next
  case (Cons g gs)
  from Cons.prems(2) have g: "0 \<le> fst g" "fst g < job_counter t" "fst g \<notin> fst ` set (jobs t)" by auto
  from retract_store_ok [OF Cons.prems(1) g] obtain t1 where
    t1: "retract_store P g t = Inr t1" "tiering_inv P inv t1" "same_rest t t1"
    "bmap P (primary t1) = drop_pending (snd g) (bmap P (primary t))" "jobs t1 = jobs t"
    "retracted_ids t1 = List.insert (fst g) (retracted_ids t)"
    "store_deadline t1 = store_deadline t" "store_owner t1 = store_owner t" by metis
  have "\<forall>g \<in> set gs. 0 \<le> fst g \<and> fst g < job_counter t1 \<and> fst g \<notin> fst ` set (jobs t1)"
    using Cons.prems(2) t1(3,5) by (simp add: same_rest_def)
  from Cons.IH [OF t1(2) this] obtain t' where
    t': "foldE (retract_store P) gs t1 = Inr t'" "tiering_inv P inv t'" "same_rest t1 t'"
    "bmap P (primary t') = drop_pending (concat (map snd gs)) (bmap P (primary t1))"
    "jobs t' = jobs t1" "set (retracted_ids t') = set (retracted_ids t1) \<union> fst ` set gs"
    "store_deadline t' = store_deadline t1" "store_owner t' = store_owner t1" by blast
  have "bmap P (primary t') = drop_pending (concat (map snd (g # gs))) (bmap P (primary t))"
    unfolding t'(4) t1(4) by (simp add: drop_pending_append)
  moreover have "foldE (retract_store P) (g # gs) t = Inr t'" using t1(1) t'(1) by simp
  moreover have "set (retracted_ids t') = set (retracted_ids t) \<union> fst ` set (g # gs)"
    using t1(6) t'(6) by auto
  ultimately show ?case using t1(5,7,8) t'(2,5,7,8) same_rest_trans [OF t1(3) t'(3)] by metis
qed

end

text \<open>The grouping keeps exactly the expired keys that have an owner.\<close>

lemma in_groups:
  "od_ok gs \<Longrightarrow> x \<in> set (concat (map snd gs)) \<longleftrightarrow> (\<exists>b ks. map_of gs b = Some ks \<and> x \<in> set ks)"
  by force

lemma in_groups_upd:
  fixes M :: "'b \<rightharpoonup> 'a list"
  defines "old b \<equiv> (case M b of None \<Rightarrow> [] | Some ks \<Rightarrow> ks)"
  shows "(\<exists>b' ks. (M(b \<mapsto> old b @ [k])) b' = Some ks \<and> x \<in> set ks) \<longleftrightarrow>
    (\<exists>b' ks. M b' = Some ks \<and> x \<in> set ks) \<or> x = k"
proof
  assume "\<exists>b' ks. (M(b \<mapsto> old b @ [k])) b' = Some ks \<and> x \<in> set ks"
  then obtain b' ks where "(M(b \<mapsto> old b @ [k])) b' = Some ks" "x \<in> set ks" by blast
  then have "(M b' = Some ks \<or> (\<exists>js. M b = Some js \<and> ks = js @ [k]) \<or> ks = [k]) \<and> x \<in> set ks"
    by (cases "b' = b"; cases "M b") (auto simp: old_def)
  then show "(\<exists>b' ks. M b' = Some ks \<and> x \<in> set ks) \<or> x = k"
    by (elim conjE disjE exE) (blast, force, simp)
next
  assume "(\<exists>b' ks. M b' = Some ks \<and> x \<in> set ks) \<or> x = k"
  then consider b' ks where "M b' = Some ks" "x \<in> set ks" | "x = k" by blast
  then show "\<exists>b' ks. (M(b \<mapsto> old b @ [k])) b' = Some ks \<and> x \<in> set ks"
  proof cases
    case 1
    then show ?thesis
      by (cases "b' = b") (auto simp: old_def intro: exI [of _ b] exI [of _ b'])
  next
    case 2
    then show ?thesis by (intro exI [of _ b] exI [of _ "old b @ [k]"]) simp
  qed
qed

lemma group_expired_ok:
  assumes "od_ok gs"
  shows "od_ok (group_expired owner k gs)"
    and "x \<in> set (concat (map snd (group_expired owner k gs))) \<longleftrightarrow>
      x \<in> set (concat (map snd gs)) \<or> (x = k \<and> k \<in> fst ` set owner)"
    and "fst ` set (group_expired owner k gs) \<subseteq> fst ` set gs \<union> (snd \<circ> snd) ` set owner"
proof -
  show ok: "od_ok (group_expired owner k gs)"
    using assms by (auto simp: group_expired_def split: option.split prod.split)
  show "x \<in> set (concat (map snd (group_expired owner k gs))) \<longleftrightarrow>
      x \<in> set (concat (map snd gs)) \<or> (x = k \<and> k \<in> fst ` set owner)"
  proof (cases "map_of owner k")
    case None
    then have "k \<notin> fst ` set owner" by (simp add: map_of_eq_None_iff)
    with None show ?thesis by (simp add: group_expired_def)
  next
    case (Some rb)
    obtain r b where rb: "rb = (r, b)" by (cases rb)
    have "k \<in> fst ` set owner" using Some by (metis in_keys_iff)
    moreover have "map_of (group_expired owner k gs) =
        (map_of gs)(b \<mapsto> (case map_of gs b of None \<Rightarrow> [] | Some ks \<Rightarrow> ks) @ [k])"
      using Some rb by (simp add: group_expired_def map_of_od_update)
    ultimately show ?thesis
      unfolding in_groups [OF ok] in_groups [OF assms] by (simp add: in_groups_upd del: fun_upd_apply)
  qed
  have "map_of owner k = Some (r, b) \<Longrightarrow> b \<in> (snd \<circ> snd) ` set owner" for r b
    by (force dest: map_of_SomeD)
  then show "fst ` set (group_expired owner k gs) \<subseteq> fst ` set gs \<union> (snd \<circ> snd) ` set owner"
    by (auto simp: group_expired_def split: option.split)
qed

lemma subset_Un_trans: "A \<subseteq> B \<union> C \<Longrightarrow> B \<subseteq> D \<union> C \<Longrightarrow> A \<subseteq> D \<union> C"
  by blast

lemma group_fold_ok:
  assumes "od_ok gs"
  shows "set (concat (map snd (fold (group_expired owner) ks gs))) =
      set (concat (map snd gs)) \<union> (set ks \<inter> fst ` set owner)"
    and "fst ` set (fold (group_expired owner) ks gs) \<subseteq> fst ` set gs \<union> (snd \<circ> snd) ` set owner"
proof -
  have "od_ok (fold (group_expired owner) ks gs) \<and>
    set (concat (map snd (fold (group_expired owner) ks gs))) =
      set (concat (map snd gs)) \<union> (set ks \<inter> fst ` set owner) \<and>
    fst ` set (fold (group_expired owner) ks gs) \<subseteq> fst ` set gs \<union> (snd \<circ> snd) ` set owner"
    using assms
  proof (induction ks arbitrary: gs)
    case (Cons k ks)
    note g = group_expired_ok [OF Cons.prems, where owner = owner and k = k]
    have "set (concat (map snd (group_expired owner k gs))) =
        set (concat (map snd gs)) \<union> ({k} \<inter> fst ` set owner)"
      using g(2) by blast
    moreover note ih = Cons.IH [OF g(1)]
    moreover have "fst ` set (fold (group_expired owner) ks (group_expired owner k gs))
        \<subseteq> fst ` set gs \<union> (snd \<circ> snd) ` set owner"
      using ih [THEN conjunct2, THEN conjunct2] g(3) by (rule subset_Un_trans)
    ultimately show ?case by auto
  qed simp
  then show "set (concat (map snd (fold (group_expired owner) ks gs))) =
      set (concat (map snd gs)) \<union> (set ks \<inter> fst ` set owner)"
    "fst ` set (fold (group_expired owner) ks gs) \<subseteq> fst ` set gs \<union> (snd \<circ> snd) ` set owner" by blast+
qed

lemma drop_pending_cong: "set ks = set js \<Longrightarrow> drop_pending ks = drop_pending js"
  by (simp add: drop_pending_def fun_eq_iff)

context cache_policy
begin

lemma expire_store_pends_ok:
  fixes now :: rat
  assumes t: "tiering_inv P inv t"
  defines "expired \<equiv> map fst (filter (\<lambda>(_, deadline). now > deadline) (store_deadline t))"
  shows "\<exists>t'. expire_store_pends P now t = Inr t' \<and> tiering_inv P inv t' \<and> same_rest t t' \<and>
    jobs t' = jobs t \<and> set (retracted_ids t) \<subseteq> set (retracted_ids t') \<and>
    (store_ttl t > 0 \<longrightarrow>
      bmap P (primary t') = drop_pending expired (bmap P (primary t)) \<and>
      store_deadline t' = od_minus (store_deadline t) (set expired) \<and>
      (\<forall>k r b. k \<in> set expired \<and> map_of (store_owner t) k = Some (r, b) \<longrightarrow> b \<in> set (retracted_ids t')))"
proof (cases "store_ttl t \<le> 0 \<or> expired = []")
  case True
  then have "expire_store_pends P now t = Inr t"
    by (auto simp: expire_store_pends_def expired_def Let_def)
  with t True show ?thesis by auto
next
  case False
  let ?gs = "fold (group_expired (store_owner t)) expired []"
  let ?t1 = "t\<lparr>store_deadline := od_minus (store_deadline t) (set expired),
               store_owner := od_minus (store_owner t) (set expired)\<rparr>"
  have i1: "tiering_inv P inv ?t1" by (rule disarm_inv [OF t])
  have keys: "fst ` set (store_owner t) = fst ` set (store_deadline t)"
    and bt: "\<forall>b \<in> batches t. 0 \<le> b \<and> b < job_counter t \<and> b \<notin> fst ` set (jobs t)"
    and ok: "od_ok (store_owner t)"
    using t by (simp_all add: tiering_inv_def stores_inv_def)
  have sub: "set expired \<subseteq> fst ` set (store_deadline t)" by (auto simp: expired_def)
  have gk: "set (concat (map snd ?gs)) = set expired"
    using group_fold_ok(1) [of "[]" "store_owner t" expired] sub keys by auto
  have gb: "fst ` set ?gs \<subseteq> batches t"
    using group_fold_ok(2) [of "[]" "store_owner t" expired] by (simp add: batches_def)
  have "\<forall>g \<in> set ?gs. 0 \<le> fst g \<and> fst g < job_counter ?t1 \<and> fst g \<notin> fst ` set (jobs ?t1)"
    using bt gb by auto
  from retract_stores_ok [OF i1 this] obtain t2 where
    t2: "foldE (retract_store P) ?gs ?t1 = Inr t2" "tiering_inv P inv t2" "same_rest ?t1 t2"
    "bmap P (primary t2) = drop_pending (concat (map snd ?gs)) (bmap P (primary t))"
    "jobs t2 = jobs t" "set (retracted_ids t2) = set (retracted_ids t) \<union> fst ` set ?gs"
    "store_deadline t2 = od_minus (store_deadline t) (set expired)" by auto
  let ?t' = "if now - store_last_log t2 \<ge> 60 then t2\<lparr>store_last_log := now\<rparr> else t2"
  have e: "expire_store_pends P now t = Inr ?t'"
    using False t2(1) unfolding expire_store_pends_def Let_def expired_def by simp
  have i': "tiering_inv P inv ?t'"
    using t2(2) tiering_inv_same [OF t2(2), of "t2\<lparr>store_last_log := now\<rparr>"]
    by (simp add: same_jobs_def tiering_inv_def)
  have sr: "same_rest t ?t'" using t2(3) by (simp add: same_rest_def)
  have own: "b \<in> fst ` set ?gs" if k: "k \<in> set expired" "map_of (store_owner t) k = Some (r, b)" for k r b
  proof -
    have "od_ok gs \<Longrightarrow> b \<in> fst ` set gs \<or> k \<in> set ks \<Longrightarrow>
        b \<in> fst ` set (fold (group_expired (store_owner t)) ks gs)" for ks gs
    proof (induction ks arbitrary: gs)
      case (Cons j ks)
      have "fst ` set gs \<subseteq> fst ` set (group_expired (store_owner t) j gs)"
        by (auto simp: group_expired_def split: option.split prod.split)
      moreover have "b \<in> fst ` set (group_expired (store_owner t) k gs)"
        using k(2) by (simp add: group_expired_def)
      ultimately have "b \<in> fst ` set (group_expired (store_owner t) j gs) \<or> k \<in> set ks"
        using Cons.prems(2) by auto
      from Cons.IH [OF group_expired_ok(1) [OF Cons.prems(1)] this] show ?case by simp
    qed simp
    from this [of "[]" expired] k(1) show ?thesis by simp
  qed
  have "bmap P (primary ?t') = drop_pending expired (bmap P (primary t))"
    using t2(4) drop_pending_cong [OF gk] by simp
  moreover have "\<forall>k r b. k \<in> set expired \<and> map_of (store_owner t) k = Some (r, b) \<longrightarrow>
      b \<in> set (retracted_ids ?t')" using own t2(6) by auto
  ultimately show ?thesis using e i' sr t2(5-7) by (intro exI [of _ ?t']) auto
qed

lemma process_finished_inv:
  assumes t: "tiering_inv P inv t" and "process_finished P now t = Inr t'"
  shows "tiering_inv P inv t'"
proof -
  from assms(2) obtain t1 t2 where
    t1: "foldE (poll_tier P now) [0..<length (tiers t)] t = Inr t1"
    and t2: "expire_promotions P now t1 = Inr t2" "expire_store_pends P now t2 = Inr t'"
    by (auto simp: process_finished_def res_simps)
  from t1 t have "tiering_inv P inv t1" by (rule foldE_inv) (rule poll_tier_inv)
  with t2(1) expire_promotions_ok [of t1 now] have "tiering_inv P inv t2" by auto
  with t2(2) expire_store_pends_ok [of t2 now] show ?thesis by auto
qed

lemma maybe_process_inv:
  assumes "tiering_inv P inv t" and "maybe_process P now t = Inr t'"
  shows "tiering_inv P inv t'"
  using assms process_finished_inv [OF tiering_inv_upd(2) [OF assms(1), of True]]
  by (auto simp: maybe_process_def split: if_splits)

section \<open>Lookup\<close>

lemma prepare_one:
  assumes m: "mgr_inv P inv m" and k: "bmap P m key = None"
    and out: "cpu_prepare_store P now [key] False m = Inr (m', Some out)" "keys_to_store out \<noteq> []"
  shows "mgr_inv P inv m' \<and> pending (bmap P m') key"
proof -
  have "distinct [key]" by simp
  from m this show ?thesis
proof (cases rule: prepare_store_cases [of m "[key]" False now])
  case (reserved m1 ev bs)
  have "keys_to_store out = filter (\<lambda>k. bmap P m k = None) (snd (threshold_gate False [key] m))"
    using reserved(2) out(1) by simp
  moreover have "set (snd (threshold_gate False [key] m)) \<subseteq> {key}"
    "distinct (snd (threshold_gate False [key] m))"
    using threshold_gate_form [of False "[key]" m] by auto
  ultimately have new: "filter (\<lambda>k. bmap P m k = None) (snd (threshold_gate False [key] m)) = [key]"
    using out(2) k by (cases "snd (threshold_gate False [key] m)";
      cases "tl (snd (threshold_gate False [key] m))") (auto split: if_splits)
  then obtain b where b: "bs = [b]" "ref_cnt b = - 1"
    using reserved(5,6) by (cases bs) auto
  have "bmap P m1 key = Some b" unfolding reserved(4) new b(1) by simp
  with b(2) reserved(2,3) out(1) show ?thesis by (simp add: pending_def is_ready_def)
qed (use out in simp_all)
qed

lemma initiate_promotion_ok:
  assumes t: "tiering_inv P inv t" and "initiate_promotion P now i key req t = Inr (t', b)"
  shows "tiering_inv P inv t'"
proof -
  from assms(2) obtain m out where p: "cpu_prepare_store P now [key] False (primary t) = Inr (m, out)"
    and t': "\<exists>pl. t' = t\<lparr>primary := m\<rparr> \<or> t' = t\<lparr>primary := m, pending_loads := pl\<rparr>"
    by (auto simp: initiate_promotion_def res_simps Let_def split: option.splits)
  have "mgr_inv P inv m" by (rule prepare_store_inv [OF inv_primary [OF t] _ p]) simp
  then have "tiering_inv P inv (t\<lparr>primary := m\<rparr>)" by (rule tiering_inv_upd(6) [OF t])
  with t' show ?thesis by (auto intro: tiering_inv_upd(3))
qed

lemma negative_cached_form:
  "\<exists>f. fst (negative_cached now key r t) = t\<lparr>promotion_failures := f\<rparr>"
proof -
  have "\<exists>f. t = t\<lparr>promotion_failures := f\<rparr>" by (rule exI [of _ "promotion_failures t"]) simp
  then show ?thesis by (auto simp: negative_cached_def split: option.split)
qed

lemma scan_tiers_inv:
  assumes "scan_tiers P now key req excl retry is t = Inr (t', r)" and "tiering_inv P inv t"
  shows "tiering_inv P inv t' \<and> r \<noteq> HIT"
  using assms
proof (induction "is" arbitrary: retry t)
  case (Cons i "is")
  show ?case
  proof (cases "Some i = excl \<or> \<not> (i < length (tiers t) \<longrightarrow> allows (load_tier_filter req)
              (tier_medium (fst (tiers t ! i))) (tier_locality (fst (tiers t ! i))))")
    case True
    with Cons.prems Cons.IH show ?thesis by simp
  next
    case False
    obtain t1 r1 where t1: "call_tier i (\<lambda>ops. tier_lookup ops key req) t = Inr (t1, r1)"
      using False Cons.prems(1) by (cases "call_tier i (\<lambda>ops. tier_lookup ops key req) t") auto
    obtain t2 r2 where t2: "negative_cached now key r1 t1 = (t2, r2)"
      by (cases "negative_cached now key r1 t1")
    have rest: "(if r2 = HIT then bindE (initiate_promotion P now i key req t2) (\<lambda>(t, promoted).
            Inr (t, if promoted then HIT_PENDING else MISS))
        else scan_tiers P now key req excl (retry \<or> r2 = RETRY) is t2) = Inr (t', r)"
    proof -
      have c: "(Some i = excl \<or> \<not> (i < length (tiers t) \<longrightarrow> allows (load_tier_filter req)
              (tier_medium (fst (tiers t ! i))) (tier_locality (fst (tiers t ! i))))) = False"
        using False by blast
      from Cons.prems(1) show ?thesis
        by (simp only: scan_tiers.simps c if_False t1 bindE.simps prod.case t2 Let_def)
    qed
    have "tiering_inv P inv t1" using call_tier_form [OF t1] Cons.prems(2) by (auto intro: tiering_inv_upd(1))
    then have "tiering_inv P inv t2"
      using negative_cached_form [of now key r1 t1] t2 by (auto intro: tiering_inv_upd(4))
    with rest Cons.IH show ?thesis
      by (auto simp: res_simps dest: initiate_promotion_ok split: if_splits)
  qed
qed (auto split: if_splits)

lemma tiering_lookup_ok:
  assumes t: "tiering_inv P inv t" and l: "tiering_lookup P now key req excl t = Inr (t', r)"
  shows "tiering_inv P inv t' \<and>
    (r = HIT \<longrightarrow> (\<exists>b. bmap P (primary t') key = Some b \<and> is_ready b))"
proof -
  from l obtain t1 m r0 where t1: "maybe_process P now t = Inr t1"
    and m: "cpu_lookup P key (primary t1) = Inr (m, r0)"
    and rest: "(if r0 = HIT then Inr (t1\<lparr>primary := m\<rparr>, HIT)
       else if r0 = HIT_PENDING then Inr (t1\<lparr>primary := m\<rparr>, HIT_PENDING)
       else scan_tiers P now key req excl False [0..<length (tiers (t1\<lparr>primary := m\<rparr>))]
         (t1\<lparr>primary := m\<rparr>)) = Inr (t', r)"
    unfolding tiering_lookup_def bindE_eq_Inr Let_def by auto
  have i1: "tiering_inv P inv t1" by (rule maybe_process_inv [OF t t1])
  from lookup_inv [OF inv_primary [OF i1] m] have
    m': "mgr_inv P inv m" "r0 = block_result (bmap P (primary t1) key)"
    "bmap P m = bmap P (primary t1)" by auto
  have i2: "tiering_inv P inv (t1\<lparr>primary := m\<rparr>)" by (rule tiering_inv_upd(6) [OF i1 m'(1)])
  show ?thesis
  proof (cases "r0 = HIT")
    case True
    then have "\<exists>b. bmap P m key = Some b \<and> is_ready b"
      using m'(2,3) by (auto simp: block_result_def split: option.splits if_splits)
    with True rest i2 show ?thesis by auto
  next
    case False
    with rest i2 scan_tiers_inv [OF _ i2] show ?thesis by (auto split: if_splits)
  qed
qed

end

end
