(* ===== verification/Tiering_Properties.thy ===== *)
theory Tiering_Properties
  imports Tiering_Poll CPU_Properties Res_Conditions
begin

text \<open>
  The properties of the tiering manager, on the LRU policy; the secondary tiers are arbitrary
  unless a witness instantiates them.
\<close>

section \<open>A silent tier\<close>

text \<open>A tier that holds every key, never reports a transfer and accepts everything.\<close>

definition silent_tier :: "unit tier_ops" where
  "silent_tier = \<lparr>tier_medium = None, tier_locality = None, tier_get_finished = (\<lambda>s. ([], s)),
     tier_lookup = (\<lambda>k r s. (HIT, s)), tier_submit_load = (\<lambda>j s. s), tier_submit_store = (\<lambda>j s. s),
     tier_touch = (\<lambda>ks s. s), tier_new_request = (\<lambda>r s. (BLOCK_LEVEL, s)),
     tier_request_finished = (\<lambda>r s. s), tier_serve = (\<lambda>s. Served s),
     tier_schedule_end = (\<lambda>c s. s), tier_has_pending = (\<lambda>s. False), tier_take_events = (\<lambda>s. ([], s)),
     tier_drain = (\<lambda>s. s), tier_get_stats = (\<lambda>s. (None, s))\<rparr>"

definition demo_req :: req_context where
  "demo_req = \<lparr>req_id = ''r'', load_tier_filter = TF_ALL\<rparr>"

definition tier0 :: "(lru, unit) tiering" where
  "tier0 = tiering_init (\<lambda>_. None) None None None run0 [(silent_tier, ())]"

text \<open>A promotion is queued by a lookup and submitted at the end of the step.\<close>

definition tier1 :: "(lru, unit) tiering" where
  "tier1 = fst (projr (tiering_lookup lru_ops 1 [9] demo_req None tier0))"

definition tier2 :: "(lru, unit) tiering" where
  "tier2 = projr (tiering_schedule_end lru_ops 1 \<lparr>new_req_ids = [], preempted_req_ids = []\<rparr> tier1)"

lemma tier_steps:
  "\<not> isl (tiering_lookup lru_ops 1 [9] demo_req None tier0)"
  "\<not> isl (tiering_schedule_end lru_ops 1 \<lparr>new_req_ids = [], preempted_req_ids = []\<rparr> tier1)"
  by code_simp+

lemma tier0_inv: "tiering_inv lru_ops lru_inv tier0"
proof -
  have "mgr_inv lru_ops lru_inv run0" unfolding run0_def by (rule lru_policy.init_inv) simp_all
  then show ?thesis
    by (simp add: tiering_inv_def tier0_def tiering_init_def jobs_inv_def stores_inv_def batches_def)
qed

lemma tier1_inv: "tiering_inv lru_ops lru_inv tier1"
  using lru_policy.tiering_lookup_ok [OF tier0_inv projr_pair [OF tier_steps(1), folded tier1_def]] by blast

section \<open>Lookup\<close>

text \<open>
  C27: a lookup that reports a hit is right: the block is in the primary tier and readable, so
  preparing its load returns the slot. A lookup, whatever it returns and whatever the secondary
  tiers answer, keeps the invariant of the tiering manager.
\<close>

theorem tiering_lookup_sound:
  assumes "tiering_inv lru_ops lru_inv t"
    and "tiering_lookup lru_ops now key req excl t = Inr (t', r)"
  shows "tiering_inv lru_ops lru_inv t' \<and>
    (r = HIT \<longrightarrow> (\<exists>b. lru_get (policy (primary t')) key = Some b \<and> is_ready b \<and>
      (ref_cnt b + 1 < 2147483648 \<longrightarrow>
        (\<exists>t''. tiering_prepare_load lru_ops [key] t' = Inr (t'', [block_id b])))))"
proof -
  from lru_policy.tiering_lookup_ok [OF assms] have i: "tiering_inv lru_ops lru_inv t'"
    and h: "r = HIT \<Longrightarrow> \<exists>b. lru_get (policy (primary t')) key = Some b \<and> is_ready b" by auto
  have "\<exists>t''. tiering_prepare_load lru_ops [key] t' = Inr (t'', [block_id b])"
    if b: "lru_get (policy (primary t')) key = Some b" "is_ready b" "ref_cnt b + 1 < 2147483648" for b
  proof -
    have "mgr_inv lru_ops lru_inv (primary t')" using i by (simp add: tiering_inv_def)
    then have "pool_inv lru_ops lru_inv (primary t')" by (simp add: mgr_inv_def)
    from lru_policy.prepare_load_ok [OF this, of "[key]"] b show ?thesis
      by (auto simp: tiering_prepare_load_def is_ready_def)
  qed
  with i h show ?thesis by blast
qed

theorem tiering_lookup_sound_witness:
  "tiering_inv lru_ops lru_inv (fst (projr (tiering_lookup lru_ops 1 [9] demo_req None tier1)))"
proof -
  have "\<not> isl (tiering_lookup lru_ops 1 [9] demo_req None tier1)" by code_simp
  from tiering_lookup_sound [OF tier1_inv projr_pair [OF this]] show ?thesis by simp
qed

lemma scan_suppressed:
  assumes "map_of (promotion_failures t) key = Some expiry" and "expiry > now"
    and "scan_tiers P now key req excl retry is t = Inr (t', r)"
  shows "primary t' = primary t \<and> pending_loads t' = pending_loads t \<and> r \<in> {MISS, RETRY}"
  using assms
proof (induction "is" arbitrary: t retry)
  case (Cons i "is")
  show ?case
  proof (cases "Some i = excl \<or> \<not> (i < length (tiers t) \<longrightarrow> allows (load_tier_filter req)
              (tier_medium (fst (tiers t ! i))) (tier_locality (fst (tiers t ! i))))")
    case True
    with Cons show ?thesis by simp
  next
    case False
    then have c: "(Some i = excl \<or> \<not> (i < length (tiers t) \<longrightarrow> allows (load_tier_filter req)
              (tier_medium (fst (tiers t ! i))) (tier_locality (fst (tiers t ! i))))) = False" by blast
    from Cons.prems(3) have b: "bindE (call_tier i (\<lambda>ops. tier_lookup ops key req) t) (\<lambda>(t, r).
        let (t, r) = negative_cached now key r t in
        if r = HIT then
          bindE (initiate_promotion P now i key req t) (\<lambda>(t, promoted).
            Inr (t, if promoted then HIT_PENDING else MISS))
        else scan_tiers P now key req excl (retry \<or> r = RETRY) is t) = Inr (t', r)"
      by (simp only: scan_tiers.simps c if_False)
    then obtain t1 r1 where t1: "call_tier i (\<lambda>ops. tier_lookup ops key req) t = Inr (t1, r1)"
      by (cases "call_tier i (\<lambda>ops. tier_lookup ops key req) t") auto
    obtain ts where ts: "t1 = t\<lparr>tiers := ts\<rparr>" using call_tier_form [OF t1] by blast
    then have f1: "map_of (promotion_failures t1) key = Some expiry" using Cons.prems(1) by simp
    have nc: "\<exists>r2. negative_cached now key r1 t1 = (t1, r2) \<and> r2 \<noteq> HIT"
      using f1 Cons.prems(2) by (auto simp: negative_cached_def)
    then obtain r2 where r2: "negative_cached now key r1 t1 = (t1, r2)" "r2 \<noteq> HIT" by blast
    from b t1 r2 have "scan_tiers P now key req excl (retry \<or> r2 = RETRY) is t1 = Inr (t', r)"
      by (simp add: Let_def)
    from Cons.IH [OF f1 Cons.prems(2) this] ts show ?thesis by simp
  qed
qed (auto split: if_splits)

text \<open>
  A key whose promotion failed or timed out is suppressed until its entry expires: if the
  primary tier does not hold it, the lookup asks the allowed tiers but starts no promotion:
  it answers a miss or a retry, and reserves nothing in the primary tier.
\<close>

lemma tiering_lookup_suppressed:
  assumes "processed_this_step t" and "map_of (promotion_failures t) key = Some expiry"
    and "expiry > now" and "lru_get (policy (primary t)) key = None"
    and "tiering_lookup lru_ops now key req excl t = Inr (t', r)"
  shows "r \<in> {MISS, RETRY} \<and> pending_loads t' = pending_loads t \<and>
    policy (primary t') = policy (primary t) \<and> free_list (primary t') = free_list (primary t)"
proof -
  from assms(1,5) obtain m r0 where m: "cpu_lookup lru_ops key (primary t) = Inr (m, r0)"
    and rest: "(if r0 = HIT then Inr (t\<lparr>primary := m\<rparr>, HIT)
       else if r0 = HIT_PENDING then Inr (t\<lparr>primary := m\<rparr>, HIT_PENDING)
       else scan_tiers lru_ops now key req excl False [0..<length (tiers (t\<lparr>primary := m\<rparr>))]
         (t\<lparr>primary := m\<rparr>)) = Inr (t', r)"
    unfolding tiering_lookup_def bindE_eq_Inr Let_def by (auto simp: maybe_process_def)
  from lru_policy.lookup_form [OF m] obtain c where
    r0: "r0 = block_result (lru_get (policy (primary t)) key)" and c: "m = primary t\<lparr>counts := c\<rparr>" by auto
  have "r0 = MISS" using r0 assms(4) by (simp add: block_result_def)
  with rest have "scan_tiers lru_ops now key req excl False [0..<length (tiers (t\<lparr>primary := m\<rparr>))]
         (t\<lparr>primary := m\<rparr>) = Inr (t', r)" by simp
  from scan_suppressed [OF _ assms(3) this] assms(2) c show ?thesis by simp
qed

lemma tiering_lookup_suppressed_witness:
  "\<exists>t'. tiering_lookup lru_ops 2 [9] demo_req None
      (tier0\<lparr>processed_this_step := True, promotion_failures := [([9], 5)]\<rparr>) = Inr (t', MISS) \<and>
    pending_loads t' = []"
proof -
  let ?t = "tier0\<lparr>processed_this_step := True, promotion_failures := [([9], 5)]\<rparr>"
  have "\<not> isl (tiering_lookup lru_ops 2 [9] demo_req None ?t)"
    "snd (projr (tiering_lookup lru_ops 2 [9] demo_req None ?t)) = MISS"
    "lru_get (policy (primary ?t)) [9] = None" by code_simp+
  then have r: "tiering_lookup lru_ops 2 [9] demo_req None ?t =
      Inr (fst (projr (tiering_lookup lru_ops 2 [9] demo_req None ?t)), MISS)"
    and n: "lru_get (policy (primary ?t)) [9] = None" by (auto dest: projr_pair)
  then obtain t' where t': "tiering_lookup lru_ops 2 [9] demo_req None ?t = Inr (t', MISS)" by blast
  from tiering_lookup_suppressed [OF _ _ _ n t', of 5] have "pending_loads t' = []"
    by (simp add: tier0_def tiering_init_def)
  with t' show ?thesis by blast
qed

section \<open>Polling and retraction\<close>

text \<open>
  C28: polling the tiers, when it returns, keeps the invariant: pool conserved, job ids fresh,
  registration times in step with the job table, and no retracted id back in the table.
\<close>

theorem tiering_poll_invariant:
  assumes "tiering_inv lru_ops lru_inv t" and "process_finished lru_ops now t = Inr t'"
  shows "tiering_inv lru_ops lru_inv t' \<and>
    fst ` set (job_started_at t') = fst ` set (jobs t') \<and>
    fst ` set (jobs t') \<inter> (set (retracted_ids t') \<union> fst ` set (drained_retracted t')) = {}"
  using lru_policy.process_finished_inv [OF assms]
  by (simp add: tiering_inv_def jobs_inv_def)

theorem tiering_poll_invariant_witness:
  "tiering_inv lru_ops lru_inv (projr (process_finished lru_ops 100 tier1))"
proof -
  have "\<not> isl (process_finished lru_ops 100 tier1)" by code_simp
  from tiering_poll_invariant [OF tier1_inv projr_Inr [OF this]] show ?thesis by simp
qed

lemma fold_update_mem: "j \<in> set js \<Longrightarrow> map_of (fold (\<lambda>j. AList.update j v) js d) j = Some v"
  by (simp add: fold_update_same)

text \<open>
  C29: a promotion that exceeds its time limit is retracted for good: the scan returns, drops the
  job and hands its id to the flush channel; and a completion report that still arrives, after
  that id has been drained, is ignored instead of failing the assertions on the job table,
  with the primary tier untouched.
\<close>

theorem promotion_timeout_tolerates_report:
  assumes t: "tiering_inv lru_ops lru_inv t" and "promotion_ttl t > 0"
    and "map_of (jobs t) j = Some (job, i)" and "tj_promotion job"
    and "map_of (job_started_at t) j = Some s" and "now - s > promotion_ttl t"
  shows "\<exists>t1. expire_promotions lru_ops now t = Inr t1 \<and> tiering_inv lru_ops lru_inv t1 \<and>
    j \<notin> fst ` set (jobs t1) \<and> j \<in> set (snd (drain_flush_job_ids now' t1)) \<and>
    (\<forall>now'' i' cj. jr_id cj = j \<longrightarrow>
      (\<exists>t3. finished_one lru_ops now'' i' cj (fst (drain_flush_job_ids now' t1)) = Inr t3 \<and>
        primary t3 = primary t1 \<and> jobs t3 = jobs t1))"
proof -
  from lru_policy.expire_promotions_ok [OF t, of now] assms(2) obtain t1 where
    t1: "expire_promotions lru_ops now t = Inr t1" "tiering_inv lru_ops lru_inv t1"
    "jobs t1 = od_minus (jobs t) (set (stale_promotions now t))"
    "set (retracted_ids t1) = set (retracted_ids t) \<union> set (stale_promotions now t)" by auto
  have "(j, job, i) \<in> set (jobs t)" using assms(3) by (rule map_of_SomeD)
  then have st: "j \<in> set (stale_promotions now t)"
    using assms(4-6) by (force simp: stale_promotions_def)
  then have jr: "j \<in> set (retracted_ids t1)" and jj: "j \<notin> fst ` set (jobs t1)"
    using t1(3,4) by auto
  let ?d = "fst (drain_flush_job_ids now' t1)"
  have "map_of (fold (\<lambda>j. AList.update j (now' + 600)) (retracted_ids t1) (drained_retracted t1)) j =
      Some (now' + 600)" using jr by (rule fold_update_mem)
  then have "(j, now' + 600) \<in> set (fold (\<lambda>j. AList.update j (now' + 600)) (retracted_ids t1)
      (drained_retracted t1))" by (rule map_of_SomeD)
  then have "(j, now' + 600) \<in> set (drained_retracted ?d)" by (simp add: drain_flush_job_ids_def Let_def)
  then have dm: "od_mem j (drained_retracted ?d)" by force
  have "primary ?d = primary t1" "jobs ?d = jobs t1" "snd (drain_flush_job_ids now' t1) = retracted_ids t1"
    by (simp_all add: drain_flush_job_ids_def Let_def)
  moreover have "finished_one lru_ops now'' i' cj ?d = Inr (?d\<lparr>retracted_ids := removeAll j (retracted_ids ?d),
      drained_retracted := AList.delete j (drained_retracted ?d)\<rparr>)" if "jr_id cj = j" for now'' i' cj
    using that dm by (simp add: finished_one_def Let_def)
  ultimately show ?thesis using t1(1,2) jj jr by auto
qed

definition demo_job :: transfer_job where
  "demo_job = \<lparr>tj_id = 0, tj_keys = [[9]], tj_block_ids = [0], tj_promotion = True, tj_req = demo_req\<rparr>"

theorem promotion_timeout_tolerates_report_witness:
  "\<exists>t1. expire_promotions lru_ops 50 (register_job 1 demo_job 0 (fst (next_job_id tier1))) = Inr t1 \<and>
     0 \<in> set (snd (drain_flush_job_ids 60 t1))"
proof -
  let ?t = "register_job 1 demo_job 0 (fst (next_job_id tier1))"
  have "job_counter tier1 = 0" "promotion_ttl ?t = 30" "jobs tier1 = []" "job_started_at tier1 = []"
    by code_simp+
  then have i: "tiering_inv lru_ops lru_inv ?t" and e: "promotion_ttl ?t = 30"
    "map_of (jobs ?t) 0 = Some (demo_job, 0)" "map_of (job_started_at ?t) 0 = Some 1"
    using register_inv [OF tier1_inv, of demo_job] by (simp_all add: demo_job_def register_job_def next_job_id_def)
  from promotion_timeout_tolerates_report [OF i _ e(2) _ e(3), of 50 60] e(1) show ?thesis
    by (auto simp: demo_job_def)
qed

text \<open>
  C30: no store reservation outlives its time limit: the scan returns, and afterwards no deadline
  in the past is armed, every key whose deadline had passed has no write-pending block left in
  the primary tier, and its batch id is in the flush channel.
\<close>

theorem store_pending_expires:
  assumes t: "tiering_inv lru_ops lru_inv t" and ttl: "store_ttl t > 0"
  shows "\<exists>t'. expire_store_pends lru_ops now t = Inr t' \<and> tiering_inv lru_ops lru_inv t' \<and>
    (\<forall>(k, deadline) \<in> set (store_deadline t'). now \<le> deadline) \<and>
    (\<forall>(k, deadline) \<in> set (store_deadline t). now > deadline \<longrightarrow>
      \<not> pending (lru_get (policy (primary t'))) k \<and>
      (\<forall>r b. map_of (store_owner t) k = Some (r, b) \<longrightarrow> b \<in> set (retracted_ids t')))"
proof -
  let ?ex = "map fst (filter (\<lambda>(_, deadline). now > deadline) (store_deadline t))"
  from lru_policy.expire_store_pends_ok [OF t, of now] ttl obtain t' where
    t': "expire_store_pends lru_ops now t = Inr t'" "tiering_inv lru_ops lru_inv t'"
    "lru_get (policy (primary t')) = drop_pending ?ex (lru_get (policy (primary t)))"
    "store_deadline t' = od_minus (store_deadline t) (set ?ex)"
    "\<forall>k r b. k \<in> set ?ex \<and> map_of (store_owner t) k = Some (r, b) \<longrightarrow> b \<in> set (retracted_ids t')" by auto
  have "\<forall>(k, deadline) \<in> set (store_deadline t'). now \<le> deadline"
    unfolding t'(4) by (force simp: od_minus_def)
  moreover have "\<not> pending (lru_get (policy (primary t'))) k" if "k \<in> set ?ex" for k
    unfolding t'(3) using that by (auto simp: drop_pending_def pending_def split: option.splits if_splits)
  moreover have "k \<in> set ?ex" if "(k, deadline) \<in> set (store_deadline t)" "now > deadline" for k deadline
    using that by force
  ultimately show ?thesis using t'(1,2,5) by blast
qed

definition tier3 :: "(lru, unit) tiering" where
  "tier3 = arm_store_ttl 0 [[9]] demo_req tier0"

theorem store_pending_expires_witness:
  "\<exists>t'. expire_store_pends lru_ops 31 tier3 = Inr t' \<and> tiering_inv lru_ops lru_inv t' \<and>
     (\<forall>(k, deadline) \<in> set (store_deadline t'). 31 \<le> deadline)"
proof -
  have ttl: "store_ttl tier0 = 30" "jobs tier0 = []" "job_counter tier0 = 0" "store_deadline tier0 = []"
    "store_owner tier0 = []" "job_started_at tier0 = []" "retracted_ids tier0 = []" "drained_retracted tier0 = []"
    by code_simp+
  then have t3: "tier3 = tier0\<lparr>job_counter := 1, store_deadline := [([9], 30)],
      store_owner := [([9], (demo_req, 0))]\<rparr>"
    by (simp add: tier3_def arm_store_ttl_def next_job_id_def)
  have "tiering_inv lru_ops lru_inv tier3"
    using tier0_inv ttl unfolding t3
    by (simp add: tiering_inv_def jobs_inv_def stores_inv_def batches_def)
  from store_pending_expires [OF this, of 31] ttl(1) show ?thesis unfolding t3 by auto
qed

section \<open>Completing a retracted store\<close>








end
