(* ===== verification/Connector_Frames.thy ===== *)
theory Connector_Frames
  imports Connector_Steps Connector_Lookup_Facts
begin

text \<open>
  What the operations of the connector leave alone. \<open>tables\<close> is the bookkeeping of requests and
  jobs; a lookup, a touch or a metric changes only the manager's state and some counters. The
  request's stale-hit record and its job set are changed by their own operations only.
\<close>

definition tables :: "('s, 'e) connector \<Rightarrow> (string, req_state) odict \<times> (int, job_status) odict \<times> int \<times>
    int \<times> pending \<times> (int, worker_job) odict \<times> int set \<times> int set" where
  "tables c = (c_reqs c, c_jobs c, c_job_counter c, c_stale_threshold c, c_pending c, c_load_jobs c,
     c_flush c, c_alloc c)"

named_theorems frames \<open>an operation keeps the tables, or the request's job set and stale record\<close>

lemma ask_manager_tables [frames]: "ask_manager f c = Inr (c', a) \<Longrightarrow> tables c' = tables c"
  by (auto simp: ask_manager_def res_simps tables_def)

lemma tell_manager_tables [frames]: "tell_manager f c = Inr c' \<Longrightarrow> tables c' = tables c"
  by (auto simp: tell_manager_def res_simps tables_def)

lemma track_tables [simp]: "tables (track T call c) = tables c"
  by (simp add: track_def tables_def)

lemma fold_track_tables [simp]: "tables (fold (\<lambda>x. track T (g x)) xs c) = tables c"
  by (induction xs arbitrary: c) auto

lemma count_metric_tables [frames]: "count_metric n v c = Inr c' \<Longrightarrow> tables c' = tables c"
  by (auto simp: count_metric_def res_simps tables_def)

lemma observe_metric_tables [frames]: "observe_metric n v c = Inr c' \<Longrightarrow> tables c' = tables c"
  by (auto simp: observe_metric_def res_simps tables_def)

lemma note_recompute_tables [simp]:
  "tables (fst (note_recompute_after_eviction M gc ks (c, counted))) = tables c"
  by (simp add: note_recompute_after_eviction_def tables_def split: option.split prod.split)

lemma touch_hit_tables [frames]: "touch_hit M kn k ctx c = Inr c' \<Longrightarrow> tables c' = tables c"
  by (auto simp: touch_hit_def res_simps tables_def tell_manager_def split: if_splits)

lemma prefix_scan_tables [frames]:
  "prefix_scan M T kn rid ctx gc i ks hits dfr (c, counted) = Inr (c', counted', r) \<Longrightarrow>
   tables c' = tables c"
proof (induction ks arbitrary: i hits dfr c counted)
  case (Cons k ks)
  then obtain c1 a where a: "ask_manager (m_lookup M k ctx) c = Inr (c1, a)" by (auto simp: res_simps)
  note t = ask_manager_tables [OF a]
  show ?case
  proof (cases a)
    case MISS
    have "c' = fst (if \<not> dfr \<and> m_tombstone M \<noteq> None
        then note_recompute_after_eviction M gc (k # ks) (c1, counted) else (c1, counted))"
      using Cons.prems a MISS by (auto simp: Let_def split: prod.splits)
    then show ?thesis using t by (simp split: if_splits)
  next
    case HIT
    then obtain c2 where c2: "touch_hit M kn k ctx (track T (RecordLookup rid (group_idx gc) i k) c1) = Inr c2"
      "prefix_scan M T kn rid ctx gc (i + 1) ks (hits + 1) dfr (c2, counted) = Inr (c', counted', r)"
      using Cons.prems a by (auto simp: res_simps)
    show ?thesis using Cons.IH [OF c2(2)] touch_hit_tables [OF c2(1)] t by simp
  next
    case HIT_PENDING
    then have "prefix_scan M T kn rid ctx gc (i + 1) ks (hits + 1) True (c1, counted) = Inr (c', counted', r)"
      using Cons.prems a by simp
    with Cons.IH t show ?thesis by metis
  next
    case RETRY
    then have "prefix_scan M T kn rid ctx gc (i + 1) ks hits True (c1, counted) = Inr (c', counted', r)"
      using Cons.prems a by simp
    with Cons.IH t show ?thesis by metis
  qed
qed auto

lemma window_scan_tables [frames]:
  "window_scan M ctx w ks n run dfr c = Inr (c', r) \<Longrightarrow> tables c' = tables c"
proof (induction n arbitrary: run dfr c)
  case (Suc n)
  then obtain c1 a where a: "ask_manager (m_lookup M (ks ! n) ctx) c = Inr (c1, a)" by (auto simp: res_simps)
  from Suc.prems a have "c' = c1 \<or> (\<exists>run dfr. window_scan M ctx w ks n run dfr c1 = Inr (c', r))"
    by (auto simp: Let_def split: prod.splits if_splits)
  with Suc.IH ask_manager_tables [OF a] show ?case by metis
qed auto

lemma query_group_tables [frames]:
  "query_group M X T cc rid rs gc ks u mx (c, counted) = Inr (c', counted', r) \<Longrightarrow> tables c' = tables c"
  by (auto simp: query_group_def Let_def maximal_prefix_lookup_def sliding_window_lookup_def res_simps
      split: option.splits dest: prefix_scan_tables window_scan_tables)

lemma settle_group_conn: "settle_group cc computed gc s = (s', ab) \<Longrightarrow> sc_conn s' = sc_conn s"
  by (auto simp: settle_group_def Let_def split: if_splits)

lemma scan_group_tables [frames]:
  assumes "scan_group M X T cc rid rq rs g s = Inr (s', ab)"
  shows "tables (sc_conn s') = tables (sc_conn s)"
  using assms unfolding scan_group_def
  by (auto simp: res_simps Let_def split: if_splits dest!: settle_group_conn dest: query_group_tables)

lemma scan_pass_tables [frames]:
  "scan_pass M X T cc rid rq rs gs s = Inr (s', ab) \<Longrightarrow> tables (sc_conn s') = tables (sc_conn s)"
proof (induction gs arbitrary: s)
  case (Cons g gs)
  then obtain s1 ab1 where s1: "scan_group M X T cc rid rq rs g s = Inr (s1, ab1)"
    "s' = s1 \<or> scan_pass M X T cc rid rq rs gs s1 = Inr (s', ab)"
    by (auto simp: res_simps split: if_splits)
  with Cons.IH scan_group_tables [OF s1(1)] show ?case by metis
qed simp

lemma scan_loop_tables [frames]:
  "scan_loop M X T cc rid rq rs fuel s = Inr (s', ab) \<Longrightarrow> tables (sc_conn s') = tables (sc_conn s)"
proof (induction fuel arbitrary: s)
  case 0
  then show ?case by (simp add: scan_loop.simps split: if_splits)
next
  case (Suc fuel)
  show ?case
  proof (cases "sc_again s = []")
    case False
    let ?s = "s\<lparr>sc_again := [], sc_sw := False\<rparr>"
    from Suc.prems False obtain s1 ab1 where s1: "scan_pass M X T cc rid rq rs (sc_again s) ?s = Inr (s1, ab1)"
      "s' = s1 \<or> scan_loop M X T cc rid rq rs fuel s1 = Inr (s', ab)"
      by (subst (asm) scan_loop.simps) (auto simp: res_simps split: if_splits)
    with Suc.IH scan_pass_tables [OF s1(1)] show ?thesis by (metis scan.select_convs(1) scan.surjective scan.update_convs(7,8))
  qed (use Suc.prems in \<open>simp add: scan_loop.simps\<close>)
qed

lemma lookup_complete_frame:
  assumes "lookup_complete_chunks M X T cc rid rq rs c = Inr (c', rs', r)"
  shows "tables c' = tables c" "\<exists>s. rs' = rs\<lparr>tombstone_counted_hashes := s\<rparr>"
  using assms unfolding lookup_complete_chunks_def
  by (auto simp: res_simps Let_def split: if_splits option.splits dest!: scan_loop_tables)

lemma probe_groups_tables [frames]:
  "probe_groups M cfg rq ctx b gcs ks pend c = Inr (c', ks', p', m') \<Longrightarrow> tables c' = tables c"
proof (induction gcs arbitrary: ks pend c)
  case (Cons gc gcs)
  then show ?case by (auto simp: res_simps split: if_splits dest!: ask_manager_tables)
qed simp

lemma fold_partial_tables [simp]:
  "tables (fold (\<lambda>(gc, key). track T (RecordPartialLookup rid (group_idx gc) b key)) ks c) = tables c"
  by (induction ks arbitrary: c) auto

lemma probe_boundaries_tables [frames]:
  "probe_boundaries M T cfg rid rq ctx bs pend c = Inr (c', p', r) \<Longrightarrow> tables c' = tables c"
proof (induction bs arbitrary: pend c)
  case (Cons b bs)
  then show ?case
    by (auto simp: res_simps split: if_splits dest!: probe_groups_tables Cons.IH)
qed simp

lemma lookup_request_frame:
  assumes "lookup_request M X T cc rid rq rs c = Inr (c', rs', r)"
  shows "tables c' = tables c \<and> stale rs' = stale rs \<and> transfer_jobs rs' = transfer_jobs rs \<and>
    group_states rs' = group_states rs \<and> rs_context rs' = rs_context rs \<and> finished_signaled rs' = finished_signaled rs"
proof -
  obtain c1 rs1 r1 where l: "lookup_complete_chunks M X T cc rid rq rs c = Inr (c1, rs1, r1)"
    using assms unfolding lookup_request_def bindE_eq_Inr by auto
  obtain s where rs1: "rs1 = rs\<lparr>tombstone_counted_hashes := s\<rparr>" using lookup_complete_frame(2) [OF l] ..
  show ?thesis
  proof (cases r1)
    case None
    then show ?thesis using assms l rs1 lookup_complete_frame(1) [OF l]
      by (auto simp: lookup_request_def)
  next
    case (Some h)
    then show ?thesis using assms l rs1 lookup_complete_frame(1) [OF l]
      by (auto simp: lookup_request_def Let_def res_simps split: if_splits option.splits
          dest!: probe_boundaries_tables)
  qed
qed

lemma update_offload_keys_frame:
  "update_offload_keys cfg rq rs = Inr rs' \<Longrightarrow> stale rs' = stale rs \<and> transfer_jobs rs' = transfer_jobs rs \<and>
   rs_context rs' = rs_context rs \<and> finished_signaled rs' = finished_signaled rs"
  by (auto simp: update_offload_keys_def res_simps)

lemma update_num_hit_frame:
  "update_num_hit_chunks cfg n rs = Inr rs' \<Longrightarrow> stale rs' = stale rs \<and> transfer_jobs rs' = transfer_jobs rs \<and>
   rs_context rs' = rs_context rs \<and> finished_signaled rs' = finished_signaled rs"
  by (auto simp: update_num_hit_chunks_def res_simps)

lemma touch_request_tables [frames]:
  assumes "touch_request M cfg rq rs c = Inr c'"
  shows "tables c' = tables c"
proof -
  obtain c1 where c1: "foldE (touch_group M rs) (kv_groups cfg) c = Inr c1"
    using assms by (auto simp: touch_request_def res_simps)
  have "tables c1 = tables c"
    by (rule foldE_inv [OF c1]) (auto simp: touch_group_def Let_def res_simps dest: tell_manager_tables)
  with assms c1 show ?thesis
    by (auto simp: touch_request_def res_simps split: option.splits dest: tell_manager_tables)
qed

lemma maybe_observe_frame:
  "maybe_observe_async_delay now rs c = Inr (c', rs') \<Longrightarrow>
   tables c' = tables c \<and> stale rs' = stale rs \<and> transfer_jobs rs' = transfer_jobs rs \<and>
   rs_context rs' = rs_context rs \<and> group_states rs' = group_states rs \<and>
   finished_signaled rs' = finished_signaled rs"
  by (auto simp: maybe_observe_async_delay_def res_simps split: option.splits dest: observe_metric_tables)

lemma timed_lookup_frame:
  assumes "timed_lookup M X T cc clk rid rq rs c = Inr (c', rs', r)"
  shows "tables c' = tables c \<and> stale rs' = stale rs \<and> transfer_jobs rs' = transfer_jobs rs"
proof (cases "skip_reading_prefix_cache rq")
  case False
  obtain c1 rs1 r1 where l: "lookup_request M X T cc rid rq rs c = Inr (c1, rs1, r1)"
    using assms False by (cases "lookup_request M X T cc rid rq rs c") (auto simp: timed_lookup_def)
  let ?o = "observe_metric ''vllm:kv_offload_lookup_sync_delay_seconds'' (clk ClkLookupEnd - clk ClkLookupStart) c1"
  obtain c2 where o: "?o = Inr c2"
    using assms False l by (cases ?o) (auto simp: timed_lookup_def)
  have rest: "(case r1 of None \<Rightarrow> Inr (c2, (if deferred_lookup_start_time rs1 = None
                       then rs1\<lparr>deferred_lookup_start_time := Some (clk ClkLookupStart)\<rparr> else rs1), None)
       | Some h \<Rightarrow> bindE (maybe_observe_async_delay (clk ClkAsync) rs1 c2) (\<lambda>(c, rs). Inr (c, rs, Some h))) =
       Inr (c', rs', r)"
    using assms False l o by (simp add: timed_lookup_def)
  have "tables c2 = tables c" "stale rs1 = stale rs" "transfer_jobs rs1 = transfer_jobs rs"
    using lookup_request_frame [OF l] observe_metric_tables [OF o] by simp_all
  note f = this
  show ?thesis
  proof (cases r1)
    case None
    then have "c' = c2" "stale rs' = stale rs1" "transfer_jobs rs' = transfer_jobs rs1"
      using rest by (auto split: if_splits)
    with f show ?thesis by simp
  next
    case (Some h)
    then obtain p where "maybe_observe_async_delay (clk ClkAsync) rs1 c2 = Inr p" "p = (c', rs')"
      using rest by (auto simp: res_simps)
    with maybe_observe_frame f show ?thesis by metis
  qed
next
  case True
  then show ?thesis using assms by (simp add: timed_lookup_def)
qed

end
