(* ===== verification/Connector_Stale_Facts.thy ===== *)
theory Connector_Stale_Facts
  imports Connector_Frames
begin

text \<open>
  Facts on the stale-hit ladder: how a call of \<open>get_num_new_matched_tokens\<close> can end, what each
  gate does to the bookkeeping, and how often an identical hit can be reported.
\<close>

section \<open>How a call ends\<close>

text \<open>The stale-hit record a lookup of outcome \<open>h\<close> leaves, with the call's answer.\<close>

definition ladder_result :: "knobs \<Rightarrow> (clock_site \<Rightarrow> rat) \<Rightarrow> int option \<Rightarrow> int \<Rightarrow> stale_hit \<Rightarrow>
    stale_hit \<times> int option \<times> bool" where
  "ladder_result kn clk h computed st =
     (case claim_gate kn clk h computed st of
        Answer st \<Rightarrow> (st, Some 0, False)
      | Go_on st \<Rightarrow>
          (case stale_ladder kn clk h computed st of
             Answer st \<Rightarrow> (st, Some 0, False)
           | Go_on st \<Rightarrow> (st, h, truthy h)))"

lemma claim_gate_Go_on: "claim_gate kn clk h computed st = Go_on st' \<Longrightarrow> st' = st"
  by (auto simp: claim_gate_def Let_def split: if_splits)

lemma matched_after_gatesD:
  assumes "matched_after_gates M X T cc clk rid rq computed rs c = Inr (c', rs', hit, async)"
  obtains h where "tables c' = tables c" "transfer_jobs rs' = transfer_jobs rs"
    "(stale rs', hit, async) = ladder_result (cc_knobs cc) clk h computed (stale rs)"
proof -
  obtain rs1 where rs1: "update_offload_keys (cc_sched cc) rq rs = Inr rs1"
    using assms unfolding matched_after_gates_def by (cases "update_offload_keys (cc_sched cc) rq rs") auto
  let ?l = "timed_lookup M X T cc clk rid rq (rs1\<lparr>num_locally_computed_tokens := computed\<rparr>) c"
  obtain c2 rs2 h where l: "?l = Inr (c2, rs2, h)"
    using assms rs1 unfolding matched_after_gates_def by (cases ?l) auto
  have f: "tables c2 = tables c" "stale rs2 = stale rs" "transfer_jobs rs2 = transfer_jobs rs"
    using timed_lookup_frame [OF l] update_offload_keys_frame [OF rs1] by auto
  show thesis
  proof (cases "claim_gate (cc_knobs cc) clk h computed (stale rs2)")
    case (Answer st)
    then have e: "c' = c2" "rs' = rs2\<lparr>stale := st\<rparr>" "hit = Some 0" "\<not> async"
      using assms rs1 l unfolding matched_after_gates_def by auto
    show thesis by (rule that [of h]) (use Answer f in \<open>simp_all add: e ladder_result_def\<close>)
  next
    case (Go_on st)
    let ?n = "computed + (case h of None \<Rightarrow> 0 | Some h \<Rightarrow> h)"
    obtain rs3 where rs3: "update_num_hit_chunks (cc_sched cc) ?n rs2 = Inr rs3"
      using assms rs1 l Go_on unfolding matched_after_gates_def
      by (cases "update_num_hit_chunks (cc_sched cc) ?n rs2") auto
    obtain c4 where c4: "touch_request M (cc_sched cc) rq rs3 c2 = Inr c4"
      using assms rs1 l Go_on rs3 unfolding matched_after_gates_def
      by (cases "touch_request M (cc_sched cc) rq rs3 c2") auto
    have g: "tables c4 = tables c" "stale rs3 = stale rs" "transfer_jobs rs3 = transfer_jobs rs" "st = stale rs"
      using touch_request_tables [OF c4] update_num_hit_frame [OF rs3] f claim_gate_Go_on [OF Go_on] by auto
    have "(case stale_ladder (cc_knobs cc) clk h computed (stale rs) of
        Answer st \<Rightarrow> (c4, rs3\<lparr>stale := st\<rparr>, Some 0, False)
      | Go_on st \<Rightarrow> (c4, rs3\<lparr>stale := st\<rparr>, h, truthy h)) = (c', rs', hit, async)"
      using assms rs1 l Go_on rs3 c4 g f unfolding matched_after_gates_def by (auto split: gate.splits)
    then have e: "c' = c4" "transfer_jobs rs' = transfer_jobs rs3"
      "(stale rs', hit, async) = (case stale_ladder (cc_knobs cc) clk h computed (stale rs) of
         Answer st \<Rightarrow> (st, Some 0, False) | Go_on st \<Rightarrow> (st, h, truthy h))"
      by (cases "stale_ladder (cc_knobs cc) clk h computed (stale rs)", auto)+
    show thesis by (rule that [of h]) (use Go_on f g e in \<open>simp_all add: ladder_result_def\<close>)
  qed
qed

lemma get_numE:
  assumes "get_num_new_matched_tokens M X T cc clk rid rq computed c = Inr (c', hit, async)"
  obtains (busy) rs where "map_of (c_reqs c) rid = Some rs" "transfer_jobs rs \<noteq> {}"
      "c' = put_req rid (clear_block_ids rs) c" "hit = None" "\<not> async"
  | (gated) rs st where "map_of (c_reqs c) rid = Some rs" "transfer_jobs rs = {}"
      "c' = put_req rid ((clear_block_ids rs)\<lparr>stale := st\<rparr>) c" "hit = Some 0" "\<not> async"
      "escape_gate (cc_knobs cc) clk computed (stale rs) = Answer st \<or>
       (\<exists>st0. escape_gate (cc_knobs cc) clk computed (stale rs) = Go_on st0 \<and>
          pin_gate (cc_knobs cc) clk computed st0 = Answer st)"
  | (looked) rs st0 st c1 rs1 h where "map_of (c_reqs c) rid = Some rs" "transfer_jobs rs = {}"
      "escape_gate (cc_knobs cc) clk computed (stale rs) = Go_on st0"
      "pin_gate (cc_knobs cc) clk computed st0 = Go_on st"
      "tables c1 = tables c" "c' = put_req rid rs1 c1" "transfer_jobs rs1 = {}"
      "(stale rs1, hit, async) = ladder_result (cc_knobs cc) clk h computed st"
proof -
  obtain rs where rs: "map_of (c_reqs c) rid = Some rs"
    using assms unfolding get_num_new_matched_tokens_def get_req_def
    by (cases "map_of (c_reqs c) rid") (auto simp: od_get_item_def)
  have cl [simp]: "transfer_jobs (clear_block_ids rs) = transfer_jobs rs" "stale (clear_block_ids rs) = stale rs"
    by (simp_all add: clear_block_ids_def)
  note def = assms [unfolded get_num_new_matched_tokens_def get_req_def od_get_item_def rs option.case
    bindE.simps Let_def cl]
  show thesis
  proof (cases "transfer_jobs rs = {}")
    case False
    then show thesis using def busy [OF rs] by simp
  next
    case True
    note def = def [unfolded True if_not_P [OF notI [OF notE [OF _ refl]]] not_True_eq_False if_False]
    show thesis
    proof (cases "escape_gate (cc_knobs cc) clk computed (stale rs)")
      case (Answer st)
      then show thesis using def gated [OF rs True, of st] by simp
    next
      case (Go_on st0)
      show thesis
      proof (cases "pin_gate (cc_knobs cc) clk computed st0")
        case (Answer st)
        then show thesis using def gated [OF rs True, of st] Go_on by simp
      next
        case go: (Go_on st)
        let ?m = "matched_after_gates M X T cc clk rid rq computed ((clear_block_ids rs)\<lparr>stale := st\<rparr>) c"
        obtain c1 rs1 where m: "?m = Inr (c1, rs1, hit, async)" "c' = put_req rid rs1 c1"
          using def Go_on go by (cases ?m) auto
        obtain h where "tables c1 = tables c" "transfer_jobs rs1 = {}"
          "(stale rs1, hit, async) = ladder_result (cc_knobs cc) clk h computed st"
          by (rule matched_after_gatesD [OF m(1)]) (simp_all add: True)
        then show thesis using looked [OF rs True Go_on go _ m(2)] by simp
      qed
    qed
  qed
qed

section \<open>Escape mode\<close>

text \<open>While the claim is active and the boundary stands still, escape mode answers every call.\<close>

lemma escape_held:
  assumes "escape st" "claim_active st" "computed = last_num_computed st"
  shows "\<exists>st'. escape_gate kn clk computed st = Answer st' \<and> escape st' \<and> claim_active st' \<and>
    last_num_computed st' = computed"
  using assms by (simp add: escape_gate_def Let_def)

lemma pin_gate_fields:
  "pin_gate kn clk computed st = Go_on st' \<Longrightarrow>
   escape st' = escape st \<and> claim_active st' = claim_active st \<and> last_num_computed st' = last_num_computed st"
  by (auto simp: pin_gate_def Let_def split: if_splits)

text \<open>A lookup at another boundary leaves escape mode.\<close>

lemma ladder_new_boundary:
  assumes "\<not> claim_active st" "computed \<noteq> last_num_computed st"
  shows "\<not> escape (fst (ladder_result kn clk h computed st))"
  using assms
  by (simp add: ladder_result_def claim_gate_def stale_ladder_def is_repeat_def no_repeat_def Let_def)

section \<open>The budget\<close>

fun ladder_run :: "knobs \<Rightarrow> int \<Rightarrow> int \<Rightarrow> (clock_site \<Rightarrow> rat) list \<Rightarrow> stale_hit \<Rightarrow> stale_hit" where
  "ladder_run kn h computed [] st = st"
| "ladder_run kn h computed (clk # clks) st =
     (if escape st then st
      else ladder_run kn h computed clks (gate_state (stale_ladder kn clk (Some h) computed st)))"

text \<open>The state after \<open>k\<close> counted repeats.\<close>

definition repeating :: "knobs \<Rightarrow> int \<Rightarrow> int \<Rightarrow> rat \<Rightarrow> int \<Rightarrow> stale_hit \<Rightarrow> bool" where
  "repeating kn h computed t0 k st \<longleftrightarrow>
     \<not> escape st \<and> last_hit_tokens st = Some h \<and> last_num_computed st = computed \<and>
     t0 \<le> last_ts st \<and> 0 \<le> streak st \<and> streak st < stale_max_lookups kn \<and>
     0 \<le> fallback_count st \<and> fallback_count st < fallback_limit kn \<and>
     fallback_count st * stale_max_lookups kn + streak st = k"

lemma repeat_step:
  assumes r: "repeating kn h computed t0 k st" and "h \<noteq> 0"
    and t: "t0 \<le> clk ClkNow" "clk ClkNow < t0 + repeat_window kn"
  shows "escape (gate_state (stale_ladder kn clk (Some h) computed st)) \<or>
    repeating kn h computed t0 (k + 1) (gate_state (stale_ladder kn clk (Some h) computed st))"
proof -
  define st1 where "st1 = (if wall_start st \<le> 0 then st\<lparr>wall_start := clk ClkNow\<rparr> else st)"
  define st2 where "st2 = st1\<lparr>streak := streak st1 + 1, repeat_count := repeat_count st1 + 1\<rparr>"
  have f: "streak st2 = streak st + 1" "last_hit_tokens st2 = Some h" "last_num_computed st2 = computed"
    "fallback_count st2 = fallback_count st" "last_ts st2 = last_ts st" "escape st2 = escape st"
    using r by (simp_all add: st1_def st2_def repeating_def)
  have rep: "is_repeat kn (Some h) computed st"
    using r \<open>h \<noteq> 0\<close> by (auto simp: is_repeat_def truthy_def repeating_def)
  have now: "clk ClkNow - last_ts st1 < repeat_window kn" using r t by (simp add: st1_def repeating_def)
  have ladder: "stale_ladder kn clk (Some h) computed st =
      (if streak st2 \<ge> stale_max_lookups kn then Answer (fall_back kn clk h computed st2)
       else Go_on (st2\<lparr>last_hit_tokens := Some h, last_num_computed := computed, last_ts := clk ClkNow\<rparr>))"
    using rep now by (simp add: stale_ladder_def Let_def st1_def [symmetric] st2_def)
  show ?thesis
  proof (cases "streak st2 \<ge> stale_max_lookups kn")
    case False
    then show ?thesis using ladder r f t by (simp add: repeating_def)
  next
    case True
    then have full: "streak st + 1 = stale_max_lookups kn" using r f by (simp add: repeating_def)
    let ?st = "fall_back kn clk h computed st2"
    have "escape ?st \<or> (\<not> escape ?st \<and> streak ?st = 0 \<and> fallback_count ?st = fallback_count st + 1 \<and>
        fallback_count st + 1 < fallback_limit kn \<and>
        last_hit_tokens ?st = Some h \<and> last_num_computed ?st = computed \<and> last_ts ?st = last_ts st)"
      using r f by (auto simp: fall_back_def Let_def repeating_def)
    then show ?thesis
    proof (elim disjE conjE)
      assume "streak ?st = 0" "fallback_count ?st = fallback_count st + 1"
        "fallback_count st + 1 < fallback_limit kn" "\<not> escape ?st"
        "last_hit_tokens ?st = Some h" "last_num_computed ?st = computed" "last_ts ?st = last_ts st"
      moreover have "(fallback_count st + 1) * stale_max_lookups kn = k + 1"
        using full r by (simp add: repeating_def algebra_simps)
      ultimately show ?thesis using ladder True r by (simp add: repeating_def)
    qed (use ladder True in simp)
  qed
qed

lemma ladder_run_escaped [simp]: "escape st \<Longrightarrow> ladder_run kn h computed clks st = st"
  by (cases clks) auto

lemma repeats_escape:
  assumes "repeating kn h computed t0 k st" "h \<noteq> 0"
    and "\<forall>clk \<in> set clks. t0 \<le> clk ClkNow \<and> clk ClkNow < t0 + repeat_window kn"
    and "stale_max_lookups kn * fallback_limit kn \<le> k + int (length clks)"
  shows "escape (ladder_run kn h computed clks st)"
  using assms(1,3,4)
proof (induction clks arbitrary: st k)
  case Nil
  then have r: "fallback_count st + 1 \<le> fallback_limit kn" "0 \<le> stale_max_lookups kn"
    "streak st < stale_max_lookups kn" "fallback_count st * stale_max_lookups kn + streak st = k"
    by (auto simp: repeating_def)
  have "(fallback_count st + 1) * stale_max_lookups kn \<le> fallback_limit kn * stale_max_lookups kn"
    by (rule mult_right_mono [OF r(1,2)])
  with r(3,4) Nil.prems(3) show ?case by (simp add: algebra_simps)
next
  case (Cons clk clks)
  then show ?case
    using repeat_step [OF Cons.prems(1) assms(2), of clk]
      Cons.IH [of "k + 1" "gate_state (stale_ladder kn clk (Some h) computed st)"]
    by (auto simp: repeating_def)
qed

end
