(* ===== verification/Request_Properties.thy ===== *)
theory Request_Properties
  imports Connector_Request_Facts Connector_Stale_Facts Lookup_Properties
begin

text \<open>
  The properties of the connector's request bookkeeping: which chunks of a sliding-window group
  are stored, the keys of a request and its store pointer, the tier filter of its context, and
  the stale-hit ladder with its escape mode.
\<close>

section \<open>Which sliding-window chunks are stored\<close>

text \<open>
  C38: the stores that \<open>is_store_reachable_swa_chunk\<close> leaves out are exactly the useless ones. A
  chunk is kept if and only if some hit boundary exists, a multiple of the alignment or the end of
  the storable prefix, whose lookup window (one chunk longer for a draft-model group) contains it.
\<close>

theorem skipped_chunks_unreachable:
  assumes "0 \<le> i" "i < n" "0 < a" "0 \<le> w" "w < a" and "0 < w \<or> eagle"
  shows "is_store_reachable_swa_chunk i n (Some a) (Some w) eagle =
     Inr (\<exists>b. (b = n \<or> a dvd b) \<and> b \<le> n \<and> b - (w + of_bool eagle) \<le> i \<and> i < b)"
  using assms by (rule reachable_iff_window)

theorem skipped_chunks_unreachable_witness:
  "is_store_reachable_swa_chunk 5 10 (Some 4) (Some 1) True =
     Inr (\<exists>b. (b = 10 \<or> 4 dvd b) \<and> b \<le> 10 \<and> b - (1 + of_bool True) \<le> 5 \<and> (5 :: int) < b)"
  using skipped_chunks_unreachable [of 5 10 4 1 True] by simp

section \<open>The keys of a request\<close>

text \<open>
  C40: extending the keys of a request is the same as computing them anew. When every group has the
  keys of a prefix of the request's block hashes, \<open>update_offload_keys\<close> gives it the keys of all
  block hashes, one per complete chunk, and raises nothing.
\<close>

theorem keys_incremental:
  assumes "groups_ok cfg rs" "keys_config_ok cfg" and "take (length hs) (block_hashes rq) = hs"
    and "\<forall>gc \<in> set (kv_groups cfg). offload_keys (gstate rs gc) = chunk_keys (nat (hashes_per_chunk gc)) (group_idx gc) hs"
  shows "\<exists>rs'. update_offload_keys cfg rq rs = Inr rs' \<and>
    (\<forall>gc \<in> set (kv_groups cfg). offload_keys (gstate rs' gc) =
       chunk_keys (nat (hashes_per_chunk gc)) (group_idx gc) (block_hashes rq))"
proof -
  obtain rs' where rs': "update_offload_keys cfg rq rs = Inr rs'"
    and g: "\<forall>gc \<in> set (kv_groups cfg). gstate rs' gc = extend_keys rq gc (gstate rs gc)"
    using update_offload_keys_ok [OF assms(1,2), of rq] by blast
  have "offload_keys (gstate rs' gc) = chunk_keys (nat (hashes_per_chunk gc)) (group_idx gc) (block_hashes rq)"
    if "gc \<in> set (kv_groups cfg)" for gc
    using extend_chunk_keys [OF bspec [OF assms(4) that] assms(3)] bspec [OF g that] by simp
  with rs' show ?thesis by blast
qed

theorem keys_incremental_witness:
  "\<exists>rs'. update_offload_keys demo_sched demo_request demo_rs = Inr rs' \<and>
     offload_keys (gstate rs' (demo_group 1 (Some 1))) = chunk_keys 1 1 [[1], [2]]"
proof -
  have "groups_ok demo_sched demo_rs" "keys_config_ok demo_sched"
    by (simp_all add: groups_ok_def keys_config_ok_def demo_eval)
  moreover have "chunk_keys (nat 1) 0 [[1], [2]] = [[1, 0, 0, 0, 0], [2, 0, 0, 0, 0]]"
    "chunk_keys (nat 1) 1 [[1], [2]] = [[1, 0, 0, 0, 1], [2, 0, 0, 0, 1]]" by code_simp+
  then have "\<forall>gc \<in> set (kv_groups demo_sched). offload_keys (gstate demo_rs gc) =
      chunk_keys (nat (hashes_per_chunk gc)) (group_idx gc) [[1], [2]]"
    by (simp add: demo_eval)
  ultimately show ?thesis
    using keys_incremental [of demo_sched demo_rs "[[1], [2]]" demo_request]
    by (auto simp: demo_request_def demo_sched_def demo_group_def)
qed

text \<open>
  The store pointer only moves forward, and never past the chunks whose GPU blocks are
  allocated; the keys and blocks of the group stay as they are.
\<close>

lemma store_pointer_bounds:
  assumes "groups_ok cfg rs" and gc: "gc \<in> set (kv_groups cfg)"
  shows "\<exists>rs'. advance_stored_idx cfg rq n rs = Inr rs' \<and>
    next_stored_chunk_idx (gstate rs gc) \<le> next_stored_chunk_idx (gstate rs' gc) \<and>
    next_stored_chunk_idx (gstate rs' gc) \<le>
      max (next_stored_chunk_idx (gstate rs gc)) (int (length (block_ids (gstate rs gc))) div blocks_per_chunk cfg) \<and>
    offload_keys (gstate rs' gc) = offload_keys (gstate rs gc) \<and> block_ids (gstate rs' gc) = block_ids (gstate rs gc)"
proof -
  obtain rs' where rs': "advance_stored_idx cfg rq n rs = Inr rs'"
    and g: "gstate rs' gc = (gstate rs gc)\<lparr>next_stored_chunk_idx :=
       max (next_stored_chunk_idx (gstate rs gc)) (storable_chunks cfg rq gc (gstate rs gc) n)\<rparr>"
    using advance_stored_idx_ok [OF assms(1), of rq n] gc by blast
  moreover have "storable_chunks cfg rq gc (gstate rs gc) n \<le> int (length (block_ids (gstate rs gc))) div blocks_per_chunk cfg"
    by (simp add: storable_chunks_def Let_def)
  ultimately show ?thesis by (intro exI [of _ rs']) auto
qed

lemma store_pointer_bounds_witness:
  "\<exists>rs'. advance_stored_idx demo_sched demo_request 9 demo_rs = Inr rs' \<and>
     next_stored_chunk_idx (gstate rs' (demo_group 0 None)) \<le> 0"
proof -
  have "groups_ok demo_sched demo_rs" by (simp add: groups_ok_def demo_eval)
  from store_pointer_bounds [OF this, of "demo_group 0 None" demo_request 9]
  show ?thesis by (auto simp: demo_eval)
qed

section \<open>The tier filter\<close>

text \<open>
  Only an explicit empty list denies every tier. The context of a request has the deny-all
  filter exactly when \<open>kv_load_tiers\<close> is the empty list; a value of another type, or a list of
  entries none of which is understood, gives no restriction at all.
\<close>

theorem deny_all_only_for_empty_list:
  "load_tier_filter (create_req_context rid rq) = TierFilter [] \<longleftrightarrow>
     param ''kv_load_tiers'' (kv_transfer_params rq) = Some (JList [])"
  by (simp add: create_req_context_def parse_tier_filter_empty split: option.split)

section \<open>The stale-hit ladder\<close>

text \<open>
  C39: an identical hit that never becomes a load is not reported forever. From the state a first
  report of \<open>h\<close> tokens at boundary \<open>computed\<close> leaves, at most \<open>max_lookups * fallback_limit\<close>
  repeats within the window bring the request into escape mode.
\<close>

theorem stale_hits_escape:
  assumes "h \<noteq> 0" "0 < stale_max_lookups kn" "0 < fallback_limit kn"
    and "\<not> escape st" "fallback_count st = 0" "streak st = 0"
    and "last_hit_tokens st = Some h" "last_num_computed st = computed"
    and "\<forall>clk \<in> set clks. last_ts st \<le> clk ClkNow \<and> clk ClkNow < last_ts st + repeat_window kn"
    and "stale_max_lookups kn * fallback_limit kn \<le> int (length clks)"
  shows "escape (ladder_run kn h computed clks st)"
proof (rule repeats_escape)
  show "repeating kn h computed (last_ts st) 0 st" using assms by (simp add: repeating_def)
qed (use assms in auto)

definition demo_stale :: stale_hit where
  "demo_stale = gate_state (stale_ladder demo_knobs (\<lambda>_. 5) (Some 8) 0 init_stale)"

lemma demo_stale_eq: "demo_stale = init_stale\<lparr>last_hit_tokens := Some 8, last_num_computed := 0, last_ts := 5\<rparr>"
  by code_simp

lemma demo_knobs_eq: "demo_knobs = \<lparr>mirror_local = True, mirror_offer_cap = 4096, stale_max_lookups = 8,
    pin_seconds = 10, repeat_window = 300, escape_wall_secs = 240, escape_refusal_secs = 60,
    fallback_limit = 3, ttl_secs = 150\<rparr>"
  by code_simp

theorem stale_hits_escape_witness:
  "escape (ladder_run demo_knobs 8 0 (replicate 24 (\<lambda>_. 7)) demo_stale)"
  by (rule stale_hits_escape) (simp_all add: demo_stale_eq init_stale_def demo_knobs_eq)

text \<open>The calls of one request, one after the other, whatever they answer.\<close>

definition repeated_calls :: "'s mgr_ops \<Rightarrow> ext_ops \<Rightarrow> ('e, 'v) tracker_ops \<Rightarrow> conn_config \<Rightarrow> string \<Rightarrow>
    request \<Rightarrow> int \<Rightarrow> (clock_site \<Rightarrow> rat) list \<Rightarrow> ('s, 'e) connector \<Rightarrow> ('s, 'e) connector res" where
  "repeated_calls M X T cc rid rq computed =
     foldE (\<lambda>clk c. bindE (get_num_new_matched_tokens M X T cc clk rid rq computed c) (\<lambda>(c, _). Inr c))"

definition held :: "string \<Rightarrow> int \<Rightarrow> ('s, 'e) connector \<Rightarrow> bool" where
  "held rid computed c \<longleftrightarrow>
     (\<exists>rs. map_of (c_reqs c) rid = Some rs \<and> transfer_jobs rs = {} \<and> escape (stale rs) \<and>
        claim_active (stale rs) \<and> last_num_computed (stale rs) = computed)"

lemma held_call:
  assumes "held rid computed c"
  shows "\<exists>c'. get_num_new_matched_tokens M X T cc clk rid rq computed c = Inr (c', Some 0, False) \<and>
    held rid computed c'"
proof -
  obtain rs where rs: "map_of (c_reqs c) rid = Some rs" "transfer_jobs rs = {}" "escape (stale rs)"
    "claim_active (stale rs)" "last_num_computed (stale rs) = computed" using assms by (auto simp: held_def)
  obtain st where st: "escape_gate (cc_knobs cc) clk computed (stale rs) = Answer st" "escape st"
    "claim_active st" "last_num_computed st = computed"
    using escape_held [OF rs(3,4) rs(5) [symmetric]] by blast
  have "get_num_new_matched_tokens M X T cc clk rid rq computed c =
      Inr (put_req rid ((clear_block_ids rs)\<lparr>stale := st\<rparr>) c, Some 0, False)"
    using rs st by (simp add: get_num_new_matched_tokens_def get_req_def od_get_item_def clear_block_ids_def)
  moreover have "held rid computed (put_req rid ((clear_block_ids rs)\<lparr>stale := st\<rparr>) c)"
    using rs st by (simp add: held_def put_req_def map_of_od_update clear_block_ids_def)
  ultimately show ?thesis by blast
qed

text \<open>
  Nothing but progress ends an escape with an active claim. However often the request is
  asked again at the same boundary, and however late, every call answers without a lookup, none
  raises, and the request is still in escape mode: the wall-clock bound of the escape renews the
  hold and never releases it.
\<close>

lemma escape_claim_holds:
  assumes "map_of (c_reqs c) rid = Some rs" "transfer_jobs rs = {}"
    and "escape (stale rs)" "claim_active (stale rs)" "last_num_computed (stale rs) = computed"
  shows "\<exists>c'. repeated_calls M X T cc rid rq computed clks c = Inr c' \<and> is_stale_hit_escape rid c'"
proof -
  have "\<exists>c'. repeated_calls M X T cc rid rq computed clks c = Inr c' \<and> held rid computed c'"
    if "held rid computed c" for c
    using that
  proof (induction clks arbitrary: c)
    case (Cons clk clks)
    obtain c1 where "get_num_new_matched_tokens M X T cc clk rid rq computed c = Inr (c1, Some 0, False)"
      "held rid computed c1" using held_call [OF Cons.prems] by blast
    with Cons.IH [of c1] show ?case by (simp add: repeated_calls_def)
  qed (simp add: repeated_calls_def)
  moreover have "held rid computed c" using assms by (simp add: held_def)
  ultimately obtain c' where "repeated_calls M X T cc rid rq computed clks c = Inr c'" "held rid computed c'"
    by blast
  then show ?thesis by (auto simp: held_def is_stale_hit_escape_def)
qed

definition claimed_conn :: "(lru manager, unit) connector" where
  "claimed_conn = put_req ''r'' (demo_rs\<lparr>stale :=
     init_stale\<lparr>escape := True, wall_start := 1, claim_active := True, claim_hit_tokens := 8,
       claim_num_computed := 0, last_num_computed := 0\<rparr>\<rparr>) demo_conn"

lemma escape_claim_holds_witness:
  "\<exists>c'. repeated_calls (cpu_manager_ops lru_ops 0) demo_ext demo_tracker demo_cc ''r'' demo_request 0
      [\<lambda>_. 100, \<lambda>_. 1000, \<lambda>_. 100000] claimed_conn = Inr c' \<and> is_stale_hit_escape ''r'' c'"
  by (rule escape_claim_holds [where rs = "demo_rs\<lparr>stale :=
     init_stale\<lparr>escape := True, wall_start := 1, claim_active := True, claim_hit_tokens := 8,
       claim_num_computed := 0, last_num_computed := 0\<rparr>\<rparr>"])
     (simp_all add: claimed_conn_def put_req_def map_of_od_update init_stale_def demo_eval)

text \<open>
  Progress ends the escape. A request in escape mode, with a claim or without one, that comes
  back with another computed boundary leaves escape mode within that call: the gates let it go
  on to a lookup, and whatever the lookup finds the flag is cleared.
\<close>

lemma progress_ends_escape:
  assumes call: "get_num_new_matched_tokens M X T cc clk rid rq computed c = Inr (c', hit, async)"
    and rs: "map_of (c_reqs c) rid = Some rs" "transfer_jobs rs = {}"
    and esc: "escape (stale rs)" "computed \<noteq> last_num_computed (stale rs)"
  shows "\<not> is_stale_hit_escape rid c'"
  using call
proof (cases rule: get_numE)
  case (busy rs')
  then show ?thesis using rs by simp
next
  case (gated rs' st)
  then show ?thesis using rs esc
    by (auto simp: escape_gate_def release_progress_def pin_gate_def Let_def split: if_splits)
next
  case (looked rs' st0 st c1 rs1 h)
  then have "st0 = release_progress (stale rs)" using rs esc by (simp add: escape_gate_def)
  then have "\<not> claim_active st" "computed \<noteq> last_num_computed st"
    using pin_gate_fields [OF looked(4)] esc by (simp_all add: release_progress_def)
  then have "\<not> escape (stale rs1)" using ladder_new_boundary looked(8) by (metis fst_conv)
  then show ?thesis using looked(6) by (simp add: is_stale_hit_escape_def put_req_def map_of_od_update)
qed

definition resumed_call :: "((lru manager, unit) connector \<times> int option \<times> bool) res" where
  "resumed_call = get_num_new_matched_tokens (cpu_manager_ops lru_ops 0) demo_ext demo_tracker demo_cc
     (\<lambda>_. 100) ''r'' (demo_request\<lparr>skip_reading_prefix_cache := True\<rparr>) 4 claimed_conn"

lemma resumed_call_ok: "\<exists>c' hit async. resumed_call = Inr (c', hit, async)"
  unfolding resumed_call_def get_num_new_matched_tokens_def Let_def get_req_def
  by (simp add: od_get_item_def claimed_conn_def put_req_def map_of_od_update clear_block_ids_def demo_eval
    escape_gate_def pin_gate_def demo_knobs_eq release_progress_def init_stale_def Let_def matched_after_gates_def
    update_offload_keys_def update_group_keys_def nth_res_def every.simps cong: bindE_weak_cong)
     (simp add: timed_lookup_def claim_gate_def truthy_def update_num_hit_chunks_def hit_group_def nth_res_def
    touch_request_def touch_group_def tell_manager_def lookup_eval demo_mgr_eval od_move_to_end_def
    stale_ladder_def is_repeat_def cong: bindE_weak_cong, blast)

lemma progress_ends_escape_witness:
  "is_stale_hit_escape ''r'' claimed_conn \<and> \<not> is_stale_hit_escape ''r'' (fst (projr resumed_call))"
proof -
  have c: "is_stale_hit_escape ''r'' claimed_conn"
    by (simp add: is_stale_hit_escape_def claimed_conn_def put_req_def map_of_od_update)
  from resumed_call_ok obtain c' hit async where r: "resumed_call = Inr (c', hit, async)"
    by blast
  have "\<not> is_stale_hit_escape ''r'' c'"
    by (rule progress_ends_escape [OF r [unfolded resumed_call_def], where rs = "demo_rs\<lparr>stale :=
      init_stale\<lparr>escape := True, wall_start := 1, claim_active := True, claim_hit_tokens := 8,
        claim_num_computed := 0, last_num_computed := 0\<rparr>\<rparr>"])
       (simp_all add: claimed_conn_def put_req_def map_of_od_update demo_eval init_stale_def)
  then have "\<not> is_stale_hit_escape ''r'' (fst (projr resumed_call))" unfolding r by simp
  with c show ?thesis ..
qed

end
