(* ===== verification/Connector_Job_Facts.thy ===== *)
theory Connector_Job_Facts
  imports Connector_Stale_Facts
begin

text \<open>
  The invariant of the connector's job tables, on the parts of the state that it is about: the
  job set of each request, the jobs, the job counter and the stale threshold, and the fences.
  Every job belongs to the request that lists it, a request has one load job or only store jobs,
  job ids are between the threshold and the counter, and a fence names live store jobs that read
  the fenced block. In the other direction, every block that a live store reads and that its
  request no longer protects is fenced: the sliding-window blocks from the start, the others once
  the end of the request was announced (\<open>request_finished\<close>); \<open>N\<close> is the set of those requests.
\<close>

section \<open>The invariant\<close>

abbreviation opt_list :: "'a list option \<Rightarrow> 'a list" where
  "opt_list x \<equiv> (case x of None \<Rightarrow> [] | Some xs \<Rightarrow> xs)"

definition fences_block :: "(string \<Rightarrow> request) \<Rightarrow> job_status \<Rightarrow> int \<Rightarrow> bool" where
  "fences_block Q js bid \<longleftrightarrow>
     js_is_store js \<and>
     (bid \<in> set (opt_list (js_fenced js)) \<or>
      bid \<in> set (opt_list (js_deferred js)) \<and> finished (Q (js_req_id js)))"

definition one_kind :: "(int \<rightharpoonup> job_status) \<Rightarrow> string \<Rightarrow> int set \<Rightarrow> bool" where
  "one_kind J rid A \<longleftrightarrow>
     (\<forall>jid \<in> A. \<exists>js. J jid = Some js \<and> js_req_id js = rid \<and> js_is_store js) \<or>
     (\<exists>jid js. A = {jid} \<and> J jid = Some js \<and> js_req_id js = rid \<and> \<not> js_is_store js)"

definition job_tables_ok :: "(string \<Rightarrow> request) \<Rightarrow> (string \<rightharpoonup> int set) \<Rightarrow> (int \<rightharpoonup> job_status) \<Rightarrow>
    int \<Rightarrow> int \<Rightarrow> (int \<rightharpoonup> int set) \<Rightarrow> bool" where
  "job_tables_ok Q R J n t P \<longleftrightarrow>
     t \<le> n \<and>
     (\<forall>jid js. J jid = Some js \<longrightarrow>
        t \<le> jid \<and> jid < n \<and> (\<exists>A. R (js_req_id js) = Some A \<and> jid \<in> A)) \<and>
     (\<forall>rid A. R rid = Some A \<longrightarrow> one_kind J rid A) \<and>
     (\<forall>bid S. P bid = Some S \<longrightarrow>
        S \<noteq> {} \<and> (\<forall>jid \<in> S. \<exists>js. J jid = Some js \<and> fences_block Q js bid))"

lemma tables_job:
  "job_tables_ok Q R J n t P \<Longrightarrow> J jid = Some js \<Longrightarrow>
   t \<le> jid \<and> jid < n \<and> (\<exists>A. R (js_req_id js) = Some A \<and> jid \<in> A)"
  unfolding job_tables_ok_def by blast

lemma tables_kind: "job_tables_ok Q R J n t P \<Longrightarrow> R rid = Some A \<Longrightarrow> one_kind J rid A"
  unfolding job_tables_ok_def by blast

lemma tables_pending:
  "job_tables_ok Q R J n t P \<Longrightarrow> P bid = Some S \<Longrightarrow>
   S \<noteq> {} \<and> (\<forall>jid \<in> S. \<exists>js. J jid = Some js \<and> fences_block Q js bid)"
  unfolding job_tables_ok_def by blast

definition jobs_of :: "('s, 'e) connector \<Rightarrow> string \<rightharpoonup> int set" where
  "jobs_of c = (\<lambda>rid. map_option transfer_jobs (map_of (c_reqs c) rid))"

definition loads_bare :: "(int \<rightharpoonup> job_status) \<Rightarrow> bool" where
  "loads_bare J \<longleftrightarrow>
     (\<forall>jid js. J jid = Some js \<and> \<not> js_is_store js \<longrightarrow> js_fenced js = None \<and> js_deferred js = None)"

definition read_blocks :: "string set \<Rightarrow> job_status \<Rightarrow> int set" where
  "read_blocks N js =
     set (opt_list (js_fenced js)) \<union>
     (if js_req_id js \<in> N then set (opt_list (js_deferred js)) else {})"

lemma read_blocks_mono: "N' \<subseteq> N \<Longrightarrow> read_blocks N' js \<subseteq> read_blocks N js"
  unfolding read_blocks_def by auto

definition fences_held :: "(int \<rightharpoonup> job_status) \<Rightarrow> (int \<rightharpoonup> int set) \<Rightarrow> string set \<Rightarrow> bool" where
  "fences_held J P N \<longleftrightarrow>
     (\<forall>jid js. J jid = Some js \<longrightarrow> (\<forall>bid \<in> read_blocks N js. \<exists>S. P bid = Some S \<and> jid \<in> S))"

definition job_inv :: "(string \<Rightarrow> request) \<Rightarrow> string set \<Rightarrow> ('s, 'e) connector \<Rightarrow> bool" where
  "job_inv Q N c \<longleftrightarrow>
     job_tables_ok Q (jobs_of c) (map_of (c_jobs c)) (c_job_counter c) (c_stale_threshold c)
       (map_of (c_pending c)) \<and>
     loads_bare (map_of (c_jobs c)) \<and> fences_held (map_of (c_jobs c)) (map_of (c_pending c)) N \<and>
     (\<forall>rid \<in> N. finished (Q rid))"

definition job_view :: "('s, 'e) connector \<Rightarrow>
    (string \<rightharpoonup> int set) \<times> (int, job_status) odict \<times> int \<times> int \<times> pending" where
  "job_view c = (jobs_of c, c_jobs c, c_job_counter c, c_stale_threshold c, c_pending c)"

lemma job_inv_view: "job_view c' = job_view c \<Longrightarrow> job_inv Q N c' \<longleftrightarrow> job_inv Q N c"
  by (simp add: job_inv_def job_view_def)

lemma tables_view: "tables c' = tables c \<Longrightarrow> job_view c' = job_view c"
  by (simp add: tables_def job_view_def jobs_of_def)

lemma put_req_view:
  "map_of (c_reqs c) rid = Some rs0 \<Longrightarrow> transfer_jobs rs = transfer_jobs rs0 \<Longrightarrow>
   job_view (put_req rid rs c) = job_view c"
  by (auto simp: job_view_def put_req_def jobs_of_def map_of_od_update fun_eq_iff)

lemma jobs_of_put_req [simp]: "jobs_of (put_req rid rs c) = (jobs_of c)(rid \<mapsto> transfer_jobs rs)"
  by (auto simp: put_req_def jobs_of_def map_of_od_update fun_eq_iff)

lemma put_req_sel [simp]:
  "c_jobs (put_req rid rs c) = c_jobs c" "c_pending (put_req rid rs c) = c_pending c"
  "c_job_counter (put_req rid rs c) = c_job_counter c"
  "c_stale_threshold (put_req rid rs c) = c_stale_threshold c"
  by (simp_all add: put_req_def)

section \<open>Changes of the tables\<close>

lemma one_kind_empty [simp]: "one_kind J rid {}"
  by (simp add: one_kind_def)

lemma one_kind_upd:
  "one_kind J rid A \<Longrightarrow> jid \<notin> A \<Longrightarrow> one_kind (J(jid \<mapsto> js)) rid A"
  unfolding one_kind_def by auto

lemma one_kind_del: "one_kind J rid A \<Longrightarrow> jid \<notin> A \<Longrightarrow> one_kind (J(jid := None)) rid A"
  unfolding one_kind_def by auto

lemma one_kind_mem: "one_kind J rid A \<Longrightarrow> jid \<in> A \<Longrightarrow> \<exists>js. J jid = Some js \<and> js_req_id js = rid"
  unfolding one_kind_def by auto

text \<open>The record of a job may change in its count of pending workers.\<close>

lemma one_kind_count:
  "one_kind J rid A \<Longrightarrow> J jid = Some js0 \<Longrightarrow> js_req_id js = js_req_id js0 \<Longrightarrow>
   js_is_store js = js_is_store js0 \<Longrightarrow> one_kind (J(jid \<mapsto> js)) rid A"
  unfolding one_kind_def by auto

lemma tables_count:
  assumes "job_tables_ok Q R J n t P" "J jid = Some js0"
    and "js_req_id js = js_req_id js0" "js_is_store js = js_is_store js0"
    and "js_fenced js = js_fenced js0" "js_deferred js = js_deferred js0"
  shows "job_tables_ok Q R (J(jid \<mapsto> js)) n t P"
proof -
  have "fences_block Q js bid \<longleftrightarrow> fences_block Q js0 bid" for bid
    using assms(3-6) by (simp add: fences_block_def)
  then show ?thesis
    using assms(1-4) one_kind_count [of J _ _ jid js0 js]
    unfolding job_tables_ok_def by (auto split: if_splits) (metis option.inject)+
qed

lemma tables_new_request:
  assumes "job_tables_ok Q R J n t P" "R rid = None"
  shows "job_tables_ok Q (R(rid \<mapsto> {})) J n t P"
  using assms unfolding job_tables_ok_def by (auto split: if_splits) (metis option.distinct(1))+

lemma tables_drop_request:
  assumes "job_tables_ok Q R J n t P" "R rid = Some {}"
  shows "job_tables_ok Q (R(rid := None)) J n t P"
  using assms unfolding job_tables_ok_def by (auto split: if_splits) (metis empty_iff option.inject)+

text \<open>A new job: a load of a request without jobs, or a store next to stores.\<close>

lemma tables_add_job:
  assumes ok: "job_tables_ok Q R J n t P" and A: "R rid = Some A" and js: "js_req_id js = rid"
    and kind: "if js_is_store js then \<forall>jid \<in> A. \<exists>js. J jid = Some js \<and> js_is_store js else A = {}"
  shows "job_tables_ok Q (R(rid \<mapsto> insert n A)) (J(n \<mapsto> js)) (n + 1) t P"
proof -
  have fresh: "J n = None" using ok unfolding job_tables_ok_def by (metis less_irrefl not_None_eq)
  have nin: "n \<notin> B" if "R r = Some B" for r B
    using ok that fresh one_kind_mem [of J r B n] unfolding job_tables_ok_def by auto
  have old: "one_kind J rid A" using ok A unfolding job_tables_ok_def by blast
  have new: "one_kind (J(n \<mapsto> js)) rid (insert n A)"
  proof (cases "js_is_store js")
    case True
    have "\<forall>jid \<in> A. \<exists>js. J jid = Some js \<and> js_req_id js = rid \<and> js_is_store js"
      using kind True one_kind_mem [OF old] by fastforce
    then show ?thesis using True js nin [OF A] unfolding one_kind_def by auto
  next
    case False
    then show ?thesis using kind js unfolding one_kind_def by auto
  qed
  show ?thesis
    unfolding job_tables_ok_def
  proof (intro conjI allI impI)
    show "t \<le> n + 1" using ok unfolding job_tables_ok_def by simp
    fix jid js' assume j: "(J(n \<mapsto> js)) jid = Some js'"
    show "t \<le> jid" "jid < n + 1" using j ok unfolding job_tables_ok_def by (auto split: if_splits) force+
    show "\<exists>B. (R(rid \<mapsto> insert n A)) (js_req_id js') = Some B \<and> jid \<in> B"
    proof (cases "jid = n")
      case True
      then show ?thesis using j js by simp
    next
      case False
      then have "J jid = Some js'" using j by simp
      then obtain B where "R (js_req_id js') = Some B" "jid \<in> B"
        using ok unfolding job_tables_ok_def by blast
      then show ?thesis using A by (cases "js_req_id js' = rid") auto
    qed
  next
    fix r B assume "(R(rid \<mapsto> insert n A)) r = Some B"
    then show "one_kind (J(n \<mapsto> js)) r B"
      using new ok nin one_kind_upd [of J r B n js] unfolding job_tables_ok_def by (auto split: if_splits)
  next
    fix bid S assume S: "P bid = Some S"
    then show "S \<noteq> {}" using ok unfolding job_tables_ok_def by simp
    show "\<forall>jid \<in> S. \<exists>js'. (J(n \<mapsto> js)) jid = Some js' \<and> fences_block Q js' bid"
      using S ok fresh unfolding job_tables_ok_def by fastforce
  qed
qed

text \<open>Fencing blocks the job reads.\<close>

lemma map_of_fence: "map_of (fence jid bid p) = (map_of p)(bid \<mapsto> insert jid (get_or bid {} p))"
  by (simp add: fence_def map_of_od_update)

lemma map_of_fences:
  "map_of (fold (fence jid) bids p) b =
     (if b \<in> set bids then Some (insert jid (get_or b {} p)) else map_of p b)"
  by (induction bids arbitrary: p) (auto simp: map_of_fence get_or_def)

lemma tables_fence:
  assumes "job_tables_ok Q R J n t (map_of p)" "J jid = Some js" "\<forall>bid \<in> set bids. fences_block Q js bid"
  shows "job_tables_ok Q R J n t (map_of (fold (fence jid) bids p))"
  using assms unfolding job_tables_ok_def
  by (auto simp: map_of_fences get_or_def split: if_splits option.splits)

text \<open>A fence is released when its job is done.\<close>

fun without_job :: "int \<Rightarrow> int set option \<Rightarrow> int set option" where
  "without_job jid None = None"
| "without_job jid (Some S) = (if S = {jid} then None else Some (S - {jid}))"

lemma without_job_idem [simp]: "without_job jid (without_job jid x) = without_job jid x"
  by (cases x) auto

lemma without_job_mem: "without_job jid x = Some S \<Longrightarrow> jid \<notin> S"
  by (cases x) (auto split: if_splits)

lemma unfence_eq_Inr:
  "unfence jid bid p = Inr p' \<Longrightarrow> map_of p' = (map_of p)(bid := without_job jid (map_of p bid))"
proof -
  assume u: "unfence jid bid p = Inr p'"
  then obtain js where js: "map_of p bid = Some js"
    by (cases "map_of p bid") (auto simp: unfence_def od_get_item_def res_simps)
  show ?thesis
  proof (cases "jid \<in> js")
    case True
    show ?thesis
    proof (cases "js = {jid}")
      case True
      then show ?thesis using u js
        by (auto simp: unfence_def od_get_item_def map_of_od_delete)
    next
      case False
      then have "js - {jid} \<noteq> {}" using \<open>jid \<in> js\<close> by blast
      then show ?thesis using u js \<open>jid \<in> js\<close> False
        by (simp only: unfence_def od_get_item_def Let_def) (auto simp: map_of_od_update)
    qed
  next
    case False
    then show ?thesis using u js by (simp add: unfence_def od_get_item_def res_simps)
  qed
qed

lemma unfence_all:
  "foldE (unfence jid) bs p = Inr p' \<Longrightarrow>
   map_of p' = (\<lambda>b. if b \<in> set bs then without_job jid (map_of p b) else map_of p b)"
  by (induction bs arbitrary: p) (auto simp: res_simps fun_eq_iff dest!: unfence_eq_Inr)

lemma remove_pending_job_eq_Inr:
  "remove_pending_job jid bids p = Inr p' \<Longrightarrow>
   map_of p' = (\<lambda>b. if b \<in> set (opt_list bids) then without_job jid (map_of p b) else map_of p b)"
  unfolding remove_pending_job_def by (rule unfence_all)

lemma release_fences_eq_Inr:
  assumes "release_fences fin jid js p = Inr p'"
  shows "map_of p' = (\<lambda>b. if b \<in> set (opt_list (js_fenced js)) \<or> fin \<and> b \<in> set (opt_list (js_deferred js))
    then without_job jid (map_of p b) else map_of p b)"
proof (cases "p = []")
  case True
  then show ?thesis using assms by (auto simp: release_fences_def)
next
  case False
  then obtain p1 where p1: "remove_pending_job jid (js_fenced js) p = Inr p1"
    and p2: "(if fin then remove_pending_job jid (js_deferred js) p1 else Inr p1) = Inr p'"
    using assms by (auto simp: release_fences_def res_simps)
  show ?thesis
  proof (cases fin)
    case True
    then have "remove_pending_job jid (js_deferred js) p1 = Inr p'" using p2 by simp
    from remove_pending_job_eq_Inr [OF this] remove_pending_job_eq_Inr [OF p1] True
    show ?thesis by (auto simp: fun_eq_iff)
  next
    case False
    then show ?thesis using p2 remove_pending_job_eq_Inr [OF p1] by (auto simp: fun_eq_iff)
  qed
qed

text \<open>A finished job leaves its request, the job table and all fences.\<close>

lemma tables_finish_job:
  assumes ok: "job_tables_ok Q R J n t (map_of p)" and J: "J jid = Some js" and R: "R (js_req_id js) = Some A"
    and p': "release_fences (finished (Q (js_req_id js))) jid js p = Inr p'"
  shows "job_tables_ok Q (R(js_req_id js \<mapsto> A - {jid})) (J(jid := None)) n t (map_of p')"
proof -
  let ?rid = "js_req_id js"
  have nin: "jid \<notin> B" if "R r = Some B" "r \<noteq> ?rid" for r B
    using ok that J one_kind_mem [of J r B jid] unfolding job_tables_ok_def by auto
  have kind: "one_kind J ?rid A" using ok R unfolding job_tables_ok_def by blast
  have new: "one_kind (J(jid := None)) ?rid (A - {jid})"
    using kind unfolding one_kind_def by auto
  have gone: "jid \<notin> S" if S: "map_of p' b = Some S" for b S
  proof
    assume mem: "jid \<in> S"
    let ?hit = "b \<in> set (opt_list (js_fenced js)) \<or> finished (Q ?rid) \<and> b \<in> set (opt_list (js_deferred js))"
    have Sb: "(if ?hit then without_job jid (map_of p b) else map_of p b) = Some S"
      using S unfolding release_fences_eq_Inr [OF p'] .
    have "\<not> ?hit"
    proof
      assume "?hit"
      then have "without_job jid (map_of p b) = Some S" using Sb by (simp only: if_True)
      then show False using mem without_job_mem by metis
    qed
    moreover from this have "map_of p b = Some S" using Sb by (simp only: if_False)
    then have "fences_block Q js b" using ok J mem unfolding job_tables_ok_def by fastforce
    ultimately show False unfolding fences_block_def by blast
  qed
  have sub: "\<exists>S0. map_of p b = Some S0 \<and> S \<subseteq> S0 \<and> S \<noteq> {}" if S: "map_of p' b = Some S" for b S
  proof -
    consider "map_of p b = Some S" | "without_job jid (map_of p b) = Some S"
      using release_fences_eq_Inr [OF p'] S by (auto split: if_splits)
    then show ?thesis
    proof cases
      case 1
      then show ?thesis using ok unfolding job_tables_ok_def by blast
    next
      case 2
      then obtain S0 where "map_of p b = Some S0" by (cases "map_of p b") auto
      moreover from this have "S0 \<noteq> {}" using ok unfolding job_tables_ok_def by blast
      ultimately show ?thesis using 2 by (auto split: if_splits)
    qed
  qed
  show ?thesis
    unfolding job_tables_ok_def
  proof (intro conjI allI impI)
    show "t \<le> n" using ok unfolding job_tables_ok_def by simp
    fix j js' assume "(J(jid := None)) j = Some js'"
    then have j: "j \<noteq> jid" "J j = Some js'" by (auto split: if_splits)
    with ok show "t \<le> j" "j < n" unfolding job_tables_ok_def by blast+
    obtain B where "R (js_req_id js') = Some B" "j \<in> B"
      using ok j unfolding job_tables_ok_def by blast
    then show "\<exists>B. (R(?rid \<mapsto> A - {jid})) (js_req_id js') = Some B \<and> j \<in> B"
      using R j by (cases "js_req_id js' = ?rid") auto
  next
    fix r B assume "(R(?rid \<mapsto> A - {jid})) r = Some B"
    then show "one_kind (J(jid := None)) r B"
      using new ok nin one_kind_del [of J r B jid] unfolding job_tables_ok_def by (auto split: if_splits)
  next
    fix b S assume S: "map_of p' b = Some S"
    show "S \<noteq> {}" using sub [OF S] by blast
    show "\<forall>j \<in> S. \<exists>js'. (J(jid := None)) j = Some js' \<and> fences_block Q js' b"
    proof
      fix j assume j: "j \<in> S"
      obtain S0 where "map_of p b = Some S0" "S \<subseteq> S0" using sub [OF S] by blast
      then obtain js' where "J j = Some js'" "fences_block Q js' b"
        using ok j unfolding job_tables_ok_def by blast
      moreover have "j \<noteq> jid" using gone [OF S] j by blast
      ultimately show "\<exists>js'. (J(jid := None)) j = Some js' \<and> fences_block Q js' b" by simp
    qed
  qed
qed

section \<open>Fences are held\<close>

lemma held_count:
  assumes "fences_held J P N" "J jid = Some js0"
    and "js_req_id js = js_req_id js0" "js_fenced js = js_fenced js0" "js_deferred js = js_deferred js0"
  shows "fences_held (J(jid \<mapsto> js)) P N"
proof -
  have "read_blocks N js = read_blocks N js0" using assms(3-5) by (simp add: read_blocks_def)
  then show ?thesis using assms(1,2) unfolding fences_held_def by (metis fun_upd_apply option.inject)
qed

lemma held_add:
  assumes "fences_held J P N" "J jid = None" "\<forall>bid \<in> read_blocks N js. \<exists>S. P bid = Some S \<and> jid \<in> S"
  shows "fences_held (J(jid \<mapsto> js)) P N"
  using assms unfolding fences_held_def by (metis fun_upd_apply option.inject)

lemma held_drop: "fences_held J P N \<Longrightarrow> fences_held (J(jid := None)) P N"
  unfolding fences_held_def by (metis fun_upd_apply option.distinct(1))

lemma held_more:
  assumes "fences_held J P N" "\<And>bid S. P bid = Some S \<Longrightarrow> \<exists>S'. P' bid = Some S' \<and> S \<subseteq> S'"
  shows "fences_held J P' N"
  using assms unfolding fences_held_def by (metis subsetD)

lemma fences_grow:
  assumes "map_of p bid = Some S"
  shows "\<exists>S'. map_of (fold (fence jid) bids p) bid = Some S' \<and> S \<subseteq> S'"
  using assms by (cases "bid \<in> set bids") (auto simp: map_of_fences get_or_def)

lemma fences_set: "bid \<in> set bids \<Longrightarrow> \<exists>S. map_of (fold (fence jid) bids p) bid = Some S \<and> jid \<in> S"
  by (simp add: map_of_fences)

lemma held_finish:
  assumes held: "fences_held J (map_of p) N" and p': "release_fences fin jid js p = Inr p'"
  shows "fences_held (J(jid := None)) (map_of p') N"
  unfolding fences_held_def
proof (intro allI impI ballI)
  fix j js' bid
  assume "(J(jid := None)) j = Some js'" and bid: "bid \<in> read_blocks N js'"
  then have j: "j \<noteq> jid" "J j = Some js'" by (auto split: if_splits)
  with held bid obtain S where S: "map_of p bid = Some S" "j \<in> S" unfolding fences_held_def by blast
  have "S \<noteq> {jid}" using S(2) j(1) by blast
  then have w: "without_job jid (map_of p bid) = Some (S - {jid})" using S(1) by simp
  have "map_of p' bid = Some (S - {jid}) \<or> map_of p' bid = Some S"
    using release_fences_eq_Inr [OF p'] w S(1) by (metis (no_types, lifting))
  then show "\<exists>S. map_of p' bid = Some S \<and> j \<in> S" using S(2) j(1) by auto
qed

end
