(* ===== verification/Connector_Job_Steps.thy ===== *)
theory Connector_Job_Steps
  imports Connector_Job_Facts Res_Conditions
begin

text \<open>
  Every operation of the connector keeps \<open>job_inv\<close>, one lemma per operation. The request
  \<open>rid\<close> of an operation is one the connector knows; what the engine has to respect (a new
  request has a fresh id, a request that waits for a load hands over no partial tail) is a
  hypothesis.
\<close>

section \<open>New requests and lookups\<close>

lemma jobs_of_Some: "jobs_of c rid = Some A \<longleftrightarrow> (\<exists>rs. map_of (c_reqs c) rid = Some rs \<and> A = transfer_jobs rs)"
  by (auto simp: jobs_of_def)

lemma jobs_of_None: "jobs_of c rid = None \<longleftrightarrow> map_of (c_reqs c) rid = None"
  by (simp add: jobs_of_def)

lemma tablesD: "tables c' = tables c \<Longrightarrow> c_reqs c' = c_reqs c \<and> c_jobs c' = c_jobs c \<and>
    c_job_counter c' = c_job_counter c \<and> c_stale_threshold c' = c_stale_threshold c \<and>
    c_pending c' = c_pending c \<and> c_load_jobs c' = c_load_jobs c \<and> c_flush c' = c_flush c \<and> c_alloc c' = c_alloc c"
  by (simp add: tables_def)

lemma job_inv_tables: "tables c' = tables c \<Longrightarrow> job_inv Q N c' \<longleftrightarrow> job_inv Q N c"
  by (rule job_inv_view) (rule tables_view)

lemma job_inv_put_req:
  "map_of (c_reqs c) rid = Some rs0 \<Longrightarrow> transfer_jobs rs = transfer_jobs rs0 \<Longrightarrow>
   job_inv Q N (put_req rid rs c) \<longleftrightarrow> job_inv Q N c"
  by (rule job_inv_view) (rule put_req_view)

text \<open>The same tables with other requests: a request without jobs, or an engine that moved on.\<close>

lemma job_inv_engine:
  assumes "job_inv Q N c"
    and "\<And>rid. rid \<in> N \<or> map_of (c_reqs c) rid \<noteq> None \<Longrightarrow> finished (Q rid) \<Longrightarrow> finished (Q' rid)"
  shows "job_inv Q' N c"
proof -
  have known: "map_of (c_reqs c) (js_req_id js) \<noteq> None" if "map_of (c_jobs c) jid = Some js" for jid js
    using assms(1) that tables_job unfolding job_inv_def by (metis jobs_of_None option.distinct(1))
  have "fences_block Q' js bid" if "map_of (c_jobs c) jid = Some js" "fences_block Q js bid" for jid js bid
    using that assms(2) [of "js_req_id js"] known [OF that(1)] unfolding fences_block_def by blast
  then have "job_tables_ok Q' (jobs_of c) (map_of (c_jobs c)) (c_job_counter c) (c_stale_threshold c)
      (map_of (c_pending c))"
    using assms(1) unfolding job_inv_def job_tables_ok_def by (intro conjI) blast+
  moreover have "\<forall>rid \<in> N. finished (Q' rid)" using assms unfolding job_inv_def by blast
  ultimately show ?thesis using assms(1) unfolding job_inv_def by blast
qed

lemma fences_held_subset: "fences_held J P N \<Longrightarrow> N' \<subseteq> N \<Longrightarrow> fences_held J P N'"
  unfolding fences_held_def using read_blocks_mono by blast

lemma on_new_request_inv:
  assumes inv: "job_inv Q N c" and fresh: "map_of (c_reqs c) rid = None"
    and step: "on_new_request M cc rid rq c = Inr c'"
  shows "job_inv (Q(rid := rq)) (N - {rid}) c'"
proof -
  obtain c1 pol where c1: "ask_manager (m_new_request M (create_req_context rid rq)) c = Inr (c1, pol)"
    "c' = put_req rid (init_req_state (cc_sched cc) rq (create_req_context rid rq) pol) c1"
    using step by (auto simp: on_new_request_def Let_def res_simps)
  note t = tablesD [OF ask_manager_tables [OF c1(1)]]
  have sub: "job_inv Q (N - {rid}) c"
    using inv fences_held_subset [of _ _ N "N - {rid}"] unfolding job_inv_def by blast
  have "job_inv (Q(rid := rq)) (N - {rid}) c"
    by (rule job_inv_engine [OF sub]) (use fresh in \<open>auto split: if_splits\<close>)
  then have "job_inv (Q(rid := rq)) (N - {rid}) c1" using t by (simp add: job_inv_def jobs_of_def)
  moreover have "jobs_of c1 rid = None" using fresh t by (simp add: jobs_of_None)
  ultimately show ?thesis
    unfolding job_inv_def c1(2) by (auto simp: init_req_state_def intro: tables_new_request)
qed

lemma get_num_inv:
  assumes inv: "job_inv Q N c" and step: "get_num_new_matched_tokens M X T cc clk rid rq computed c = Inr (c', hit, async)"
  shows "job_inv Q N c'"
  using step
proof (cases rule: get_numE)
  case (busy rs)
  then show ?thesis using inv by (simp add: job_inv_put_req [OF busy(1)] clear_block_ids_def)
next
  case (gated rs st)
  then show ?thesis using inv by (simp add: job_inv_put_req [OF gated(1)] clear_block_ids_def)
next
  case (looked rs st0 st c1 rs1 h)
  have "map_of (c_reqs c1) rid = Some rs" using looked(1) tablesD [OF looked(5)] by simp
  from job_inv_put_req [OF this, of rs1] show ?thesis
    using inv looked(2,6,7) job_inv_tables [OF looked(5)] by simp
qed

section \<open>New jobs\<close>

lemma bare_upd:
  "loads_bare J \<Longrightarrow> js_is_store js \<or> js_fenced js = None \<and> js_deferred js = None \<Longrightarrow> loads_bare (J(jid \<mapsto> js))"
  unfolding loads_bare_def by (metis fun_upd_apply option.inject)

lemma bare_drop: "loads_bare J \<Longrightarrow> loads_bare (J(jid := None))"
  unfolding loads_bare_def by (metis fun_upd_apply option.distinct(1))

lemma job_inv_add:
  assumes inv: "job_inv Q N c" and A: "jobs_of c (js_req_id js) = Some A"
    and kind: "if js_is_store js then \<forall>jid \<in> A. \<exists>js. map_of (c_jobs c) jid = Some js \<and> js_is_store js
      else A = {} \<and> js_fenced js = None \<and> js_deferred js = None"
    and bids: "\<forall>bid \<in> set bids. fences_block Q js bid" "read_blocks N js \<subseteq> set bids"
    and c': "jobs_of c' = (jobs_of c)(js_req_id js \<mapsto> insert (c_job_counter c) A)"
      "map_of (c_jobs c') = (map_of (c_jobs c))(c_job_counter c \<mapsto> js)"
      "c_job_counter c' = c_job_counter c + 1" "c_stale_threshold c' = c_stale_threshold c"
      "c_pending c' = fold (fence (c_job_counter c)) bids (c_pending c)"
  shows "job_inv Q N c'"
proof -
  let ?n = "c_job_counter c" and ?J = "map_of (c_jobs c)" and ?P = "map_of (c_pending c)"
  have ok: "job_tables_ok Q (jobs_of c) ?J ?n (c_stale_threshold c) ?P" and bare: "loads_bare ?J"
    and held: "fences_held ?J ?P N" and fin: "\<forall>rid \<in> N. finished (Q rid)"
    using inv unfolding job_inv_def by blast+
  have fresh: "?J ?n = None" using tables_job [OF ok] by (metis less_irrefl not_None_eq)
  have "if js_is_store js then \<forall>jid \<in> A. \<exists>js. ?J jid = Some js \<and> js_is_store js else A = {}"
    using kind by (simp split: if_splits)
  from tables_add_job [where js = js, OF ok A refl this]
  have "job_tables_ok Q ((jobs_of c)(js_req_id js \<mapsto> insert ?n A)) (?J(?n \<mapsto> js)) (?n + 1) (c_stale_threshold c) ?P" .
  from tables_fence [OF this _ bids(1), of ?n]
  have t: "job_tables_ok Q (jobs_of c') (map_of (c_jobs c')) (c_job_counter c') (c_stale_threshold c')
      (map_of (c_pending c'))"
    unfolding c' by simp
  have "loads_bare (?J(?n \<mapsto> js))" by (rule bare_upd [OF bare]) (use kind in \<open>auto split: if_splits\<close>)
  moreover have "fences_held ?J (map_of (c_pending c')) N"
    unfolding c' by (rule held_more [OF held]) (rule fences_grow)
  then have "fences_held (?J(?n \<mapsto> js)) (map_of (c_pending c')) N"
    by (rule held_add [where J = ?J, OF _ fresh]) (use bids(2) in \<open>auto simp: c' fences_set\<close>)
  ultimately show ?thesis using t fin unfolding job_inv_def c'(2) by blast
qed

lemma load_job_inv:
  assumes inv: "job_inv Q N c" and rs: "map_of (c_reqs c) rid = Some rs" "transfer_jobs rs = {}"
    and c1: "tables c1 = tables (c\<lparr>c_alloc := A\<rparr>)"
  shows "job_inv Q N (put_req rid (rs\<lparr>group_states := gss, transfer_jobs := {c_job_counter c1},
        partial_tail_boundary := None\<rparr>) (c1\<lparr>c_job_counter := c_job_counter c1 + 1, c_load_jobs := lj,
          c_jobs := AList.update (c_job_counter c1) \<lparr>js_req_id = rid, js_pending_count = w,
            js_keys = ks, js_is_store = False, js_deferred = None, js_fenced = None\<rparr> (c_jobs c1),
          c_loading := l\<rparr>))" (is "job_inv Q N ?c'")
proof -
  note t = tablesD [OF c1, simplified]
  show ?thesis
    by (rule job_inv_add [OF inv, where A = "{}" and bids = "[]" and
        js = "\<lparr>js_req_id = rid, js_pending_count = w, js_keys = ks, js_is_store = False,
          js_deferred = None, js_fenced = None\<rparr>"])
       (use rs t in \<open>auto simp: read_blocks_def map_of_od_update jobs_of_def put_req_def fun_eq_iff\<close>)
qed

lemma update_state_after_alloc_inv:
  assumes inv: "job_inv Q N c" and step: "update_state_after_alloc M X cc rid rq blocks ext c = Inr c'"
  shows "job_inv Q N c'"
proof (cases "ext = 0")
  case True
  then show ?thesis using assms by (simp add: update_state_after_alloc_def)
next
  case False
  with step show ?thesis
    unfolding update_state_after_alloc_def Let_def get_req_def generate_job_id_def
    by (auto simp: res_simps intro!: load_job_inv [OF inv] dest!: ask_manager_tables)
qed

text \<open>
  A store job, with the fences that come with it and, of a finished request, the fences \<open>ex\<close> of
  its deferred blocks.
\<close>

definition only_stores :: "('s, 'e) connector \<Rightarrow> string \<Rightarrow> bool" where
  "only_stores c rid \<longleftrightarrow>
     (\<forall>A. jobs_of c rid = Some A \<longrightarrow> (\<forall>j \<in> A. \<exists>js. map_of (c_jobs c) j = Some js \<and> js_is_store js))"

lemma only_stores_tables: "tables c' = tables c \<Longrightarrow> only_stores c' rid \<longleftrightarrow> only_stores c rid"
  by (simp add: only_stores_def jobs_of_def tables_def)

lemma add_store_jobE:
  assumes "add_store_job cfg rid keys deferred fenced field c = Inr (c', jid)"
  obtains rs where "map_of (c_reqs c) rid = Some rs" "jid = c_job_counter c"
    "c' = put_req rid (rs\<lparr>transfer_jobs := insert jid (transfer_jobs rs)\<rparr>)
      (c\<lparr>c_job_counter := jid + 1, c_pending := fold (fence jid) fenced (c_pending c),
         c_jobs := AList.update jid \<lparr>js_req_id = rid, js_pending_count = num_workers cfg, js_keys = set keys,
           js_is_store = True, js_deferred = deferred, js_fenced = field\<rparr> (c_jobs c)\<rparr>)"
  using assms unfolding add_store_job_def generate_job_id_def get_req_def by (auto simp: res_simps)

lemma add_store_job_inv:
  assumes inv: "job_inv Q N c" and step: "add_store_job cfg rid keys deferred fenced field c = Inr (c', jid)"
    and stores: "only_stores c rid" and field: "set (opt_list field) = set fenced"
    and ex: "set ex \<subseteq> set (opt_list deferred)" "ex \<noteq> [] \<Longrightarrow> finished (Q rid)"
      "rid \<in> N \<Longrightarrow> set (opt_list deferred) \<subseteq> set ex"
    and c'': "job_view c'' = job_view (c'\<lparr>c_pending := fold (fence jid) ex (c_pending c')\<rparr>)"
  shows "job_inv Q N c''"
proof -
  let ?js = "\<lparr>js_req_id = rid, js_pending_count = num_workers cfg, js_keys = set keys,
    js_is_store = True, js_deferred = deferred, js_fenced = field\<rparr>"
  obtain rs where rs: "map_of (c_reqs c) rid = Some rs" and jid: "jid = c_job_counter c"
    and c': "c' = put_req rid (rs\<lparr>transfer_jobs := insert jid (transfer_jobs rs)\<rparr>)
      (c\<lparr>c_job_counter := jid + 1, c_pending := fold (fence jid) fenced (c_pending c),
         c_jobs := AList.update jid ?js (c_jobs c)\<rparr>)"
    by (rule add_store_jobE [OF step])
  have "job_inv Q N (c'\<lparr>c_pending := fold (fence jid) ex (c_pending c')\<rparr>)"
  proof (rule job_inv_add [OF inv, where js = ?js and bids = "fenced @ ex"])
    show A: "jobs_of c (js_req_id ?js) = Some (transfer_jobs rs)" using rs by (simp add: jobs_of_def)
    then show "if js_is_store ?js then \<forall>jid\<in>transfer_jobs rs. \<exists>js. map_of (c_jobs c) jid = Some js \<and> js_is_store js
        else transfer_jobs rs = {} \<and> js_fenced ?js = None \<and> js_deferred ?js = None"
      using stores by (simp add: only_stores_def)
    have "fences_block Q ?js bid" if "bid \<in> set (fenced @ ex)" for bid
    proof (cases "bid \<in> set fenced")
      case False
      then have "bid \<in> set ex" using that by simp
      moreover from this have "finished (Q rid)" using ex(2) by (cases ex) auto
      ultimately show ?thesis using ex(1) by (auto simp: fences_block_def)
    qed (use field in \<open>simp add: fences_block_def\<close>)
    then show "\<forall>bid \<in> set (fenced @ ex). fences_block Q ?js bid" ..
    show "read_blocks N ?js \<subseteq> set (fenced @ ex)" using field ex(3) by (auto simp: read_blocks_def)
  qed (use rs in \<open>auto simp: c' jid map_of_od_update jobs_of_def put_req_def fun_eq_iff\<close>)
  then show ?thesis using job_inv_view [OF c''] by blast
qed

lemma add_store_job_only:
  assumes step: "add_store_job cfg rid keys deferred fenced field c = Inr (c', jid)"
    and "only_stores c r" and "only_stores c rid"
  shows "only_stores c' r"
proof -
  obtain rs where rs: "map_of (c_reqs c) rid = Some rs"
    and c': "jobs_of c' = (jobs_of c)(rid \<mapsto> insert jid (transfer_jobs rs))"
      "\<exists>js. js_is_store js \<and> map_of (c_jobs c') = (map_of (c_jobs c))(jid \<mapsto> js)"
    by (rule add_store_jobE [OF step], rule that)
       (auto simp: map_of_od_update jobs_of_def put_req_def fun_eq_iff)
  then show ?thesis using assms(2,3) unfolding only_stores_def c'(1)
    by (auto simp: jobs_of_def split: if_splits)
qed

section \<open>The requests of a step\<close>

lemma job_view_alloc [simp]: "job_view (c\<lparr>c_alloc := A\<rparr>) = job_view c"
  by (simp add: job_view_def jobs_of_def)

lemma update_block_ids_jobs: "update_block_id_groups new rs = Inr rs' \<Longrightarrow> transfer_jobs rs' = transfer_jobs rs"
  by (auto simp: update_block_id_groups_def res_simps split: option.splits)

lemma req_data_one_view:
  assumes "req_data_one cc Q d (c, ends) = Inr (c', ends')"
  shows "job_view c' = job_view c"
proof -
  obtain rid new preempted where d: "d = (rid, new, preempted)" by (cases d) auto
  obtain rs where rs: "map_of (c_reqs c) rid = Some rs"
    using assms unfolding req_data_one_def d by (auto simp: get_req_def res_simps)
  obtain rs1 where rs1: "update_offload_keys (cc_sched cc) (Q rid) rs = Inr rs1"
    using assms rs unfolding req_data_one_def d by (auto simp: get_req_def res_simps Let_def)
  have t1: "transfer_jobs rs1 = transfer_jobs rs" using update_offload_keys_frame [OF rs1] by simp
  let ?rs = "if preempted then clear_block_ids rs1 else rs1"
  have t: "transfer_jobs ?rs = transfer_jobs rs" using t1 by (simp add: clear_block_ids_def)
  have step: "(if new = None \<or> new = Some [] then Inr (put_req rid ?rs c, ends)
      else bindE (if sliding_groups cc = [] then Inr ends
               else bindE (group_lengths (sliding_groups cc) ?rs) (\<lambda>ls. Inr (AList.update rid ls ends)))
          (\<lambda>ends. bindE (update_block_id_groups new ?rs) (\<lambda>rs.
            Inr (put_req rid rs (c\<lparr>c_alloc := c_alloc c \<union> allocated_ids (the new)\<rparr>), ends)))) = Inr (c', ends')"
    using assms unfolding req_data_one_def d
    by (simp only: get_req_def od_get_item_def rs rs1 Let_def prod.case option.case bindE.simps)
  show ?thesis
  proof (cases "new = None \<or> new = Some []")
    case True
    then have "c' = put_req rid ?rs c" using step by (simp only: if_True sum.inject prod.inject)
    then show ?thesis using put_req_view [OF rs t] by (simp only:)
  next
    case False
    then obtain rs2 where rs2: "update_block_id_groups new ?rs = Inr rs2"
      "c' = put_req rid rs2 (c\<lparr>c_alloc := c_alloc c \<union> allocated_ids (the new)\<rparr>)"
      using step unfolding if_not_P [OF False] bindE_eq_Inr by auto
    have "transfer_jobs rs2 = transfer_jobs rs" using update_block_ids_jobs [OF rs2(1)] t by (simp only:)
    moreover have "map_of (c_reqs (c\<lparr>c_alloc := c_alloc c \<union> allocated_ids (the new)\<rparr>)) rid = Some rs"
      using rs by simp
    ultimately show ?thesis unfolding rs2(2) using put_req_view by (metis job_view_alloc)
  qed
qed

lemma mapE_reqs:
  assumes "mapE f xs = Inr ys"
    and "\<And>p q. f p = Inr q \<Longrightarrow> fst q = fst p \<and> transfer_jobs (snd q) = transfer_jobs (snd p)"
  shows "map_option transfer_jobs (map_of ys rid) = map_option transfer_jobs (map_of xs rid)"
  using assms(1)
proof (induction xs arbitrary: ys)
  case (Cons x xs)
  then obtain y zs where y: "f x = Inr y" "mapE f xs = Inr zs" "ys = y # zs" by (auto simp: res_simps)
  have "map_option transfer_jobs (map_of zs rid) = map_option transfer_jobs (map_of xs rid)"
    using Cons.IH [OF y(2)] .
  with assms(2) [OF y(1)] y(3) show ?case by (cases x; cases y) auto
qed simp

lemma zero_request_jobs:
  assumes "zero_request cc alloc ends p = Inr q"
  shows "fst q = fst p \<and> transfer_jobs (snd q) = transfer_jobs (snd p)"
proof -
  obtain gls rs where rs: "foldE (zero_group cc alloc) gls (snd p) = Inr rs" "q = (fst p, rs)"
    using assms unfolding zero_request_def Let_def by (auto simp: res_simps)
  have "transfer_jobs rs = transfer_jobs (snd p)"
    by (rule foldE_inv [OF rs(1)]) (auto simp: zero_group_def res_simps Let_def)
  with rs(2) show ?thesis by simp
qed

lemma update_req_states_view:
  assumes "update_req_states cc Q so c = Inr c'"
  shows "job_view c' = job_view c"
proof -
  obtain c1 ends where f: "foldE (req_data_one cc Q) (so_req_data so) (c, []) = Inr (c1, ends)"
    and c': "(if sliding_groups cc \<noteq> [] \<and> c_alloc c1 \<noteq> {}
       then bindE (mapE (zero_request cc (c_alloc c1) ends) (c_reqs c1)) (\<lambda>reqs. Inr (c1\<lparr>c_reqs := reqs\<rparr>))
       else Inr c1) = Inr c'"
    using assms unfolding update_req_states_def by (auto simp: res_simps)
  have c1: "job_view (fst (c1, ends)) = job_view c"
  proof (rule foldE_inv [OF f])
    fix d st st'
    assume "job_view (fst st) = job_view c" "req_data_one cc Q d st = Inr st'"
    then show "job_view (fst st') = job_view c" using req_data_one_view
      by (metis prod.collapse)
  qed simp
  show ?thesis
  proof (cases "sliding_groups cc \<noteq> [] \<and> c_alloc c1 \<noteq> {}")
    case True
    then obtain reqs where r: "mapE (zero_request cc (c_alloc c1) ends) (c_reqs c1) = Inr reqs"
      "c' = c1\<lparr>c_reqs := reqs\<rparr>"
      using c' by (auto simp: res_simps)
    have "jobs_of c' = jobs_of c1"
      using mapE_reqs [OF r(1) zero_request_jobs] r(2) by (auto simp: jobs_of_def)
    with r(2) c1 show ?thesis by (simp add: job_view_def)
  qed (use c' c1 in \<open>auto split: if_splits\<close>)
qed

section \<open>Store jobs\<close>

text \<open>The requests in \<open>R\<close> have no load in flight; stores keep that.\<close>

definition store_inv :: "(string \<Rightarrow> request) \<Rightarrow> string set \<Rightarrow> string set \<Rightarrow> ('s, 'e) connector \<Rightarrow> bool" where
  "store_inv Q N R c \<longleftrightarrow> job_inv Q N c \<and> (\<forall>r \<in> R. only_stores c r)"

lemma store_inv_tables: "tables c' = tables c \<Longrightarrow> store_inv Q N R c' \<longleftrightarrow> store_inv Q N R c"
  unfolding store_inv_def using job_inv_tables [of c' c] only_stores_tables [of c' c] by blast

lemma store_inv_frame: "store_inv Q N R c \<Longrightarrow> tables c' = tables c \<Longrightarrow> store_inv Q N R c'"
  using store_inv_tables by blast

lemma fold_track2_tables [simp]: "tables (fold (\<lambda>(x, y). track T (g x y)) xs c) = tables c"
  by (induction xs arbitrary: c) auto

lemma tail_job_ok:
  assumes inv: "store_inv Q N R c" and rid: "rid \<in> R"
  shows "ok (\<lambda>st. store_inv Q N R (fst st)) (tail_job cc T rid b idx keys blocks out (c, jobs))"
  unfolding tail_job_def
proof (intro vc, simp only: prod.inject, elim conjE, hypsubst_thin)
  fix source c' jid
  let ?c = "fold (\<lambda>(g, k). track T (RecordPartialStore rid g b k))
    (filter (\<lambda>(g, k). k \<in> set (keys_to_store out)) (zip (map group_idx (kv_groups (cc_sched cc))) keys)) c"
  assume s: "add_store_job (cc_sched cc) rid (keys_to_store out) None source (Some source) ?c = Inr (c', jid)"
  have i: "store_inv Q N R ?c" by (rule store_inv_frame [OF inv]) simp
  then have "only_stores ?c rid" using rid by (simp add: store_inv_def)
  note only = this
  have "job_inv Q N c'"
    by (rule add_store_job_inv [where ex = "[]", OF _ s only]) (use i in \<open>simp_all add: store_inv_def\<close>)
  moreover have "only_stores c' r" if "r \<in> R" for r
    using add_store_job_only [OF s _ only] i that by (simp add: store_inv_def)
  ultimately show "store_inv Q N R (fst (c', jobs'))" for jobs' :: "(int, worker_job) odict"
    by (simp add: store_inv_def)
qed

lemma allocation_failure_tables [frames]: "allocation_failure c = Inr c' \<Longrightarrow> tables c' = tables c"
  by (simp add: allocation_failure_def count_metric_tables)

lemma tail_one_ok:
  assumes inv: "store_inv Q N R c" and rid: "rid \<in> R"
  shows "ok (\<lambda>st. store_inv Q N R (fst st)) (tail_one M T cc Q' (rid, entries) (c, jobs))"
  unfolding tail_one_def Let_def prod.case
  by (intro vc tail_job_ok; (simp only: fst_conv)?)
     (use rid in \<open>auto intro: store_inv_frame [OF inv] dest!: frames\<close>)

lemma build_partial_ok:
  fixes c :: "('s, 'e) connector"
  assumes "store_inv Q N R c" and "fst ` set (so_partial_tails so) \<subseteq> R"
  shows "ok (\<lambda>st. store_inv Q N R (fst st)) (build_partial_tail_store_jobs M T cc Q' so c)"
  unfolding build_partial_tail_store_jobs_def
proof (intro vc ok_foldE)
  fix h and st :: "('s, 'e) connector \<times> (int, worker_job) odict"
  assume h: "h \<in> set (so_partial_tails so)" and st: "store_inv Q N R (fst st)"
  obtain rid entries c1 jobs where "h = (rid, entries)" "st = (c1, jobs)" by (cases h; cases st)
  moreover from this have "rid \<in> R" using h assms(2) by force
  ultimately show "ok (\<lambda>st. store_inv Q N R (fst st)) (tail_one M T cc Q' h st)"
    using tail_one_ok [of Q N R c1 rid M T cc Q' entries jobs] st by simp
qed (use assms in simp_all)

lemma offer_key_ok:
  "ok (\<lambda>st. tables (fst st) = tables c) (offer_key M kn ctx gc gs n e (c, offered, new))"
  unfolding offer_key_def Let_def prod.case by (intro vc; auto dest!: frames simp: tables_def)

lemma offer_group_ok:
  "ok (\<lambda>st. tables (fst st) = tables c) (offer_group M cc rq rs n gc (c, offered, new))"
  unfolding offer_group_def Let_def
proof (intro vc ok_foldE)
  fix e and st :: "('a, 'b) connector \<times> int \<times> offload_key list" and gs m
  assume "tables (fst st) = tables c"
  moreover obtain c1 o1 n1 where "st = (c1, o1, n1)" by (cases st)
  ultimately show "ok (\<lambda>st. tables (fst st) = tables c) (offer_key M (cc_knobs cc) (rs_context rs) gc gs m e st)"
    using offer_key_ok [of c1 M] by (simp add: ok_def)
qed simp_all

lemma store_group_ok:
  "ok (\<lambda>st. tables (fst st) = tables c) (store_group T cc rid rq n stored gc (c, sp))"
  unfolding store_group_def Let_def prod.case by (intro vc) simp_all

text \<open>Of a request one job tells for all.\<close>

definition pick_ok :: "ext_ops \<Rightarrow> bool" where
  "pick_ok X \<longleftrightarrow> (\<forall>A. finite A \<and> A \<noteq> {} \<longrightarrow> x_pick X A \<in> A)"

lemma jobs_finite:
  assumes "job_inv Q N c" and "jobs_of c rid = Some A"
  shows "finite A"
proof -
  have "A \<subseteq> {c_stale_threshold c..<c_job_counter c}"
  proof
    fix jid assume "jid \<in> A"
    then obtain js where "map_of (c_jobs c) jid = Some js"
      using assms tables_kind one_kind_mem unfolding job_inv_def by metis
    then show "jid \<in> {c_stale_threshold c..<c_job_counter c}"
      using assms(1) tables_job unfolding job_inv_def by (metis atLeastLessThan_iff)
  qed
  then show ?thesis by (rule finite_subset) simp
qed

lemma no_load_pendingD:
  assumes inv: "job_inv Q N c" and X: "pick_ok X" and rs: "map_of (c_reqs c) rid = Some rs"
    and np: "no_load_pending X rs c = Inr b"
  shows "b \<longleftrightarrow> only_stores c rid"
proof -
  have k: "one_kind (map_of (c_jobs c)) rid (transfer_jobs rs)"
    using inv rs tables_kind unfolding job_inv_def by (metis jobs_of_Some)
  have A: "jobs_of c rid = Some (transfer_jobs rs)" using rs by (simp add: jobs_of_def)
  show ?thesis
  proof (cases "transfer_jobs rs = {}")
    case True
    then show ?thesis using np A by (simp add: no_load_pending_def only_stores_def)
  next
    case False
    then have pick: "x_pick X (transfer_jobs rs) \<in> transfer_jobs rs" using X jobs_finite [OF inv A] by (simp add: pick_ok_def)
    obtain js where js: "map_of (c_jobs c) (x_pick X (transfer_jobs rs)) = Some js" "b = js_is_store js"
      using np False by (auto simp: no_load_pending_def res_simps)
    show ?thesis using k pick js A unfolding one_kind_def only_stores_def by fastforce
  qed
qed

lemma issue_store_ok:
  fixes c :: "('s, 'e) connector"
  assumes inv: "store_inv Q N R c" and X: "pick_ok X" and rs: "map_of (c_reqs c) rid = Some rs"
    and rq: "rq = Q rid"
  shows "ok (\<lambda>st. store_inv Q N R (fst st)) (issue_store X T cc rid rq n rs out (c, jobs))"
proof -
  let ?S = "store_group T cc rid rq n (set (keys_to_store out))"
  let ?sp0 = "\<lparr>sp_src = [], sp_fenced = [], sp_deferred = [], sp_sizes = replicate (num_kv_cache_groups (cc_sched cc)) 0,
    sp_indices = replicate (num_kv_cache_groups (cc_sched cc)) 0, sp_groups = group_states rs\<rparr>"
  have groups: "tables c1 = tables c" if "foldE ?S (kv_groups (cc_sched cc)) (c, ?sp0) = Inr (c1, sp)" for c1 sp
  proof -
    have "tables (fst (c1, sp)) = tables c"
      by (rule foldE_inv [OF that]) (use okD [OF store_group_ok] in \<open>simp, metis prod.collapse\<close>)
    then show ?thesis by simp
  qed
  have done_job: "store_inv Q N R (if finished rq then fence_finished jid (sp_deferred sp) c2 else c2)"
    if g: "foldE ?S (kv_groups (cc_sched cc)) (c, ?sp0) = Inr (c1, sp)" and np: "no_load_pending X rs c1 = Inr True"
      and s: "add_store_job (cc_sched cc) rid ks (Some (sp_deferred sp)) (sp_fenced sp)
        (if sp_fenced sp = [] then None else Some (sp_fenced sp)) (put_req rid (rs\<lparr>group_states := gss\<rparr>) c1) = Inr (c2, jid)"
    for c1 sp c2 jid ks gss
  proof -
    let ?c1 = "put_req rid (rs\<lparr>group_states := gss\<rparr>) c1"
    let ?ex = "if finished rq then sp_deferred sp else []"
    have i1: "store_inv Q N R c1" by (rule store_inv_frame [OF inv groups [OF g]])
    have rs1: "map_of (c_reqs c1) rid = Some rs" using rs tablesD [OF groups [OF g]] by simp
    have v: "job_view ?c1 = job_view c1" by (rule put_req_view [OF rs1]) simp
    have "only_stores c1 r \<longleftrightarrow> only_stores ?c1 r" for r using v by (simp add: only_stores_def job_view_def)
    then have i: "job_inv Q N ?c1" "\<forall>r \<in> R. only_stores ?c1 r" "only_stores ?c1 rid"
      using i1 job_inv_view [OF v] no_load_pendingD [OF _ X rs1 np] unfolding store_inv_def by auto
    let ?c3 = "if finished rq then fence_finished jid (sp_deferred sp) c2 else c2"
    have v3: "job_view ?c3 = job_view (c2\<lparr>c_pending := fold (fence jid) ?ex (c_pending c2)\<rparr>)"
      by (simp add: fence_finished_def job_view_def jobs_of_def)
    have "finished rq" if "rid \<in> N" using i(1) that rq unfolding job_inv_def by blast
    then have "job_inv Q N ?c3"
      by (intro add_store_job_inv [where ex = ?ex, OF i(1) s i(3) _ _ _ _ v3]) (auto simp: rq split: if_splits)
    moreover have "only_stores ?c3 r" if "r \<in> R" for r
    proof -
      have "only_stores c2 r" using add_store_job_only [OF s _ i(3)] i(2) that by blast
      then show ?thesis using v3 by (simp add: only_stores_def job_view_def jobs_of_def)
    qed
    ultimately show ?thesis by (simp add: store_inv_def)
  qed
  show ?thesis
    unfolding issue_store_def Let_def prod.case
    by (intro vc) (use done_job in auto)
qed

lemma store_inv_put_req:
  assumes "store_inv Q N R c" and "map_of (c_reqs c) rid = Some rs0" and "transfer_jobs rs = transfer_jobs rs0"
  shows "store_inv Q N R (put_req rid rs c)"
proof -
  have v: "job_view (put_req rid rs c) = job_view c" by (rule put_req_view [OF assms(2,3)])
  then have "only_stores (put_req rid rs c) r \<longleftrightarrow> only_stores c r" for r
    by (simp add: only_stores_def job_view_def)
  then show ?thesis using assms(1) job_inv_view [OF v] unfolding store_inv_def by blast
qed

lemma advance_jobs: "advance_stored_idx cfg rq n rs = Inr rs' \<Longrightarrow> transfer_jobs rs' = transfer_jobs rs"
  by (auto simp: advance_stored_idx_def res_simps)

lemma store_one_ok:
  fixes c :: "('s, 'e) connector"
  assumes inv: "store_inv Q N R c" and X: "pick_ok X"
  shows "ok (\<lambda>st. store_inv Q N R (fst st)) (store_one M X T cc Q so rid (c, offered, jobs))"
proof -
  have offers: "tables c1 = tables c"
    if "foldE (offer_group M cc rq rs n) (kv_groups (cc_sched cc)) (c, offered, []) = Inr (c1, offered1, new)"
    for rq rs n c1 offered1 new
  proof -
    have "tables (fst (c1, offered1, new)) = tables c"
      by (rule foldE_inv [OF that]) (use okD [OF offer_group_ok] in \<open>simp, metis prod.collapse\<close>)
    then show ?thesis by simp
  qed
  have leaf: "store_inv Q N R (put_req rid rs' c1)"
    if "tables c1 = tables c" "map_of (c_reqs c) rid = Some rs" "advance_stored_idx cfg rq n rs = Inr rs'"
    for c1 rs rs' cfg rq n
    by (rule store_inv_put_req [OF store_inv_frame [OF inv that(1)] _ advance_jobs [OF that(3)]])
       (use that(2) tablesD [OF that(1)] in simp)
  have issue: "ok (\<lambda>st. store_inv Q N R (fst st)) (issue_store X T cc rid (Q rid) n rs out (c1, jobs))"
    if "tables c1 = tables c" "map_of (c_reqs c) rid = Some rs" for c1 rs n out
    by (rule issue_store_ok [OF store_inv_frame [OF inv that(1)] X _ refl])
       (use that(2) tablesD [OF that(1)] in simp)
  have mirror: "tables (if b then c1\<lparr>c_mirror_offered := x\<rparr> else c1) = tables c1" for b x and c1 :: "('s, 'e) connector"
    by (simp add: tables_def)
  show ?thesis
    unfolding store_one_def Let_def prod.case
  proof (intro vc; (simp only: fst_conv)?)
    show "store_inv Q N R c" by (rule inv)
  qed (metis leaf offers mirror ask_manager_tables allocation_failure_tables touch_request_tables
      store_inv_frame [OF inv] okD [OF issue] fst_conv)+
qed

lemma build_store_jobs_ok:
  fixes c :: "('s, 'e) connector"
  assumes "store_inv Q N R c" and X: "pick_ok X"
  shows "ok (\<lambda>st. store_inv Q N R (fst st)) (build_store_jobs M X T cc Q so c)"
proof -
  have "ok (\<lambda>st. store_inv Q N R (fst st)) (foldE (store_one M X T cc Q so) (od_keys (so_scheduled so) @ so_finished so) (c, 0, []))"
  proof (rule ok_foldE)
    fix rid and st :: "('s, 'e) connector \<times> int \<times> (int, worker_job) odict"
    assume "store_inv Q N R (fst st)"
    moreover obtain c1 o1 j1 where "st = (c1, o1, j1)" by (cases st)
    ultimately show "ok (\<lambda>st. store_inv Q N R (fst st)) (store_one M X T cc Q so rid st)"
      using store_one_ok [OF _ X] by simp
  qed (simp add: assms)
  note loop = okD [OF this]
  show ?thesis
    unfolding build_store_jobs_def
    by (intro vc; simp only: fst_conv) (metis loop fst_conv)
qed

section \<open>The metadata of a step\<close>

lemma job_view_flush [simp]: "job_view (c\<lparr>c_flush := F\<rparr>) = job_view c"
  by (simp add: job_view_def jobs_of_def)

lemma store_inv_view: "job_view c' = job_view c \<Longrightarrow> store_inv Q N R c \<Longrightarrow> store_inv Q N R c'"
  using job_inv_view [of c' c Q N] by (simp add: store_inv_def only_stores_def job_view_def)

lemma flush_preempted_ok: "ok (\<lambda>c'. job_view c' = job_view c \<and> c_flush c \<subseteq> c_flush c' \<and> c_alloc c' = c_alloc c)
    (flush_preempted X rid c)"
  unfolding flush_preempted_def by (intro vc) auto

lemma flush_retracted_facts:
  "job_view (flush_retracted M c) = job_view c \<and> c_flush c \<subseteq> c_flush (flush_retracted M c) \<and>
   c_alloc (flush_retracted M c) = c_alloc c"
  by (auto simp: flush_retracted_def job_view_def jobs_of_def split: option.split prod.split)

lemma job_inv_drop_request:
  assumes inv: "job_inv Q N c" and rs: "map_of (c_reqs c) rid = Some rs" "transfer_jobs rs = {}"
  shows "job_inv Q N (c\<lparr>c_reqs := AList.delete rid (c_reqs c)\<rparr>)"
proof -
  have "jobs_of (c\<lparr>c_reqs := AList.delete rid (c_reqs c)\<rparr>) = (jobs_of c)(rid := None)"
    by (auto simp: jobs_of_def map_of_od_delete fun_eq_iff)
  moreover have "jobs_of c rid = Some {}" using rs by (simp add: jobs_of_def)
  ultimately show ?thesis using inv tables_drop_request unfolding job_inv_def by auto
qed

lemma signal_finished_ok:
  assumes inv: "job_inv Q N c"
  shows "ok (job_inv Q N) (signal_finished M rid c)"
proof -
  have leaf: "job_inv Q N (if transfer_jobs rs = {} then c1\<lparr>c_reqs := AList.delete rid (c_reqs c1)\<rparr>
      else put_req rid (rs\<lparr>finished_signaled := True\<rparr>) c1)"
    if "map_of (c_reqs c) rid = Some rs" "tables c1 = tables c" for rs c1
  proof -
    have rs: "map_of (c_reqs c1) rid = Some rs" and i: "job_inv Q N c1"
      using that(1) tablesD [OF that(2)] inv job_inv_tables [OF that(2)] by (simp_all only:)
    show ?thesis using job_inv_drop_request [OF i rs] i job_inv_put_req [OF rs, of "rs\<lparr>finished_signaled := True\<rparr>"] by simp
  qed
  show ?thesis
    unfolding signal_finished_def
    by (intro vc) (use inv in \<open>simp, metis leaf tell_manager_tables\<close>)
qed

lemma flush_all_ok:
  fixes c :: "('s, 'e) connector"
  shows "ok (\<lambda>c'. job_view c' = job_view c \<and> c_flush c \<subseteq> c_flush c' \<and> c_alloc c' = c_alloc c)
    (foldE (flush_preempted X) rids c)"
proof (rule ok_foldE)
  fix rid and c1 :: "('s, 'e) connector"
  assume "job_view c1 = job_view c \<and> c_flush c \<subseteq> c_flush c1 \<and> c_alloc c1 = c_alloc c"
  then show "ok (\<lambda>c'. job_view c' = job_view c \<and> c_flush c \<subseteq> c_flush c' \<and> c_alloc c' = c_alloc c)
      (flush_preempted X rid c1)"
    using flush_preempted_ok [of c1 X rid] unfolding ok_def by (metis subset_trans)
qed simp

lemma job_inv_done: "job_inv Q N c \<Longrightarrow> job_inv Q N (c\<lparr>c_load_jobs := l, c_flush := F, c_alloc := A\<rparr>)"
  by (rule job_inv_view [THEN iffD2]) (simp_all add: job_view_def jobs_of_def)

lemma build_connector_meta_ok:
  fixes c :: "('s, 'e) connector"
  assumes inv: "job_inv Q N c" and X: "pick_ok X"
    and tails: "\<forall>h \<in> set (so_partial_tails so). only_stores c (fst h)"
  shows "ok (\<lambda>st. job_inv Q N (fst st)) (build_connector_meta M X T cc Q so c)"
proof -
  let ?R = "fst ` set (so_partial_tails so)"
  have start: "store_inv Q N ?R c" using inv tails by (auto simp: store_inv_def)
  have middle: "store_inv Q N ?R (flush_retracted M (c3\<lparr>c_flush := F\<rparr>))"
    if "update_req_states cc Q so c = Inr c1" "tell_manager f c1 = Inr c2"
      "foldE (flush_preempted X) rids c2 = Inr c3" for c1 c2 c3 f rids F
  proof -
    have "job_view c3 = job_view c"
      using okD [OF flush_all_ok that(3)] update_req_states_view [OF that(1)]
        tables_view [OF tell_manager_tables [OF that(2)]] by simp
    then have "job_view (flush_retracted M (c3\<lparr>c_flush := F\<rparr>)) = job_view c"
      using flush_retracted_facts [of M "c3\<lparr>c_flush := F\<rparr>"] by simp
    then show ?thesis by (rule store_inv_view [OF _ start])
  qed
  have signals: "ok (job_inv Q N) (foldE (signal_finished M) rids c1)" if "job_inv Q N c1" for rids and c1 :: "('s, 'e) connector"
    by (rule ok_foldE [where P = "job_inv Q N", OF that]) (rule signal_finished_ok)
  show ?thesis
    unfolding build_connector_meta_def Let_def
  proof (intro vc; simp only: fst_conv)
    fix c1 c2 c3 st1 st2 c4 p1 c5 p2 c6
    assume m: "update_req_states cc Q so c = Inr c1"
      "tell_manager (m_schedule_end M \<lparr>new_req_ids = so_new_reqs so, preempted_req_ids = so_preempted so\<rparr>) c1 = Inr c2"
      "foldE (flush_preempted X) (so_preempted so) c2 = Inr c3"
      and p: "build_partial_tail_store_jobs M T cc Q so (flush_retracted M
        (c3\<lparr>c_flush := c_flush c3 \<union> reallocated_jobs (c_alloc c3) (c_pending c3)\<rparr>)) = Inr (c4, p1)"
      and b: "build_store_jobs M X T cc Q so c4 = Inr (c5, p2)"
      and f: "foldE (signal_finished M) (so_finished so) c5 = Inr c6"
    have "store_inv Q N ?R c4" using okD [OF build_partial_ok [OF middle [OF m]] p] by simp
    then have "store_inv Q N ?R c5" using okD [OF build_store_jobs_ok [OF _ X] b] by simp
    then have "job_inv Q N c5" by (simp add: store_inv_def)
    then have "job_inv Q N c6" by (rule okD [OF signals f])
    then show "job_inv Q N (c6\<lparr>c_load_jobs := [], c_flush := {}, c_alloc := {}\<rparr>)" by (rule job_inv_done)
  qed
qed

section \<open>Completions\<close>

lemma finish_job_ok:
  assumes inv: "job_inv Q N c" and js: "map_of (c_jobs c) jid = Some js"
  shows "ok (job_inv Q N) (finish_job M X Q jid js c)"
proof -
  let ?rid = "js_req_id js"
  have transfer: "ok (\<lambda>c1. job_view c1 = job_view c) (complete_transfer M X js rs c)" for rs
    unfolding complete_transfer_def Let_def
    by (intro vc) (auto simp: ok_def job_view_def jobs_of_def tables_def dest!: tell_manager_tables)
  have leaf: "job_inv Q N (if finished_signaled rs' \<and> transfer_jobs rs' = {}
      then c2\<lparr>c_reqs := AList.delete ?rid (c_reqs c2)\<rparr> else put_req ?rid rs' c2)"
    if c1: "get_req ?rid c = Inr rs" "complete_transfer M X js rs c = Inr c1"
      "release_fences (finished (Q ?rid)) jid js (c_pending c1) = Inr p"
      and d: "c2 = c1\<lparr>c_pending := p, c_jobs := AList.delete jid (c_jobs c1)\<rparr>"
        "rs' = rs\<lparr>transfer_jobs := transfer_jobs rs - {jid}\<rparr>" for rs c1 p c2 rs'
  proof -
    have v: "job_view c1 = job_view c" by (rule okD [OF transfer c1(2)])
    then have e: "jobs_of c1 = jobs_of c" "c_jobs c1 = c_jobs c" "c_job_counter c1 = c_job_counter c"
      "c_stale_threshold c1 = c_stale_threshold c" "c_pending c1 = c_pending c"
      by (simp_all add: job_view_def)
    have A: "jobs_of c ?rid = Some (transfer_jobs rs)" using c1(1) by (auto simp: get_req_def jobs_of_def res_simps)
    have p: "release_fences (finished (Q ?rid)) jid js (c_pending c) = Inr p" using c1(3) e by simp
    have i: "job_tables_ok Q (jobs_of c) (map_of (c_jobs c)) (c_job_counter c) (c_stale_threshold c) (map_of (c_pending c))"
      "loads_bare (map_of (c_jobs c))" "fences_held (map_of (c_jobs c)) (map_of (c_pending c)) N"
      "\<forall>rid \<in> N. finished (Q rid)"
      using inv unfolding job_inv_def by blast+
    have "jobs_of (put_req ?rid rs' c2) = (jobs_of c)(?rid \<mapsto> transfer_jobs rs - {jid})"
      using e(1) d by (auto simp: jobs_of_def put_req_def map_of_od_update fun_eq_iff)
    then have put: "job_inv Q N (put_req ?rid rs' c2)"
      unfolding job_inv_def
      using tables_finish_job [OF i(1) js A p] bare_drop [OF i(2)] held_finish [OF i(3) p] i(4) d e
      by (simp add: map_of_od_delete)
    have "job_inv Q N (c2\<lparr>c_reqs := AList.delete ?rid (c_reqs c2)\<rparr>)" if none: "transfer_jobs rs' = {}"
    proof -
      let ?c3 = "put_req ?rid rs' c2"
      have "map_of (c_reqs ?c3) ?rid = Some rs'" by (simp add: put_req_def map_of_od_update)
      from job_inv_drop_request [OF put this none]
      show ?thesis
        by (rule job_inv_view [THEN iffD2, rotated])
           (auto simp: job_view_def jobs_of_def put_req_def map_of_od_update map_of_od_delete fun_eq_iff)
    qed
    with put show ?thesis by simp
  qed
  show ?thesis
    unfolding finish_job_def Let_def
    by (intro vc; (rule leaf [OF _ _ _ refl refl])?)
qed

lemma job_inv_count:
  assumes inv: "job_inv Q N c" and js: "map_of (c_jobs c) jid = Some js0"
    and "js_req_id js = js_req_id js0" "js_is_store js = js_is_store js0"
      "js_fenced js = js_fenced js0" "js_deferred js = js_deferred js0"
  shows "job_inv Q N (c\<lparr>c_jobs := AList.update jid js (c_jobs c)\<rparr>)"
proof -
  have i: "job_tables_ok Q (jobs_of c) (map_of (c_jobs c)) (c_job_counter c) (c_stale_threshold c) (map_of (c_pending c))"
    "loads_bare (map_of (c_jobs c))" "fences_held (map_of (c_jobs c)) (map_of (c_pending c)) N"
    "\<forall>rid \<in> N. finished (Q rid)"
    using inv unfolding job_inv_def by blast+
  have bare: "js_is_store js \<or> js_fenced js = None \<and> js_deferred js = None"
    using i(2) js assms(4-6) unfolding loads_bare_def by metis
  have r: "jobs_of (c\<lparr>c_jobs := AList.update jid js (c_jobs c)\<rparr>) = jobs_of c" by (simp add: jobs_of_def)
  show ?thesis
    unfolding job_inv_def r
    using tables_count [OF i(1) js assms(3-6)] bare_upd [OF i(2) bare] held_count [OF i(3) js assms(3,5,6)] i(4)
    by (simp add: map_of_od_update)
qed

lemma complete_one_ok:
  assumes inv: "job_inv Q N c"
  shows "ok (job_inv Q N) (complete_one M X Q jn c)"
  unfolding complete_one_def Let_def
proof (intro vc)
  show "job_inv Q N c" by (rule inv)
next
  fix jid n js
  assume "od_get_item jid (c_jobs c) = Inr js"
  then have js: "map_of (c_jobs c) jid = Some js" by (simp add: od_get_item_eq_Inr)
  let ?js = "js\<lparr>js_pending_count := js_pending_count js - n\<rparr>"
  show i: "job_inv Q N (c\<lparr>c_jobs := AList.update jid ?js (c_jobs c)\<rparr>)"
    by (rule job_inv_count [OF inv js]) simp_all
  show "ok (job_inv Q N) (finish_job M X Q jid ?js (c\<lparr>c_jobs := AList.update jid ?js (c_jobs c)\<rparr>))"
    by (rule finish_job_ok [OF i]) (simp add: map_of_od_update)
qed

lemma record_transfers_tables: "record_transfers meta c = Inr c' \<Longrightarrow> tables c' = tables c"
  by (auto simp: record_transfers_def res_simps tables_def split: if_splits)

lemma update_connector_output_ok:
  assumes inv: "job_inv Q N c"
  shows "ok (job_inv Q N) (update_connector_output M X Q meta c)"
  unfolding update_connector_output_def
proof (intro vc)
  show "job_inv Q N c" by (rule inv)
next
  fix m c1 assume "record_transfers m c = Inr c1"
  then have "job_inv Q N c1" using inv job_inv_tables record_transfers_tables by blast
  then show "ok (job_inv Q N) (foldE (complete_one M X Q) (wm_completed m) c1)"
    by (rule ok_foldE [where P = "job_inv Q N"]) (rule complete_one_ok)
qed

section \<open>The end of a request, statistics, reset\<close>

text \<open>All deferred blocks of the request's jobs get their fence.\<close>

lemma fence_jobs_view:
  assumes "foldE fence_job jids c = Inr c'"
  shows "jobs_of c' = jobs_of c \<and> c_jobs c' = c_jobs c \<and> c_job_counter c' = c_job_counter c \<and>
    c_stale_threshold c' = c_stale_threshold c \<and>
    (\<forall>b S. map_of (c_pending c) b = Some S \<longrightarrow> (\<exists>S'. map_of (c_pending c') b = Some S' \<and> S \<subseteq> S')) \<and>
    (\<forall>jid \<in> set jids. \<forall>js. map_of (c_jobs c) jid = Some js \<longrightarrow>
       (\<forall>b \<in> set (opt_list (js_deferred js)). \<exists>S. map_of (c_pending c') b = Some S \<and> jid \<in> S))"
  using assms
proof (induction jids arbitrary: c)
  case (Cons jid jids)
  then obtain c1 where c1: "fence_job jid c = Inr c1" "foldE fence_job jids c1 = Inr c'" by (auto simp: res_simps)
  obtain js where js: "map_of (c_jobs c) jid = Some js"
    and e: "c1 = c\<lparr>c_pending := fold (fence jid) (opt_list (js_deferred js)) (c_pending c)\<rparr>"
    using c1(1) by (auto simp: fence_job_def res_simps)
  note rest = c1(2) [unfolded e]
  note IH = Cons.IH [OF rest, simplified]
  have g: "\<exists>S'. map_of (c_pending c') b = Some S' \<and> S \<subseteq> S'" if "map_of (c_pending c) b = Some S" for b S
    using IH fences_grow [OF that, of jid "opt_list (js_deferred js)"] by (meson subset_trans)
  have "\<exists>S. map_of (c_pending c') b = Some S \<and> jid \<in> S" if "b \<in> set (opt_list (js_deferred js))" for b
    using IH fences_set [OF that, of jid "c_pending c"] by blast
  with IH g js show ?case by (auto simp: jobs_of_def)
qed simp

lemma fence_job_tables:
  assumes ok: "job_tables_ok Q (jobs_of c) (map_of (c_jobs c)) n t (map_of (c_pending c))" and bare: "loads_bare (map_of (c_jobs c))"
    and fin: "\<And>js. map_of (c_jobs c) jid = Some js \<Longrightarrow> finished (Q (js_req_id js))"
    and step: "fence_job jid c = Inr c'"
  shows "job_tables_ok Q (jobs_of c') (map_of (c_jobs c')) n t (map_of (c_pending c')) \<and>
    jobs_of c' = jobs_of c \<and> c_jobs c' = c_jobs c"
proof -
  obtain js where js: "map_of (c_jobs c) jid = Some js"
    and c': "c' = c\<lparr>c_pending := fold (fence jid) (opt_list (js_deferred js)) (c_pending c)\<rparr>"
    using step by (auto simp: fence_job_def res_simps)
  have "fences_block Q js bid" if "bid \<in> set (opt_list (js_deferred js))" for bid
  proof -
    have "js_deferred js \<noteq> None" using that by (cases "js_deferred js") auto
    then have "js_is_store js" using bare js unfolding loads_bare_def by metis
    then show ?thesis using that fin [OF js] by (auto simp: fences_block_def)
  qed
  from tables_fence [OF ok js, of "opt_list (js_deferred js)"] this
  show ?thesis by (simp add: c' jobs_of_def)
qed

lemma request_finished_ok:
  fixes c :: "('s, 'e) connector"
  assumes inv: "job_inv Q N c" and fin: "finished (Q rid)"
  shows "ok (job_inv Q (insert rid N)) (request_finished M cc now rid rq c)"
proof (cases "map_of (c_reqs c) rid")
  case None
  have "read_blocks (insert rid N) js = read_blocks N js" if "map_of (c_jobs c) jid = Some js" for jid js
  proof -
    have "js_req_id js \<noteq> rid"
      using inv that tables_job None unfolding job_inv_def by (metis jobs_of_None option.distinct(1))
    then show ?thesis by (simp add: read_blocks_def)
  qed
  then have "fences_held (map_of (c_jobs c)) (map_of (c_pending c)) (insert rid N)"
    using inv unfolding job_inv_def fences_held_def by simp
  then have i: "job_inv Q (insert rid N) c" using inv fin unfolding job_inv_def by blast
  show ?thesis
    unfolding request_finished_def Let_def None option.case
    by (intro vc) (metis (no_types, lifting) i job_inv_tables ask_manager_tables tell_manager_tables ok_def)
next
  case (Some rs)
  have leaf: "ok (job_inv Q (insert rid N)) (foldE fence_job (sorted_list_of_set (transfer_jobs rs')) (put_req rid rs' c1))"
    if "tables c1 = tables c" "transfer_jobs rs' = transfer_jobs rs" for c1 rs'
  proof -
    let ?c = "put_req rid rs' c1" and ?jids = "sorted_list_of_set (transfer_jobs rs')"
    have rs: "map_of (c_reqs c1) rid = Some rs" using Some tablesD [OF that(1)] by simp
    have v: "job_view ?c = job_view c" using put_req_view [OF rs that(2)] tables_view [OF that(1)] by simp
    then have i: "job_inv Q N ?c" using inv job_inv_view [OF v] by blast
    have A: "jobs_of ?c rid = Some (transfer_jobs rs)" "finite (transfer_jobs rs)"
    proof -
      show "jobs_of ?c rid = Some (transfer_jobs rs)" using that(2) by simp
      have "jobs_of c rid = Some (transfer_jobs rs)" using Some by (simp add: jobs_of_def)
      then show "finite (transfer_jobs rs)" by (rule jobs_finite [OF inv])
    qed
    have mine: "jid \<in> transfer_jobs rs \<longleftrightarrow> js_req_id js = rid" if js: "map_of (c_jobs ?c) jid = Some js" for jid js
    proof -
      have t: "job_tables_ok Q (jobs_of ?c) (map_of (c_jobs ?c)) (c_job_counter ?c) (c_stale_threshold ?c) (map_of (c_pending ?c))"
        using i unfolding job_inv_def by blast
      obtain B where B: "jobs_of ?c (js_req_id js) = Some B" "jid \<in> B" using tables_job [OF t js] by blast
      show ?thesis
      proof
        assume "jid \<in> transfer_jobs rs"
        from one_kind_mem [OF tables_kind [OF t A(1)] this] js show "js_req_id js = rid" by force
      next
        assume "js_req_id js = rid"
        then show "jid \<in> transfer_jobs rs" using B A(1) by (metis option.inject)
      qed
    qed
    have jids: "set ?jids = transfer_jobs rs" using A(2) that(2) by simp
    have "job_inv Q (insert rid N) c'" if f: "foldE fence_job ?jids ?c = Inr c'" for c'
    proof -
      note fv = fence_jobs_view [OF f]
      let ?n = "c_job_counter ?c" and ?t = "c_stale_threshold ?c"
      have "job_tables_ok Q (jobs_of c') (map_of (c_jobs c')) ?n ?t (map_of (c_pending c')) \<and>
        jobs_of c' = jobs_of ?c \<and> c_jobs c' = c_jobs ?c"
      proof (rule foldE_inv [OF f])
        fix jid c2 c3
        assume jid: "jid \<in> set ?jids" and h: "job_tables_ok Q (jobs_of c2) (map_of (c_jobs c2)) ?n ?t (map_of (c_pending c2)) \<and>
          jobs_of c2 = jobs_of ?c \<and> c_jobs c2 = c_jobs ?c" and s: "fence_job jid c2 = Inr c3"
        have "loads_bare (map_of (c_jobs c2))" using i h unfolding job_inv_def by simp
        moreover have "finished (Q (js_req_id js))" if "map_of (c_jobs c2) jid = Some js" for js
        proof -
          have "jid \<in> transfer_jobs rs" using jid jids by simp
          then show ?thesis using mine [of jid js] that h fin by simp
        qed
        ultimately show "job_tables_ok Q (jobs_of c3) (map_of (c_jobs c3)) ?n ?t (map_of (c_pending c3)) \<and>
            jobs_of c3 = jobs_of ?c \<and> c_jobs c3 = c_jobs ?c"
          using fence_job_tables [OF _ _ _ s] h by metis
      qed (use i job_inv_def in metis)
      moreover have "fences_held (map_of (c_jobs c')) (map_of (c_pending c')) (insert rid N)"
        unfolding fences_held_def
      proof (intro allI impI ballI)
        fix jid js bid
        assume "map_of (c_jobs c') jid = Some js" and bid: "bid \<in> read_blocks (insert rid N) js"
        then have js: "map_of (c_jobs ?c) jid = Some js" using fv by simp
        show "\<exists>S. map_of (c_pending c') bid = Some S \<and> jid \<in> S"
        proof (cases "bid \<in> read_blocks N js")
          case True
          then obtain S where "map_of (c_pending ?c) bid = Some S" "jid \<in> S"
            using i js unfolding job_inv_def fences_held_def by blast
          then show ?thesis using fv by blast
        next
          case False
          then have "js_req_id js = rid" "bid \<in> set (opt_list (js_deferred js))"
            using bid by (auto simp: read_blocks_def split: if_splits)
          moreover from this have "jid \<in> set ?jids" using mine [OF js] jids by simp
          ultimately show ?thesis using fv js by blast
        qed
      qed
      moreover have "loads_bare (map_of (c_jobs c'))" "\<forall>rid \<in> insert rid N. finished (Q rid)"
        using i fv fin unfolding job_inv_def by simp_all
      ultimately show ?thesis using fv unfolding job_inv_def by simp
    qed
    then show ?thesis by (simp add: ok_def)
  qed
  show ?thesis
    unfolding request_finished_def Some option.case
    by (intro vc leaf) (auto dest: maybe_observe_frame update_offload_keys_frame)
qed

lemma get_stats_tables:
  assumes "get_stats M now c = Inr (c', st)"
  shows "job_view c' = job_view c"
proof -
  have "job_view (throttle_log now c1) = job_view c1" for c1 :: "('a, 'b) connector"
    by (simp add: throttle_log_def job_view_def jobs_of_def Let_def)
  then have "ok (\<lambda>st. job_view (fst st) = job_view c) (get_stats M now c)"
    unfolding get_stats_def Let_def
    by (intro vc; simp only: fst_conv)
       (drule tables_view [OF ask_manager_tables], simp add: job_view_def jobs_of_def)
  from okD [OF this assms] show ?thesis by simp
qed

lemma take_events_view: "job_view (fst (take_events M T c)) = job_view c"
  by (simp add: take_events_def job_view_def jobs_of_def split: prod.split)

lemma reset_cache_ok:
  assumes "job_inv Q N c"
  shows "ok (\<lambda>c'. job_inv Q N c' \<and> c_jobs c' = [] \<and> c_flush c' = fst ` set (c_jobs c))
    (reset_cache M T Q c)"
proof -
  have drop: "ok (\<lambda>c'. c_jobs c' = c_jobs c1 \<and> c_job_counter c' = c_job_counter c1 \<and> c_flush c' = c_flush c1)
      (drop_finished M Q r c1)" for r and c1 :: "('a, 'b) connector"
    unfolding drop_finished_def
    by (intro vc) (auto simp: ok_def tables_def split: if_splits dest!: tell_manager_tables)
  have loop: "c_jobs c2 = c_jobs c1 \<and> c_job_counter c2 = c_job_counter c1 \<and> c_flush c2 = c_flush c1"
    if "foldE (drop_finished M Q) rs c1 = Inr c2" for rs and c1 c2 :: "('a, 'b) connector"
    by (rule foldE_inv [OF that]) (auto dest: okD [OF drop])
  have empty: "map_option transfer_jobs (map_of (map (\<lambda>(rid, rs). (rid, reset_progress rs)) xs) rid) \<in> {None, Some {}}"
    for xs rid
    by (induction xs) (auto simp: reset_progress_def)
  have done_reset: "job_inv Q N c'"
    if "c_jobs c' = []" "c_pending c' = []" "c_stale_threshold c' = c_job_counter c'"
      "c_reqs c' = map (\<lambda>(rid, rs). (rid, reset_progress rs)) xs" for c' :: "('a, 'b) connector" and xs
  proof -
    have "jobs_of c' rid \<in> {None, Some {}}" for rid
      using empty [of xs rid] unfolding jobs_of_def that .
    then have "A = {}" if "jobs_of c' rid = Some A" for rid A
      using that by (metis insertE option.distinct(1) option.inject singletonD)
    then have "one_kind (\<lambda>_. None) rid A" if "jobs_of c' rid = Some A" for rid A
      using that by (metis one_kind_empty)
    then show ?thesis
      using assms that unfolding job_inv_def job_tables_ok_def loads_bare_def fences_held_def by simp
  qed
  show ?thesis
    unfolding reset_cache_def Let_def
    by (intro vc conjI; (rule done_reset)?)
       (drule loop, drule tell_manager_tables, simp add: tables_def)+
qed

end
