(* ===== verification/Connector_Demo.thy ===== *)
theory Connector_Demo
  imports Connector_Job_Steps Lookup_Properties
begin

text \<open>
  A small run of the connector that the witnesses of the job properties use: one group with a
  window of one chunk, a manager that accepts every store and keeps no state, and a request of
  five tokens that stores its one full chunk from block 7. The operations are evaluated step by
  step on explicit states.
\<close>

section \<open>The parts\<close>

definition echo_ops :: "unit mgr_ops" where
  "echo_ops = \<lparr>m_lookup = (\<lambda>_ _ s. Inr (s, MISS)), m_touch = (\<lambda>_ _. Inr), m_prepare_load = (\<lambda>ks _ s. Inr (s, [])),
    m_complete_load = (\<lambda>_ _. Inr), m_prepare_store = (\<lambda>ks _ _ s. Inr (s, Some \<lparr>keys_to_store = ks, store_spec = [0], evicted_keys = []\<rparr>)),
    m_complete_store = (\<lambda>_ _. Inr), m_new_request = (\<lambda>_ s. Inr (s, BLOCK_LEVEL)), m_request_finished = (\<lambda>_. Inr),
    m_schedule_end = (\<lambda>_. Inr), m_take_events = (\<lambda>s. (s, [])), m_reset = Inr, m_has_pending = (\<lambda>_. False),
    m_get_stats = (\<lambda>s. Inr (s, None)), m_takes_bypass = False, m_tombstone = None, m_drain_flush = None\<rparr>"

definition tiny_cc :: conn_config where
  "tiny_cc = \<lparr>cc_sched = \<lparr>kv_groups = [demo_group 0 (Some 1)], num_kv_cache_groups = 1,
     blocks_per_chunk = 1, tokens_per_hash = 4, num_workers = 1, offload_prompt_only = False,
     supports_partial_tail = False\<rparr>, sliding_groups = [0], lookup_groups = [0],
    mamba_align_size = None, partial_tail_block_size = 0, cow_groups = {}, cc_knobs = demo_knobs\<rparr>"

definition tiny_rq :: request where
  "tiny_rq = \<lparr>block_hashes = [[1]], num_tokens = 5, num_prompt_tokens = 5,
     num_computed_tokens = 0, finished = False, aborted = False, skip_reading_prefix_cache = False,
     kv_transfer_params = None\<rparr>"

definition step_out :: "(string, int) odict \<Rightarrow> sched_output" where
 "step_out s = \<lparr>so_req_data = [(''r'', Some [[7]], False)], so_new_reqs = [], so_preempted = [],
   so_scheduled = s, so_finished = [], so_partial_tails = []\<rparr>"

definition tiny_engine :: engine_config where
   "tiny_engine = \<lparr>world_size = 1, dcp_size = 1, use_eagle = False, prefix_caching = True\<rparr>"

definition tiny_rs :: "offload_key list \<Rightarrow> int list \<Rightarrow> int \<Rightarrow> int set \<Rightarrow> req_state" where
  "tiny_rs ks bs nx js = (init_req_state (cc_sched tiny_cc) tiny_rq (create_req_context ''r'' tiny_rq) BLOCK_LEVEL)
     \<lparr>group_states := [\<lparr>offload_keys = ks, block_ids = bs, next_stored_chunk_idx = nx, num_hit_chunks = 0\<rparr>],
      transfer_jobs := js\<rparr>"

definition tiny_conn :: "req_state \<Rightarrow> int set \<Rightarrow> int set \<Rightarrow> int \<Rightarrow> (int, job_status) odict \<Rightarrow>
    (int, int set) odict \<Rightarrow> int \<Rightarrow> (unit, unit) connector" where
  "tiny_conn rs F A n js p mo =
     \<lparr>c_manager = (), c_tracker = (), c_stats = stats_reset, c_reqs = [(''r'', rs)], c_load_jobs = [],
      c_flush = F, c_alloc = A, c_loading = Some {}, c_job_counter = n, c_stale_threshold = 0, c_jobs = js, c_pending = p,
      c_mirror_offered = mo, c_touched = 0, c_throttled = 0, c_skipped_stored = 0,
      c_throttle_log_ts = 0, c_recomputed_blocks = 0, c_recomputed_tokens = 0\<rparr>"

definition tiny_job :: job_status where
   "tiny_job = \<lparr>js_req_id = ''r'', js_pending_count = 1, js_keys = {[1,0,0,0,0]}, js_is_store = True, js_deferred = Some [],
   js_fenced = Some [7]\<rparr>"

lemma tiny_new: "on_new_request echo_ops tiny_cc ''r'' tiny_rq (init_connector tiny_engine () ()) = Inr (tiny_conn (tiny_rs [] [] 0 {}) {} {} 0 [] [] 0)"
  by (simp add: on_new_request_def Let_def ask_manager_def echo_ops_def init_connector_def tiny_conn_def put_req_def
    tiny_rs_def init_req_state_def tiny_cc_def init_group_state_def tiny_engine_def)

lemma tiny_cc_simps [simp]:
  "sliding_groups tiny_cc = [0]" "num_kv_cache_groups (cc_sched tiny_cc) = 1"
 "kv_groups (cc_sched tiny_cc) = [demo_group 0 (Some 1)]" "blocks_per_chunk (cc_sched tiny_cc) = 1"
 "num_workers (cc_sched tiny_cc) = 1" "\<not> offload_prompt_only (cc_sched tiny_cc)" "\<not> supports_partial_tail (cc_sched tiny_cc)"
 "cc_knobs tiny_cc = demo_knobs" "tokens_per_hash (cc_sched tiny_cc) = 4"
  by (simp_all add: tiny_cc_def)
lemma demo_group_simps [simp]:
  "group_idx (demo_group g w) = g" "tokens_per_block (demo_group g w) = 4" "tokens_per_chunk (demo_group g w) = 4"
  "hashes_per_chunk (demo_group g w) = 1" "sliding_window_chunks (demo_group g w) = w" "\<not> is_eagle_group (demo_group g w)" "alignment_chunk_count (demo_group g w) = None"
  by (simp_all add: demo_group_def)
lemma tiny_rq_simps [simp]: "block_hashes tiny_rq = [[1]]" "num_tokens tiny_rq = 5" "num_prompt_tokens tiny_rq = 5" "num_computed_tokens tiny_rq = 0"
  "\<not> finished tiny_rq" "\<not> aborted tiny_rq"
  by (simp_all add: tiny_rq_def)
lemma tiny_rs_simps [simp]: "group_states (tiny_rs ks bs nx js) = [\<lparr>offload_keys = ks, block_ids = bs, next_stored_chunk_idx = nx, num_hit_chunks = 0\<rparr>]"
 "(tiny_rs ks bs nx js)\<lparr>group_states := [\<lparr>offload_keys = ks', block_ids = bs', next_stored_chunk_idx = nx', num_hit_chunks = 0\<rparr>]\<rparr> = tiny_rs ks' bs' nx' js"
 "partial_tail_boundary (tiny_rs ks bs nx js) = None" "transfer_jobs (tiny_rs ks bs nx js) = js" "(tiny_rs ks bs nx js)\<lparr>transfer_jobs := js'\<rparr> = tiny_rs ks bs nx js'" "max_offload_tokens (tiny_rs ks bs nx js) = None"
  by (simp_all add: tiny_rs_def init_req_state_def param_def parse_max_offload_def tiny_rq_def)
lemma step_out_simps [simp]:
 "so_req_data (step_out s) = [(''r'', Some [[7]], False)]" "so_preempted (step_out s) = []" "so_scheduled (step_out s) = s" "so_finished (step_out s) = []"
 "so_partial_tails (step_out s) = []"
  by (simp_all add: step_out_def)


lemma tiny_key: "make_offload_key [1] 0 = Inr [1, 0, 0, 0, 0]"
  by code_simp

lemma tiny_update: "update_req_states tiny_cc (\<lambda>_. tiny_rq) (step_out s) (tiny_conn (tiny_rs [] [] 0 {}) {} {} 0 [] [] 0)
  = Inr (tiny_conn (tiny_rs [[1, 0,0,0,0]] [7] 0 {}) {} {7} 0 [] [] 0)"
  by (simp add: update_req_states_def req_data_one_def Let_def get_req_def tiny_conn_def od_get_item_def
    update_offload_keys_def update_group_keys_def nth_res_def every.simps append_key_def tiny_key
    update_block_id_groups_def put_req_def allocated_ids_def init_connector_def group_lengths_def
    zero_request_def zero_group_def zero_range_def cong: bindE_weak_cong)

lemma demo_knobs_on: "mirror_local demo_knobs" "mirror_offer_cap demo_knobs = 4096"
  by code_simp+

lemma tiny_store:
  "build_store_jobs echo_ops demo_ext demo_tracker tiny_cc (\<lambda>_. tiny_rq) (step_out [(''r'', 5)])
     (tiny_conn (tiny_rs [[1, 0, 0, 0, 0]] [7] 0 {}) {} {7} 0 [] [] 0) =
   Inr (tiny_conn (tiny_rs [[1, 0, 0, 0, 0]] [7] 1 {0}) {} {7} 1 [(0, tiny_job)] [(7, {0})] 1,
     [(0, StoreJob ''r'' \<lparr>gpu_block_ids = [7], gpu_group_sizes = [1], gpu_block_indices = [0]\<rparr> [0])])"
  by (simp add: build_store_jobs_def store_one_def tokens_after_batch_def Let_def get_req_def tiny_conn_def od_get_item_def
    calc_num_offloadable_tokens_def offer_group_def nth_res_def storable_chunks_def start_chunk_def demo_knobs_on
    py_slice_def slice_index_def last_blocks_def every.simps offer_key_def is_store_reachable_swa_chunk_def py_mod_def
    ask_manager_def echo_ops_def touch_request_def issue_store_def store_group_def touch_group_def chunk_blocks_def
    track_def demo_tracker_def no_load_pending_def mk_gpu_spec_def add_store_job_def generate_job_id_def fence_def
    get_or_def py_nth_def tell_manager_def tiny_job_def put_req_def cong: bindE_weak_cong)

lemma echo_simps [simp]:
  "m_schedule_end echo_ops x s = Inr s" "m_drain_flush echo_ops = None"
  by (simp_all add: echo_ops_def)

lemma tiny_conn_simps [simp]:
  "tell_manager (m_schedule_end echo_ops x) (tiny_conn rs F A n js p mo) = Inr (tiny_conn rs F A n js p mo)"
  "c_flush (tiny_conn rs F A n js p mo) = F" "c_alloc (tiny_conn rs F A n js p mo) = A"
  "c_pending (tiny_conn rs F A n js p mo) = p" "c_load_jobs (tiny_conn rs F A n js p mo) = []"
  "c_jobs (tiny_conn rs F A n js p mo) = js"
  "(tiny_conn rs F A n js p mo)\<lparr>c_flush := F'\<rparr> = tiny_conn rs F' A n js p mo"
  "(tiny_conn rs F A n js p mo)\<lparr>c_load_jobs := [], c_flush := F', c_alloc := A'\<rparr> = tiny_conn rs F' A' n js p mo"
  by (simp_all add: tell_manager_def tiny_conn_def)

lemma tiny_meta:
  "build_connector_meta echo_ops demo_ext demo_tracker tiny_cc (\<lambda>_. tiny_rq) (step_out [(''r'', 5)])
     (tiny_conn (tiny_rs [] [] 0 {}) {} {} 0 [] [] 0) =
   Inr (tiny_conn (tiny_rs [[1, 0, 0, 0, 0]] [7] 1 {0}) {} {} 1 [(0, tiny_job)] [(7, {0})] 1,
     \<lparr>meta_load_jobs = [], meta_store_jobs = [(0, StoreJob ''r'' \<lparr>gpu_block_ids = [7], gpu_group_sizes = [1], gpu_block_indices = [0]\<rparr> [0])],
      meta_flush = {}\<rparr>)"
  by (simp add: build_connector_meta_def tiny_update Let_def reallocated_jobs_def flush_retracted_def
    build_partial_tail_store_jobs_def tiny_store)

text \<open>The next step gives block 7 away again, with the store still running.\<close>

lemma tiny_update_again:
  "update_req_states tiny_cc (\<lambda>_. tiny_rq) (step_out []) (tiny_conn (tiny_rs [[1, 0, 0, 0, 0]] [7] 1 {0}) {} {} n js p mo) =
   Inr (tiny_conn (tiny_rs [[1, 0, 0, 0, 0]] [7, 7] 1 {0}) {} {7} n js p mo)"
  by (simp add: update_req_states_def req_data_one_def Let_def get_req_def tiny_conn_def od_get_item_def
    update_offload_keys_def update_group_keys_def nth_res_def every.simps append_key_def tiny_key
    update_block_id_groups_def put_req_def allocated_ids_def group_lengths_def
    zero_request_def zero_group_def zero_range_def cong: bindE_weak_cong)

lemma tiny_meta_again:
  "build_connector_meta echo_ops demo_ext demo_tracker tiny_cc (\<lambda>_. tiny_rq) (step_out [])
     (tiny_conn (tiny_rs [[1, 0, 0, 0, 0]] [7] 1 {0}) {} {} 1 [(0, tiny_job)] [(7, {0})] 1) =
   Inr (tiny_conn (tiny_rs [[1, 0, 0, 0, 0]] [7, 7] 1 {0}) {} {} 1 [(0, tiny_job)] [(7, {0})] 1,
     \<lparr>meta_load_jobs = [], meta_store_jobs = [], meta_flush = {0}\<rparr>)"
  by (simp add: build_connector_meta_def tiny_update_again Let_def reallocated_jobs_def flush_retracted_def
    build_partial_tail_store_jobs_def build_store_jobs_def)

text \<open>A reset with the store still running.\<close>

lemma tiny_reset:
  "\<exists>c'. reset_cache echo_ops demo_tracker (\<lambda>_. tiny_rq)
     (tiny_conn (tiny_rs [[1, 0, 0, 0, 0]] [7] 1 {0}) {} {} 1 [(0, tiny_job)] [(7, {0})] 1) = Inr c'"
  by (simp add: reset_cache_def drop_finished_def tell_manager_def echo_ops_def tiny_conn_def)

lemma demo_pick: "pick_ok demo_ext"
  by (simp add: pick_ok_def demo_ext_def)

end
