(* ===== verification/Job_Properties.thy ===== *)
theory Job_Properties
  imports Connector_Demo
begin

text \<open>
  The connector as a state machine: the calls the engine makes, in any order that the engine's
  contract allows, with any manager, and the properties of the states they reach.
\<close>

section \<open>The step relation\<close>

text \<open>
  A state is the connector with the requests \<open>Q\<close> as the engine sees them and the set \<open>N\<close> of the
  requests whose end was announced. The guards are the engine's side: a new request has an id
  that is not in use, a finished request stays finished, the end is announced of a finished
  request, and a request that waits for a load hands over no partial tail.
\<close>

inductive conn_step :: "'s mgr_ops \<Rightarrow> ext_ops \<Rightarrow> ('e, 'v) tracker_ops \<Rightarrow> conn_config \<Rightarrow>
    (string \<Rightarrow> request) \<times> string set \<times> ('s, 'e) connector \<Rightarrow>
    (string \<Rightarrow> request) \<times> string set \<times> ('s, 'e) connector \<Rightarrow> bool"
  for M X T cc where
  new: "map_of (c_reqs c) rid = None \<Longrightarrow> on_new_request M cc rid rq c = Inr c' \<Longrightarrow>
    conn_step M X T cc (Q, N, c) (Q(rid := rq), N - {rid}, c')"
| engine: "\<forall>rid. (rid \<in> N \<or> map_of (c_reqs c) rid \<noteq> None) \<and> finished (Q rid) \<longrightarrow> finished (Q' rid) \<Longrightarrow>
    conn_step M X T cc (Q, N, c) (Q', N, c)"
| matched: "get_num_new_matched_tokens M X T cc clk rid (Q rid) computed c = Inr (c', hit, async) \<Longrightarrow>
    conn_step M X T cc (Q, N, c) (Q, N, c')"
| alloc: "update_state_after_alloc M X cc rid (Q rid) blocks ext c = Inr c' \<Longrightarrow>
    conn_step M X T cc (Q, N, c) (Q, N, c')"
| meta: "\<forall>h \<in> set (so_partial_tails so). only_stores c (fst h) \<Longrightarrow>
    build_connector_meta M X T cc Q so c = Inr (c', meta) \<Longrightarrow>
    conn_step M X T cc (Q, N, c) (Q, N, c')"
| outputs: "update_connector_output M X Q wm c = Inr c' \<Longrightarrow> conn_step M X T cc (Q, N, c) (Q, N, c')"
| finish: "finished (Q rid) \<Longrightarrow> request_finished M cc now rid (Q rid) c = Inr c' \<Longrightarrow>
    conn_step M X T cc (Q, N, c) (Q, insert rid N, c')"
| stats: "get_stats M now c = Inr (c', st) \<Longrightarrow> conn_step M X T cc (Q, N, c) (Q, N, c')"
| events: "take_events M T c = (c', evs) \<Longrightarrow> conn_step M X T cc (Q, N, c) (Q, N, c')"
| reset: "reset_cache M T Q c = Inr c' \<Longrightarrow> conn_step M X T cc (Q, N, c) (Q, N, c')"

inductive conn_reach :: "'s mgr_ops \<Rightarrow> ext_ops \<Rightarrow> ('e, 'v) tracker_ops \<Rightarrow> conn_config \<Rightarrow>
    (string \<Rightarrow> request) \<Rightarrow> string set \<Rightarrow> ('s, 'e) connector \<Rightarrow> bool"
  for M X T cc where
  start: "conn_reach M X T cc Q {} (init_connector eng mgr tracker)"
| step: "conn_reach M X T cc Q N c \<Longrightarrow> conn_step M X T cc (Q, N, c) (Q', N', c') \<Longrightarrow>
    conn_reach M X T cc Q' N' c'"

lemma conn_step_inv:
  assumes "conn_step M X T cc (Q, N, c) (Q', N', c')" and inv: "job_inv Q N c" and X: "pick_ok X"
  shows "job_inv Q' N' c'"
  using assms(1)
proof cases
  case (new rid rq)
  then show ?thesis using on_new_request_inv [OF inv] by simp
next
  case engine
  then show ?thesis using job_inv_engine [OF inv] by blast
next
  case (matched clk rid computed hit async)
  then show ?thesis using get_num_inv [OF inv] by simp
next
  case (alloc rid blocks ext)
  then show ?thesis using update_state_after_alloc_inv [OF inv] by simp
next
  case (meta so m)
  then show ?thesis using okD [OF build_connector_meta_ok [OF inv X meta(3)] meta(4)] by simp
next
  case (outputs wm)
  then show ?thesis using okD [OF update_connector_output_ok [OF inv]] by simp
next
  case (finish rid now)
  then show ?thesis using okD [OF request_finished_ok [OF inv]] by simp
next
  case (stats now st)
  then show ?thesis using job_inv_view [OF get_stats_tables] inv by blast
next
  case (events evs)
  then show ?thesis using job_inv_view [OF take_events_view, of Q N M T c] inv by simp
next
  case reset
  then show ?thesis using okD [OF reset_cache_ok [OF inv] reset(3)] by simp
qed

lemma conn_reach_inv: "conn_reach M X T cc Q N c \<Longrightarrow> pick_ok X \<Longrightarrow> job_inv Q N c"
proof (induction rule: conn_reach.induct)
  case (start Q eng mgr tracker)
  show ?case
    by (simp add: job_inv_def job_tables_ok_def loads_bare_def fences_held_def init_connector_def jobs_of_def)
next
  case (step Q N c Q' N' c')
  then show ?case using conn_step_inv by blast
qed

text \<open>The state of the small run with its store in flight is reachable.\<close>

abbreviation tiny_live :: "(unit, unit) connector" where
  "tiny_live \<equiv> tiny_conn (tiny_rs [[1, 0, 0, 0, 0]] [7] 1 {0}) {} {} 1 [(0, tiny_job)] [(7, {0})] 1"

lemma tiny_reach: "conn_reach echo_ops demo_ext demo_tracker tiny_cc (\<lambda>_. tiny_rq) {} tiny_live"
proof -
  have "conn_reach echo_ops demo_ext demo_tracker tiny_cc ((\<lambda>_. tiny_rq)(''r'' := tiny_rq)) ({} - {''r''})
      (tiny_conn (tiny_rs [] [] 0 {}) {} {} 0 [] [] 0)"
    by (rule conn_reach.step [OF conn_reach.start conn_step.new [OF _ tiny_new]]) (simp add: init_connector_def)
  then have "conn_reach echo_ops demo_ext demo_tracker tiny_cc (\<lambda>_. tiny_rq) {}
      (tiny_conn (tiny_rs [] [] 0 {}) {} {} 0 [] [] 0)" by (simp add: fun_upd_idem)
  then show ?thesis by (rule conn_reach.step [OF _ conn_step.meta [OF _ tiny_meta]]) simp
qed

section \<open>Jobs\<close>

text \<open>
  C12: in every reachable state a job id of a request is a live job of that request, and a live
  job is listed by the request it names; a request has one load job or only store jobs; and
  the id of a live job lies between the stale threshold and the job counter.
\<close>

theorem conn_jobs_consistent:
  assumes "conn_reach M X T cc Q N c" and "pick_ok X"
  shows "(\<forall>rid rs. map_of (c_reqs c) rid = Some rs \<longrightarrow>
        (\<forall>jid \<in> transfer_jobs rs. \<exists>js. map_of (c_jobs c) jid = Some js \<and> js_req_id js = rid \<and>
           (js_is_store js \<or> transfer_jobs rs = {jid}))) \<and>
    (\<forall>jid js. map_of (c_jobs c) jid = Some js \<longrightarrow>
        c_stale_threshold c \<le> jid \<and> jid < c_job_counter c \<and>
        (\<exists>rs. map_of (c_reqs c) (js_req_id js) = Some rs \<and> jid \<in> transfer_jobs rs))"
proof -
  have ok: "job_tables_ok Q (jobs_of c) (map_of (c_jobs c)) (c_job_counter c) (c_stale_threshold c) (map_of (c_pending c))"
    using conn_reach_inv [OF assms] by (simp add: job_inv_def)
  have "\<exists>js. map_of (c_jobs c) jid = Some js \<and> js_req_id js = rid \<and> (js_is_store js \<or> transfer_jobs rs = {jid})"
    if "map_of (c_reqs c) rid = Some rs" "jid \<in> transfer_jobs rs" for rid rs jid
  proof -
    have "one_kind (map_of (c_jobs c)) rid (transfer_jobs rs)"
      using tables_kind [OF ok] that(1) by (simp add: jobs_of_def)
    then show ?thesis using that(2) unfolding one_kind_def by auto
  qed
  moreover have "c_stale_threshold c \<le> jid \<and> jid < c_job_counter c \<and>
      (\<exists>rs. map_of (c_reqs c) (js_req_id js) = Some rs \<and> jid \<in> transfer_jobs rs)"
    if "map_of (c_jobs c) jid = Some js" for jid js
    using tables_job [OF ok that] by (auto simp: jobs_of_def)
  ultimately show ?thesis by blast
qed

theorem conn_jobs_consistent_witness:
  "c_stale_threshold tiny_live \<le> 0 \<and> 0 < c_job_counter tiny_live"
  using conn_jobs_consistent [OF tiny_reach demo_pick] by simp

text \<open>
  Looking at one job of a request is enough. The code decides whether a request waits for a
  load by the first id its set of jobs yields; in a reachable state the answer holds for all of
  them, whichever id that is.
\<close>

lemma one_job_tells:
  assumes "conn_reach M X T cc Q N c" and "pick_ok X"
    and "map_of (c_reqs c) rid = Some rs" and "no_load_pending X rs c = Inr b"
  shows "b \<longleftrightarrow> (\<forall>jid \<in> transfer_jobs rs. \<exists>js. map_of (c_jobs c) jid = Some js \<and> js_is_store js)"
  using no_load_pendingD [OF conn_reach_inv [OF assms(1,2)] assms(2-4)] assms(3)
  by (auto simp: only_stores_def jobs_of_def)

section \<open>Blocks that are given away\<close>

text \<open>The blocks that the engine allocates in a step.\<close>

fun given_away :: "(string \<times> int list list option \<times> bool) list \<Rightarrow> int set" where
  "given_away [] = {}"
| "given_away ((rid, new, p) # ds) =
     (case new of None \<Rightarrow> {} | Some gs \<Rightarrow> allocated_ids gs) \<union> given_away ds"

lemma update_req_states_alloc:
  fixes c :: "('s, 'e) connector"
  assumes "update_req_states cc Q so c = Inr c'"
  shows "c_alloc c \<union> given_away (so_req_data so) \<subseteq> c_alloc c'"
proof -
  have one: "ok (\<lambda>st. c_alloc c1 \<union> (case new of None \<Rightarrow> {} | Some gs \<Rightarrow> allocated_ids gs) \<subseteq> c_alloc (fst st))
      (req_data_one cc Q (rid, new, p) (c1, ends))" for c1 :: "('s, 'e) connector" and rid new p ends
    unfolding req_data_one_def Let_def prod.case
    by (intro vc) (auto simp: put_req_def allocated_ids_def)
  have fold: "c_alloc c1 \<union> given_away ds \<subseteq> c_alloc (fst st)"
    if "foldE (req_data_one cc Q) ds (c1, ends) = Inr st" for ds and c1 :: "('s, 'e) connector" and ends st
    using that
  proof (induction ds arbitrary: c1 ends)
    case (Cons d ds)
    then obtain c2 ends2 where d: "req_data_one cc Q d (c1, ends) = Inr (c2, ends2)"
      "foldE (req_data_one cc Q) ds (c2, ends2) = Inr st" by (auto simp: res_simps)
    obtain rid new p where dd: "d = (rid, new, p)" by (cases d)
    show ?case using okD [OF one d(1) [unfolded dd]] Cons.IH [OF d(2)] unfolding dd given_away.simps fst_conv by blast
  qed auto
  obtain c1 ends where f: "foldE (req_data_one cc Q) (so_req_data so) (c, []) = Inr (c1, ends)"
    and r: "(if sliding_groups cc \<noteq> [] \<and> c_alloc c1 \<noteq> {}
       then bindE (mapE (zero_request cc (c_alloc c1) ends) (c_reqs c1)) (\<lambda>reqs. Inr (c1\<lparr>c_reqs := reqs\<rparr>))
       else Inr c1) = Inr c'"
    using assms unfolding update_req_states_def by (auto simp: res_simps)
  have "c_alloc c' = c_alloc c1" using r by (auto simp: res_simps split: if_splits)
  with fold [OF f] show ?thesis by simp
qed

lemma one_job_tells_witness:
  "no_load_pending demo_ext (tiny_rs [[1, 0, 0, 0, 0]] [7] 1 {0}) tiny_live = Inr True \<and>
   (\<exists>js. map_of (c_jobs tiny_live) 0 = Some js \<and> js_is_store js)"
proof -
  have "no_load_pending demo_ext (tiny_rs [[1, 0, 0, 0, 0]] [7] 1 {0}) tiny_live = Inr True"
    by (simp add: no_load_pending_def od_get_item_def demo_ext_def tiny_job_def)
  with one_job_tells [OF tiny_reach demo_pick _ this] show ?thesis by (simp add: tiny_conn_def)
qed

text \<open>The flush set only grows while the jobs of the step are built.\<close>

lemma tables_flush: "tables c' = tables c \<Longrightarrow> c_flush c' = c_flush c"
  by (simp add: tables_def)

lemma add_store_job_flush: "add_store_job cfg rid keys d f fd c = Inr (c', jid) \<Longrightarrow> c_flush c' = c_flush c"
  by (erule add_store_jobE, hypsubst) (simp add: put_req_def)

lemma flush_frame: "tables c' = tables c \<Longrightarrow> F \<subseteq> c_flush c \<Longrightarrow> F \<subseteq> c_flush c'"
  by (simp add: tables_def)

lemma tail_job_flush:
  assumes F: "F \<subseteq> c_flush c"
  shows "ok (\<lambda>st. F \<subseteq> c_flush (fst st)) (tail_job cc T rid b idx keys blocks out (c, jobs))"
  unfolding tail_job_def
proof (intro vc, simp only: prod.inject, elim conjE, hypsubst_thin)
  fix source c' jid
  let ?c = "fold (\<lambda>(g, k). track T (RecordPartialStore rid g b k))
    (filter (\<lambda>(g, k). k \<in> set (keys_to_store out)) (zip (map group_idx (kv_groups (cc_sched cc))) keys)) c"
  assume s: "add_store_job (cc_sched cc) rid (keys_to_store out) None source (Some source) ?c = Inr (c', jid)"
  have "F \<subseteq> c_flush ?c" by (rule flush_frame [OF _ F]) simp
  then show "F \<subseteq> c_flush (fst (c', jobs'))" for jobs' :: "(int, worker_job) odict"
    by (simp only: fst_conv add_store_job_flush [OF s])
qed

lemma tail_one_flush: "ok (\<lambda>st. F \<subseteq> c_flush (fst st)) (tail_one M T cc Q h (c, jobs))" if "F \<subseteq> c_flush c"
proof -
  note keep = flush_frame [OF _ that]
  show ?thesis
    unfolding tail_one_def Let_def prod.case
    by (intro vc tail_job_flush; (simp only: fst_conv)?)
       (metis that keep ask_manager_tables allocation_failure_tables)+
qed

lemma partial_flush:
  fixes c :: "('s, 'e) connector"
  assumes "F \<subseteq> c_flush c"
  shows "ok (\<lambda>st. F \<subseteq> c_flush (fst st)) (build_partial_tail_store_jobs M T cc Q so c)"
  unfolding build_partial_tail_store_jobs_def
proof (intro vc ok_foldE)
  fix h and st :: "('s, 'e) connector \<times> (int, worker_job) odict"
  assume "F \<subseteq> c_flush (fst st)"
  then show "ok (\<lambda>st. F \<subseteq> c_flush (fst st)) (tail_one M T cc Q h st)"
    using tail_one_flush [of F "fst st" M T cc Q h "snd st"] by simp
qed (use assms in simp_all)

lemma issue_store_flush:
  fixes c :: "('s, 'e) connector"
  assumes "F \<subseteq> c_flush c"
  shows "ok (\<lambda>st. F \<subseteq> c_flush (fst st)) (issue_store X T cc rid rq n rs out (c, jobs))"
proof -
  have groups: "F \<subseteq> c_flush c1" if "foldE (store_group T cc rid rq n ks) gcs (c, sp0) = Inr (c1, sp)" for ks gcs sp0 c1 sp
  proof -
    have "tables (fst (c1, sp)) = tables c"
      by (rule foldE_inv [OF that]) (use okD [OF store_group_ok] in \<open>simp, metis prod.collapse\<close>)
    then show ?thesis using flush_frame assms by auto
  qed
  have fence: "c_flush c1 \<subseteq> c_flush (if b then fence_finished jid bids c1 else c1)" for b jid bids and c1 :: "('s, 'e) connector"
    by (auto simp: fence_finished_def)
  have put: "c_flush (put_req rid rs1 c1) = c_flush c1" for rs1 and c1 :: "('s, 'e) connector"
    by (simp add: put_req_def)
  show ?thesis
    unfolding issue_store_def Let_def prod.case
    by (intro vc; simp only: fst_conv) (metis groups fence put add_store_job_flush subset_trans)
qed

lemma store_one_flush:
  fixes c :: "('s, 'e) connector"
  assumes F: "F \<subseteq> c_flush c"
  shows "ok (\<lambda>st. F \<subseteq> c_flush (fst st)) (store_one M X T cc Q so rid (c, offered, jobs))"
proof -
  have offers: "F \<subseteq> c_flush c1"
    if "foldE (offer_group M cc rq rs n) gcs (c, offered, []) = Inr (c1, offered1, new)"
    for rq rs n gcs c1 offered1 new
  proof -
    have "tables (fst (c1, offered1, new)) = tables c"
      by (rule foldE_inv [OF that]) (use okD [OF offer_group_ok] in \<open>simp, metis prod.collapse\<close>)
    then show ?thesis using flush_frame F by auto
  qed
  have same: "c_flush (put_req rid rs1 c1) = c_flush c1" "c_flush (if b then c1\<lparr>c_mirror_offered := x\<rparr> else c1) = c_flush c1"
    for rs1 b x and c1 :: "('s, 'e) connector"
    by (simp_all add: put_req_def)
  note issue = okD [OF issue_store_flush]
  show ?thesis
    unfolding store_one_def Let_def prod.case
  proof (intro vc; (simp only: fst_conv)?)
    show "F \<subseteq> c_flush c" by (rule F)
  qed (metis offers same ask_manager_tables allocation_failure_tables touch_request_tables
      flush_frame issue fst_conv)+
qed

lemma build_store_flush:
  fixes c :: "('s, 'e) connector"
  assumes "F \<subseteq> c_flush c"
  shows "ok (\<lambda>st. F \<subseteq> c_flush (fst st)) (build_store_jobs M X T cc Q so c)"
proof -
  have "ok (\<lambda>st. F \<subseteq> c_flush (fst st)) (foldE (store_one M X T cc Q so) (od_keys (so_scheduled so) @ so_finished so) (c, 0, []))"
  proof (rule ok_foldE)
    fix rid and st :: "('s, 'e) connector \<times> int \<times> (int, worker_job) odict"
    assume "F \<subseteq> c_flush (fst st)"
    moreover obtain c1 o1 j1 where "st = (c1, o1, j1)" by (cases st)
    ultimately show "ok (\<lambda>st. F \<subseteq> c_flush (fst st)) (store_one M X T cc Q so rid st)"
      using store_one_flush by simp
  qed (simp add: assms)
  note loop = okD [OF this]
  show ?thesis
    unfolding build_store_jobs_def
    by (intro vc; simp only: fst_conv) (metis loop fst_conv)
qed

lemma reallocated_mem:
  "map_of p bid = Some S \<Longrightarrow> bid \<in> A \<Longrightarrow> jid \<in> S \<Longrightarrow> jid \<in> reallocated_jobs A p"
  by (force simp: reallocated_jobs_def dest: map_of_SomeD)

text \<open>
  C11: when a step gives away a block, a store job that still reads the block is flushed with that
  step's metadata: for every live job of a reachable state and every block it still reads (its
  window blocks, and all its blocks once the end of its request was announced), if the block was
  allocated since the last step or is handed out in this one, the job's id is in the flush set
  that the workers get before they run the step.
\<close>

theorem realloc_flushes:
  assumes "conn_reach M X T cc Q N c" and X: "pick_ok X"
    and meta: "build_connector_meta M X T cc Q so c = Inr (c', meta)"
    and js: "map_of (c_jobs c) jid = Some js" and bid: "bid \<in> read_blocks N js"
    and alloc: "bid \<in> c_alloc c \<union> given_away (so_req_data so)"
  shows "jid \<in> meta_flush meta"
proof -
  have inv: "job_inv Q N c" using conn_reach_inv [OF assms(1) X] .
  obtain S where S: "map_of (c_pending c) bid = Some S" "jid \<in> S"
    using inv js bid unfolding job_inv_def fences_held_def by blast
  have mid: "jid \<in> c_flush (flush_retracted M (c3\<lparr>c_flush := c_flush c3 \<union> reallocated_jobs (c_alloc c3) (c_pending c3)\<rparr>))"
    if "update_req_states cc Q so c = Inr c1" "tell_manager f c1 = Inr c2"
      "foldE (flush_preempted X) rids c2 = Inr c3" for c1 c2 c3 f rids
  proof -
    have f: "job_view c3 = job_view c2 \<and> c_flush c2 \<subseteq> c_flush c3 \<and> c_alloc c3 = c_alloc c2"
      by (rule okD [OF flush_all_ok that(3)])
    have t: "c_alloc c2 = c_alloc c1" "job_view c2 = job_view c1"
      using tell_manager_tables [OF that(2)] tables_view [OF tell_manager_tables [OF that(2)]] by (simp_all add: tables_def)
    have "job_view c3 = job_view c" using f t update_req_states_view [OF that(1)] by simp
    then have "c_pending c3 = c_pending c" by (simp add: job_view_def)
    moreover have "bid \<in> c_alloc c3" using f t alloc update_req_states_alloc [OF that(1)] by auto
    ultimately have "jid \<in> reallocated_jobs (c_alloc c3) (c_pending c3)" using S reallocated_mem by metis
    then show ?thesis
      using flush_retracted_facts [of M "c3\<lparr>c_flush := c_flush c3 \<union> reallocated_jobs (c_alloc c3) (c_pending c3)\<rparr>"]
      by auto
  qed
  have "ok (\<lambda>st. jid \<in> meta_flush (snd st)) (build_connector_meta M X T cc Q so c)"
    unfolding build_connector_meta_def Let_def
  proof (intro vc; simp only: snd_conv connector_meta.select_convs)
    fix c1 c2 c3 c4 p1 c5 p2
    assume m: "update_req_states cc Q so c = Inr c1"
      "tell_manager (m_schedule_end M \<lparr>new_req_ids = so_new_reqs so, preempted_req_ids = so_preempted so\<rparr>) c1 = Inr c2"
      "foldE (flush_preempted X) (so_preempted so) c2 = Inr c3"
      and p: "build_partial_tail_store_jobs M T cc Q so (flush_retracted M
        (c3\<lparr>c_flush := c_flush c3 \<union> reallocated_jobs (c_alloc c3) (c_pending c3)\<rparr>)) = Inr (c4, p1)"
      and b: "build_store_jobs M X T cc Q so c4 = Inr (c5, p2)"
    have "{jid} \<subseteq> c_flush c4" using okD [OF partial_flush p, of "{jid}"] mid [OF m] by simp
    then show "jid \<in> c_flush c5" using okD [OF build_store_flush b, of "{jid}"] by simp
  qed
  from okD [OF this meta] show ?thesis by simp
qed

theorem realloc_flushes_witness:
  "\<exists>c' meta. build_connector_meta echo_ops demo_ext demo_tracker tiny_cc (\<lambda>_. tiny_rq) (step_out []) tiny_live =
     Inr (c', meta) \<and> 0 \<in> meta_flush meta"
proof -
  have "7 \<in> read_blocks {} tiny_job" by (simp add: read_blocks_def tiny_job_def)
  from realloc_flushes [OF tiny_reach demo_pick tiny_meta_again _ this, of 0] tiny_meta_again
  show ?thesis by (auto simp: allocated_ids_def)
qed

section \<open>The reset\<close>

lemma reset_facts:
  assumes "reset_cache M T Q c = Inr c'"
  shows "c_flush c' = fst ` set (c_jobs c) \<and> c_stale_threshold c' = c_job_counter c"
proof -
  have drop: "ok (\<lambda>c'. c_flush c' = c_flush c1 \<and> c_job_counter c' = c_job_counter c1) (drop_finished M Q r c1)"
    for r and c1 :: "('a, 'b) connector"
    unfolding drop_finished_def
    by (intro vc) (auto simp: ok_def tables_def split: if_splits dest!: tell_manager_tables)
  have loop: "c_flush c2 = c_flush c1 \<and> c_job_counter c2 = c_job_counter c1"
    if "foldE (drop_finished M Q) rs c1 = Inr c2" for rs and c1 c2 :: "('a, 'b) connector"
    by (rule foldE_inv [OF that]) (auto dest: okD [OF drop])
  have "ok (\<lambda>c'. c_flush c' = fst ` set (c_jobs c) \<and> c_stale_threshold c' = c_job_counter c) (reset_cache M T Q c)"
    unfolding reset_cache_def Let_def
    by (intro vc conjI; (drule loop)) (drule tell_manager_tables, simp add: tables_def)+
  from okD [OF this assms] show ?thesis .
qed

text \<open>
  A second reset before the next step fails. A reset that succeeds with jobs in flight leaves
  the flush set full of them, and the next call's assertion that the flush set is empty raises
  until a step's metadata has carried it away.
\<close>

lemma reset_twice_raises:
  assumes "reset_cache M T Q c = Inr c'" and "c_jobs c \<noteq> []"
  shows "c_flush c' = fst ` set (c_jobs c) \<and> reset_cache M T Q' c' = Inl AssertionError"
proof -
  have flush: "c_flush c' = fst ` set (c_jobs c)" using reset_facts [OF assms(1)] by blast
  moreover have "c_flush c' \<noteq> {}" using flush assms(2) by simp
  ultimately show ?thesis by (simp add: reset_cache_def)
qed

lemma reset_twice_raises_witness:
  "\<exists>c'. reset_cache echo_ops demo_tracker (\<lambda>_. tiny_rq) tiny_live = Inr c' \<and>
     reset_cache echo_ops demo_tracker (\<lambda>_. tiny_rq) c' = Inl AssertionError"
proof -
  obtain c' where "reset_cache echo_ops demo_tracker (\<lambda>_. tiny_rq) tiny_live = Inr c'" using tiny_reset by blast
  with reset_twice_raises [OF this, of "\<lambda>_. tiny_rq"] show ?thesis by auto
qed

text \<open>
  C13: the workers' late reports cannot hurt after a reset. A job that was live before the reset
  is below the stale threshold after it, so a report of its completion leaves the state as it
  is, whatever the count it carries.
\<close>

theorem stale_reports_ignored:
  assumes "conn_reach M X T cc Q N c" and "pick_ok X" and "reset_cache M T Q c = Inr c'"
    and "map_of (c_jobs c) jid = Some js" and "n > 0"
  shows "complete_one M X Q' (jid, n) c' = Inr c'"
proof -
  have "jid < c_job_counter c"
    using conn_reach_inv [OF assms(1,2)] assms(4) tables_job unfolding job_inv_def by blast
  then show ?thesis using reset_facts [OF assms(3)] assms(5) by (simp add: complete_one_def)
qed

theorem stale_reports_ignored_witness:
  "\<exists>c'. reset_cache echo_ops demo_tracker (\<lambda>_. tiny_rq) tiny_live = Inr c' \<and>
     complete_one echo_ops demo_ext (\<lambda>_. tiny_rq) (0, 1) c' = Inr c'"
proof -
  obtain c' where "reset_cache echo_ops demo_tracker (\<lambda>_. tiny_rq) tiny_live = Inr c'" using tiny_reset by blast
  with stale_reports_ignored [OF tiny_reach demo_pick this, of 0 tiny_job 1 "\<lambda>_. tiny_rq"] show ?thesis by auto
qed

end
