(* ===== verification/Graph_Dispatch.thy ===== *)
theory Graph_Dispatch
  imports Py_Env
begin

text \<open>
  Model of \<open>v1/cudagraph_dispatcher.py\<close>: the keys of the CUDA graphs that are captured, the
  table that pads a batch to a captured size, and the choice of a graph for a batch.

  \<open>CUDAGraphMode\<close> and \<open>BatchDescriptor\<close> are classes of another package. A configured mode is
  the record of what the code asks of it (\<open>graph_mode\<close>), a mode that a graph runs in is one of
  the three that the code names (\<open>runtime_mode\<close>), and a descriptor has the fields the code
  passes. The configuration objects are one record of the attributes the code reads;
  \<open>get_captured_lora_counts\<close> is a parameter.
\<close>

section \<open>Modes, descriptors, configuration\<close>

datatype runtime_mode = NONE | PIECEWISE | FULL

record graph_mode =
  gm_none :: bool
  gm_on :: bool
  gm_decode :: runtime_mode
  gm_mixed :: runtime_mode
  gm_separate :: bool
  gm_has_full :: bool
  gm_piecewise :: bool

definition mode_none :: graph_mode where
  "mode_none = \<lparr>gm_none = True, gm_on = False, gm_decode = NONE, gm_mixed = NONE,
     gm_separate = False, gm_has_full = False, gm_piecewise = False\<rparr>"

record batch_desc =
  bd_num_tokens :: int
  bd_num_reqs :: "int option"
  bd_uniform :: bool
  bd_has_lora :: bool
  bd_num_active_loras :: int

text \<open>\<open>BatchDescriptor(num_tokens)\<close> with the defaults of its other fields.\<close>

definition plain_desc :: "int \<Rightarrow> batch_desc" where
  "plain_desc n = \<lparr>bd_num_tokens = n, bd_num_reqs = None, bd_uniform = False, bd_has_lora = False,
     bd_num_active_loras = 0\<rparr>"

record graph_config =
  gc_num_spec :: int
  gc_max_num_seqs :: int
  gc_mode :: graph_mode
  gc_attention_piecewise :: bool
  gc_breakable :: bool
  gc_max_size :: "int option"
  gc_capture_sizes :: "int list option"
  gc_compile_sizes :: "int list"
  gc_max_loras :: "int option"
  gc_specialize_active :: bool
  gc_specialize_lora :: bool
  gc_lora_counts :: "int \<Rightarrow> bool \<Rightarrow> int list"
  gc_batches_env :: "string option"

record dispatcher =
  dp_qlen :: int
  dp_piecewise :: "batch_desc set"
  dp_full :: "batch_desc set"
  dp_ready :: bool
  dp_specialize :: bool
  dp_mode :: graph_mode
  dp_pad :: "int list"
  dp_lora_counts :: "int list"

definition init_dispatcher :: "graph_config \<Rightarrow> dispatcher res" where
  "init_dispatcher cfg =
     assertE (\<not> gm_piecewise (gc_mode cfg) \<or> gc_attention_piecewise cfg \<or> gc_breakable cfg)
       (Inr \<lparr>dp_qlen = 1 + gc_num_spec cfg, dp_piecewise = {}, dp_full = {}, dp_ready = False,
             dp_specialize = (gc_max_loras cfg \<noteq> None \<and> gc_specialize_active cfg),
             dp_mode = mode_none, dp_pad = [], dp_lora_counts = []\<rparr>)"

section \<open>The request counts to capture\<close>

fun split_on :: "'a \<Rightarrow> 'a list \<Rightarrow> 'a list list" where
  "split_on c [] = [[]]"
| "split_on c (x # xs) =
     (case split_on c xs of
        [] \<Rightarrow> [[x]]
      | y # ys \<Rightarrow> if x = c then [] # y # ys else (x # y) # ys)"

definition env_ints :: "string \<Rightarrow> int list" where
  "env_ints raw =
     List.map_filter (\<lambda>p. if py_strip p = [] then None else py_int (py_strip p)) (split_on (CHR '','') raw)"

definition decode_key_reqs :: "graph_config \<Rightarrow> int \<Rightarrow> int list" where
  "decode_key_reqs cfg qlen =
     (let max_reqs = gc_max_num_seqs cfg;
          raw = py_lower (py_strip (case gc_batches_env cfg of None \<Rightarrow> [] | Some s \<Rightarrow> s)) in
      if qlen \<le> 1 then [1..max_reqs]
      else if raw = ''0'' \<or> raw = ''disable'' then [1]
      else
        let reqs = filter (\<lambda>n. 1 \<le> n \<and> n \<le> max_reqs) (env_ints raw);
            reqs = (if reqs = [] then [1..max_reqs] else reqs)
        in sort (remdups reqs))"

section \<open>The pad table\<close>

text \<open>\<open>xs[i] = v\<close>, with Python's reading of a negative index.\<close>

definition py_upd :: "'a list \<Rightarrow> int \<Rightarrow> 'a \<Rightarrow> 'a list res" where
  "py_upd xs i v =
     (let n = int (length xs); j = (if i < 0 then i + n else i)
      in if 0 \<le> j \<and> j < n then Inr (xs[nat j := v]) else Inl IndexError)"

definition pad_range :: "int \<times> int \<Rightarrow> int list \<Rightarrow> int list res" where
  "pad_range r =
     (let (start, stop) = r in
      foldE (\<lambda>bs pad. py_upd pad bs (if bs = start then start else stop)) [start..stop - 1])"

definition pad_decode :: "int list \<Rightarrow> int \<Rightarrow> int list \<Rightarrow> int list res" where
  "pad_decode captured bs pad =
     py_upd pad bs (case find (\<lambda>t. t \<ge> bs) captured of None \<Rightarrow> bs | Some t \<Rightarrow> t)"

definition check_compile_size :: "int \<Rightarrow> int list \<Rightarrow> int \<Rightarrow> unit \<Rightarrow> unit res" where
  "check_compile_size max_size pad n u =
     (if n \<le> max_size
      then bindE (py_nth pad n) (\<lambda>padded. if padded \<noteq> n then Inl ValueError else Inr ())
      else Inr ())"

definition compute_pad :: "graph_config \<Rightarrow> graph_mode \<Rightarrow> int \<Rightarrow> int list res" where
  "compute_pad cfg mode qlen =
     (case gc_max_size cfg of
        None \<Rightarrow> Inl AssertionError
      | Some max_size \<Rightarrow>
          (case gc_capture_sizes cfg of
             None \<Rightarrow> Inl AssertionError
           | Some sizes \<Rightarrow>
               let map_max = (if qlen > 1 \<and> gm_separate mode
                              then max max_size (qlen * gc_max_num_seqs cfg) else max_size);
                   captured = sort (remdups (map (\<lambda>bs. bs * qlen) (decode_key_reqs cfg qlen)))
               in bindE (foldE pad_range (zip (0 # sizes) (sizes @ [max_size + 1]))
                          (replicate (nat (map_max + 1)) 0)) (\<lambda>pad.
                  bindE (if map_max > max_size
                         then foldE (pad_decode captured) [max_size + 1..map_max] pad
                         else Inr pad) (\<lambda>pad.
                  bindE (if gc_compile_sizes cfg \<noteq> [] \<and> \<not> gm_none mode
                         then foldE (check_compile_size max_size pad) (gc_compile_sizes cfg) ()
                         else Inr ()) (\<lambda>_. Inr pad)))))"

section \<open>Descriptors and keys\<close>

definition lora_cases :: "graph_config \<Rightarrow> bool \<Rightarrow> int list" where
  "lora_cases cfg specialize_count =
     (case gc_max_loras cfg of
        None \<Rightarrow> [0]
      | Some n \<Rightarrow>
          if gc_specialize_lora cfg then 0 # gc_lora_counts cfg n specialize_count else [n + 1])"

definition create_desc :: "graph_config \<Rightarrow> dispatcher \<Rightarrow> int \<Rightarrow> bool \<Rightarrow> bool \<Rightarrow> int \<Rightarrow> batch_desc res" where
  "create_desc cfg d num_tokens uniform has_lora loras =
     bindE (py_nth (dp_pad d) num_tokens) (\<lambda>padded.
       if uniform \<and> gm_has_full (dp_mode d) then
         bindE (py_div padded (dp_qlen d)) (\<lambda>q.
           assertE (padded mod dp_qlen d = 0)
             (Inr \<lparr>bd_num_tokens = padded, bd_num_reqs = Some (min q (gc_max_num_seqs cfg)),
                   bd_uniform = True, bd_has_lora = has_lora, bd_num_active_loras = loras\<rparr>))
       else Inr \<lparr>bd_num_tokens = padded, bd_num_reqs = Some (min padded (gc_max_num_seqs cfg)),
                 bd_uniform = False, bd_has_lora = has_lora, bd_num_active_loras = loras\<rparr>)"

definition add_key :: "runtime_mode \<Rightarrow> batch_desc \<Rightarrow> dispatcher \<Rightarrow> dispatcher res" where
  "add_key mode desc d =
     (case mode of
        NONE \<Rightarrow> Inl AssertionError
      | PIECEWISE \<Rightarrow> Inr (d\<lparr>dp_piecewise := insert desc (dp_piecewise d)\<rparr>)
      | FULL \<Rightarrow> Inr (d\<lparr>dp_full := insert desc (dp_full d)\<rparr>))"

text \<open>\<open>replace(desc, num_reqs=None, uniform=False)\<close>.\<close>

definition relax :: "batch_desc \<Rightarrow> batch_desc" where
  "relax desc = desc\<lparr>bd_num_reqs := None, bd_uniform := False\<rparr>"

definition add_mixed_key :: "graph_config \<Rightarrow> int \<times> int \<Rightarrow> dispatcher \<Rightarrow> dispatcher res" where
  "add_mixed_key cfg k d =
     (let (bs, loras) = k in
      bindE (create_desc cfg d bs False (loras > 0) loras) (\<lambda>desc.
        add_key (gm_mixed (dp_mode d))
          (if gm_mixed (dp_mode d) = PIECEWISE then relax desc else desc) d))"

definition add_decode_key :: "graph_config \<Rightarrow> int \<times> int \<Rightarrow> dispatcher \<Rightarrow> dispatcher res" where
  "add_decode_key cfg k d =
     (let (bs, loras) = k in
      bindE (create_desc cfg d bs True (loras > 0) loras) (\<lambda>desc. add_key FULL desc d))"

definition decode_sizes :: "graph_config \<Rightarrow> int \<Rightarrow> int list \<Rightarrow> int list" where
  "decode_sizes cfg qlen sizes =
     (if qlen > 1 then map (\<lambda>reqs. reqs * qlen) (decode_key_reqs cfg qlen)
      else filter (\<lambda>x. x \<le> qlen * gc_max_num_seqs cfg \<and> x \<ge> qlen) sizes)"

definition initialize_keys :: "graph_config \<Rightarrow> graph_mode \<Rightarrow> int \<Rightarrow> dispatcher \<Rightarrow> dispatcher res" where
  "initialize_keys cfg mode qlen d =
     (let d = d\<lparr>dp_mode := mode, dp_qlen := qlen\<rparr> in
      if gm_none mode then Inr (d\<lparr>dp_ready := True\<rparr>)
      else
        bindE (compute_pad cfg mode qlen) (\<lambda>pad.
        let cases = lora_cases cfg (dp_specialize d);
            d = d\<lparr>dp_pad := pad, dp_lora_counts := filter (\<lambda>n. n \<noteq> 0) cases\<rparr> in
        bindE (if gm_mixed mode \<noteq> NONE
               then (case gc_capture_sizes cfg of
                       None \<Rightarrow> Inl AssertionError
                     | Some sizes \<Rightarrow> foldE (add_mixed_key cfg) (List.product sizes cases) d)
               else Inr d) (\<lambda>d.
        bindE (if gm_decode mode = FULL \<and> gm_separate mode
               then (case gc_capture_sizes cfg of
                       None \<Rightarrow> Inl AssertionError
                     | Some sizes \<Rightarrow>
                         foldE (add_decode_key cfg) (List.product (decode_sizes cfg qlen sizes) cases) d)
               else Inr d) (\<lambda>d.
          Inr (d\<lparr>dp_ready := True\<rparr>)))))"

section \<open>Dispatch\<close>

text \<open>\<open>bisect_left\<close>: the binary search of the standard library.\<close>

function bisect_from :: "int list \<Rightarrow> int \<Rightarrow> nat \<Rightarrow> nat \<Rightarrow> nat" where
  "bisect_from xs x lo hi =
     (if lo < hi then
        let mid = (lo + hi) div 2 in
        if xs ! mid < x then bisect_from xs x (mid + 1) hi else bisect_from xs x lo mid
      else lo)"
  by pat_completeness auto
termination by (relation "measure (\<lambda>(xs, x, lo, hi). hi - lo)") auto

declare bisect_from.simps [simp del]

definition bisect_left :: "int list \<Rightarrow> int \<Rightarrow> nat" where
  "bisect_left xs x = bisect_from xs x 0 (length xs)"

definition effective_loras :: "graph_config \<Rightarrow> dispatcher \<Rightarrow> bool \<Rightarrow> int \<Rightarrow> int res" where
  "effective_loras cfg d has_lora n =
     (if has_lora \<and> n > 0 then
        if dp_specialize d then
          let i = bisect_left (dp_lora_counts d) n
          in Inr (if i < length (dp_lora_counts d) then dp_lora_counts d ! i else n)
        else (case gc_max_loras cfg of None \<Rightarrow> Inl AssertionError | Some m \<Rightarrow> Inr (m + 1))
      else Inr n)"

definition allowed_modes :: "runtime_mode set option \<Rightarrow> runtime_mode set option \<Rightarrow> runtime_mode set" where
  "allowed_modes valid invalid =
     (let base = (case valid of
                    None \<Rightarrow> {NONE, PIECEWISE, FULL}
                  | Some A \<Rightarrow> if A = {} then {NONE, PIECEWISE, FULL} else A)
      in case invalid of None \<Rightarrow> base | Some B \<Rightarrow> base - B)"

text \<open>\<open>max(None, n)\<close> is a \<open>TypeError\<close>.\<close>

definition token_limit :: "graph_config \<Rightarrow> dispatcher \<Rightarrow> bool \<Rightarrow> int option res" where
  "token_limit cfg d uniform =
     (if uniform \<and> \<not> gm_none (dp_mode d) \<and> gm_separate (dp_mode d) \<and> dp_qlen d > 1
      then (case gc_max_size cfg of
              None \<Rightarrow> Inl TypeError
            | Some m \<Rightarrow> Inr (Some (max m (dp_qlen d * gc_max_num_seqs cfg))))
      else Inr (gc_max_size cfg))"

definition dispatch :: "graph_config \<Rightarrow> dispatcher \<Rightarrow> int \<Rightarrow> bool \<Rightarrow> bool \<Rightarrow> int \<Rightarrow>
    runtime_mode set option \<Rightarrow> runtime_mode set option \<Rightarrow> (runtime_mode \<times> batch_desc) res" where
  "dispatch cfg d num_tokens uniform has_lora loras valid invalid =
     (let allowed = allowed_modes valid invalid in
      assertE (allowed \<noteq> {})
      (bindE (token_limit cfg d uniform) (\<lambda>limit.
       if \<not> dp_ready d \<or> gm_none (dp_mode d) \<or> limit = None \<or> num_tokens > the limit \<or> allowed \<subseteq> {NONE}
       then Inr (NONE, plain_desc num_tokens)
       else
         bindE (effective_loras cfg d has_lora loras) (\<lambda>eff.
         bindE (create_desc cfg d num_tokens (uniform \<and> gm_separate (dp_mode d)) has_lora eff) (\<lambda>desc.
           if FULL \<in> allowed \<and> desc \<in> dp_full d then Inr (FULL, desc)
           else if PIECEWISE \<in> allowed \<and> relax desc \<in> dp_piecewise d then Inr (PIECEWISE, relax desc)
           else assertE (NONE \<in> allowed) (Inr (NONE, plain_desc num_tokens)))))))"

text \<open>
  The descriptors to capture, largest first. \<open>iter\<close> is the order in which the set is iterated;
  a reversed sort keeps it among equals.
\<close>

definition capture_list :: "(batch_desc set \<Rightarrow> batch_desc list) \<Rightarrow> runtime_mode \<Rightarrow> batch_desc set \<Rightarrow>
    (runtime_mode \<times> batch_desc list) list" where
  "capture_list iter mode descs =
     (if descs = {} then []
      else [(mode, sort_key (\<lambda>d. - bd_num_tokens d) (sort_key (\<lambda>d. - bd_num_active_loras d) (iter descs)))])"

definition get_capture_descs :: "(batch_desc set \<Rightarrow> batch_desc list) \<Rightarrow> dispatcher \<Rightarrow>
    (runtime_mode \<times> batch_desc list) list" where
  "get_capture_descs iter d =
     (if \<not> dp_ready d \<or> gm_none (dp_mode d) then []
      else capture_list iter PIECEWISE (dp_piecewise d) @ capture_list iter FULL (dp_full d))"

end
