(* ===== verification/Graph_Manager.thy ===== *)
theory Graph_Manager
  imports Graph_Dispatch
begin

text \<open>
  Model of \<open>CudaGraphManager\<close> (\<open>v1/worker/gpu/cudagraph_utils.py\<close>): the descriptors of the
  graphs to capture, the candidates of each batch size, and the choice at run time. Recording and
  replaying a graph is device work; what remains of it here is which graphs exist.

  A runtime mode is true unless it is \<open>NONE\<close>, as \<open>CUDAGraphMode\<close> defines it; \<open>round_up\<close> is a
  parameter. \<open>mc_dynamic\<close> is the list \<open>num_speculative_tokens_per_batch_size\<close> when the
  speculative configuration is a dynamic one.
\<close>

section \<open>Descriptors\<close>

record exec_desc =
  xd_mode :: runtime_mode
  xd_num_tokens :: int
  xd_num_reqs :: "int option"
  xd_uniform :: "int option"
  xd_max_query_len :: "int option"
  xd_num_active_loras :: int

definition is_compatible :: "exec_desc \<Rightarrow> int \<Rightarrow> int \<Rightarrow> int option \<Rightarrow> int \<Rightarrow> int option \<Rightarrow> bool" where
  "is_compatible desc num_reqs num_tokens uniform loras max_query_len \<longleftrightarrow>
     (xd_uniform desc = None \<or> xd_uniform desc = uniform) \<and>
     (case xd_max_query_len desc of
        None \<Rightarrow> True
      | Some m \<Rightarrow> (case max_query_len of None \<Rightarrow> False | Some n \<Rightarrow> m \<ge> n)) \<and>
     (case xd_num_reqs desc of None \<Rightarrow> True | Some r \<Rightarrow> r \<ge> num_reqs) \<and>
     xd_num_tokens desc \<ge> num_tokens \<and> xd_num_active_loras desc = loras"

section \<open>State\<close>

record manager_config =
  mc_max_num_reqs :: int
  mc_mode :: graph_mode
  mc_qlen :: int
  mc_lora_cases :: "int list option"
  mc_varlen :: bool
  mc_capture_sizes :: "int list option"
  mc_max_size :: "int option"
  mc_num_spec :: int
  mc_dynamic :: "(int \<times> int \<times> int) list option"
  mc_batches_env :: "string option"
  mc_round_up :: "int \<Rightarrow> int \<Rightarrow> int"

text \<open>\<open>lora_capture_cases or [0]\<close>.\<close>

definition lora_capture_cases :: "manager_config \<Rightarrow> int list" where
  "lora_capture_cases cfg =
     (case mc_lora_cases cfg of None \<Rightarrow> [0] | Some cs \<Rightarrow> if cs = [] then [0] else cs)"

type_synonym staged = "(int \<times> int, exec_desc list) odict \<times> (runtime_mode, exec_desc list) odict"

record graph_manager =
  gr_lora_map :: "(int, int) odict"
  gr_max_lora :: int
  gr_graphs :: "exec_desc list"
  gr_captured :: bool
  gr_candidates :: "(int \<times> int, exec_desc list) odict"
  gr_capture_descs :: "(runtime_mode, exec_desc list) odict"

section \<open>LoRA counts\<close>

text \<open>
  The index \<open>case_idx\<close> into the sorted cases only moves forward; the model keeps the rest of the
  list. The inner loop stops within the list because the outer one ends at the last case.
\<close>

definition lora_step :: "int \<Rightarrow> int list \<times> (int, int) odict \<Rightarrow> (int list \<times> (int, int) odict) res" where
  "lora_step n st =
     (case dropWhile (\<lambda>c. c < n) (fst st) of
        [] \<Rightarrow> Inl IndexError
      | c # cs \<Rightarrow> Inr (c # cs, AList.update n c (snd st)))"

definition build_lora_map :: "int list \<Rightarrow> ((int, int) odict \<times> int) res" where
  "build_lora_map cases =
     (let captured = sort (filter (\<lambda>c. c > 0) cases) in
      if captured = [] then Inr ([], 0)
      else bindE (foldE lora_step [1..last captured] (captured, [])) (\<lambda>(_, m). Inr (m, last captured)))"

definition resolve_loras :: "graph_manager \<Rightarrow> int \<Rightarrow> int" where
  "resolve_loras g n =
     (if n \<le> 0 \<or> gr_lora_map g = [] then n else get_or n (gr_max_lora g) (gr_lora_map g))"

section \<open>Candidates\<close>

definition push :: "'k \<Rightarrow> 'v \<Rightarrow> ('k, 'v list) odict \<Rightarrow> ('k, 'v list) odict" where
  "push k v d = AList.update k (get_or k [] d @ [v]) d"

definition add_desc :: "exec_desc \<Rightarrow> staged \<Rightarrow> staged" where
  "add_desc desc st =
     (push (xd_num_tokens desc, xd_num_active_loras desc) desc (fst st), push (xd_mode desc) desc (snd st))"

definition add_new_desc :: "exec_desc \<Rightarrow> staged \<Rightarrow> staged" where
  "add_new_desc desc st =
     (if desc \<in> set (get_or (xd_mode desc) [] (snd st)) then st else add_desc desc st)"

definition decode_query_lens :: "manager_config \<Rightarrow> int list" where
  "decode_query_lens cfg =
     (case mc_dynamic cfg of
        None \<Rightarrow> [mc_qlen cfg]
      | Some ranges \<Rightarrow> map (\<lambda>(_, _, n). n + (mc_qlen cfg - mc_num_spec cfg)) ranges)"

definition max_decode_tokens :: "manager_config \<Rightarrow> int" where
  "max_decode_tokens cfg = mc_max_num_reqs cfg * mc_qlen cfg"

definition uniform_desc :: "manager_config \<Rightarrow> int \<Rightarrow> int \<Rightarrow> int \<Rightarrow> exec_desc" where
  "uniform_desc cfg reqs qlen loras =
     \<lparr>xd_mode = gm_decode (mc_mode cfg), xd_num_tokens = reqs * qlen, xd_num_reqs = Some reqs,
      xd_uniform = Some qlen, xd_max_query_len = None, xd_num_active_loras = loras\<rparr>"

text \<open>A uniform decode graph for one captured size, rounded up to whole requests.\<close>

definition add_rounded :: "manager_config \<Rightarrow> int \<times> int \<Rightarrow> int \<Rightarrow> staged \<Rightarrow> staged res" where
  "add_rounded cfg k qlen st =
     (let (num_tokens, loras) = k; rounded = mc_round_up cfg num_tokens qlen in
      bindE (py_div rounded qlen) (\<lambda>reqs.
        if rounded > max_decode_tokens cfg then Inr st
        else (case mc_max_size cfg of
                None \<Rightarrow> Inl TypeError
              | Some mx \<Rightarrow>
                  if rounded > mx \<or> reqs > mc_max_num_reqs cfg then Inr st
                  else Inr (add_new_desc
                    \<lparr>xd_mode = gm_decode (mc_mode cfg), xd_num_tokens = rounded,
                     xd_num_reqs = Some reqs, xd_uniform = Some qlen, xd_max_query_len = None,
                     xd_num_active_loras = loras\<rparr> st))))"

definition separate_decode :: "manager_config \<Rightarrow> bool" where
  "separate_decode cfg \<longleftrightarrow> gm_separate (mc_mode cfg) \<and> gm_decode (mc_mode cfg) \<noteq> NONE"

definition varlen_desc :: "manager_config \<Rightarrow> int \<Rightarrow> int \<Rightarrow> exec_desc" where
  "varlen_desc cfg num_tokens loras =
     \<lparr>xd_mode = gm_decode (mc_mode cfg), xd_num_tokens = num_tokens,
      xd_num_reqs = Some (min num_tokens (mc_max_num_reqs cfg)), xd_uniform = None,
      xd_max_query_len = Some (mc_qlen cfg), xd_num_active_loras = loras\<rparr>"

definition mixed_desc :: "manager_config \<Rightarrow> int \<Rightarrow> int \<Rightarrow> exec_desc" where
  "mixed_desc cfg num_tokens loras =
     \<lparr>xd_mode = gm_mixed (mc_mode cfg), xd_num_tokens = num_tokens,
      xd_num_reqs = (if gm_mixed (mc_mode cfg) = FULL then Some (min num_tokens (mc_max_num_reqs cfg))
                     else None),
      xd_uniform = None, xd_max_query_len = None, xd_num_active_loras = loras\<rparr>"

definition stage_size :: "manager_config \<Rightarrow> int \<times> int \<Rightarrow> staged \<Rightarrow> staged res" where
  "stage_size cfg k st =
     (let (num_tokens, loras) = k in
      bindE (if separate_decode cfg \<and> mc_varlen cfg \<and> num_tokens \<le> max_decode_tokens cfg
             then Inr (add_desc (varlen_desc cfg num_tokens loras) st)
             else if separate_decode cfg \<and> \<not> mc_varlen cfg
             then foldE (add_rounded cfg k) (decode_query_lens cfg) st
             else Inr st) (\<lambda>st.
        Inr (if gm_mixed (mc_mode cfg) \<noteq> NONE then add_desc (mixed_desc cfg num_tokens loras) st else st)))"

text \<open>The request counts of the decode sweep; an entry that is no integer raises.\<close>

definition reqs_sweep :: "manager_config \<Rightarrow> int list res" where
  "reqs_sweep cfg =
     (let env = py_lower (py_strip (case mc_batches_env cfg of None \<Rightarrow> [] | Some s \<Rightarrow> s)) in
      if env \<in> {''0'', ''disable'', ''disabled'', ''off''} then Inr [1]
      else if env \<noteq> [] then
        bindE (mapE (\<lambda>x. case py_int x of None \<Rightarrow> Inl ValueError | Some n \<Rightarrow> Inr n)
                 (filter (\<lambda>x. x \<noteq> []) (split_on (CHR '','') (filter (\<lambda>c. c \<noteq> CHR '' '') env)))) (\<lambda>xs.
          let reqs = sort (remdups (filter (\<lambda>r. 1 \<le> r \<and> r \<le> mc_max_num_reqs cfg) xs))
          in Inr (if reqs = [] then [1] else reqs))
      else Inr [1..mc_max_num_reqs cfg])"

definition sweep :: "manager_config \<Rightarrow> staged \<Rightarrow> staged res" where
  "sweep cfg st =
     (if separate_decode cfg \<and> \<not> mc_varlen cfg then
        if decode_query_lens cfg = [] then Inl ValueError
        else let qlen = Max (set (decode_query_lens cfg)) in
          if qlen > 1 then
            bindE (reqs_sweep cfg) (\<lambda>reqs.
              Inr (fold (\<lambda>(loras, r). add_new_desc (uniform_desc cfg r qlen loras))
                     (List.product (lora_capture_cases cfg) reqs) st))
          else Inr st
      else Inr st)"

text \<open>Each batch size gets the descriptors of the next staged size.\<close>

definition assign_one :: "(int \<times> int, exec_desc list) odict \<Rightarrow> int \<Rightarrow> int \<times> int \<Rightarrow>
    (int \<times> int, exec_desc list) odict \<Rightarrow> (int \<times> int, exec_desc list) odict" where
  "assign_one staged t il cands =
     (case map_of staged (t, snd il) of None \<Rightarrow> cands | Some ds \<Rightarrow> AList.update il ds cands)"

definition assign_size :: "int list \<Rightarrow> (int \<times> int, exec_desc list) odict \<Rightarrow> int \<Rightarrow>
    int \<times> (int \<times> int, exec_desc list) odict \<Rightarrow> int \<times> (int \<times> int, exec_desc list) odict" where
  "assign_size loras staged t st =
     (t + 1, fold (assign_one staged t) (List.product [fst st..t] loras) (snd st))"

definition token_counts :: "(int \<times> int, exec_desc list) odict \<Rightarrow> int list" where
  "token_counts staged = sort (remdups (map fst (od_keys staged)))"

definition init_candidates :: "manager_config \<Rightarrow> graph_manager \<Rightarrow> graph_manager res" where
  "init_candidates cfg g =
     (case mc_capture_sizes cfg of
        None \<Rightarrow> Inr g
      | Some sizes \<Rightarrow>
          if \<not> gm_on (mc_mode cfg) \<or> sizes = [] then Inr g
          else
            bindE (foldE (stage_size cfg) (List.product (sort sizes) (lora_capture_cases cfg)) ([], [])) (\<lambda>st.
            bindE (sweep cfg st) (\<lambda>st.
              if fst st = [] then Inr g
              else Inr (g\<lparr>gr_candidates := snd (fold (assign_size (lora_capture_cases cfg) (fst st))
                             (token_counts (fst st)) (0, gr_candidates g)),
                         gr_capture_descs := fold (\<lambda>(mode, ds).
                             AList.update mode (sort_key (\<lambda>d. - xd_num_tokens d) ds))
                             (snd st) (gr_capture_descs g)\<rparr>))))"

definition init_graphs :: "manager_config \<Rightarrow> graph_manager res" where
  "init_graphs cfg =
     bindE (build_lora_map (lora_capture_cases cfg)) (\<lambda>(m, mx).
       init_candidates cfg \<lparr>gr_lora_map = m, gr_max_lora = mx, gr_graphs = [], gr_captured = False,
         gr_candidates = [], gr_capture_descs = []\<rparr>)"

definition needs_capture :: "graph_manager \<Rightarrow> bool" where
  "needs_capture g \<longleftrightarrow> length (gr_capture_descs g) > 0"

section \<open>Capture, profiling, replay\<close>

text \<open>A piecewise graph is kept by its wrapper, a full one in \<open>graphs\<close>.\<close>

definition capture_desc :: "exec_desc \<Rightarrow> graph_manager \<Rightarrow> graph_manager res" where
  "capture_desc desc g =
     (if xd_mode desc = PIECEWISE then Inr g
      else assertE (desc \<notin> set (gr_graphs g)) (Inr (g\<lparr>gr_graphs := gr_graphs g @ [desc]\<rparr>)))"

definition capture :: "graph_manager \<Rightarrow> graph_manager res" where
  "capture g =
     bindE (foldE (\<lambda>mode. foldE capture_desc (get_or mode [] (gr_capture_descs g))) [PIECEWISE, FULL] g)
       (\<lambda>g. Inr (g\<lparr>gr_captured := True\<rparr>))"

text \<open>
  The dry run: whatever happens, its graphs are dropped and the flag is what it was. \<open>free\<close> is
  the device memory that is free before and after.
\<close>

definition profile_memory :: "int \<times> int \<Rightarrow> graph_manager \<Rightarrow> graph_manager \<times> int option res" where
  "profile_memory free g =
     (if gr_capture_descs g = [] then (g, Inr None)
      else (g\<lparr>gr_graphs := []\<rparr>,
        bindE (capture g) (\<lambda>_. Inr (Some (max (fst free - snd free) 0)))))"

definition captured_token_counts :: "graph_manager \<Rightarrow> int list" where
  "captured_token_counts g =
     sort (remdups (map xd_num_tokens (filter (\<lambda>d. xd_num_active_loras d = 0) (gr_graphs g))))"

definition run_fullgraph :: "graph_manager \<Rightarrow> exec_desc \<Rightarrow> exec_desc res" where
  "run_fullgraph g desc =
     assertE (xd_mode desc = FULL) (assertE (desc \<in> set (gr_graphs g)) (Inr desc))"

section \<open>Dispatch\<close>

definition no_graph :: "int \<Rightarrow> int \<Rightarrow> int \<Rightarrow> exec_desc" where
  "no_graph num_reqs num_tokens loras =
     \<lparr>xd_mode = NONE, xd_num_tokens = num_tokens, xd_num_reqs = Some num_reqs, xd_uniform = None,
      xd_max_query_len = None, xd_num_active_loras = loras\<rparr>"

definition choose_graph :: "graph_manager \<Rightarrow> int \<Rightarrow> int \<Rightarrow> int option \<Rightarrow> int \<Rightarrow> int option \<Rightarrow> exec_desc" where
  "choose_graph g num_reqs num_tokens uniform loras max_query_len =
     (let eff = resolve_loras g loras in
      if gr_captured g \<and> num_tokens > 0 then
        (case map_of (gr_candidates g) (num_tokens, eff) of
           None \<Rightarrow> no_graph num_reqs num_tokens eff
         | Some ds \<Rightarrow>
             (case find (\<lambda>d. is_compatible d num_reqs num_tokens uniform eff max_query_len) ds of
                None \<Rightarrow> no_graph num_reqs num_tokens eff
              | Some d \<Rightarrow> d))
      else no_graph num_reqs num_tokens eff)"

end
