(* ===== verification/Graph_Facts.thy ===== *)
theory Graph_Facts
  imports Graph_Dispatch Res_Conditions
begin

text \<open>
  Facts about the dispatcher of CUDA graphs: what the pad table holds, and what the
  initialization keeps and adds.
\<close>

section \<open>The pad table\<close>

lemma py_upd_ok: "0 \<le> i \<Longrightarrow> i < int (length xs) \<Longrightarrow> py_upd xs i v = Inr (xs[nat i := v])"
  by (simp add: py_upd_def)

lemma py_nth_ok: "0 \<le> i \<Longrightarrow> i < int (length xs) \<Longrightarrow> py_nth xs i = Inr (xs ! nat i)"
  by (simp add: py_nth_def)

text \<open>A loop that assigns each position of a range.\<close>

lemma fill_ok:
  assumes "0 \<le> a" and "b < int (length p)"
  shows "\<exists>p'. foldE (\<lambda>i p. py_upd p i (f i)) [a..b] p = Inr p' \<and> length p' = length p \<and>
    (\<forall>i. 0 \<le> i \<longrightarrow> i < int (length p) \<longrightarrow> p' ! nat i = (if a \<le> i \<and> i \<le> b then f i else p ! nat i))"
  using assms
proof (induction "nat (b + 1 - a)" arbitrary: a p)
  case 0
  then have "[a..b] = []" by simp
  with 0 show ?case by auto
next
  case (Suc n)
  then have ab: "a \<le> b" by simp
  let ?p = "p[nat a := f a]"
  have n: "n = nat (b + 1 - (a + 1))" "0 \<le> a + 1" "b < int (length ?p)" using Suc(2-4) ab by simp_all
  obtain p' where
    p': "foldE (\<lambda>i p. py_upd p i (f i)) [a + 1..b] ?p = Inr p'" "length p' = length p"
    "\<forall>i. 0 \<le> i \<longrightarrow> i < int (length p) \<longrightarrow> p' ! nat i = (if a + 1 \<le> i \<and> i \<le> b then f i else ?p ! nat i)"
    using Suc(1) [OF n] unfolding length_list_update by blast
  have "foldE (\<lambda>i p. py_upd p i (f i)) [a..b] p = Inr p'"
    using p'(1) Suc(3,4) ab by (simp add: upto_rec1 py_upd_ok)
  moreover have "p' ! nat i = (if a \<le> i \<and> i \<le> b then f i else p ! nat i)"
    if "0 \<le> i" "i < int (length p)" for i
    using p'(3) that Suc(3,4) ab by (cases "i = a") (auto simp: nth_list_update nat_eq_iff)
  ultimately show ?case using p'(2) by blast
qed

text \<open>The smallest captured size that holds a batch; a batch larger than all stays as it is.\<close>

definition next_size :: "int list \<Rightarrow> int \<Rightarrow> int" where
  "next_size sizes n = (case find (\<lambda>s. s \<ge> n) sizes of None \<Rightarrow> n | Some s \<Rightarrow> s)"

lemma next_size_ge: "n \<le> next_size sizes n"
  by (auto simp: next_size_def find_Some_iff split: option.split)

lemma next_size_Cons: "next_size (s # ss) n = (if n \<le> s then s else next_size ss n)"
  by (simp add: next_size_def)

lemma next_size_mem: "n \<le> s \<Longrightarrow> s \<in> set ss \<Longrightarrow> next_size ss n \<in> set ss"
  by (induction ss) (auto simp: next_size_Cons)

lemma next_size_least: "sorted_wrt (<) ss \<Longrightarrow> s \<in> set ss \<Longrightarrow> n \<le> s \<Longrightarrow> next_size ss n \<le> s"
  by (induction ss) (auto simp: next_size_Cons)

lemma sorted_last: "sorted_wrt (<) xs \<Longrightarrow> x \<in> set xs \<Longrightarrow> (x :: int) \<le> last xs"
  by (induction xs) (auto split: if_splits intro: less_imp_le)

lemma pad_range_eq:
  "pad_range (start, stop) p = foldE (\<lambda>i p. py_upd p i (if i = start then start else stop)) [start..stop - 1] p"
  by (simp add: pad_range_def)

lemma pad_chain:
  assumes "sorted_wrt (<) (start # ss)" and "0 \<le> start" and "last (start # ss) = mx" and "mx < int (length p)"
  shows "\<exists>p'. foldE pad_range (zip (start # ss) (ss @ [mx + 1])) p = Inr p' \<and> length p' = length p \<and>
    (\<forall>i. 0 \<le> i \<longrightarrow> i < int (length p) \<longrightarrow> p' ! nat i =
       (if start < i \<and> i \<le> mx then next_size ss i else if i = start then start else p ! nat i))"
  using assms
proof (induction ss arbitrary: start p)
  case Nil
  then have "py_upd p start start = Inr (p[nat start := start])" by (simp add: py_upd_ok)
  with Nil show ?case by (auto simp: pad_range_eq nth_list_update nat_eq_iff)
next
  case (Cons s ss)
  have s: "start < s" "s \<le> mx" "0 \<le> s"
  proof -
    show "start < s" using Cons.prems(1) by simp
    show "s \<le> mx" using Cons.prems(1,3) by (auto simp: order.strict_implies_order split: if_splits)
    show "0 \<le> s" using \<open>start < s\<close> Cons.prems(2) by simp
  qed
  from fill_ok [of start "s - 1" p "\<lambda>i. if i = start then start else s"] Cons.prems s obtain p1 where
    p1: "pad_range (start, s) p = Inr p1" "length p1 = length p"
    "\<forall>i. 0 \<le> i \<longrightarrow> i < int (length p) \<longrightarrow> p1 ! nat i =
       (if start \<le> i \<and> i \<le> s - 1 then (if i = start then start else s) else p ! nat i)"
    by (auto simp: pad_range_eq)
  from Cons.IH [of s p1] Cons.prems s p1(2) obtain p2 where
    p2: "foldE pad_range (zip (s # ss) (ss @ [mx + 1])) p1 = Inr p2" "length p2 = length p"
    "\<forall>i. 0 \<le> i \<longrightarrow> i < int (length p) \<longrightarrow> p2 ! nat i =
       (if s < i \<and> i \<le> mx then next_size ss i else if i = s then s else p1 ! nat i)"
    by auto
  have "foldE pad_range (zip (start # s # ss) ((s # ss) @ [mx + 1])) p = Inr p2"
    using p1(1) p2(1) by simp
  moreover have "p2 ! nat i =
      (if start < i \<and> i \<le> mx then next_size (s # ss) i else if i = start then start else p ! nat i)"
    if "0 \<le> i" "i < int (length p)" for i
    using p1(3) p2(3) that s by (auto simp: next_size_Cons)
  ultimately show ?case using p2(2) by blast
qed

text \<open>A configuration as the engine resolves it: increasing sizes, the last one the maximum.\<close>

definition sizes_ok :: "graph_config \<Rightarrow> int list \<Rightarrow> int \<Rightarrow> bool" where
  "sizes_ok cfg sizes mx \<longleftrightarrow> gc_capture_sizes cfg = Some sizes \<and> gc_max_size cfg = Some mx \<and>
     sizes \<noteq> [] \<and> sorted_wrt (<) (0 # sizes) \<and> last sizes = mx"

definition decode_tokens :: "graph_config \<Rightarrow> int \<Rightarrow> int list" where
  "decode_tokens cfg qlen = sort (remdups (map (\<lambda>bs. bs * qlen) (decode_key_reqs cfg qlen)))"

definition pad_limit :: "graph_config \<Rightarrow> graph_mode \<Rightarrow> int \<Rightarrow> int \<Rightarrow> int" where
  "pad_limit cfg mode qlen mx =
     (if qlen > 1 \<and> gm_separate mode then max mx (qlen * gc_max_num_seqs cfg) else mx)"

definition pad_of :: "graph_config \<Rightarrow> int \<Rightarrow> int list \<Rightarrow> int \<Rightarrow> int \<Rightarrow> int" where
  "pad_of cfg qlen sizes mx n =
     (if n = 0 then 0 else if n \<le> mx then next_size sizes n else next_size (decode_tokens cfg qlen) n)"

lemma bind_last: "bindE (Inr q) (\<lambda>p. bindE (f p) (\<lambda>_. Inr p)) = Inr r \<Longrightarrow> r = q"
  by (auto simp: res_simps)

lemma compute_pad_ok:
  assumes s: "sizes_ok cfg sizes mx" and ret: "compute_pad cfg mode qlen = Inr pad"
  shows "int (length pad) = pad_limit cfg mode qlen mx + 1 \<and>
    (\<forall>n. 0 \<le> n \<longrightarrow> n \<le> pad_limit cfg mode qlen mx \<longrightarrow> pad ! nat n = pad_of cfg qlen sizes mx n)"
proof -
  let ?L = "pad_limit cfg mode qlen mx"
  have mx: "0 \<le> mx" "mx \<le> ?L"
    using s last_in_set [of sizes] by (auto simp: sizes_ok_def pad_limit_def)
  have l: "last (0 # sizes) = mx" using s by (simp add: sizes_ok_def)
  from pad_chain [of 0 sizes mx "replicate (nat (?L + 1)) 0"] s l mx obtain p where
    p: "foldE pad_range (zip (0 # sizes) (sizes @ [mx + 1])) (replicate (nat (?L + 1)) 0) = Inr p"
    "length p = nat (?L + 1)"
    "\<forall>i. 0 \<le> i \<longrightarrow> i < ?L + 1 \<longrightarrow> p ! nat i = (if 0 < i \<and> i \<le> mx then next_size sizes i else 0)"
    by (auto simp: sizes_ok_def)
  have pd: "pad_decode xs = (\<lambda>i p. py_upd p i (next_size xs i))" for xs
    by (simp add: pad_decode_def next_size_def fun_eq_iff)
  have L: "0 \<le> mx + 1" "?L < int (length p)" "int (length p) = ?L + 1" using mx p(2) by simp_all
  obtain q where
    q: "foldE (pad_decode (decode_tokens cfg qlen)) [mx + 1..?L] p = Inr q" "length q = nat (?L + 1)"
    "\<forall>i. 0 \<le> i \<longrightarrow> i < ?L + 1 \<longrightarrow> q ! nat i =
       (if mx + 1 \<le> i \<and> i \<le> ?L then next_size (decode_tokens cfg qlen) i else p ! nat i)"
    using fill_ok [OF L(1,2), of "next_size (decode_tokens cfg qlen)"] p(2) unfolding pd L(3) by auto
  let ?check = "\<lambda>pad. bindE (if gc_compile_sizes cfg \<noteq> [] \<and> \<not> gm_none mode
             then foldE (check_compile_size mx pad) (gc_compile_sizes cfg) ()
             else Inr ()) (\<lambda>_. Inr pad)"
  have "compute_pad cfg mode qlen =
      bindE (if ?L > mx then foldE (pad_decode (decode_tokens cfg qlen)) [mx + 1..?L] p else Inr p) ?check"
    using s p(1) unfolding compute_pad_def sizes_ok_def pad_limit_def decode_tokens_def Let_def by simp
  also have "(if ?L > mx then foldE (pad_decode (decode_tokens cfg qlen)) [mx + 1..?L] p else Inr p) = Inr q"
  proof (cases "?L > mx")
    case False
    then have "[mx + 1..?L] = []" by simp
    then show ?thesis using q(1) by simp
  qed (use q(1) in simp)
  finally have "bindE (Inr q) ?check = Inr pad" using ret by (simp only:)
  then have "pad = q" by (rule bind_last)
  with q(2,3) p(3) mx show ?thesis by (auto simp: pad_of_def)
qed

lemma pad_of_ge: "n \<le> pad_of cfg qlen sizes mx n"
  using next_size_ge by (simp add: pad_of_def)


section \<open>The initialization\<close>

text \<open>Adding keys changes the key sets only, and these grow.\<close>

definition grows :: "dispatcher \<Rightarrow> dispatcher \<Rightarrow> bool" where
  "grows d d' \<longleftrightarrow> dp_pad d' = dp_pad d \<and> dp_mode d' = dp_mode d \<and> dp_qlen d' = dp_qlen d \<and>
     dp_lora_counts d' = dp_lora_counts d \<and> dp_specialize d' = dp_specialize d \<and>
     dp_full d \<subseteq> dp_full d' \<and> dp_piecewise d \<subseteq> dp_piecewise d'"

lemma grows_refl [simp]: "grows d d"
  by (simp add: grows_def)

lemma grows_trans: "grows d d' \<Longrightarrow> grows d' d'' \<Longrightarrow> grows d d''"
  by (auto simp: grows_def)

lemma add_key_grows: "add_key mode desc d = Inr d' \<Longrightarrow> grows d d'"
  by (auto simp: add_key_def grows_def split: runtime_mode.splits)

lemma add_mixed_grows: "add_mixed_key cfg k d = Inr d' \<Longrightarrow> grows d d'"
  by (cases k) (auto simp: add_mixed_key_def res_simps dest: add_key_grows)

lemma add_decode_grows: "add_decode_key cfg k d = Inr d' \<Longrightarrow> grows d d'"
  by (cases k) (auto simp: add_decode_key_def res_simps dest: add_key_grows)

lemma foldE_grows:
  assumes "foldE f xs d = Inr d'" and "\<And>x d d'. f x d = Inr d' \<Longrightarrow> grows d d'"
  shows "grows d d'"
  by (rule foldE_inv [OF assms(1)]) (use assms(2) grows_trans in \<open>simp, blast\<close>)

lemma create_desc_grows: "grows d d' \<Longrightarrow> create_desc cfg d' = create_desc cfg d"
  by (simp add: create_desc_def grows_def fun_eq_iff cong: if_cong)

lemma decode_keys_added:
  assumes "foldE (add_decode_key cfg) ks d = Inr d'" and "(bs, l) \<in> set ks"
  shows "\<exists>desc. create_desc cfg d bs True (l > 0) l = Inr desc \<and> desc \<in> dp_full d'"
  using assms
proof (induction ks arbitrary: d)
  case (Cons k ks)
  then obtain d1 where d1: "add_decode_key cfg k d = Inr d1" "foldE (add_decode_key cfg) ks d1 = Inr d'"
    by (auto simp: res_simps)
  have g: "grows d d1" "grows d1 d'" using add_decode_grows d1 foldE_grows by blast+
  show ?case
  proof (cases "(bs, l) = k")
    case True
    then obtain desc where "create_desc cfg d bs True (l > 0) l = Inr desc" "desc \<in> dp_full d1"
      using d1(1) by (auto simp: add_decode_key_def add_key_def res_simps)
    then show ?thesis using g(2) by (auto simp: grows_def)
  next
    case False
    then show ?thesis using Cons.IH [OF d1(2)] Cons.prems(2) create_desc_grows [OF g(1)] by auto
  qed
qed simp

text \<open>The stages of the initialization.\<close>

lemma initialize_parts:
  assumes ret: "initialize_keys cfg mode qlen d0 = Inr d" and on: "\<not> gm_none mode"
  obtains pad d1 d2 d3 where "compute_pad cfg mode qlen = Inr pad"
    "d1 = d0\<lparr>dp_mode := mode, dp_qlen := qlen, dp_pad := pad,
       dp_lora_counts := filter (\<lambda>n. n \<noteq> 0) (lora_cases cfg (dp_specialize d0))\<rparr>"
    "(if gm_mixed mode \<noteq> NONE
      then (case gc_capture_sizes cfg of None \<Rightarrow> Inl AssertionError
            | Some sizes \<Rightarrow> foldE (add_mixed_key cfg) (List.product sizes (lora_cases cfg (dp_specialize d0))) d1)
      else Inr d1) = Inr d2"
    "(if gm_decode mode = FULL \<and> gm_separate mode
      then (case gc_capture_sizes cfg of None \<Rightarrow> Inl AssertionError
            | Some sizes \<Rightarrow>
                foldE (add_decode_key cfg) (List.product (decode_sizes cfg qlen sizes) (lora_cases cfg (dp_specialize d0))) d2)
      else Inr d2) = Inr d3"
    "d = d3\<lparr>dp_ready := True\<rparr>"
proof -
  let ?cases = "lora_cases cfg (dp_specialize d0)"
  obtain pad where pad: "compute_pad cfg mode qlen = Inr pad"
    using ret on by (auto simp: initialize_keys_def Let_def res_simps)
  let ?d1 = "d0\<lparr>dp_mode := mode, dp_qlen := qlen, dp_pad := pad, dp_lora_counts := filter (\<lambda>n. n \<noteq> 0) ?cases\<rparr>"
  have sp: "dp_specialize (d0\<lparr>dp_mode := mode, dp_qlen := qlen\<rparr>) = dp_specialize d0" by simp
  obtain d2 d3 where
    d2: "(if gm_mixed mode \<noteq> NONE
          then (case gc_capture_sizes cfg of None \<Rightarrow> Inl AssertionError
                | Some sizes \<Rightarrow> foldE (add_mixed_key cfg) (List.product sizes ?cases) ?d1)
          else Inr ?d1) = Inr d2"
    and d3: "(if gm_decode mode = FULL \<and> gm_separate mode
          then (case gc_capture_sizes cfg of None \<Rightarrow> Inl AssertionError
                | Some sizes \<Rightarrow> foldE (add_decode_key cfg) (List.product (decode_sizes cfg qlen sizes) ?cases) d2)
          else Inr d2) = Inr d3"
    and d: "d = d3\<lparr>dp_ready := True\<rparr>"
    using ret unfolding initialize_keys_def Let_def sp if_not_P [OF on] pad bindE.simps bindE_eq_Inr sum.inject
    by blast
  then show thesis by (rule that [OF pad refl])
qed

lemma initialize_result:
  assumes ret: "initialize_keys cfg mode qlen d0 = Inr d" and on: "\<not> gm_none mode"
  obtains "dp_mode d = mode" "dp_qlen d = qlen" "dp_ready d" "compute_pad cfg mode qlen = Inr (dp_pad d)"
    "dp_specialize d = dp_specialize d0" "dp_lora_counts d = filter (\<lambda>n. n \<noteq> 0) (lora_cases cfg (dp_specialize d0))"
    "\<And>sizes bs l. gm_decode mode = FULL \<Longrightarrow> gm_separate mode \<Longrightarrow> gc_capture_sizes cfg = Some sizes \<Longrightarrow>
       bs \<in> set (decode_sizes cfg qlen sizes) \<Longrightarrow> l \<in> set (lora_cases cfg (dp_specialize d0)) \<Longrightarrow>
       \<exists>desc. create_desc cfg d bs True (l > 0) l = Inr desc \<and> desc \<in> dp_full d"
proof -
  let ?cases = "lora_cases cfg (dp_specialize d0)"
  from initialize_parts [OF ret on] obtain pad d1 d2 d3 where pad: "compute_pad cfg mode qlen = Inr pad"
    and d1: "d1 = d0\<lparr>dp_mode := mode, dp_qlen := qlen, dp_pad := pad, dp_lora_counts := filter (\<lambda>n. n \<noteq> 0) ?cases\<rparr>"
    and d2: "(if gm_mixed mode \<noteq> NONE
          then (case gc_capture_sizes cfg of None \<Rightarrow> Inl AssertionError
                | Some sizes \<Rightarrow> foldE (add_mixed_key cfg) (List.product sizes ?cases) d1)
          else Inr d1) = Inr d2"
    and d3: "(if gm_decode mode = FULL \<and> gm_separate mode
          then (case gc_capture_sizes cfg of None \<Rightarrow> Inl AssertionError
                | Some sizes \<Rightarrow> foldE (add_decode_key cfg) (List.product (decode_sizes cfg qlen sizes) ?cases) d2)
          else Inr d2) = Inr d3"
    and d: "d = d3\<lparr>dp_ready := True\<rparr>" by metis
  have g2: "grows d1 d2"
    using d2 by (auto split: if_splits option.splits dest!: foldE_grows [OF _ add_mixed_grows])
  have g3: "grows d2 d3"
    using d3 by (auto split: if_splits option.splits dest!: foldE_grows [OF _ add_decode_grows])
  have g: "grows d1 d" using grows_trans [OF g2 g3] d by (simp add: grows_def)
  have keys: "\<exists>desc. create_desc cfg d bs True (l > 0) l = Inr desc \<and> desc \<in> dp_full d"
    if "gm_decode mode = FULL" "gm_separate mode" "gc_capture_sizes cfg = Some sizes"
      "bs \<in> set (decode_sizes cfg qlen sizes)" "l \<in> set ?cases" for sizes bs l
  proof -
    have f: "foldE (add_decode_key cfg) (List.product (decode_sizes cfg qlen sizes) ?cases) d2 = Inr d3"
      using d3 that(1-3) by simp
    have "(bs, l) \<in> set (List.product (decode_sizes cfg qlen sizes) ?cases)" using that(4,5) by simp
    moreover have "create_desc cfg d = create_desc cfg d2" "dp_full d = dp_full d3"
      using create_desc_grows [OF g] create_desc_grows [OF g2] d by simp_all
    ultimately show ?thesis using decode_keys_added [OF f] by simp
  qed
  have f: "dp_mode d = mode" "dp_qlen d = qlen" "dp_pad d = pad" "dp_specialize d = dp_specialize d0"
    "dp_lora_counts d = filter (\<lambda>n. n \<noteq> 0) ?cases"
    using g by (simp_all add: grows_def d1)
  have r: "dp_ready d" by (simp add: d)
  show thesis
    by (rule that [OF f(1,2) r _ f(4,5) keys]) (simp_all only: f(3) pad)
qed

text \<open>The full keys are those of the LoRA cases, whatever their size.\<close>

definition keys_of_cases :: "int list \<Rightarrow> dispatcher \<Rightarrow> bool" where
  "keys_of_cases cases d \<longleftrightarrow>
     (\<forall>desc \<in> dp_full d. bd_num_active_loras desc \<in> set cases \<and> (bd_has_lora desc \<longleftrightarrow> 0 < bd_num_active_loras desc))"

lemma create_desc_loras:
  "create_desc cfg d n uniform has_lora l = Inr desc \<Longrightarrow> bd_num_active_loras desc = l \<and> bd_has_lora desc = has_lora"
  by (auto simp: create_desc_def res_simps split: if_splits)

lemma add_key_cases:
  "add_key m desc d = Inr d' \<Longrightarrow> keys_of_cases cases d \<Longrightarrow> bd_num_active_loras desc \<in> set cases \<Longrightarrow>
   bd_has_lora desc \<longleftrightarrow> 0 < bd_num_active_loras desc \<Longrightarrow> keys_of_cases cases d'"
  by (auto simp: add_key_def keys_of_cases_def split: runtime_mode.splits)

lemma add_keys_cases:
  assumes "keys_of_cases cases d" and "l \<in> set cases"
  shows "add_mixed_key cfg (bs, l) d = Inr d' \<Longrightarrow> keys_of_cases cases d'"
    and "add_decode_key cfg (bs, l) d = Inr d' \<Longrightarrow> keys_of_cases cases d'"
  using assms
  by (auto simp: add_mixed_key_def add_decode_key_def res_simps relax_def dest!: create_desc_loras
      elim!: add_key_cases split: if_splits)

lemma foldE_cases:
  assumes "foldE f (List.product xs cases) d = Inr d'" and "keys_of_cases cases d"
    and "\<And>bs l d d'. f (bs, l) d = Inr d' \<Longrightarrow> keys_of_cases cases d \<Longrightarrow> l \<in> set cases \<Longrightarrow> keys_of_cases cases d'"
  shows "keys_of_cases cases d'"
  using assms(1)
  by (rule foldE_inv [where P = "keys_of_cases cases"]) (use assms(2,3) in auto)

lemma mixed_cases:
  "foldE (add_mixed_key cfg) (List.product xs cases) d = Inr d' \<Longrightarrow> keys_of_cases cases d \<Longrightarrow> keys_of_cases cases d'"
  by (rule foldE_cases) (assumption+, rule add_keys_cases(1))

lemma decode_cases:
  "foldE (add_decode_key cfg) (List.product xs cases) d = Inr d' \<Longrightarrow> keys_of_cases cases d \<Longrightarrow> keys_of_cases cases d'"
  by (rule foldE_cases) (assumption+, rule add_keys_cases(2))

lemma initialize_cases:
  assumes ret: "initialize_keys cfg mode qlen d0 = Inr d" and on: "\<not> gm_none mode" and fresh: "dp_full d0 = {}"
  shows "keys_of_cases (lora_cases cfg (dp_specialize d0)) d"
proof -
  let ?cases = "lora_cases cfg (dp_specialize d0)"
  from initialize_parts [OF ret on] obtain pad d1 d2 d3 where pad: "compute_pad cfg mode qlen = Inr pad"
    and d1: "d1 = d0\<lparr>dp_mode := mode, dp_qlen := qlen, dp_pad := pad, dp_lora_counts := filter (\<lambda>n. n \<noteq> 0) ?cases\<rparr>"
    and d2: "(if gm_mixed mode \<noteq> NONE
          then (case gc_capture_sizes cfg of None \<Rightarrow> Inl AssertionError
                | Some sizes \<Rightarrow> foldE (add_mixed_key cfg) (List.product sizes ?cases) d1)
          else Inr d1) = Inr d2"
    and d3: "(if gm_decode mode = FULL \<and> gm_separate mode
          then (case gc_capture_sizes cfg of None \<Rightarrow> Inl AssertionError
                | Some sizes \<Rightarrow> foldE (add_decode_key cfg) (List.product (decode_sizes cfg qlen sizes) ?cases) d2)
          else Inr d2) = Inr d3"
    and d: "d = d3\<lparr>dp_ready := True\<rparr>" by metis
  have "keys_of_cases ?cases d1" using fresh by (simp add: d1 keys_of_cases_def)
  then have k2: "keys_of_cases ?cases d2"
    using d2 by (auto split: if_splits option.splits dest!: mixed_cases)
  have "keys_of_cases ?cases d3"
    using d3 k2 by (auto split: if_splits option.splits dest!: decode_cases)
  then show ?thesis by (simp add: d keys_of_cases_def)
qed

end
