(* ===== verification/Graph_Manager_Facts.thy ===== *)
theory Graph_Manager_Facts
  imports Graph_Manager Graph_Facts
begin

text \<open>
  Facts about the manager of CUDA graphs: the table of LoRA counts, the staged descriptors and
  the candidates of each batch size.
\<close>

section \<open>LoRA counts\<close>

lemma dropWhile_next:
  "dropWhile (\<lambda>c. c < n) cs = c # r \<Longrightarrow> next_size cs n = c"
  by (induction cs) (auto simp: next_size_Cons split: if_splits)

lemma dropWhile_later:
  "n \<le> n' \<Longrightarrow> dropWhile (\<lambda>c. c < (n' :: int)) (dropWhile (\<lambda>c. c < n) cs) = dropWhile (\<lambda>c. c < n') cs"
  by (induction cs) auto

lemma dropWhile_last:
  "cs \<noteq> [] \<Longrightarrow> (n :: int) \<le> last cs \<Longrightarrow> dropWhile (\<lambda>c. c < n) cs \<noteq> []"
  by (metis dropWhile_eq_Nil_conv last_in_set not_less)

lemma lora_loop:
  assumes "cs \<noteq> []" and "rest = dropWhile (\<lambda>c. c < a) cs"
  shows "\<exists>r m'. foldE lora_step [a..last cs] (rest, m) = Inr (r, m') \<and>
    (\<forall>n. map_of m' n = (if a \<le> n \<and> n \<le> last cs then Some (next_size cs n) else map_of m n))"
  using assms(2)
proof (induction "nat (last cs + 1 - a)" arbitrary: a rest m)
  case 0
  then show ?case by auto
next
  case (Suc k)
  then have a: "a \<le> last cs" by simp
  have r: "dropWhile (\<lambda>c. c < a) rest = dropWhile (\<lambda>c. c < a) cs"
    using Suc.prems by (simp add: dropWhile_later)
  obtain c r where c: "dropWhile (\<lambda>c. c < a) cs = c # r"
    using dropWhile_last [OF assms(1) a] by (cases "dropWhile (\<lambda>c. c < a) cs") auto
  have step: "lora_step a (rest, m) = Inr (c # r, AList.update a c m)"
    by (simp add: lora_step_def r c)
  have "c # r = dropWhile (\<lambda>x. x < a) cs" using c by simp
  text \<open>The rest starts at the first case of at least \<open>a\<close>; the next iteration drops further.\<close>
  have "\<exists>r' m'. foldE lora_step [a + 1..last cs] (c # r, AList.update a c m) = Inr (r', m') \<and>
      (\<forall>n. map_of m' n = (if a + 1 \<le> n \<and> n \<le> last cs then Some (next_size cs n)
        else map_of (AList.update a c m) n))"
  proof (cases "a + 1 \<le> last cs")
    case False
    then show ?thesis by auto
  next
    case True
    obtain c' r' where c': "dropWhile (\<lambda>c. c < a + 1) cs = c' # r'"
      using dropWhile_last [OF assms(1) True] by (cases "dropWhile (\<lambda>c. c < a + 1) cs") auto
    have "dropWhile (\<lambda>x. x < a + 1) (c # r) = dropWhile (\<lambda>x. x < a + 1) (c' # r')"
      unfolding c [symmetric] c' [symmetric] by (rule trans [OF dropWhile_later dropWhile_later [symmetric]]) simp_all
    then have "lora_step (a + 1) (c # r, AList.update a c m) = lora_step (a + 1) (c' # r', AList.update a c m)"
      by (simp only: lora_step_def fst_conv snd_conv)
    then have "foldE lora_step [a + 1..last cs] (c # r, AList.update a c m) =
        foldE lora_step [a + 1..last cs] (c' # r', AList.update a c m)"
      by (simp only: upto_rec1 [OF True] foldE.simps)
    then show ?thesis using Suc(1) [of "a + 1" "c' # r'" "AList.update a c m"] Suc(2) c' by simp
  qed
  then obtain r' m' where m': "foldE lora_step [a + 1..last cs] (c # r, AList.update a c m) = Inr (r', m')"
    "\<forall>n. map_of m' n = (if a + 1 \<le> n \<and> n \<le> last cs then Some (next_size cs n)
        else map_of (AList.update a c m) n)" by blast
  have "foldE lora_step [a..last cs] (rest, m) = Inr (r', m')"
    using a step m'(1) by (simp add: upto_rec1)
  moreover have "map_of m' n = (if a \<le> n \<and> n \<le> last cs then Some (next_size cs n) else map_of m n)" for n
    using m'(2) dropWhile_next [OF c] a by (auto simp: map_of_od_update)
  ultimately show ?case by blast
qed

text \<open>The positive cases, in order.\<close>

definition positive_cases :: "manager_config \<Rightarrow> int list" where
  "positive_cases cfg = sort (filter (\<lambda>c. c > 0) (lora_capture_cases cfg))"

lemma build_lora_map_ok:
  obtains m where "build_lora_map (lora_capture_cases cfg) =
      Inr (m, if positive_cases cfg = [] then 0 else last (positive_cases cfg))"
    "\<And>n. map_of m n = (if positive_cases cfg \<noteq> [] \<and> 1 \<le> n \<and> n \<le> last (positive_cases cfg)
       then Some (next_size (positive_cases cfg) n) else None)"
proof (cases "positive_cases cfg = []")
  case True
  then show thesis using that [of "[]"] by (simp add: build_lora_map_def positive_cases_def)
next
  case False
  have "\<forall>c \<in> set (positive_cases cfg). \<not> c < 1" by (auto simp: positive_cases_def)
  then have "dropWhile (\<lambda>c. c < 1) (positive_cases cfg) = positive_cases cfg"
    using False by (cases "positive_cases cfg") auto
  with lora_loop [OF False, of "positive_cases cfg" 1 "[]"] obtain r m where
    "foldE lora_step [1..last (positive_cases cfg)] (positive_cases cfg, []) = Inr (r, m)"
    "\<forall>n. map_of m n = (if 1 \<le> n \<and> n \<le> last (positive_cases cfg) then Some (next_size (positive_cases cfg) n) else None)"
    by auto
  then show thesis using False that [of m] by (simp add: build_lora_map_def positive_cases_def Let_def)
qed

end
