(* ===== verification/Graph_Staged.thy ===== *)
theory Graph_Staged
  imports Graph_Manager_Facts
begin

text \<open>
  The staged descriptors of the manager of CUDA graphs: the invariant of the two tables while
  graphs are added, what they hold in the end, and how the candidates of a batch size and the
  captured graphs follow from them.
\<close>

section \<open>The two tables\<close>

definition desc_key :: "exec_desc \<Rightarrow> int \<times> int" where
  "desc_key d = (xd_num_tokens d, xd_num_active_loras d)"

abbreviation bucket :: "staged \<Rightarrow> int \<times> int \<Rightarrow> exec_desc list" where
  "bucket st k \<equiv> get_or k [] (fst st)"

abbreviation by_mode :: "staged \<Rightarrow> runtime_mode \<Rightarrow> exec_desc list" where
  "by_mode st m \<equiv> get_or m [] (snd st)"

definition entries :: "staged \<Rightarrow> exec_desc set" where
  "entries st = {d. d \<in> set (bucket st (desc_key d))}"

text \<open>\<open>seen\<close> are the sizes of the loop over the captured sizes that are already staged.\<close>

definition staged_ok :: "(int \<times> int) set \<Rightarrow> staged \<Rightarrow> bool" where
  "staged_ok seen st \<longleftrightarrow> od_ok (fst st) \<and> od_ok (snd st) \<and>
     (\<forall>k ds. map_of (fst st) k = Some ds \<longrightarrow> ds \<noteq> []) \<and>
     (\<forall>k. \<forall>d \<in> set (bucket st k). k = desc_key d) \<and>
     (\<forall>m. distinct (by_mode st m)) \<and>
     (\<forall>m d. d \<in> set (by_mode st m) \<longleftrightarrow> d \<in> entries st \<and> xd_mode d = m) \<and>
     (\<forall>d \<in> entries st. xd_mode d \<noteq> NONE \<and> (xd_uniform d = None \<longrightarrow> desc_key d \<in> seen))"

lemma get_or_push: "get_or k' [] (push k v d) = (if k' = k then get_or k [] d @ [v] else get_or k' [] d)"
  by (simp add: push_def get_or_def map_of_od_update)

lemma map_of_push: "map_of (push k v d) k' = (if k' = k then Some (get_or k [] d @ [v]) else map_of d k')"
  by (simp add: push_def map_of_od_update)

lemma staged_ok_empty: "staged_ok {} ([], [])"
  by (simp add: staged_ok_def get_or_def entries_def)

lemma staged_ok_mono: "staged_ok seen st \<Longrightarrow> seen \<subseteq> seen' \<Longrightarrow> staged_ok seen' st"
  by (auto simp: staged_ok_def)

lemma staged_okD:
  assumes "staged_ok seen st"
  shows "od_ok (fst st)" "od_ok (snd st)" "map_of (fst st) k = Some ds \<Longrightarrow> ds \<noteq> []"
    "d \<in> set (bucket st k) \<Longrightarrow> k = desc_key d" "distinct (by_mode st m)"
    "d \<in> set (by_mode st m) \<longleftrightarrow> d \<in> entries st \<and> xd_mode d = m"
    "d \<in> entries st \<Longrightarrow> xd_mode d \<noteq> NONE" "d \<in> entries st \<Longrightarrow> xd_uniform d = None \<Longrightarrow> desc_key d \<in> seen"
  using assms unfolding staged_ok_def by (simp_all del: split_paired_All)

lemma bucket_entries: "staged_ok seen st \<Longrightarrow> d \<in> set (bucket st k) \<longleftrightarrow> d \<in> entries st \<and> desc_key d = k"
  using staged_okD(4) [of seen st d k] by (auto simp: entries_def)

lemma entries_add: "entries (add_desc d st) = insert d (entries st)"
  by (auto simp: entries_def add_desc_def get_or_push desc_key_def)

lemma add_desc_ok:
  assumes ok: "staged_ok seen st" and d: "d \<notin> entries st" "xd_mode d \<noteq> NONE"
    "xd_uniform d = None \<Longrightarrow> desc_key d \<in> seen"
  shows "staged_ok seen (add_desc d st)"
proof -
  note okD = staged_okD [OF ok]
  have 1: "od_ok (fst (add_desc d st))" "od_ok (snd (add_desc d st))"
    using okD(1,2) by (simp_all add: add_desc_def push_def)
  have 2: "ds \<noteq> []" if "map_of (fst (add_desc d st)) k = Some ds" for k ds
    using okD(3) [of k ds] that by (auto simp: add_desc_def map_of_push split: if_splits)
  have 3: "k = desc_key e" if "e \<in> set (bucket (add_desc d st) k)" for k e
    using okD(4) [of e k] that by (auto simp: add_desc_def get_or_push desc_key_def split: if_splits)
  have m: "by_mode (add_desc d st) m = by_mode st m @ (if m = xd_mode d then [d] else [])" for m
    by (simp add: add_desc_def get_or_push)
  have 4: "distinct (by_mode (add_desc d st) m)"
    "e \<in> set (by_mode (add_desc d st) m) \<longleftrightarrow> e \<in> entries (add_desc d st) \<and> xd_mode e = m" for m e
    using okD(5) [of m] d(1) by (auto simp: m okD(6) entries_add)
  have 5: "xd_mode e \<noteq> NONE \<and> (xd_uniform e = None \<longrightarrow> desc_key e \<in> seen)"
    if "e \<in> entries (add_desc d st)" for e
    using okD(7,8) [of e] d that by (auto simp: entries_add)
  show ?thesis unfolding staged_ok_def using 1 2 3 4 5 by blast
qed

lemma add_new_desc_eq:
  "staged_ok seen st \<Longrightarrow> add_new_desc d st = (if d \<in> entries st then st else add_desc d st)"
  by (simp add: add_new_desc_def staged_okD(6))

lemma add_new_ok:
  assumes "staged_ok seen st" and "xd_mode d \<noteq> NONE" and "xd_uniform d \<noteq> None"
  shows "staged_ok seen (add_new_desc d st) \<and> entries (add_new_desc d st) = insert d (entries st)"
  using assms add_desc_ok [OF assms(1) _ assms(2)] by (auto simp: add_new_desc_eq [OF assms(1)] entries_add)


section \<open>Staging\<close>

definition rounded_desc :: "manager_config \<Rightarrow> int \<times> int \<Rightarrow> int \<Rightarrow> exec_desc" where
  "rounded_desc cfg k q =
     \<lparr>xd_mode = gm_decode (mc_mode cfg), xd_num_tokens = mc_round_up cfg (fst k) q,
      xd_num_reqs = Some (mc_round_up cfg (fst k) q div q), xd_uniform = Some q, xd_max_query_len = None,
      xd_num_active_loras = snd k\<rparr>"

text \<open>What one captured size may add: uniform graphs that fit, and the mixed graph.\<close>

definition fitting :: "manager_config \<Rightarrow> int \<times> int \<Rightarrow> exec_desc set" where
  "fitting cfg k = {rounded_desc cfg k q |q. q \<in> set (decode_query_lens cfg) \<and> q \<noteq> 0 \<and>
     mc_round_up cfg (fst k) q \<le> max_decode_tokens cfg}"

lemma add_rounded_ok:
  assumes ok: "staged_ok seen st" and sep: "separate_decode cfg" and q: "q \<in> set (decode_query_lens cfg)"
    and ret: "add_rounded cfg k q st = Inr st'"
  shows "staged_ok seen st' \<and> entries st \<subseteq> entries st' \<and> entries st' \<subseteq> entries st \<union> fitting cfg k"
proof -
  have "st' = st \<or> (st' = add_new_desc (rounded_desc cfg k q) st \<and> rounded_desc cfg k q \<in> fitting cfg k)"
    using ret q by (auto simp: add_rounded_def Let_def py_div_def rounded_desc_def fitting_def res_simps
      split: if_splits option.splits prod.splits)
  moreover have "xd_mode (rounded_desc cfg k q) \<noteq> NONE" "xd_uniform (rounded_desc cfg k q) \<noteq> None"
    using sep by (simp_all add: rounded_desc_def separate_decode_def)
  ultimately show ?thesis using ok add_new_ok [OF ok] by auto
qed

lemma add_all_rounded_ok:
  assumes "foldE (add_rounded cfg k) qs st = Inr st'" and "staged_ok seen st" and "separate_decode cfg"
    and "set qs \<subseteq> set (decode_query_lens cfg)"
  shows "staged_ok seen st' \<and> entries st \<subseteq> entries st' \<and> entries st' \<subseteq> entries st \<union> fitting cfg k"
  using assms
proof (induction qs arbitrary: st)
  case (Cons q qs)
  then obtain st1 where st1: "add_rounded cfg k q st = Inr st1" "foldE (add_rounded cfg k) qs st1 = Inr st'"
    by (auto simp: res_simps)
  with Cons.prems have "staged_ok seen st1 \<and> entries st \<subseteq> entries st1 \<and> entries st1 \<subseteq> entries st \<union> fitting cfg k"
    by (intro add_rounded_ok [of seen st cfg q k]) auto
  with Cons.IH [OF st1(2)] Cons.prems show ?case by auto
qed simp

definition mixed_of :: "manager_config \<Rightarrow> int \<times> int \<Rightarrow> exec_desc set" where
  "mixed_of cfg k = (if gm_mixed (mc_mode cfg) \<noteq> NONE then {mixed_desc cfg (fst k) (snd k)} else {})"

definition varlen_of :: "manager_config \<Rightarrow> int \<times> int \<Rightarrow> exec_desc set" where
  "varlen_of cfg k = (if mc_varlen cfg then {varlen_desc cfg (fst k) (snd k)} else {})"

lemma stage_size_ok:
  assumes ok: "staged_ok seen st" and k: "k \<notin> seen" and ret: "stage_size cfg k st = Inr st'"
  shows "staged_ok (insert k seen) st' \<and> entries st \<union> mixed_of cfg k \<subseteq> entries st' \<and>
    entries st' \<subseteq> entries st \<union> fitting cfg k \<union> mixed_of cfg k \<union> varlen_of cfg k"
proof -
  let ?v = "varlen_desc cfg (fst k) (snd k)" and ?m = "mixed_desc cfg (fst k) (snd k)"
  have ok': "staged_ok (insert k seen) st" using staged_ok_mono [OF ok] by blast
  have fresh: "d \<notin> entries st" if "xd_uniform d = None" "desc_key d = k" for d
    using staged_okD(8) [OF ok, of d] k that by auto
  have key: "desc_key ?v = k" "desc_key ?m = k" "xd_uniform ?v = None" "xd_uniform ?m = None" "?v \<noteq> ?m"
    by (simp_all add: desc_key_def varlen_desc_def mixed_desc_def)
  obtain st1 where st1: "(if separate_decode cfg \<and> mc_varlen cfg \<and> fst k \<le> max_decode_tokens cfg
             then Inr (add_desc ?v st)
             else if separate_decode cfg \<and> \<not> mc_varlen cfg
             then foldE (add_rounded cfg k) (decode_query_lens cfg) st
             else Inr st) = Inr st1"
    and st': "st' = (if gm_mixed (mc_mode cfg) \<noteq> NONE then add_desc ?m st1 else st1)"
    using ret [unfolded stage_size_def Let_def case_prod_unfold prod.collapse bindE_eq_Inr sum.inject] by blast
  have 1: "staged_ok (insert k seen) st1 \<and> ?m \<notin> entries st1 \<and> entries st \<subseteq> entries st1 \<and>
    entries st1 \<subseteq> entries st \<union> fitting cfg k \<union> varlen_of cfg k"
  proof (cases "separate_decode cfg \<and> mc_varlen cfg \<and> fst k \<le> max_decode_tokens cfg")
    case True
    moreover have "xd_mode ?v \<noteq> NONE" using True by (simp add: varlen_desc_def separate_decode_def)
    ultimately show ?thesis
      using st1 add_desc_ok [OF ok' fresh [OF key(3,1)]] fresh [OF key(4,2)] key
      by (auto simp: entries_add varlen_of_def)
  next
    case False
    have "?m \<notin> fitting cfg k" by (auto simp: fitting_def rounded_desc_def mixed_desc_def)
    moreover have "staged_ok (insert k seen) st1 \<and> entries st \<subseteq> entries st1 \<and> entries st1 \<subseteq> entries st \<union> fitting cfg k"
    proof (cases "separate_decode cfg \<and> \<not> mc_varlen cfg")
      case True
      then show ?thesis using add_all_rounded_ok [OF _ ok'] st1 by simp
    next
      case n: False
      then show ?thesis using False st1 ok' by (simp only: if_False) auto
    qed
    ultimately show ?thesis using fresh [OF key(4,2)] by blast
  qed
  show ?thesis
  proof (cases "gm_mixed (mc_mode cfg) = NONE")
    case False
    then have "xd_mode ?m \<noteq> NONE" by (simp add: mixed_desc_def)
    with 1 have "staged_ok (insert k seen) (add_desc ?m st1)"
      using add_desc_ok [of "insert k seen" st1 ?m] key by simp
    then show ?thesis using 1 False st' by (auto simp: entries_add mixed_of_def)
  qed (use 1 st' in \<open>auto simp: mixed_of_def\<close>)
qed

lemma stage_all_ok:
  assumes "foldE (stage_size cfg) ks st = Inr st'" and "staged_ok seen st" and "distinct ks" and "set ks \<inter> seen = {}"
  shows "staged_ok (seen \<union> set ks) st' \<and> entries st \<union> (\<Union>k \<in> set ks. mixed_of cfg k) \<subseteq> entries st' \<and>
    entries st' \<subseteq> entries st \<union> (\<Union>k \<in> set ks. fitting cfg k \<union> mixed_of cfg k \<union> varlen_of cfg k)"
  using assms
proof (induction ks arbitrary: st seen)
  case (Cons k ks)
  then obtain st1 where st1: "stage_size cfg k st = Inr st1" "foldE (stage_size cfg) ks st1 = Inr st'"
    by (auto simp: res_simps)
  have 1: "staged_ok (insert k seen) st1 \<and> entries st \<union> mixed_of cfg k \<subseteq> entries st1 \<and>
    entries st1 \<subseteq> entries st \<union> fitting cfg k \<union> mixed_of cfg k \<union> varlen_of cfg k"
    using stage_size_ok [OF Cons.prems(2) _ st1(1)] Cons.prems(4) by simp
  have "staged_ok (insert k seen \<union> set ks) st' \<and> entries st1 \<union> (\<Union>k \<in> set ks. mixed_of cfg k) \<subseteq> entries st' \<and>
    entries st' \<subseteq> entries st1 \<union> (\<Union>k \<in> set ks. fitting cfg k \<union> mixed_of cfg k \<union> varlen_of cfg k)"
    using Cons.IH [OF st1(2), of "insert k seen"] 1 Cons.prems(3,4) by simp
  with 1 show ?case by auto
qed simp

text \<open>The uniform graphs of the request counts.\<close>

definition swept :: "manager_config \<Rightarrow> int list \<Rightarrow> int \<Rightarrow> exec_desc set" where
  "swept cfg reqs q = {uniform_desc cfg r q l |r l. r \<in> set reqs \<and> l \<in> set (lora_capture_cases cfg)}"

lemma add_news_ok:
  "staged_ok seen st \<Longrightarrow> \<forall>d \<in> f ` set xs. xd_mode d \<noteq> NONE \<and> xd_uniform d \<noteq> None \<Longrightarrow>
   staged_ok seen (fold (\<lambda>x. add_new_desc (f x)) xs st) \<and>
   entries (fold (\<lambda>x. add_new_desc (f x)) xs st) = entries st \<union> f ` set xs"
proof (induction xs arbitrary: st)
  case (Cons x xs)
  then have "staged_ok seen (add_new_desc (f x) st) \<and> entries (add_new_desc (f x) st) = insert (f x) (entries st)"
    by (intro add_new_ok) auto
  with Cons show ?case by simp
qed simp

lemma sweep_ok:
  assumes ok: "staged_ok seen st" and ret: "sweep cfg st = Inr st'"
  shows "staged_ok seen st' \<and>
    (if separate_decode cfg \<and> \<not> mc_varlen cfg \<and> Max (set (decode_query_lens cfg)) > 1
     then \<exists>reqs. reqs_sweep cfg = Inr reqs \<and>
       entries st' = entries st \<union> swept cfg reqs (Max (set (decode_query_lens cfg)))
     else st' = st)"
proof (cases "separate_decode cfg \<and> \<not> mc_varlen cfg \<and> Max (set (decode_query_lens cfg)) > 1")
  case True
  let ?q = "Max (set (decode_query_lens cfg))"
  obtain reqs where reqs: "reqs_sweep cfg = Inr reqs" and st': "st' = fold (\<lambda>x. add_new_desc (uniform_desc cfg (snd x) ?q (fst x)))
      (List.product (lora_capture_cases cfg) reqs) st"
    using ret True by (auto simp: sweep_def Let_def res_simps case_prod_unfold split: if_splits)
  have "staged_ok seen st' \<and> entries st' = entries st \<union>
      (\<lambda>x. uniform_desc cfg (snd x) ?q (fst x)) ` set (List.product (lora_capture_cases cfg) reqs)"
    unfolding st' by (rule add_news_ok [OF ok]) (use True in \<open>auto simp: uniform_desc_def separate_decode_def\<close>)
  moreover have "(\<lambda>x. uniform_desc cfg (snd x) ?q (fst x)) ` set (List.product (lora_capture_cases cfg) reqs) = swept cfg reqs ?q"
    by (force simp: swept_def)
  ultimately show ?thesis using True reqs by simp
next
  case False
  then have "st' = st" using ret by (auto simp: sweep_def Let_def split: if_splits)
  then show ?thesis using ok False by (simp only: if_False)
qed


section \<open>Candidates and captured graphs\<close>

lemma assign_all:
  "map_of (fold (assign_one staged t) ps cands) (i, l) =
     (if (i, l) \<in> set ps \<and> map_of staged (t, l) \<noteq> None then map_of staged (t, l) else map_of cands (i, l))"
  by (induction ps arbitrary: cands) (auto simp: assign_one_def map_of_od_update split: option.splits)

lemma assign_sizes:
  assumes "sorted_wrt (<) ts" and "\<forall>t \<in> set ts. lo \<le> t" and "\<forall>i l. lo \<le> i \<longrightarrow> map_of cands (i, l) = None"
  shows "(i < lo \<longrightarrow> map_of (snd (fold (assign_size loras staged) ts (lo, cands))) (i, l) = map_of cands (i, l)) \<and>
    (lo \<le> i \<longrightarrow> map_of (snd (fold (assign_size loras staged) ts (lo, cands))) (i, l) =
      (if l \<in> set loras \<and> (\<exists>t \<in> set ts. i \<le> t) then map_of staged (next_size ts i, l) else None))"
  using assms
proof (induction ts arbitrary: lo cands)
  case (Cons t ts)
  let ?c = "fold (assign_one staged t) (List.product [lo..t] loras) cands"
  have c: "map_of ?c (i', l') = (if lo \<le> i' \<and> i' \<le> t \<and> l' \<in> set loras then map_of staged (t, l')
      else map_of cands (i', l'))" for i' l'
    using Cons.prems(3) by (auto simp: assign_all)
  have "fold (assign_size loras staged) (t # ts) (lo, cands) = fold (assign_size loras staged) ts (t + 1, ?c)"
    by (simp add: assign_size_def)
  moreover have "\<forall>i l. t + 1 \<le> i \<longrightarrow> map_of ?c (i, l) = None"
    using c Cons.prems(2,3) by auto
  moreover have "\<forall>x \<in> set ts. t + 1 \<le> x" "sorted_wrt (<) ts" "lo \<le> t"
    using Cons.prems by auto
  ultimately show ?case
    using Cons.IH [of "t + 1" ?c] c [of i l] Cons.prems(3)
    by (cases "i < lo"; cases "i \<le> t") (auto simp: next_size_Cons)
qed simp

lemma assign_from_zero:
  assumes "sorted_wrt (<) ts" and "0 \<le> i"
  shows "map_of (snd (fold (assign_size loras staged) ts (0, []))) (i, l) =
    (if l \<in> set loras \<and> (\<exists>t \<in> set ts. i \<le> t) then map_of staged (next_size ts i, l) else None)"
proof (cases "ts \<noteq> [] \<and> hd ts < 0")
  case True
  then obtain t ts' where t: "ts = t # ts'" "t < 0" by (cases ts) auto
  then have "fold (assign_size loras staged) ts (0, []) = fold (assign_size loras staged) ts' (t + 1, [])"
    by (simp add: assign_size_def)
  moreover have "sorted_wrt (<) ts'" "\<forall>x \<in> set ts'. t + 1 \<le> x" using assms(1) t by auto
  ultimately show ?thesis using assign_sizes [of ts' "t + 1" "[]" i loras staged l] assms(2) t
    by (auto simp: next_size_Cons)
next
  case False
  then have "\<forall>t \<in> set ts. 0 \<le> t" using assms(1) by (cases ts) auto
  then show ?thesis using assign_sizes [of ts 0 "[]" i loras staged l] assms by simp
qed

lemma token_counts_sorted: "sorted_wrt (<) (token_counts staged)" "set (token_counts staged) = fst ` set (od_keys staged)"
  by (simp_all add: token_counts_def strict_sorted_iff image_image)

lemma descs_sorted:
  "od_ok items \<Longrightarrow> (\<forall>m. m \<in> set (od_keys items) \<longrightarrow> map_of base m = None) \<Longrightarrow>
   map_of (fold (\<lambda>(mode, ds). AList.update mode (f ds)) items base) m =
     (case map_of items m of None \<Rightarrow> map_of base m | Some ds \<Rightarrow> Some (f ds))"
proof (induction items arbitrary: base)
  case (Cons x items)
  obtain k ds where x: "x = (k, ds)" by force
  have "map_of (fold (\<lambda>(mode, ds). AList.update mode (f ds)) items (AList.update k (f ds) base)) m =
     (case map_of items m of None \<Rightarrow> map_of (AList.update k (f ds) base) m | Some ds \<Rightarrow> Some (f ds))"
    using Cons x by (intro Cons.IH) (auto simp: map_of_od_update)
  moreover have "map_of items k = None" using Cons.prems(1) x by (auto simp: map_of_eq_None_iff)
  ultimately show ?case by (auto simp: x map_of_od_update split: option.split)
qed simp

lemma capture_piecewise:
  "\<forall>d \<in> set ds. xd_mode d = PIECEWISE \<Longrightarrow> foldE capture_desc ds g = Inr g"
  by (induction ds) (simp_all add: capture_desc_def)

lemma capture_full:
  "\<forall>d \<in> set ds. xd_mode d = FULL \<Longrightarrow> distinct ds \<Longrightarrow> set ds \<inter> set (gr_graphs g) = {} \<Longrightarrow>
   foldE capture_desc ds g = Inr (g\<lparr>gr_graphs := gr_graphs g @ ds\<rparr>)"
  by (induction ds arbitrary: g) (auto simp: capture_desc_def)

section \<open>The manager after its initialization\<close>

text \<open>How the state of the manager follows from the staged descriptors.\<close>

definition managed :: "manager_config \<Rightarrow> staged \<Rightarrow> graph_manager \<Rightarrow> bool" where
  "managed cfg st g \<longleftrightarrow> gr_graphs g = [] \<and>
     (\<forall>i l. 0 \<le> i \<longrightarrow> map_of (gr_candidates g) (i, l) =
       (if l \<in> set (lora_capture_cases cfg) \<and> (\<exists>t \<in> set (token_counts (fst st)). i \<le> t)
        then map_of (fst st) (next_size (token_counts (fst st)) i, l) else None)) \<and>
     (\<forall>m. get_or m [] (gr_capture_descs g) = sort_key (\<lambda>d. - xd_num_tokens d) (by_mode st m))"

lemma managed_capture:
  assumes m: "managed cfg st g" and ok: "staged_ok seen st"
  shows "capture g = Inr (g\<lparr>gr_graphs := sort_key (\<lambda>d. - xd_num_tokens d) (by_mode st FULL), gr_captured := True\<rparr>)"
proof -
  let ?l = "\<lambda>m. get_or m [] (gr_capture_descs g)"
  have l: "set (?l m) = set (by_mode st m)" "distinct (?l m)" for m
    using m staged_okD(5) [OF ok, of m] by (simp_all add: managed_def)
  have "foldE capture_desc (?l PIECEWISE) g = Inr g"
    using l(1) staged_okD(6) [OF ok] by (intro capture_piecewise) blast
  moreover have "foldE capture_desc (?l FULL) g = Inr (g\<lparr>gr_graphs := gr_graphs g @ ?l FULL\<rparr>)"
    using l staged_okD(6) [OF ok] m by (intro capture_full) (auto simp: managed_def)
  ultimately show ?thesis using m by (simp add: capture_def managed_def)
qed


text \<open>The sizes of the loop over the captured sizes, and what they and the sweep stage.\<close>

definition size_keys :: "manager_config \<Rightarrow> int list \<Rightarrow> (int \<times> int) set" where
  "size_keys cfg sizes = set sizes \<times> set (lora_capture_cases cfg)"

definition contents_ok :: "manager_config \<Rightarrow> int list \<Rightarrow> staged \<Rightarrow> bool" where
  "contents_ok cfg sizes st \<longleftrightarrow>
     (\<exists>E. (\<Union>k \<in> size_keys cfg sizes. mixed_of cfg k) \<subseteq> E \<and>
       E \<subseteq> (\<Union>k \<in> size_keys cfg sizes. fitting cfg k \<union> mixed_of cfg k \<union> varlen_of cfg k) \<and>
       (if separate_decode cfg \<and> \<not> mc_varlen cfg \<and> Max (set (decode_query_lens cfg)) > 1
        then \<exists>reqs. reqs_sweep cfg = Inr reqs \<and>
          entries st = E \<union> swept cfg reqs (Max (set (decode_query_lens cfg)))
        else entries st = E))"

lemma managed_empty:
  "gr_candidates g = [] \<Longrightarrow> gr_capture_descs g = [] \<Longrightarrow> gr_graphs g = [] \<Longrightarrow> managed cfg ([], []) g"
  by (simp add: managed_def get_or_def token_counts_def)

lemma staged_empty:
  assumes "staged_ok seen st" and "fst st = []"
  shows "managed cfg st g \<longleftrightarrow> managed cfg ([], []) g"
proof -
  have "entries st = {}" using assms(2) by (simp add: entries_def get_or_def)
  then have "by_mode st m = []" for m using staged_okD(6) [OF assms(1)] by (metis empty_iff set_empty2 subsetI subset_antisym)
  then show ?thesis using assms(2) by (simp add: managed_def get_or_def [of _ "[]" "[]"])
qed

lemma init_graphs_ok:
  assumes ret: "init_graphs cfg = Inr g" and s: "\<And>sizes. mc_capture_sizes cfg = Some sizes \<Longrightarrow> distinct sizes"
    and l: "distinct (lora_capture_cases cfg)"
  obtains seen st where "staged_ok seen st" "managed cfg st g" "build_lora_map (lora_capture_cases cfg) = Inr (gr_lora_map g, gr_max_lora g)"
    "\<And>sizes. mc_capture_sizes cfg = Some sizes \<Longrightarrow> gm_on (mc_mode cfg) \<Longrightarrow> sizes \<noteq> [] \<Longrightarrow>
       seen = size_keys cfg sizes \<and> contents_ok cfg sizes st"
proof -
  obtain m mx where lm: "build_lora_map (lora_capture_cases cfg) = Inr (m, mx)"
    using ret by (auto simp: init_graphs_def res_simps)
  let ?g0 = "\<lparr>gr_lora_map = m, gr_max_lora = mx, gr_graphs = [], gr_captured = False,
         gr_candidates = [], gr_capture_descs = []\<rparr>"
  have init: "init_candidates cfg ?g0 = Inr g" using ret lm by (simp add: init_graphs_def)
  have empty: "managed cfg ([], []) ?g0" by (simp add: managed_empty)
  show thesis
  proof (cases "\<exists>sizes. mc_capture_sizes cfg = Some sizes \<and> gm_on (mc_mode cfg) \<and> sizes \<noteq> []")
    case False
    then have "g = ?g0" using init by (auto simp: init_candidates_def split: option.splits if_splits)
    then show thesis using that [of "{}" "([], [])"] staged_ok_empty empty lm False by auto
  next
    case True
    then obtain sizes where sz: "mc_capture_sizes cfg = Some sizes" "gm_on (mc_mode cfg)" "sizes \<noteq> []" by blast
    then have on: "\<not> (\<not> gm_on (mc_mode cfg) \<or> sizes = [])" by blast
    let ?ks = "List.product (sort sizes) (lora_capture_cases cfg)"
    obtain st0 st where st0: "foldE (stage_size cfg) ?ks ([], []) = Inr st0" and st: "sweep cfg st0 = Inr st"
      and g: "(if fst st = [] then Inr ?g0
              else Inr (?g0\<lparr>gr_candidates := snd (fold (assign_size (lora_capture_cases cfg) (fst st))
                             (token_counts (fst st)) (0, gr_candidates ?g0)),
                         gr_capture_descs := fold (\<lambda>(mode, ds).
                             AList.update mode (sort_key (\<lambda>d. - xd_num_tokens d) ds))
                             (snd st) (gr_capture_descs ?g0)\<rparr>)) = (Inr g :: graph_manager res)"
      using init unfolding init_candidates_def sz(1) option.case if_not_P [OF on] bindE_eq_Inr by (elim exE conjE) (rule that)
    have k: "distinct ?ks" "set ?ks = size_keys cfg sizes"
      using s [OF sz(1)] l by (simp_all add: distinct_product size_keys_def)
    have 0: "staged_ok (size_keys cfg sizes) st0 \<and> (\<Union>k \<in> size_keys cfg sizes. mixed_of cfg k) \<subseteq> entries st0 \<and>
        entries st0 \<subseteq> (\<Union>k \<in> size_keys cfg sizes. fitting cfg k \<union> mixed_of cfg k \<union> varlen_of cfg k)"
      using stage_all_ok [OF st0 staged_ok_empty k(1)] k(2) by (simp add: entries_def get_or_def)
    have ok: "staged_ok (size_keys cfg sizes) st" using sweep_ok [OF conjunct1 [OF 0] st] by blast
    have contents: "contents_ok cfg sizes st"
      unfolding contents_ok_def using sweep_ok [OF conjunct1 [OF 0] st] 0 by (intro exI [of _ "entries st0"]) auto
    have man: "managed cfg st g"
    proof (cases "fst st = []")
      case True
      then show ?thesis using g empty staged_empty [OF ok] by auto
    next
      case n: False
      then have g': "g = ?g0\<lparr>gr_candidates := snd (fold (assign_size (lora_capture_cases cfg) (fst st)) (token_counts (fst st)) (0, [])),
           gr_capture_descs := fold (\<lambda>(mode, ds). AList.update mode (sort_key (\<lambda>d. - xd_num_tokens d) ds)) (snd st) []\<rparr>"
        using g by simp
      have "map_of (gr_candidates g) (i, l) =
          (if l \<in> set (lora_capture_cases cfg) \<and> (\<exists>t \<in> set (token_counts (fst st)). i \<le> t)
           then map_of (fst st) (next_size (token_counts (fst st)) i, l) else None)" if "0 \<le> i" for i l
        using assign_from_zero [OF token_counts_sorted(1) that] g' by simp
      moreover have "get_or mode [] (gr_capture_descs g) = sort_key (\<lambda>d. - xd_num_tokens d) (by_mode st mode)" for mode
        using descs_sorted [of "snd st" "[]" "sort_key (\<lambda>d. - xd_num_tokens d)" mode] staged_okD(2) [OF ok] g'
        by (simp add: get_or_def split: option.split)
      ultimately show ?thesis using g' by (simp add: managed_def)
    qed
    have "gr_lora_map g = m \<and> gr_max_lora g = mx" using g by (auto split: if_splits)
    then show thesis using that [OF ok man _] lm contents sz by auto
  qed
qed

end
