(* ===== verification/Graph_Properties.thy ===== *)
theory Graph_Properties
  imports Graph_Facts
begin

text \<open>
  The properties of the choice of CUDA graphs: a graph is never smaller than the batch it runs,
  and the patch's decode batches of several requests find one.
\<close>

section \<open>A small engine\<close>

text \<open>
  An engine with draft tokens: two tokens per request and step, at most four requests, captured
  sizes 2 and 4, a separate decode routine with full graphs, the environment variable unset.
\<close>

definition demo_mode :: graph_mode where
  "demo_mode = \<lparr>gm_none = False, gm_on = True, gm_decode = FULL, gm_mixed = PIECEWISE,
     gm_separate = True, gm_has_full = True, gm_piecewise = True\<rparr>"

definition demo_graphs :: graph_config where
  "demo_graphs = \<lparr>gc_num_spec = 1, gc_max_num_seqs = 4, gc_mode = demo_mode,
     gc_attention_piecewise = True, gc_breakable = False, gc_max_size = Some 4,
     gc_capture_sizes = Some [2, 4], gc_compile_sizes = [], gc_max_loras = None,
     gc_specialize_active = False, gc_specialize_lora = False, gc_lora_counts = (\<lambda>_ _. []),
     gc_batches_env = None\<rparr>"

definition demo_dispatcher :: dispatcher where
  "demo_dispatcher = projr (initialize_keys demo_graphs demo_mode 2 (projr (init_dispatcher demo_graphs)))"

lemma demo_initialized:
  "initialize_keys demo_graphs demo_mode 2 (projr (init_dispatcher demo_graphs)) = Inr demo_dispatcher"
proof -
  have "\<not> isl (initialize_keys demo_graphs demo_mode 2 (projr (init_dispatcher demo_graphs)))" by code_simp
  then show ?thesis unfolding demo_dispatcher_def
    by (cases "initialize_keys demo_graphs demo_mode 2 (projr (init_dispatcher demo_graphs))") simp_all
qed

lemma demo_sizes: "sizes_ok demo_graphs [2, 4] 4"
  by (simp add: sizes_ok_def demo_graphs_def)

section \<open>The dispatcher\<close>

lemma create_desc_form:
  assumes "create_desc cfg d n uniform has_lora loras = Inr desc"
  shows "py_nth (dp_pad d) n = Inr (bd_num_tokens desc) \<and>
    (bd_uniform desc \<longrightarrow> bd_num_tokens desc mod dp_qlen d = 0 \<and>
       bd_num_reqs desc = Some (min (bd_num_tokens desc div dp_qlen d) (gc_max_num_seqs cfg)))"
  using assms by (auto simp: create_desc_def py_div_def res_simps split: if_splits)

text \<open>
  C18: a dispatched graph holds the batch. After the keys were initialized from increasing capture
  sizes, a batch of \<open>n\<close> tokens gets either no graph, with its own size, or a graph whose key was
  captured, of at least \<open>n\<close> tokens, the smallest captured size up to the maximum, and, for a
  uniform decode graph, of at least as many requests as \<open>n\<close> tokens need.
\<close>

theorem dispatch_covers_batch:
  assumes s: "sizes_ok cfg sizes mx" and init: "initialize_keys cfg mode qlen d0 = Inr d"
    and n: "0 < n" and q: "0 < qlen" and run: "dispatch cfg d n uniform has_lora loras valid invalid = Inr (m, desc)"
  shows "(m = NONE \<longrightarrow> desc = plain_desc n) \<and> (m = PIECEWISE \<longrightarrow> desc \<in> dp_piecewise d) \<and>
    (m = FULL \<longrightarrow> desc \<in> dp_full d) \<and> n \<le> bd_num_tokens desc \<and>
    (m \<noteq> NONE \<longrightarrow> (\<forall>s \<in> set sizes. n \<le> s \<longrightarrow> bd_num_tokens desc \<le> s)) \<and>
    (bd_uniform desc \<and> n \<le> qlen * gc_max_num_seqs cfg \<longrightarrow> n \<le> qlen * the (bd_num_reqs desc))"
proof (cases "m = NONE")
  case True
  then have "desc = plain_desc n"
    using run by (auto simp: dispatch_def Let_def res_simps split: if_splits)
  with True show ?thesis by (simp add: plain_desc_def)
next
  case False
  then obtain limit eff desc0 where r: "token_limit cfg d uniform = Inr (Some limit)" "n \<le> limit" "\<not> gm_none (dp_mode d)"
    and c: "create_desc cfg d n (uniform \<and> gm_separate (dp_mode d)) has_lora eff = Inr desc0"
    and m: "m = FULL \<and> desc = desc0 \<and> desc \<in> dp_full d \<or> m = PIECEWISE \<and> desc = relax desc0 \<and> desc \<in> dp_piecewise d"
    using run by (auto simp: dispatch_def Let_def res_simps split: if_splits)
  have on: "\<not> gm_none mode"
  proof
    assume "gm_none mode"
    then have "d = d0\<lparr>dp_mode := mode, dp_qlen := qlen, dp_ready := True\<rparr>"
      using init by (simp add: initialize_keys_def)
    with \<open>gm_none mode\<close> r(3) show False by simp
  qed
  from initialize_result [OF init on] have d: "dp_mode d = mode" "dp_qlen d = qlen"
    "compute_pad cfg mode qlen = Inr (dp_pad d)" by metis+
  note pad = compute_pad_ok [OF s d(3)]
  have "limit \<le> pad_limit cfg mode qlen mx"
    using r(1) s d(1,2) by (auto simp: token_limit_def pad_limit_def sizes_ok_def split: if_splits)
  then have nl: "n \<le> pad_limit cfg mode qlen mx" using r(2) by simp
  then have "py_nth (dp_pad d) n = Inr (pad_of cfg qlen sizes mx n)"
    using pad n by (simp add: py_nth_ok)
  with create_desc_form [OF c] have t: "bd_num_tokens desc0 = pad_of cfg qlen sizes mx n"
    and u: "bd_uniform desc0 \<Longrightarrow> bd_num_tokens desc0 mod qlen = 0 \<and>
      bd_num_reqs desc0 = Some (min (bd_num_tokens desc0 div qlen) (gc_max_num_seqs cfg))"
    using d(2) by simp_all
  have td: "bd_num_tokens desc = pad_of cfg qlen sizes mx n" using m t by (auto simp: relax_def)
  have least: "pad_of cfg qlen sizes mx n \<le> s" if "s \<in> set sizes" "n \<le> s" for s
  proof -
    have "s \<le> mx" using s that(1) sorted_last [of sizes s] by (simp add: sizes_ok_def)
    then have "pad_of cfg qlen sizes mx n = next_size sizes n" using n that(2) by (simp add: pad_of_def)
    then show ?thesis using next_size_least [of sizes s n] s that by (simp add: sizes_ok_def)
  qed
  have "n \<le> qlen * the (bd_num_reqs desc)" if "bd_uniform desc" "n \<le> qlen * gc_max_num_seqs cfg"
  proof -
    have e: "desc = desc0" using m that(1) by (auto simp: relax_def)
    then have "qlen * (bd_num_tokens desc div qlen) = bd_num_tokens desc"
      using u that(1) mult_div_mod_eq [of qlen "bd_num_tokens desc"] by simp
    then have "n \<le> qlen * (bd_num_tokens desc div qlen)" using td pad_of_ge by simp
    then show ?thesis using u that e by (simp add: min_def)
  qed
  then show ?thesis using False m td least pad_of_ge by auto
qed

theorem dispatch_covers_batch_witness:
  "\<exists>desc. dispatch demo_graphs demo_dispatcher 3 False False 0 None None = Inr (PIECEWISE, desc) \<and>
     3 \<le> bd_num_tokens desc \<and> bd_num_tokens desc \<le> 4"
proof -
  have r: "dispatch demo_graphs demo_dispatcher 3 False False 0 None None =
      Inr (PIECEWISE, \<lparr>bd_num_tokens = 4, bd_num_reqs = None, bd_uniform = False, bd_has_lora = False, bd_num_active_loras = 0\<rparr>)"
    by code_simp
  from dispatch_covers_batch [OF demo_sizes demo_initialized _ _ r] r show ?thesis by auto
qed

text \<open>The descriptor of a decode batch of a captured request count, and what the dispatcher does with it.\<close>

lemma decode_limit:
  assumes s: "sizes_ok cfg sizes mx" and d: "dp_mode d = mode" "dp_qlen d = qlen"
    and mode: "\<not> gm_none mode" "gm_separate mode" and q: "1 < qlen"
    and r: "r \<in> set (decode_key_reqs cfg qlen)" "r \<le> gc_max_num_seqs cfg"
  shows "token_limit cfg d True = Inr (Some (pad_limit cfg mode qlen mx))" and "0 < r * qlen"
    and "r * qlen \<le> pad_limit cfg mode qlen mx"
proof -
  have "1 \<le> r" using r(1) q by (auto simp: decode_key_reqs_def Let_def split: if_splits)
  then show "0 < r * qlen" "r * qlen \<le> pad_limit cfg mode qlen mx"
    using q r(2) mode(2) by (simp_all add: pad_limit_def le_max_iff_disj mult.commute)
  show "token_limit cfg d True = Inr (Some (pad_limit cfg mode qlen mx))"
    using s d mode q by (simp add: token_limit_def pad_limit_def sizes_ok_def)
qed

lemma decode_desc_shape:
  assumes s: "sizes_ok cfg sizes mx" and d: "dp_mode d = mode" "dp_qlen d = qlen" "compute_pad cfg mode qlen = Inr (dp_pad d)"
    and mode: "\<not> gm_none mode" "gm_separate mode" and q: "1 < qlen"
    and r: "r \<in> set (decode_key_reqs cfg qlen)" "r \<le> gc_max_num_seqs cfg"
    and c: "create_desc cfg d (r * qlen) True has_lora eff = Inr desc"
  shows "r * qlen \<le> bd_num_tokens desc"
    and "r * qlen > mx \<Longrightarrow> gm_has_full mode \<Longrightarrow> bd_num_tokens desc = r * qlen \<and> bd_num_reqs desc = Some r"
proof -
  note n = decode_limit(2,3) [OF s d(1,2) mode q r]
  have t: "bd_num_tokens desc = pad_of cfg qlen sizes mx (r * qlen)"
    using create_desc_form [OF c] compute_pad_ok [OF s d(3)] n by (simp add: py_nth_ok)
  then show "r * qlen \<le> bd_num_tokens desc" using pad_of_ge by simp
  assume big: "r * qlen > mx" "gm_has_full mode"
  have mem: "r * qlen \<in> set (decode_tokens cfg qlen)" using r(1) by (auto simp: decode_tokens_def)
  have "r * qlen \<noteq> 0" "\<not> r * qlen \<le> mx" using n(1) big(1) by linarith+
  then have "bd_num_tokens desc = next_size (decode_tokens cfg qlen) (r * qlen)" by (simp only: t pad_of_def if_False)
  moreover have "sorted_wrt (<) (decode_tokens cfg qlen)" by (simp add: decode_tokens_def strict_sorted_iff)
  ultimately have "bd_num_tokens desc = r * qlen"
    using next_size_least [OF _ mem] next_size_ge [of "r * qlen"] by (simp add: order.antisym)
  moreover have "bd_uniform desc" using c d(1) big(2) by (auto simp: create_desc_def res_simps)
  ultimately show "bd_num_tokens desc = r * qlen \<and> bd_num_reqs desc = Some r"
    using create_desc_form [OF c] d(2) q r(2) by simp
qed

text \<open>
  C19: which decode batches of a captured request count run in a full graph. With draft tokens and
  a separate decode routine with full graphs, freshly initialized, and full graphs allowed for the
  batch, a uniform decode batch of \<open>r\<close> requests, \<open>r\<close> among the request counts to capture, is
  dispatched to a captured full graph for at least its tokens (and to exactly its own shape when it
  is beyond the largest ordinary capture size) if and only if its number of adapters, as the
  dispatcher rounds it, is one of the captured LoRA cases and says the same as \<open>has_lora\<close>. Without a
  LoRA configuration that is every batch without adapters; with one that is not specialized it is no
  batch without an active adapter.
\<close>

theorem mtp_decode_captured:
  assumes s: "sizes_ok cfg sizes mx" and init: "initialize_keys cfg mode qlen d0 = Inr d" and fresh: "dp_full d0 = {}"
    and mode: "\<not> gm_none mode" "gm_separate mode" "gm_decode mode = FULL"
    and q: "1 < qlen" and r: "r \<in> set (decode_key_reqs cfg qlen)" "r \<le> gc_max_num_seqs cfg"
    and lora: "effective_loras cfg d has_lora loras = Inr eff" and full: "FULL \<in> allowed_modes valid invalid"
  shows "(\<exists>desc. dispatch cfg d (r * qlen) True has_lora loras valid invalid = Inr (FULL, desc) \<and>
    desc \<in> dp_full d \<and> r * qlen \<le> bd_num_tokens desc \<and>
    (r * qlen > mx \<and> gm_has_full mode \<longrightarrow> bd_num_tokens desc = r * qlen \<and> bd_num_reqs desc = Some r)) \<longleftrightarrow>
    eff \<in> set (lora_cases cfg (dp_specialize d0)) \<and> (has_lora \<longleftrightarrow> 0 < eff)"
    (is "(\<exists>desc. ?runs desc \<and> ?shape desc) \<longleftrightarrow> ?covered")
proof -
  from initialize_result [OF init mode(1)] have d: "dp_mode d = mode" "dp_qlen d = qlen" "dp_ready d"
    "compute_pad cfg mode qlen = Inr (dp_pad d)" by metis+
  have allowed: "allowed_modes valid invalid \<noteq> {}" "\<not> allowed_modes valid invalid \<subseteq> {NONE}" using full by auto
  have runs: "?runs desc \<longleftrightarrow> create_desc cfg d (r * qlen) True has_lora eff = Inr desc \<and> desc \<in> dp_full d" for desc
    using decode_limit [OF s d(1,2) mode(1,2) q r] d(1,3) mode full allowed lora
    by (auto simp: dispatch_def Let_def res_simps)
  have "?shape desc" if "?runs desc" for desc
    using that decode_desc_shape [OF s d(1,2,4) mode(1,2) q r] unfolding runs by blast
  then have "(\<exists>desc. ?runs desc \<and> ?shape desc) \<longleftrightarrow> (\<exists>desc. ?runs desc)" by blast
  also have "\<dots> \<longleftrightarrow> ?covered"
  proof
    assume "\<exists>desc. ?runs desc"
    then obtain desc where c: "create_desc cfg d (r * qlen) True has_lora eff = Inr desc" "desc \<in> dp_full d"
      unfolding runs by blast
    then show ?covered
      using initialize_cases [OF init mode(1) fresh] create_desc_loras [OF c(1)] by (auto simp: keys_of_cases_def)
  next
    assume cov: ?covered
    have "r * qlen \<in> set (decode_sizes cfg qlen sizes)" "gc_capture_sizes cfg = Some sizes"
      using q r(1) s by (simp_all add: decode_sizes_def sizes_ok_def)
    then have "\<exists>desc. create_desc cfg d (r * qlen) True (0 < eff) eff = Inr desc \<and> desc \<in> dp_full d"
      using mode cov by (rule_tac initialize_result [OF init mode(1)]) blast
    then show "\<exists>desc. ?runs desc" using cov unfolding runs by auto
  qed
  finally show ?thesis .
qed

theorem mtp_decode_captured_witness:
  "\<exists>desc. dispatch demo_graphs demo_dispatcher 6 True False 0 None None = Inr (FULL, desc) \<and>
     bd_num_tokens desc = 6 \<and> bd_num_reqs desc = Some 3"
proof -
  have m: "\<not> gm_none demo_mode" "gm_separate demo_mode" "gm_decode demo_mode = FULL" "gm_has_full demo_mode"
    and c: "3 \<le> gc_max_num_seqs demo_graphs" by (simp_all add: demo_mode_def demo_graphs_def)
  have f: "dp_full (projr (init_dispatcher demo_graphs)) = {}" by (simp add: init_dispatcher_def assertE_def demo_graphs_def)
  have r: "3 \<in> set (decode_key_reqs demo_graphs 2)" "FULL \<in> allowed_modes None None"
    "effective_loras demo_graphs demo_dispatcher False 0 = Inr 0"
    "0 \<in> set (lora_cases demo_graphs (dp_specialize (projr (init_dispatcher demo_graphs))))"
    by code_simp+
  from mtp_decode_captured [OF demo_sizes demo_initialized f m(1-3) _ r(1) c r(3,2)] m(4) r(4)
  show ?thesis by auto
qed

end
