(* ===== verification/Graph_Manager_Properties.thy ===== *)
theory Graph_Manager_Properties
  imports Graph_Staged Graph_Properties
begin

text \<open>
  The properties of the manager of CUDA graphs: what it dispatches was captured and fits, and
  which batches find a graph.
\<close>

section \<open>The choice, in terms of the staged descriptors\<close>

lemma choose_managed:
  assumes m: "managed cfg st g"
  shows "choose_graph (g\<lparr>gr_graphs := gs, gr_captured := True\<rparr>) r n u l q =
    (let e = resolve_loras g l; ts = token_counts (fst st) in
     if 0 < n \<and> e \<in> set (lora_capture_cases cfg) \<and> (\<exists>t \<in> set ts. n \<le> t)
     then (case find (\<lambda>d. is_compatible d r n u e q) (bucket st (next_size ts n, e)) of
             None \<Rightarrow> no_graph r n e | Some d \<Rightarrow> d)
     else no_graph r n e)"
proof -
  have "resolve_loras (g\<lparr>gr_graphs := gs, gr_captured := True\<rparr>) l = resolve_loras g l"
    by (simp add: resolve_loras_def)
  moreover have "0 < n \<Longrightarrow> map_of (gr_candidates g) (n, e) =
       (if e \<in> set (lora_capture_cases cfg) \<and> (\<exists>t \<in> set (token_counts (fst st)). n \<le> t)
        then map_of (fst st) (next_size (token_counts (fst st)) n, e) else None)" for e
    using m by (simp add: managed_def)
  ultimately show ?thesis
    by (auto simp: choose_graph_def Let_def get_or_def split: option.splits)
qed

text \<open>
  C20: every dispatched graph fits the batch and can be replayed. For capture sizes and LoRA cases
  without repetition the capture succeeds, and afterwards every batch gets either the descriptor
  that names no graph or a compatible one, and a full graph that is dispatched has been captured.
\<close>

theorem dispatched_graph_replays:
  assumes ret: "init_graphs cfg = Inr g" and s: "\<And>sizes. mc_capture_sizes cfg = Some sizes \<Longrightarrow> distinct sizes"
    and l: "distinct (lora_capture_cases cfg)"
  shows "\<exists>g'. capture g = Inr g' \<and> (\<forall>r n u l q.
    (choose_graph g' r n u l q = no_graph r n (resolve_loras g l) \<or>
       xd_mode (choose_graph g' r n u l q) \<noteq> NONE \<and>
       is_compatible (choose_graph g' r n u l q) r n u (resolve_loras g l) q) \<and>
    (xd_mode (choose_graph g' r n u l q) = FULL \<longrightarrow>
       run_fullgraph g' (choose_graph g' r n u l q) = Inr (choose_graph g' r n u l q)))"
proof -
  from init_graphs_ok [OF ret s l] obtain seen st where ok: "staged_ok seen st" and m: "managed cfg st g"
    by metis
  let ?gs = "sort_key (\<lambda>d. - xd_num_tokens d) (by_mode st FULL)"
  let ?g = "g\<lparr>gr_graphs := ?gs, gr_captured := True\<rparr>"
  have "(d = no_graph r n (resolve_loras g l) \<or> xd_mode d \<noteq> NONE \<and> is_compatible d r n u (resolve_loras g l) q) \<and>
      (xd_mode d = FULL \<longrightarrow> run_fullgraph ?g d = Inr d)" if d: "d = choose_graph ?g r n u l q" for d r n u l q
  proof (cases "d = no_graph r n (resolve_loras g l)")
    case True
    then show ?thesis by (simp add: no_graph_def)
  next
    case False
    then obtain k where "find (\<lambda>d. is_compatible d r n u (resolve_loras g l) q) (bucket st k) = Some d"
      using d unfolding choose_managed [OF m] by (auto simp: Let_def split: if_splits option.splits)
    then have c: "is_compatible d r n u (resolve_loras g l) q" "d \<in> set (bucket st k)"
      by (auto simp: find_Some_iff)
    then have e: "d \<in> entries st" using bucket_entries [OF ok] by blast
    then have "xd_mode d = FULL \<Longrightarrow> d \<in> set ?gs" using staged_okD(6) [OF ok] by simp
    then show ?thesis using c(1) staged_okD(7) [OF ok e] by (simp add: run_fullgraph_def)
  qed
  then show ?thesis using managed_capture [OF m ok] by blast
qed


section \<open>Draft tokens and a separate decode routine\<close>

text \<open>
  The configuration of the patch: static draft tokens, uniform full graphs for decode batches and
  piecewise graphs for the others, no LoRA, the environment variable unset. \<open>round_up\<close> rounds up
  to a multiple.
\<close>

definition mtp_config :: "manager_config \<Rightarrow> int list \<Rightarrow> bool" where
  "mtp_config cfg sizes \<longleftrightarrow> mc_capture_sizes cfg = Some sizes \<and> sizes \<noteq> [] \<and> distinct sizes \<and>
     (\<forall>s \<in> set sizes. 0 < s) \<and> gm_on (mc_mode cfg) \<and> separate_decode cfg \<and>
     gm_mixed (mc_mode cfg) = PIECEWISE \<and> \<not> mc_varlen cfg \<and> mc_dynamic cfg = None \<and>
     1 < mc_qlen cfg \<and> mc_lora_cases cfg = None \<and> mc_batches_env cfg = None \<and>
     (\<forall>n. mc_qlen cfg dvd mc_round_up cfg n (mc_qlen cfg) \<and> n \<le> mc_round_up cfg n (mc_qlen cfg))"

definition decode_buckets :: "manager_config \<Rightarrow> int set" where
  "decode_buckets cfg = {r * mc_qlen cfg |r. 1 \<le> r \<and> r \<le> mc_max_num_reqs cfg}"

lemma mtp_entries:
  assumes c: "mtp_config cfg sizes" and st: "contents_ok cfg sizes st"
  shows "entries st = (\<lambda>r. uniform_desc cfg r (mc_qlen cfg) 0) ` {1..mc_max_num_reqs cfg} \<union>
    (\<lambda>s. mixed_desc cfg s 0) ` set sizes"
proof -
  let ?q = "mc_qlen cfg"
  have lens: "decode_query_lens cfg = [?q]" "lora_capture_cases cfg = [0]" "Max (set (decode_query_lens cfg)) > 1"
    "reqs_sweep cfg = Inr [1..mc_max_num_reqs cfg]"
    using c by (simp_all add: mtp_config_def decode_query_lens_def lora_capture_cases_def reqs_sweep_def py_strip_def py_lower_def)
  obtain E where E: "(\<Union>k \<in> size_keys cfg sizes. mixed_of cfg k) \<subseteq> E"
    "E \<subseteq> (\<Union>k \<in> size_keys cfg sizes. fitting cfg k \<union> mixed_of cfg k \<union> varlen_of cfg k)"
    and e: "entries st = E \<union> swept cfg [1..mc_max_num_reqs cfg] ?q"
    using st c lens by (auto simp: contents_ok_def mtp_config_def)
  have sw: "swept cfg [1..mc_max_num_reqs cfg] ?q = (\<lambda>r. uniform_desc cfg r ?q 0) ` {1..mc_max_num_reqs cfg}"
    by (auto simp: swept_def lens)
  have mx: "mixed_of cfg k = {mixed_desc cfg (fst k) 0}" "varlen_of cfg k = {}" if "k \<in> size_keys cfg sizes" for k
    using that c by (auto simp: mixed_of_def varlen_of_def mtp_config_def size_keys_def lens)
  have fit: "fitting cfg k \<subseteq> (\<lambda>r. uniform_desc cfg r ?q 0) ` {1..mc_max_num_reqs cfg}" if k: "k \<in> size_keys cfg sizes" for k
  proof -
    let ?t = "mc_round_up cfg (fst k) ?q"
    have "0 < fst k" "snd k = 0" using c k by (auto simp: mtp_config_def size_keys_def lens)
    moreover have q: "?q dvd ?t" "fst k \<le> ?t" "0 < ?q" using c by (simp_all add: mtp_config_def)
    ultimately have p: "0 < ?t" "snd k = 0" by simp_all
    then have t: "?t = ?t div ?q * ?q" "1 \<le> ?t div ?q"
      using q zdvd_imp_le [OF q(1) p(1)] pos_imp_zdiv_pos_iff [OF q(3), of ?t] by auto
    have "?t div ?q \<le> mc_max_num_reqs cfg" if "?t \<le> max_decode_tokens cfg"
      using that q(3) t(1) by (metis max_decode_tokens_def mult_le_cancel_right_pos)
    moreover have "rounded_desc cfg k ?q = uniform_desc cfg (?t div ?q) ?q 0"
      using t(1) p(2) by (simp add: rounded_desc_def uniform_desc_def)
    ultimately show ?thesis using t(2) by (auto simp: fitting_def lens)
  qed
  have keys: "fst ` size_keys cfg sizes = set sizes" by (auto simp: size_keys_def lens image_iff)
  let ?U = "(\<lambda>r. uniform_desc cfg r ?q 0) ` {1..mc_max_num_reqs cfg}" and ?M = "(\<lambda>s. mixed_desc cfg s 0) ` set sizes"
  have M: "(\<Union>k \<in> size_keys cfg sizes. mixed_of cfg k) = ?M"
    using mx(1) unfolding keys [symmetric] by auto
  then have "fitting cfg k \<union> mixed_of cfg k \<union> varlen_of cfg k \<subseteq> ?U \<union> ?M" if "k \<in> size_keys cfg sizes" for k
    using fit [OF that] mx(2) [OF that] that by blast
  then have "E \<subseteq> ?U \<union> ?M" using E(2) by blast
  then show ?thesis using E(1) unfolding M e sw by blast
qed

lemma counts_entries:
  assumes "staged_ok seen st"
  shows "set (token_counts (fst st)) = xd_num_tokens ` entries st"
proof -
  have "k \<in> set (od_keys (fst st)) \<longleftrightarrow> k \<in> desc_key ` entries st" for k
  proof
    assume "k \<in> set (od_keys (fst st))"
    then obtain ds where ds: "map_of (fst st) k = Some ds" by (metis in_keys_iff list.set_map)
    then obtain d where "d \<in> set (bucket st k)"
      using staged_okD(3) [OF assms ds] by (cases ds) (auto simp: get_or_def)
    then show "k \<in> desc_key ` entries st" by (metis bucket_entries [OF assms] imageI)
  next
    assume "k \<in> desc_key ` entries st"
    then have "bucket st k \<noteq> []" using bucket_entries [OF assms, of _ k] by (metis empty_iff imageE list.set(1))
    then show "k \<in> set (od_keys (fst st))" by (auto simp: get_or_def in_keys_iff split: option.splits)
  qed
  then have "set (od_keys (fst st)) = desc_key ` entries st" by blast
  then show ?thesis unfolding token_counts_sorted(2) by (simp only: image_image desc_key_def fst_conv)
qed


lemma find_SomeD: "find P xs = Some y \<Longrightarrow> y \<in> set xs \<and> P y"
  by (auto simp: find_Some_iff)

lemma find_unique:
  assumes "x \<in> set xs" and "P x" and "\<And>y. y \<in> set xs \<Longrightarrow> P y \<Longrightarrow> y = x"
  shows "find P xs = Some x"
proof (cases "find P xs")
  case None
  with assms(1,2) show ?thesis by (simp add: find_None_iff)
next
  case (Some y)
  with assms(3) [of y] show ?thesis using find_SomeD [OF Some] by simp
qed

text \<open>The choice for \<open>n\<close> tokens searches the bucket of the next staged size.\<close>

lemma mtp_choice:
  assumes c: "mtp_config cfg sizes" and ret: "init_graphs cfg = Inr g" and cap: "capture g = Inr g'" and n: "0 < n"
  obtains B nx where
    "\<And>r u q. choose_graph g' r n u 0 q = (if \<exists>t \<in> set sizes \<union> decode_buckets cfg. n \<le> t
      then (case find (\<lambda>d. is_compatible d r n u 0 q) B of None \<Rightarrow> no_graph r n 0 | Some d \<Rightarrow> d)
      else no_graph r n 0)"
    "\<And>t. t \<in> set sizes \<union> decode_buckets cfg \<Longrightarrow> n \<le> t \<Longrightarrow> nx \<in> set sizes \<union> decode_buckets cfg \<and> nx \<le> t"
    "n \<le> nx"
    "\<And>d. d \<in> set B \<longleftrightarrow>
      (\<exists>r. 1 \<le> r \<and> r \<le> mc_max_num_reqs cfg \<and> d = uniform_desc cfg r (mc_qlen cfg) 0 \<and> nx = r * mc_qlen cfg) \<or>
      nx \<in> set sizes \<and> d = mixed_desc cfg nx 0"
    "\<And>d. d \<in> set B \<Longrightarrow> xd_mode d \<noteq> NONE \<and> xd_num_tokens d = nx"
proof -
  have lc: "lora_capture_cases cfg = [0]" and sz: "mc_capture_sizes cfg = Some sizes" "distinct sizes" "gm_on (mc_mode cfg)" "sizes \<noteq> []"
    using c by (simp_all add: mtp_config_def lora_capture_cases_def)
  obtain seen st where ok: "staged_ok seen st" and m: "managed cfg st g" and st: "contents_ok cfg sizes st"
    using init_graphs_ok [OF ret] sz lc by (metis distinct_singleton option.inject)
  let ?ts = "token_counts (fst st)" and ?T = "set sizes \<union> decode_buckets cfg"
  let ?nx = "next_size ?ts n"
  note E = mtp_entries [OF c st]
  have T: "set ?ts = ?T"
    unfolding counts_entries [OF ok] E
    by (force simp: image_Un image_image uniform_desc_def mixed_desc_def decode_buckets_def)
  have res: "resolve_loras g 0 = 0" by (simp add: resolve_loras_def)
  show thesis
  proof (rule that)
    show "choose_graph g' r n u 0 q = (if \<exists>t \<in> ?T. n \<le> t
      then (case find (\<lambda>d. is_compatible d r n u 0 q) (bucket st (?nx, 0)) of None \<Rightarrow> no_graph r n 0 | Some d \<Rightarrow> d)
      else no_graph r n 0)" for r u q
      using managed_capture [OF m ok] cap choose_managed [OF m, of _ r n u 0 q] n by (simp add: lc T res Let_def)
    show "?nx \<in> ?T \<and> ?nx \<le> t" if "t \<in> ?T" "n \<le> t" for t
      using next_size_mem [OF that(2), of ?ts] next_size_least [OF token_counts_sorted(1) _ that(2)] that(1) T by auto
    show "d \<in> set (bucket st (?nx, 0)) \<longleftrightarrow>
      (\<exists>r. 1 \<le> r \<and> r \<le> mc_max_num_reqs cfg \<and> d = uniform_desc cfg r (mc_qlen cfg) 0 \<and> ?nx = r * mc_qlen cfg) \<or>
      ?nx \<in> set sizes \<and> d = mixed_desc cfg ?nx 0" for d
      unfolding bucket_entries [OF ok] E by (auto simp: desc_key_def uniform_desc_def mixed_desc_def)
    show "xd_mode d \<noteq> NONE \<and> xd_num_tokens d = ?nx" if "d \<in> set (bucket st (?nx, 0))" for d
      using that staged_okD(7) [OF ok] unfolding bucket_entries [OF ok] by (simp add: desc_key_def)
  qed (rule next_size_ge)
qed

text \<open>
  C21: which batches find a graph. With draft tokens, a separate decode routine and the request
  counts unrestricted, a uniform decode batch of any captured request count finds a graph of
  exactly its tokens. A batch that is not uniform finds the piecewise graph of the next captured
  size only when no decode bucket, a multiple of the query length, comes first; otherwise it finds
  none, although a larger piecewise graph is captured.
\<close>

theorem decode_buckets_hide_mixed_graphs:
  assumes c: "mtp_config cfg sizes" and ret: "init_graphs cfg = Inr g" and cap: "capture g = Inr g'" and n: "0 < n"
  shows "(n \<in> decode_buckets cfg \<longrightarrow>
      xd_mode (choose_graph g' (n div mc_qlen cfg) n (Some (mc_qlen cfg)) 0 q) \<noteq> NONE \<and>
      xd_num_tokens (choose_graph g' (n div mc_qlen cfg) n (Some (mc_qlen cfg)) 0 q) = n) \<and>
    (\<forall>s \<in> set sizes. n \<le> s \<and> (\<forall>t \<in> set sizes \<union> decode_buckets cfg. n \<le> t \<longrightarrow> s \<le> t) \<longrightarrow>
      choose_graph g' r n None 0 q = mixed_desc cfg s 0) \<and>
    (\<forall>t \<in> decode_buckets cfg. n \<le> t \<and> (\<forall>s \<in> set sizes. n \<le> s \<longrightarrow> t < s) \<longrightarrow>
      choose_graph g' r n None 0 q = no_graph r n 0)"
proof -
  let ?T = "set sizes \<union> decode_buckets cfg" and ?C = "\<lambda>r u d. is_compatible d r n u 0 q"
  obtain B nx where run: "\<And>r u q. choose_graph g' r n u 0 q = (if \<exists>t \<in> ?T. n \<le> t
      then (case find (\<lambda>d. is_compatible d r n u 0 q) B of None \<Rightarrow> no_graph r n 0 | Some d \<Rightarrow> d) else no_graph r n 0)"
    and nx: "\<And>t. t \<in> ?T \<Longrightarrow> n \<le> t \<Longrightarrow> nx \<in> ?T \<and> nx \<le> t" "n \<le> nx"
    and mem: "\<And>d. d \<in> set B \<longleftrightarrow>
      (\<exists>r. 1 \<le> r \<and> r \<le> mc_max_num_reqs cfg \<and> d = uniform_desc cfg r (mc_qlen cfg) 0 \<and> nx = r * mc_qlen cfg) \<or>
      nx \<in> set sizes \<and> d = mixed_desc cfg nx 0"
    and found: "\<And>d. d \<in> set B \<Longrightarrow> xd_mode d \<noteq> NONE \<and> xd_num_tokens d = nx"
    by (rule mtp_choice [OF c ret cap n]) blast
  have mixed: "gm_mixed (mc_mode cfg) = PIECEWISE" using c by (simp add: mtp_config_def)
  have 1: "xd_mode (choose_graph g' (n div mc_qlen cfg) n (Some (mc_qlen cfg)) 0 q) \<noteq> NONE \<and>
      xd_num_tokens (choose_graph g' (n div mc_qlen cfg) n (Some (mc_qlen cfg)) 0 q) = n" if b: "n \<in> decode_buckets cfg"
  proof -
    obtain r where r: "1 \<le> r" "r \<le> mc_max_num_reqs cfg" "n = r * mc_qlen cfg" using b by (auto simp: decode_buckets_def)
    moreover have e: "nx = n" using nx b by fastforce
    ultimately have "uniform_desc cfg r (mc_qlen cfg) 0 \<in> set B" "n div mc_qlen cfg = r"
      using mem c by (auto simp: mtp_config_def)
    moreover from this(2) r(3) have "?C (n div mc_qlen cfg) (Some (mc_qlen cfg)) (uniform_desc cfg r (mc_qlen cfg) 0)"
      by (simp only: is_compatible_def uniform_desc_def) simp
    ultimately obtain d where d: "find (?C (n div mc_qlen cfg) (Some (mc_qlen cfg))) B = Some d"
      using find_None_iff [of "?C (n div mc_qlen cfg) (Some (mc_qlen cfg))" B] by (meson not_None_eq)
    then show ?thesis using run found [of d] find_SomeD [OF d] b e by auto
  qed
  have 2: "choose_graph g' r n None 0 q = mixed_desc cfg s 0"
    if s: "s \<in> set sizes" "n \<le> s" "\<forall>t \<in> ?T. n \<le> t \<longrightarrow> s \<le> t" for s
  proof -
    have e: "nx = s" using nx s by (meson UnI1 order.antisym)
    have "find (?C r None) B = Some (mixed_desc cfg s 0)"
    proof (rule find_unique)
      show "mixed_desc cfg s 0 \<in> set B" unfolding mem using s(1) e by blast
      show "?C r None (mixed_desc cfg s 0)" using mixed s(2) by (simp add: is_compatible_def mixed_desc_def)
      show "d = mixed_desc cfg s 0" if "d \<in> set B" "?C r None d" for d
        using that e unfolding mem by (auto simp: is_compatible_def uniform_desc_def)
    qed
    then show ?thesis using run s by auto
  qed
  have 3: "choose_graph g' r n None 0 q = no_graph r n 0"
    if t: "t \<in> decode_buckets cfg" "n \<le> t" "\<forall>s \<in> set sizes. n \<le> s \<longrightarrow> t < s" for t
  proof -
    have "nx \<notin> set sizes" using nx(1) [of t] nx(2) t by fastforce
    then have "find (?C r None) B = None"
      using mem by (auto simp: find_None_iff is_compatible_def uniform_desc_def)
    then show ?thesis using run by simp
  qed
  show ?thesis using 1 2 3 by blast
qed

text \<open>
  An engine with two draft tokens, at most two requests and captured sizes 1 and 4, so that the
  decode buckets 3 and 6 are staged among them.
\<close>

definition round_up_to :: "int \<Rightarrow> int \<Rightarrow> int" where
  "round_up_to n q = (n + q - 1) div q * q"

definition demo_manager :: manager_config where
  "demo_manager = \<lparr>mc_max_num_reqs = 2, mc_mode = demo_mode, mc_qlen = 3, mc_lora_cases = None,
     mc_varlen = False, mc_capture_sizes = Some [1, 4], mc_max_size = Some 4, mc_num_spec = 2,
     mc_dynamic = None, mc_batches_env = None, mc_round_up = round_up_to\<rparr>"

definition demo_staged :: graph_manager where "demo_staged = projr (init_graphs demo_manager)"

definition demo_captured :: graph_manager where "demo_captured = projr (capture demo_staged)"

lemma demo_staged_ok: "init_graphs demo_manager = Inr demo_staged"
proof -
  have "\<not> isl (init_graphs demo_manager)" by code_simp
  then show ?thesis by (cases "init_graphs demo_manager") (simp_all add: demo_staged_def)
qed

lemma demo_captured_ok: "capture demo_staged = Inr demo_captured"
proof -
  have "\<not> isl (capture demo_staged)" by code_simp
  then show ?thesis by (cases "capture demo_staged") (simp_all add: demo_captured_def)
qed

lemma demo_mtp: "mtp_config demo_manager [1, 4]"
proof -
  have "n \<le> (2 + n) div 3 * 3" for n :: int by presburger
  then show ?thesis
    by (simp add: mtp_config_def demo_manager_def demo_mode_def separate_decode_def round_up_to_def)
qed

theorem dispatched_graph_replays_witness:
  "choose_graph demo_captured 2 6 (Some 3) 0 None = uniform_desc demo_manager 2 3 0 \<and>
   run_fullgraph demo_captured (uniform_desc demo_manager 2 3 0) = Inr (uniform_desc demo_manager 2 3 0)"
proof -
  have c: "choose_graph demo_captured 2 6 (Some 3) 0 None = uniform_desc demo_manager 2 3 0" by code_simp
  have "distinct sizes" if "mc_capture_sizes demo_manager = Some sizes" for sizes
    using that by (auto simp: demo_manager_def)
  moreover have "distinct (lora_capture_cases demo_manager)" by code_simp
  ultimately obtain g' where "capture demo_staged = Inr g'"
    "\<forall>r n u l q. xd_mode (choose_graph g' r n u l q) = FULL \<longrightarrow>
       run_fullgraph g' (choose_graph g' r n u l q) = Inr (choose_graph g' r n u l q)"
    using dispatched_graph_replays [OF demo_staged_ok] by blast
  moreover have "xd_mode (uniform_desc demo_manager 2 3 0) = FULL" by code_simp
  ultimately show ?thesis using c demo_captured_ok by (metis sum.inject(2))
qed

theorem decode_buckets_hide_mixed_graphs_witness:
  "choose_graph demo_captured 1 2 None 0 None = no_graph 1 2 0 \<and>
   mixed_desc demo_manager 4 0 \<in> set (get_or PIECEWISE [] (gr_capture_descs demo_captured)) \<and>
   xd_num_tokens (choose_graph demo_captured 2 6 (Some 3) 0 None) = 6"
proof -
  have b: "3 \<in> decode_buckets demo_manager" "6 \<in> decode_buckets demo_manager" "mc_qlen demo_manager = 3"
    unfolding decode_buckets_def by (auto simp: demo_manager_def intro: exI [of _ 1] exI [of _ 2])
  have "choose_graph demo_captured 1 2 None 0 None = no_graph 1 2 0"
    using decode_buckets_hide_mixed_graphs [OF demo_mtp demo_staged_ok demo_captured_ok, of 2 None 1] b(1) by force
  moreover have "xd_num_tokens (choose_graph demo_captured 2 6 (Some 3) 0 None) = 6"
    using decode_buckets_hide_mixed_graphs [OF demo_mtp demo_staged_ok demo_captured_ok, of 6 None 1] b(2,3) by simp
  moreover have "mixed_desc demo_manager 4 0 \<in> set (get_or PIECEWISE [] (gr_capture_descs demo_captured))"
    by code_simp
  ultimately show ?thesis by blast
qed

end
