(* ===== verification/KV_Coordinator.thy ===== *)
theory KV_Coordinator
  imports Py_Env
begin

text \<open>
  Model of \<open>v1/core/kv_cache_coordinator.py\<close>: how the caches of several KV cache groups are set
  up, and the search for the longest prefix that all of them have cached.

  The managers of a single group, the block pool and the cache specifications are classes of
  other packages. A specification is a record of what the code reads of it, with \<open>cs_rest\<close> for
  the other fields that its equality compares. The calls of the managers act on a joint state
  \<open>'w\<close> (the managers share one pool) and are parameters (\<open>manager_ops\<close>), as are the class method
  that looks up a prefix, the class method that makes a manager, and \<open>cdiv\<close>.
\<close>

section \<open>Specifications, groups, managers\<close>

datatype spec_kind = FullAttention | Mamba string | SlidingWindow | OtherKind

record cache_spec =
  cs_kind :: spec_kind
  cs_block_size :: int
  cs_participates :: bool
  cs_rest :: nat

record cache_group =
  cg_spec :: cache_spec
  cg_eagle :: bool

record single_manager =
  sm_cls :: nat
  sm_block_size :: int
  sm_fine :: bool
  sm_cross :: bool
  sm_use_eagle :: bool

record spec_group =
  sg_spec :: cache_spec
  sg_ids :: "nat list"
  sg_cls :: nat
  sg_eagle :: bool

definition is_full :: "cache_spec \<Rightarrow> bool" where
  "is_full s \<longleftrightarrow> cs_kind s = FullAttention"

definition is_mamba :: "cache_spec \<Rightarrow> bool" where
  "is_mamba s \<longleftrightarrow> (case cs_kind s of Mamba _ \<Rightarrow> True | _ \<Rightarrow> False)"

datatype coordinator_kind = NoPrefixCache | Unitary | Hybrid

record coordinator =
  kc_kind :: coordinator_kind
  kc_groups :: "cache_group list"
  kc_enable_caching :: bool
  kc_sched_block :: int
  kc_hash_block :: int
  kc_dcp :: int
  kc_pcp :: int
  kc_eagle_ids :: "nat set"
  kc_managers :: "single_manager list"
  kc_retention :: "int option"
  kc_partial :: bool
  kc_attention :: "spec_group list"
  kc_full_id :: "nat option"

text \<open>The arguments of the constructors and the environment they read.\<close>

record coordinator_args =
  ka_groups :: "cache_group list"
  ka_use_eagle :: bool
  ka_enable_caching :: bool
  ka_dcp :: int
  ka_pcp :: int
  ka_sched_block :: int
  ka_hash_block :: int
  ka_retention :: "int option"
  ka_manager :: "cache_spec \<Rightarrow> nat \<Rightarrow> single_manager"

section \<open>Construction\<close>

text \<open>\<open>all(...)\<close> over a generator stops at the first element that is false.\<close>

fun all_res :: "('a \<Rightarrow> bool res) \<Rightarrow> 'a list \<Rightarrow> bool res" where
  "all_res f [] = Inr True"
| "all_res f (x # xs) = bindE (f x) (\<lambda>b. if b then all_res f xs else Inr False)"

definition divides_res :: "int \<Rightarrow> int \<Rightarrow> bool res" where
  "divides_res b a = bindE (py_mod a b) (\<lambda>r. Inr (r = 0))"

definition validate_retention :: "int option \<Rightarrow> int \<Rightarrow> cache_group list \<Rightarrow> unit res" where
  "validate_retention interval sched groups =
     (case interval of
        None \<Rightarrow> Inr ()
      | Some n \<Rightarrow>
          if \<not> list_ex (\<lambda>g. cs_kind (cg_spec g) = SlidingWindow \<or> is_mamba (cg_spec g)) groups
          then Inl ValueError
          else if n < 0 then Inl ValueError
          else bindE (py_mod n sched) (\<lambda>r. if r \<noteq> 0 then Inl ValueError else Inr ()))"

definition init_base :: "coordinator_kind \<Rightarrow> bool \<Rightarrow> coordinator_args \<Rightarrow> coordinator res" where
  "init_base kind caching a =
     (let groups = ka_groups a; ids = set [0..<length groups];
          marked = set (filter (\<lambda>i. cg_eagle (groups ! i)) [0..<length groups]) in
      bindE (divides_res (ka_hash_block a) (ka_sched_block a)) (\<lambda>d.
      bindE (if d then all_res (\<lambda>g. divides_res (cs_block_size (cg_spec g)) (ka_sched_block a)) groups
             else Inr False) (\<lambda>ok.
      assertE ok
        (bindE (validate_retention (ka_retention a) (ka_sched_block a) groups) (\<lambda>_.
         Inr \<lparr>kc_kind = kind, kc_groups = groups, kc_enable_caching = caching,
              kc_sched_block = ka_sched_block a, kc_hash_block = ka_hash_block a, kc_dcp = ka_dcp a,
              kc_pcp = ka_pcp a,
              kc_eagle_ids = (if ka_use_eagle a \<and> marked = {} then ids else marked),
              kc_managers = map (\<lambda>(i, g). ka_manager a (cg_spec g) i) (enumerate 0 groups),
              kc_retention = ka_retention a, kc_partial = False, kc_attention = [],
              kc_full_id = None\<rparr>)))))"

definition set_eagle :: "nat \<Rightarrow> bool \<Rightarrow> single_manager list \<Rightarrow> single_manager list res" where
  "set_eagle i b ms = bindE (nth_res ms i) (\<lambda>m. Inr (ms[i := m\<lparr>sm_use_eagle := b\<rparr>]))"

definition init_unitary :: "coordinator_args \<Rightarrow> coordinator res" where
  "init_unitary a =
     bindE (init_base Unitary (ka_enable_caching a) a) (\<lambda>c.
     bindE (nth_res (kc_groups c) 0) (\<lambda>g.
       let block = (if ka_dcp a > 1 then cs_block_size (cg_spec g) * ka_dcp a else cs_block_size (cg_spec g)) in
       assertE (\<not> ka_enable_caching a \<or> ka_hash_block a = block)
       (assertE (length (kc_groups c) = 1)
         (bindE (set_eagle 0 (0 \<in> kc_eagle_ids c) (kc_managers c)) (\<lambda>ms.
           Inr (c\<lparr>kc_managers := ms\<rparr>))))))"

text \<open>Groups with the same specification are looked up together.\<close>

fun join_group :: "cache_spec \<Rightarrow> nat \<Rightarrow> nat \<Rightarrow> bool \<Rightarrow> spec_group list \<Rightarrow> spec_group list res" where
  "join_group spec cls i eagle [] = Inr [\<lparr>sg_spec = spec, sg_ids = [i], sg_cls = cls, sg_eagle = eagle\<rparr>]"
| "join_group spec cls i eagle (g # gs) =
     (if sg_spec g = spec
      then assertE (cls = sg_cls g) (Inr (g\<lparr>sg_ids := sg_ids g @ [i], sg_eagle := sg_eagle g \<or> eagle\<rparr> # gs))
      else bindE (join_group spec cls i eagle gs) (\<lambda>gs. Inr (g # gs)))"

definition split_step :: "coordinator \<Rightarrow> nat \<times> cache_group \<Rightarrow> spec_group list \<Rightarrow> spec_group list res" where
  "split_step c ig gs =
     (let (i, g) = ig in
      if \<not> cs_participates (cg_spec g) then Inr gs
      else bindE (nth_res (kc_managers c) i) (\<lambda>m.
        join_group (cg_spec g) (sm_cls m) i (i \<in> kc_eagle_ids c) gs))"

definition propagate_eagle :: "spec_group \<Rightarrow> single_manager list \<Rightarrow> single_manager list res" where
  "propagate_eagle sg ms =
     (if sg_eagle sg then foldE (\<lambda>gid. set_eagle gid True) (sg_ids sg) ms else Inr ms)"

definition verify_and_split :: "coordinator \<Rightarrow> coordinator res" where
  "verify_and_split c =
     bindE (foldE (split_step c) (enumerate 0 (kc_groups c)) []) (\<lambda>gs.
     assertE (length gs > 1)
       (let gs = sort_key (\<lambda>g. \<not> is_full (sg_spec g)) gs in
        bindE (foldE propagate_eagle gs (kc_managers c)) (\<lambda>ms.
          Inr (c\<lparr>kc_attention := gs,
                 kc_full_id := (if is_full (sg_spec (hd gs)) then Some (hd (sg_ids (hd gs))) else None),
                 kc_managers := ms\<rparr>))))"

definition init_hybrid :: "coordinator_args \<Rightarrow> coordinator res" where
  "init_hybrid a =
     bindE (init_base Hybrid (ka_enable_caching a) a) (\<lambda>c.
       let sizes = map (sm_block_size \<circ> fst)
             (filter (\<lambda>(m, g). cs_participates (cg_spec g)) (zip (kc_managers c) (kc_groups c))) in
       bindE (all_res (divides_res (ka_hash_block a)) sizes) (\<lambda>ok.
       assertE ok
       (assertE (ka_pcp a = 1)
       (assertE (ka_dcp a \<le> 1 \<or> list_all (\<lambda>g. is_full (cg_spec g) \<or> is_mamba (cg_spec g)) (kc_groups c))
         (let has_partial = list_ex (\<lambda>g. cs_kind (cg_spec g) = Mamba ''align'' \<and>
                              cs_block_size (cg_spec g) > ka_hash_block a) (kc_groups c);
              partial = (ka_dcp a = 1 \<and> has_partial);
              partial = (partial \<and> \<not> list_ex (\<lambda>m. \<not> sm_fine m \<and> sm_block_size m \<noteq> ka_hash_block a)
                                       (kc_managers c))
          in verify_and_split (c\<lparr>kc_partial := partial\<rparr>))))))"

definition get_kv_cache_coordinator :: "coordinator_args \<Rightarrow> coordinator res" where
  "get_kv_cache_coordinator a =
     (if \<not> ka_enable_caching a then init_base NoPrefixCache False a
      else if length (ka_groups a) = 1 then init_unitary a
      else init_hybrid a)"

section \<open>Calls of the managers\<close>

text \<open>The first argument of each is the index of the manager.\<close>

record ('w, 'b, 'r) manager_ops =
  k_to_allocate :: "nat \<Rightarrow> string \<Rightarrow> int \<Rightarrow> 'b list \<Rightarrow> int \<Rightarrow> int \<Rightarrow> int \<Rightarrow> bool \<Rightarrow> 'w \<Rightarrow> int"
  k_tracked :: "nat \<Rightarrow> string \<Rightarrow> 'w \<Rightarrow> bool"
  k_add_local :: "nat \<Rightarrow> string \<Rightarrow> 'b list \<Rightarrow> int \<Rightarrow> int \<Rightarrow> 'w \<Rightarrow> 'w res"
  k_alloc_external :: "nat \<Rightarrow> string \<Rightarrow> int \<Rightarrow> int \<Rightarrow> 'w \<Rightarrow> 'w res"
  k_alloc_new :: "nat \<Rightarrow> string \<Rightarrow> int \<Rightarrow> int \<Rightarrow> 'w \<Rightarrow> ('w \<times> 'b list) res"
  k_cache :: "nat \<Rightarrow> 'r \<Rightarrow> int \<Rightarrow> int option \<Rightarrow> 'w \<Rightarrow> 'w res"
  k_free :: "nat \<Rightarrow> string \<Rightarrow> 'w \<Rightarrow> 'w res"
  k_pop :: "nat \<Rightarrow> string \<Rightarrow> 'w \<Rightarrow> ('w \<times> 'b list) res"
  k_common :: "nat \<Rightarrow> string \<Rightarrow> 'w \<Rightarrow> int"
  k_remove_skipped :: "nat \<Rightarrow> string \<Rightarrow> int \<Rightarrow> int option \<Rightarrow> 'w \<Rightarrow> 'w res"
  k_blocks :: "nat \<Rightarrow> string \<Rightarrow> 'w \<Rightarrow> 'b list"
  k_new_step :: "nat \<Rightarrow> 'w \<Rightarrow> 'w res"

abbreviation indexed :: "coordinator \<Rightarrow> (nat \<times> single_manager) list" where
  "indexed c \<equiv> enumerate 0 (kc_managers c)"

definition num_blocks_to_allocate :: "('w, 'b, 'r) manager_ops \<Rightarrow> coordinator \<Rightarrow> string \<Rightarrow> int \<Rightarrow>
    'b list list \<Rightarrow> int \<Rightarrow> int \<Rightarrow> int \<Rightarrow> int \<Rightarrow> bool \<Rightarrow> 'w \<Rightarrow> int res" where
  "num_blocks_to_allocate K c rid num_tokens new_computed enc computed local main cap w =
     foldE (\<lambda>(i, m) n.
         if sm_cross m then Inr (n + k_to_allocate K i rid enc [] 0 0 enc cap w)
         else bindE (nth_res new_computed i) (\<lambda>bs.
           Inr (n + k_to_allocate K i rid num_tokens bs computed local main cap w)))
       (indexed c) 0"

text \<open>First the hits of every group are touched, then blocks are taken for external tokens.\<close>

definition allocate_new_computed_blocks :: "('w, 'b, 'r) manager_ops \<Rightarrow> coordinator \<Rightarrow> string \<Rightarrow>
    'b list list \<Rightarrow> int \<Rightarrow> int \<Rightarrow> 'w \<Rightarrow> 'w res" where
  "allocate_new_computed_blocks K c rid new_computed local external w =
     (if list_ex (\<lambda>(i, m). k_tracked K i rid w) (indexed c)
      then assertE (list_all (\<lambda>bs. bs = []) new_computed) (Inr w)
      else
        bindE (foldE (\<lambda>(i, m) w. bindE (nth_res new_computed i) (\<lambda>bs. k_add_local K i rid bs local external w))
                 (indexed c) w) (\<lambda>w.
        if external > 0 then foldE (\<lambda>(i, m). k_alloc_external K i rid local external) (indexed c) w
        else Inr w))"

definition collect :: "(nat \<Rightarrow> 'w \<Rightarrow> ('w \<times> 'b) res) \<Rightarrow> nat \<times> 'm \<Rightarrow> 'w \<times> 'b list \<Rightarrow> ('w \<times> 'b list) res" where
  "collect f im st = bindE (f (fst im) (fst st)) (\<lambda>(w, b). Inr (w, snd st @ [b]))"

definition allocate_new_blocks :: "('w, 'b, 'r) manager_ops \<Rightarrow> coordinator \<Rightarrow> string \<Rightarrow> int \<Rightarrow> int \<Rightarrow> int \<Rightarrow>
    'w \<Rightarrow> ('w \<times> 'b list list) res" where
  "allocate_new_blocks K c rid num_tokens main enc w =
     foldE (\<lambda>(i, m). collect (\<lambda>i. k_alloc_new K i rid (if sm_cross m then enc else num_tokens) main) (i, m))
       (indexed c) (w, [])"

text \<open>
  The hybrid coordinator caches whole segments only; a group with a drafter gets one block more,
  which its lookups match and drop.
\<close>

definition tokens_to_cache :: "coordinator \<Rightarrow> int \<Rightarrow> single_manager \<Rightarrow> int res" where
  "tokens_to_cache c computed m =
     (if kc_kind c \<noteq> Hybrid then Inr computed
      else
        bindE (if kc_partial c then Inr computed
               else if kc_sched_block c = 0 then Inl ZeroDivisionError
               else Inr (computed div kc_sched_block c * kc_sched_block c)) (\<lambda>aligned.
          Inr (if sm_use_eagle m \<and> aligned > 0 then min computed (aligned + sm_block_size m)
               else aligned)))"

definition cache_blocks :: "('w, 'b, 'r) manager_ops \<Rightarrow> coordinator \<Rightarrow> 'r \<Rightarrow> int \<Rightarrow> 'w \<Rightarrow> 'w res" where
  "cache_blocks K c rq computed w =
     foldE (\<lambda>(i, m) w. bindE (tokens_to_cache c computed m) (\<lambda>n. k_cache K i rq n (kc_retention c) w))
       (indexed c) w"

definition free_request :: "('w, 'b, 'r) manager_ops \<Rightarrow> coordinator \<Rightarrow> string \<Rightarrow> 'w \<Rightarrow> 'w res" where
  "free_request K c rid w = foldE (\<lambda>(i, m). k_free K i rid) (indexed c) w"

definition pop_blocks_for_free :: "('w, 'b, 'r) manager_ops \<Rightarrow> coordinator \<Rightarrow> string \<Rightarrow> 'w \<Rightarrow>
    ('w \<times> 'b list) res" where
  "pop_blocks_for_free K c rid w =
     bindE (foldE (collect (\<lambda>i. k_pop K i rid)) (indexed c) (w, [])) (\<lambda>(w, bs). Inr (w, concat bs))"

definition num_common_prefix_blocks :: "('w, 'b, 'r) manager_ops \<Rightarrow> coordinator \<Rightarrow> string \<Rightarrow> 'w \<Rightarrow> int list" where
  "num_common_prefix_blocks K c rid w =
     (if kc_kind c = NoPrefixCache then map (\<lambda>_. 0) (kc_managers c)
      else map (\<lambda>(i, m). k_common K i rid w) (indexed c))"

definition remove_skipped_blocks :: "('w, 'b, 'r) manager_ops \<Rightarrow> coordinator \<Rightarrow> string \<Rightarrow> int \<Rightarrow> int option \<Rightarrow>
    'w \<Rightarrow> 'w res" where
  "remove_skipped_blocks K c rid processed prompt w =
     foldE (\<lambda>(i, m). k_remove_skipped K i rid processed prompt) (indexed c) w"

definition get_blocks :: "('w, 'b, 'r) manager_ops \<Rightarrow> coordinator \<Rightarrow> string \<Rightarrow> 'w \<Rightarrow> 'b list list" where
  "get_blocks K c rid w = map (\<lambda>(i, m). k_blocks K i rid w) (indexed c)"

definition new_step_starts :: "('w, 'b, 'r) manager_ops \<Rightarrow> coordinator \<Rightarrow> 'w \<Rightarrow> 'w res" where
  "new_step_starts K c w = foldE (\<lambda>(i, m). k_new_step K i) (indexed c) w"

section \<open>The longest common hit\<close>

text \<open>The arguments of a lookup of one specification; the class is the first argument of the call.\<close>

record 'h lookup_args =
  la_hashes :: "'h list"
  la_max :: int
  la_ids :: "nat list"
  la_spec :: cache_spec
  la_drop :: bool
  la_align :: int
  la_dcp :: "int option"
  la_pcp :: "int option"

type_synonym ('h, 'b) finder = "nat \<Rightarrow> 'h lookup_args \<Rightarrow> 'b list list \<times> int"

record 'b search =
  hs_len :: int
  hs_longest :: int
  hs_blocks :: "'b list option list"
  hs_lens :: "int list"
  hs_verified :: "nat set"

definition hit_alignment :: "coordinator \<Rightarrow> int" where
  "hit_alignment c = (if kc_partial c then kc_hash_block c else kc_sched_block c)"

definition group_args :: "coordinator \<Rightarrow> 'h list \<Rightarrow> spec_group \<Rightarrow> bool \<Rightarrow> int \<Rightarrow> 'h lookup_args" where
  "group_args c hashes sg dropping mx =
     \<lparr>la_hashes = hashes, la_max = mx, la_ids = sg_ids sg, la_spec = sg_spec sg, la_drop = dropping,
      la_align = hit_alignment c, la_dcp = Some (if is_full (sg_spec sg) then kc_dcp c else 1),
      la_pcp = None\<rparr>"

text \<open>The additional unit that a group with a drafter matches and drops.\<close>

definition eagle_margin :: "coordinator \<Rightarrow> single_manager \<Rightarrow> int" where
  "eagle_margin c m =
     (if kc_partial c \<and> sm_fine m \<and> sm_block_size m > kc_hash_block c then kc_hash_block c
      else sm_block_size m)"

definition record_hit :: "int \<Rightarrow> nat \<times> 'b list \<Rightarrow> 'b search \<Rightarrow> 'b search res" where
  "record_hit len gb s =
     (if fst gb < length (hs_blocks s)
      then Inr (s\<lparr>hs_blocks := (hs_blocks s)[fst gb := Some (snd gb)], hs_lens := (hs_lens s)[fst gb := len]\<rparr>)
      else Inl IndexError)"

definition probe :: "('h, 'b) finder \<Rightarrow> coordinator \<Rightarrow> 'h list \<Rightarrow> int \<Rightarrow> nat \<times> spec_group \<Rightarrow> 'b search \<Rightarrow>
    'b search res" where
  "probe look c hashes mx ig s =
     (let (idx, sg) = ig in
      bindE (nth_res (sg_ids sg) 0) (\<lambda>first.
      bindE (nth_res (kc_managers c) first) (\<lambda>m.
      bindE (nth_res (hs_blocks s) first) (\<lambda>cached.
        if is_full (sg_spec sg) \<and> cached \<noteq> None
        then bindE (nth_res (hs_lens s) first) (\<lambda>l. Inr (s\<lparr>hs_len := min (hs_len s) l\<rparr>))
        else
          let dropping = (sg_eagle sg \<and> idx \<notin> hs_verified s);
              bound = (if dropping \<and> \<not> is_mamba (sg_spec sg) then min (hs_len s + eagle_margin c m) mx else hs_len s);
              (blocks, new) = look (sg_cls sg) (group_args c hashes sg dropping bound);
              verified = (if dropping then insert idx (hs_verified s)
                          else if new < hs_len s then {} else hs_verified s)
          in bindE (foldE (record_hit new) (zip (sg_ids sg) blocks) s) (\<lambda>s.
               Inr (s\<lparr>hs_len := new, hs_verified := verified, hs_longest := max (hs_longest s) new\<rparr>))))))"

definition simple_hybrid :: "coordinator \<Rightarrow> bool" where
  "simple_hybrid c \<longleftrightarrow> length (kc_attention c) = 2 \<and> is_full (sg_spec (hd (kc_attention c)))"

text \<open>The \<open>while\<close> loop, at most \<open>fuel\<close> iterations; \<open>hit\<close> is the length found so far.\<close>

fun search_loop :: "('h, 'b) finder \<Rightarrow> coordinator \<Rightarrow> 'h list \<Rightarrow> int \<Rightarrow> nat \<Rightarrow> int \<Rightarrow> 'b search \<Rightarrow>
    (int \<times> 'b search) res" where
  "search_loop look c hashes mx 0 hit s = Inl Diverges"
| "search_loop look c hashes mx (Suc fuel) hit s =
     bindE (foldE (probe look c hashes mx) (enumerate 0 (kc_attention c)) (s\<lparr>hs_len := hit\<rparr>)) (\<lambda>s.
       if hs_len s \<ge> hit then Inr (hit, s)
       else if simple_hybrid c then Inr (hs_len s, s)
       else search_loop look c hashes mx fuel (hs_len s) s)"

text \<open>\<open>del blks[n:]\<close> for the groups of the first specification.\<close>

definition truncate_full :: "(int \<Rightarrow> int \<Rightarrow> int) \<Rightarrow> coordinator \<Rightarrow> int \<Rightarrow> 'b search \<Rightarrow> 'b search res" where
  "truncate_full cdiv c hit s =
     bindE (nth_res (kc_attention c) 0) (\<lambda>sg.
       if is_full (sg_spec sg) then
         bindE (nth_res (sg_ids sg) 0) (\<lambda>first.
         bindE (nth_res (kc_managers c) first) (\<lambda>m.
           let n = cdiv hit (sm_block_size m) in
           foldE (\<lambda>gid s.
               bindE (nth_res (hs_blocks s) gid) (\<lambda>bs.
                 case bs of
                   None \<Rightarrow> Inr s
                 | Some blks \<Rightarrow> record_hit hit (gid, py_slice 0 n blks) s))
             (sg_ids sg) s))
       else Inr s)"

definition search_fuel :: "int \<Rightarrow> nat" where
  "search_fuel mx = nat mx + 1"

definition hybrid_search :: "('h, 'b) finder \<Rightarrow> (int \<Rightarrow> int \<Rightarrow> int) \<Rightarrow> coordinator \<Rightarrow> 'h list \<Rightarrow> int \<Rightarrow>
    (int \<times> 'b search) res" where
  "hybrid_search look cdiv c hashes mx =
     bindE (search_loop look c hashes mx (search_fuel mx) mx
              \<lparr>hs_len = mx, hs_longest = 0, hs_blocks = replicate (length (kc_groups c)) None,
               hs_lens = replicate (length (kc_groups c)) 0, hs_verified = {}\<rparr>) (\<lambda>(hit, s).
       bindE (truncate_full cdiv c hit s) (\<lambda>s. Inr (hit, s)))"

text \<open>The hit blocks of each group, the length of the hit and the uncached common prefix.\<close>

definition find_longest_cache_hit :: "('h, 'b) finder \<Rightarrow> (int \<Rightarrow> int \<Rightarrow> int) \<Rightarrow> coordinator \<Rightarrow> 'h list \<Rightarrow> int \<Rightarrow>
    ('b list list \<times> int \<times> int) res" where
  "find_longest_cache_hit look cdiv c hashes mx =
     (case kc_kind c of
        NoPrefixCache \<Rightarrow> Inr (map (\<lambda>_. []) (kc_managers c), 0, 0)
      | Unitary \<Rightarrow>
          bindE (nth_res (kc_managers c) 0) (\<lambda>m.
          bindE (nth_res (kc_groups c) 0) (\<lambda>g.
            let spec = cg_spec g;
                block = (if kc_dcp c > 1 then cs_block_size spec * kc_dcp c else cs_block_size spec);
                (blocks, len) = look (sm_cls m)
                  \<lparr>la_hashes = hashes, la_max = mx, la_ids = [0], la_spec = spec,
                   la_drop = 0 \<in> kc_eagle_ids c, la_align = block, la_dcp = Some (kc_dcp c),
                   la_pcp = Some (kc_pcp c)\<rparr>
            in Inr (blocks, len, 0)))
      | Hybrid \<Rightarrow>
          bindE (hybrid_search look cdiv c hashes mx) (\<lambda>(hit, s).
            Inr (map (\<lambda>b. case b of None \<Rightarrow> [] | Some bs \<Rightarrow> bs) (hs_blocks s), hit, hs_longest s - hit)))"

text \<open>Every specification on its own.\<close>

definition per_group_step :: "('h, 'b) finder \<Rightarrow> coordinator \<Rightarrow> 'h list \<Rightarrow> int \<Rightarrow> spec_group \<Rightarrow>
    'b list list \<times> int list \<Rightarrow> 'b list list \<times> int list" where
  "per_group_step look c hashes mx sg st =
     (let (blocks, len) = look (sg_cls sg) ((group_args c hashes sg (sg_eagle sg) mx)\<lparr>la_dcp := None\<rparr>)
      in fold (\<lambda>(gid, b) (bs, ls). (bs[gid := b], ls[gid := len])) (zip (sg_ids sg) blocks) st)"

definition find_longest_cache_hit_per_group :: "('h, 'b) finder \<Rightarrow> coordinator \<Rightarrow> 'h list \<Rightarrow> int \<Rightarrow>
    'b list list \<times> int list" where
  "find_longest_cache_hit_per_group look c hashes mx =
     fold (per_group_step look c hashes mx) (kc_attention c)
       (map (\<lambda>_. []) (kc_groups c), map (\<lambda>_. 0) (kc_groups c))"

end
