(* ===== verification/KV_Search_Facts.thy ===== *)
theory KV_Search_Facts
  imports KV_Coordinator
begin

text \<open>
  Facts about the search for the longest common hit: what a probe of one specification keeps, and
  what the loop has found when it ends.
\<close>

section \<open>What the search presumes\<close>

text \<open>The groups of the coordinator: every index has a manager and is in one specification group.\<close>

definition groups_ok :: "coordinator \<Rightarrow> bool" where
  "groups_ok c \<longleftrightarrow> kc_attention c \<noteq> [] \<and> length (kc_managers c) = length (kc_groups c) \<and>
     distinct (concat (map sg_ids (kc_attention c))) \<and>
     (\<forall>sg \<in> set (kc_attention c). sg_ids sg \<noteq> [] \<and> (\<forall>i \<in> set (sg_ids sg). i < length (kc_groups c)))"

text \<open>
  \<open>valid sg L\<close>: the first \<open>L\<close> tokens are a hit for the groups of \<open>sg\<close>. A lookup without a drafter
  reports the longest hit within its bound, with the blocks of each group; a hit of a full
  attention group can be cut at any length that is a hit elsewhere.
\<close>

definition lookup_law :: "('h, 'b) finder \<Rightarrow> coordinator \<Rightarrow> 'h list \<Rightarrow> int \<Rightarrow> (spec_group \<Rightarrow> int \<Rightarrow> bool) \<Rightarrow> bool" where
  "lookup_law look c hashes mx valid \<longleftrightarrow>
     (\<forall>sg \<in> set (kc_attention c). \<forall>m n bs. 0 \<le> m \<longrightarrow> m \<le> mx \<longrightarrow>
        look (sg_cls sg) (group_args c hashes sg False m) = (bs, n) \<longrightarrow>
        length bs = length (sg_ids sg) \<and> 0 \<le> n \<and> n \<le> m \<and> valid sg n \<and> (\<forall>L. n < L \<and> L \<le> m \<longrightarrow> \<not> valid sg L))"

definition cut_law :: "coordinator \<Rightarrow> (spec_group \<Rightarrow> int \<Rightarrow> bool) \<Rightarrow> bool" where
  "cut_law c valid \<longleftrightarrow>
     (\<forall>sg \<in> set (kc_attention c). \<forall>sg' \<in> set (kc_attention c). \<forall>a b.
        is_full (sg_spec sg) \<longrightarrow> valid sg a \<longrightarrow> valid sg' b \<longrightarrow> b \<le> a \<longrightarrow> valid sg b)"

definition search_setup :: "('h, 'b) finder \<Rightarrow> coordinator \<Rightarrow> 'h list \<Rightarrow> int \<Rightarrow> (spec_group \<Rightarrow> int \<Rightarrow> bool) \<Rightarrow> bool" where
  "search_setup look c hashes mx valid \<longleftrightarrow> groups_ok c \<and> 0 \<le> mx \<and>
     (\<forall>sg \<in> set (kc_attention c). \<not> sg_eagle sg) \<and>
     lookup_law look c hashes mx valid \<and> cut_law c valid"

definition common :: "coordinator \<Rightarrow> (spec_group \<Rightarrow> int \<Rightarrow> bool) \<Rightarrow> int \<Rightarrow> int \<Rightarrow> bool" where
  "common c valid mx L \<longleftrightarrow> L \<le> mx \<and> (\<forall>sg \<in> set (kc_attention c). valid sg L)"

section \<open>Recording a hit\<close>

lemma record_hits:
  assumes "distinct ids" and "length bs = length ids" and "\<forall>i \<in> set ids. i < length (hs_blocks s)"
    and "length (hs_lens s) = length (hs_blocks s)"
  obtains s' where "foldE (record_hit n) (zip ids bs) s = Inr s'" "hs_len s' = hs_len s"
    "length (hs_blocks s') = length (hs_blocks s)" "length (hs_lens s') = length (hs_lens s)"
    "\<And>j. j < length ids \<Longrightarrow> hs_blocks s' ! (ids ! j) = Some (bs ! j) \<and> hs_lens s' ! (ids ! j) = n"
    "\<And>i. i \<notin> set ids \<Longrightarrow> hs_blocks s' ! i = hs_blocks s ! i \<and> hs_lens s' ! i = hs_lens s ! i"
    "hs_longest s' = hs_longest s" "hs_verified s' = hs_verified s"
proof -
  have "\<exists>s'. foldE (record_hit n) (zip ids bs) s = Inr s' \<and> hs_len s' = hs_len s \<and>
      length (hs_blocks s') = length (hs_blocks s) \<and> length (hs_lens s') = length (hs_lens s) \<and>
      (\<forall>j < length ids. hs_blocks s' ! (ids ! j) = Some (bs ! j) \<and> hs_lens s' ! (ids ! j) = n) \<and>
      (\<forall>i. i \<notin> set ids \<longrightarrow> hs_blocks s' ! i = hs_blocks s ! i \<and> hs_lens s' ! i = hs_lens s ! i) \<and>
      hs_longest s' = hs_longest s \<and> hs_verified s' = hs_verified s"
    using assms
  proof (induction ids arbitrary: bs s)
    case (Cons i ids)
    then obtain b bs' where bs: "bs = b # bs'" "length bs' = length ids" by (cases bs) auto
    let ?s = "s\<lparr>hs_blocks := (hs_blocks s)[i := Some b], hs_lens := (hs_lens s)[i := n]\<rparr>"
    have r: "record_hit n (i, b) s = Inr ?s" using Cons.prems(3) by (simp add: record_hit_def)
    obtain s' where s': "foldE (record_hit n) (zip ids bs') ?s = Inr s'" "hs_len s' = hs_len s"
      "length (hs_blocks s') = length (hs_blocks s)" "length (hs_lens s') = length (hs_lens s)"
      "\<forall>j < length ids. hs_blocks s' ! (ids ! j) = Some (bs' ! j) \<and> hs_lens s' ! (ids ! j) = n"
      "\<forall>k. k \<notin> set ids \<longrightarrow> hs_blocks s' ! k = hs_blocks ?s ! k \<and> hs_lens s' ! k = hs_lens ?s ! k"
      "hs_longest s' = hs_longest s" "hs_verified s' = hs_verified s"
      using Cons.IH [of bs' ?s] Cons.prems bs by auto
    have i: "i \<notin> set ids" "i < length (hs_blocks s)" "i < length (hs_lens s)" using Cons.prems by auto
    have "hs_blocks s' ! ((i # ids) ! j) = Some (bs ! j) \<and> hs_lens s' ! ((i # ids) ! j) = n" if "j < length (i # ids)" for j
      using that i s'(5,6) bs(1) by (cases j) auto
    moreover have "hs_blocks s' ! k = hs_blocks s ! k \<and> hs_lens s' ! k = hs_lens s ! k" if "k \<notin> set (i # ids)" for k
      using that s'(6) by auto
    moreover have "foldE (record_hit n) (zip (i # ids) bs) s = Inr s'" using r s'(1) bs(1) by simp
    ultimately show ?case using s' by (intro exI [of _ s']) simp
  qed simp
  then show thesis using that by blast
qed

section \<open>One probe\<close>

text \<open>What the recorded hit of a specification is worth.\<close>

definition recorded :: "('h, 'b) finder \<Rightarrow> coordinator \<Rightarrow> 'h list \<Rightarrow> int \<Rightarrow> (spec_group \<Rightarrow> int \<Rightarrow> bool) \<Rightarrow>
    spec_group \<Rightarrow> 'b search \<Rightarrow> bool" where
  "recorded look c hashes mx valid sg s \<longleftrightarrow>
     (let l = hs_lens s ! hd (sg_ids sg) in
      0 \<le> l \<and> valid sg l \<and> (\<forall>L. common c valid mx L \<longrightarrow> L \<le> l) \<and>
      (\<exists>m bs. look (sg_cls sg) (group_args c hashes sg False m) = (bs, l) \<and> length bs = length (sg_ids sg) \<and>
         (\<forall>j < length (sg_ids sg). hs_blocks s ! (sg_ids sg ! j) = Some (bs ! j))))"

definition cached :: "spec_group \<Rightarrow> 'b search \<Rightarrow> bool" where
  "cached sg s \<longleftrightarrow> hs_blocks s ! hd (sg_ids sg) \<noteq> None"

definition search_inv :: "('h, 'b) finder \<Rightarrow> coordinator \<Rightarrow> 'h list \<Rightarrow> int \<Rightarrow> (spec_group \<Rightarrow> int \<Rightarrow> bool) \<Rightarrow>
    'b search \<Rightarrow> bool" where
  "search_inv look c hashes mx valid s \<longleftrightarrow>
     length (hs_blocks s) = length (kc_groups c) \<and> length (hs_lens s) = length (kc_groups c) \<and>
     0 \<le> hs_len s \<and> hs_len s \<le> mx \<and> (\<forall>L. common c valid mx L \<longrightarrow> L \<le> hs_len s) \<and>
     (\<forall>sg \<in> set (kc_attention c). cached sg s \<longrightarrow> recorded look c hashes mx valid sg s)"

text \<open>\<open>witnessed\<close>: the length is a hit of some specification.\<close>

definition witnessed :: "coordinator \<Rightarrow> (spec_group \<Rightarrow> int \<Rightarrow> bool) \<Rightarrow> 'b search \<Rightarrow> bool" where
  "witnessed c valid s \<longleftrightarrow> (\<exists>sg \<in> set (kc_attention c). valid sg (hs_len s))"

lemma recordedD:
  assumes "recorded look c hashes mx valid sg s"
  shows "0 \<le> hs_lens s ! hd (sg_ids sg)" "valid sg (hs_lens s ! hd (sg_ids sg))"
    "common c valid mx L \<Longrightarrow> L \<le> hs_lens s ! hd (sg_ids sg)"
  using assms by (simp_all add: recorded_def Let_def)

lemma groups_disjoint:
  assumes "distinct (concat (map sg_ids sgs))" and "sg \<in> set sgs" and "sg' \<in> set sgs" and "sg \<noteq> sg'"
  shows "set (sg_ids sg) \<inter> set (sg_ids sg') = {}"
  using assms by (induction sgs) auto

lemma groupsD:
  assumes "groups_ok c" and "sg \<in> set (kc_attention c)"
  shows "distinct (sg_ids sg)" "sg_ids sg \<noteq> []" "\<forall>i \<in> set (sg_ids sg). i < length (kc_groups c)"
    "hd (sg_ids sg) = sg_ids sg ! 0" "hd (sg_ids sg) < length (kc_groups c)" "hd (sg_ids sg) < length (kc_managers c)"
proof -
  show "distinct (sg_ids sg)" using assms by (auto simp: groups_ok_def distinct_concat_iff)
  show n: "sg_ids sg \<noteq> []" and r: "\<forall>i \<in> set (sg_ids sg). i < length (kc_groups c)"
    using assms by (auto simp: groups_ok_def)
  then show "hd (sg_ids sg) = sg_ids sg ! 0" by (simp add: hd_conv_nth)
  show "hd (sg_ids sg) < length (kc_groups c)" using n r by simp
  then show "hd (sg_ids sg) < length (kc_managers c)" using assms by (simp add: groups_ok_def)
qed


lemma hd_in_group: "sg_ids sg \<noteq> [] \<Longrightarrow> hd (sg_ids sg) \<in> set (sg_ids sg)"
  by simp

text \<open>The probe of a specification whose hit is recorded and can be cut.\<close>

lemma probe_cut:
  assumes S: "search_setup look c hashes mx valid" and sg: "sg \<in> set (kc_attention c)"
    and inv: "search_inv look c hashes mx valid s" and full: "is_full (sg_spec sg)" "cached sg s"
  shows "probe look c hashes mx (idx, sg) s = Inr (s\<lparr>hs_len := min (hs_len s) (hs_lens s ! hd (sg_ids sg))\<rparr>)"
proof -
  note g = groupsD [OF _ sg]
  have gk: "groups_ok c" using S by (simp add: search_setup_def)
  have "length (hs_blocks s) = length (kc_groups c)" "length (hs_lens s) = length (kc_groups c)"
    using inv by (simp_all add: search_inv_def)
  then show ?thesis using full g [OF gk] by (simp add: probe_def nth_res_def cached_def)
qed

lemma probe_fresh:
  assumes S: "search_setup look c hashes mx valid" and sg: "sg \<in> set (kc_attention c)"
    and inv: "search_inv look c hashes mx valid s" and fresh: "\<not> (is_full (sg_spec sg) \<and> cached sg s)"
  obtains s' where "probe look c hashes mx (idx, sg) s = Inr s'" "search_inv look c hashes mx valid s'"
    "hs_len s' \<le> hs_len s" "cached sg s'" "hs_lens s' ! hd (sg_ids sg) = hs_len s'" "valid sg (hs_len s')"
    "\<And>sg'. sg' \<in> set (kc_attention c) \<Longrightarrow> sg' \<noteq> sg \<Longrightarrow>
       cached sg' s' = cached sg' s \<and> hs_lens s' ! hd (sg_ids sg') = hs_lens s ! hd (sg_ids sg')"
proof -
  have gk: "groups_ok c" and law: "lookup_law look c hashes mx valid" and ne: "\<not> sg_eagle sg"
    using S sg by (auto simp: search_setup_def)
  note g = groupsD [OF gk sg]
  have len: "length (hs_blocks s) = length (kc_groups c)" "length (hs_lens s) = length (kc_groups c)"
    and bounds: "0 \<le> hs_len s" "hs_len s \<le> mx" "\<forall>L. common c valid mx L \<longrightarrow> L \<le> hs_len s"
    using inv by (simp_all add: search_inv_def)
  obtain bs n where look: "look (sg_cls sg) (group_args c hashes sg False (hs_len s)) = (bs, n)" by force
  note found = law [unfolded lookup_law_def, rule_format, OF sg bounds(1,2) look]
  then have n: "length bs = length (sg_ids sg)" "0 \<le> n" "n \<le> hs_len s" "valid sg n"
    "\<forall>L. n < L \<and> L \<le> hs_len s \<longrightarrow> \<not> valid sg L"
    by blast+
  obtain s1 where s1: "foldE (record_hit n) (zip (sg_ids sg) bs) s = Inr s1" "hs_len s1 = hs_len s"
      "length (hs_blocks s1) = length (hs_blocks s)" "length (hs_lens s1) = length (hs_lens s)"
      "\<And>j. j < length (sg_ids sg) \<Longrightarrow> hs_blocks s1 ! (sg_ids sg ! j) = Some (bs ! j) \<and> hs_lens s1 ! (sg_ids sg ! j) = n"
      "\<And>i. i \<notin> set (sg_ids sg) \<Longrightarrow> hs_blocks s1 ! i = hs_blocks s ! i \<and> hs_lens s1 ! i = hs_lens s ! i"
    using record_hits [OF g(1) n(1), of s n] g(3) len by metis
  define v where "v = (if n < hs_len s then {} else hs_verified s)"
  define s' where "s' = s1\<lparr>hs_len := n, hs_verified := v, hs_longest := max (hs_longest s1) n\<rparr>"
  have p: "probe look c hashes mx (idx, sg) s = Inr s'"
    using fresh ne g look s1(1) len
    by (auto simp: probe_def nth_res_def cached_def s'_def v_def)
  have 0: "hs_lens s' ! hd (sg_ids sg) = n" "cached sg s'"
    using s1(5) [of 0] g(2,4) by (simp_all add: s'_def cached_def)
  have common: "L \<le> n" if "common c valid mx L" for L
    using that sg n(5) bounds(3) by (auto simp: common_def not_le [symmetric])
  have other: "cached sg' s' = cached sg' s \<and> hs_lens s' ! hd (sg_ids sg') = hs_lens s ! hd (sg_ids sg') \<and>
      (\<forall>j < length (sg_ids sg'). hs_blocks s' ! (sg_ids sg' ! j) = hs_blocks s ! (sg_ids sg' ! j))"
    if "sg' \<in> set (kc_attention c)" "sg' \<noteq> sg" for sg'
  proof -
    have d: "set (sg_ids sg) \<inter> set (sg_ids sg') = {}"
      using groups_disjoint [OF _ sg that(1)] that(2) gk by (auto simp: groups_ok_def)
    then have "i \<in> set (sg_ids sg') \<Longrightarrow> hs_blocks s' ! i = hs_blocks s ! i \<and> hs_lens s' ! i = hs_lens s ! i" for i
      using s1(6) [of i] by (auto simp: s'_def)
    then show ?thesis using hd_in_group [OF groupsD(2) [OF gk that(1)]] by (simp add: cached_def)
  qed
  have "recorded look c hashes mx valid sg' s'" if "sg' \<in> set (kc_attention c)" "cached sg' s'" for sg'
  proof (cases "sg' = sg")
    case True
    have "\<forall>j < length (sg_ids sg). hs_blocks s' ! (sg_ids sg ! j) = Some (bs ! j)" using s1(5) by (simp add: s'_def)
    then show ?thesis using True look n 0(1) common unfolding recorded_def Let_def by blast
  next
    case False
    with other [OF that(1)] that have "recorded look c hashes mx valid sg' s" using inv by (simp add: search_inv_def)
    then show ?thesis using other [OF that(1) False] by (simp add: recorded_def)
  qed
  then have "search_inv look c hashes mx valid s'"
    using n(2,3) bounds(2) common s1(3,4) len by (simp add: search_inv_def s'_def)
  then show thesis using that [OF p] 0 n other by (simp add: s'_def)
qed


lemma probe_ok:
  assumes S: "search_setup look c hashes mx valid" and sg: "sg \<in> set (kc_attention c)"
    and inv: "search_inv look c hashes mx valid s"
  obtains s' where "probe look c hashes mx (idx, sg) s = Inr s'" "search_inv look c hashes mx valid s'"
    "hs_len s' \<le> hs_len s" "cached sg s'" "hs_len s' \<le> hs_lens s' ! hd (sg_ids sg)"
    "\<not> is_full (sg_spec sg) \<Longrightarrow> hs_lens s' ! hd (sg_ids sg) = hs_len s'"
    "witnessed c valid s \<or> \<not> cached sg s \<Longrightarrow> witnessed c valid s'"
    "\<And>sg'. sg' \<in> set (kc_attention c) \<Longrightarrow> sg' \<noteq> sg \<Longrightarrow>
       cached sg' s' = cached sg' s \<and> hs_lens s' ! hd (sg_ids sg') = hs_lens s ! hd (sg_ids sg')"
proof (cases "is_full (sg_spec sg) \<and> cached sg s")
  case True
  let ?l = "hs_lens s ! hd (sg_ids sg)" and ?s = "s\<lparr>hs_len := min (hs_len s) (hs_lens s ! hd (sg_ids sg))\<rparr>"
  have r: "recorded look c hashes mx valid sg s" using inv sg True by (simp add: search_inv_def)
  have "recorded look c hashes mx valid sg' ?s" if "recorded look c hashes mx valid sg' s" for sg'
    using that by (simp add: recorded_def)
  moreover have "0 \<le> ?l" "\<forall>L. common c valid mx L \<longrightarrow> L \<le> ?l" "valid sg ?l" using recordedD [OF r] by simp_all
  ultimately have "search_inv look c hashes mx valid ?s" "witnessed c valid s \<Longrightarrow> witnessed c valid ?s"
    using inv sg by (auto simp: search_inv_def cached_def witnessed_def min_def)
  then show thesis using that [OF probe_cut [OF S sg inv]] True by (auto simp: cached_def)
next
  case False
  from probe_fresh [OF S sg inv False, of idx] obtain s' where
    "probe look c hashes mx (idx, sg) s = Inr s'" "search_inv look c hashes mx valid s'"
    "hs_len s' \<le> hs_len s" "cached sg s'" "hs_lens s' ! hd (sg_ids sg) = hs_len s'" "valid sg (hs_len s')"
    "\<And>sg'. sg' \<in> set (kc_attention c) \<Longrightarrow> sg' \<noteq> sg \<Longrightarrow>
       cached sg' s' = cached sg' s \<and> hs_lens s' ! hd (sg_ids sg') = hs_lens s ! hd (sg_ids sg')"
    by metis
  then show thesis using that [of s'] sg by (auto simp: witnessed_def)
qed

section \<open>One pass over the specifications\<close>

lemma pass_ok:
  assumes S: "search_setup look c hashes mx valid" and "search_inv look c hashes mx valid s"
    and "distinct sgs" and "set sgs \<subseteq> set (kc_attention c)"
  shows "\<exists>s'. foldE (probe look c hashes mx) (enumerate k sgs) s = Inr s' \<and> search_inv look c hashes mx valid s' \<and>
    hs_len s' \<le> hs_len s \<and>
    (\<forall>sg \<in> set sgs. cached sg s' \<and> hs_len s' \<le> hs_lens s' ! hd (sg_ids sg) \<and>
       (\<not> is_full (sg_spec sg) \<longrightarrow> hs_lens s' ! hd (sg_ids sg) \<le> hs_len s)) \<and>
    (\<forall>sg \<in> set (kc_attention c) - set sgs. cached sg s' = cached sg s \<and>
       hs_lens s' ! hd (sg_ids sg) = hs_lens s ! hd (sg_ids sg)) \<and>
    (witnessed c valid s \<or> (sgs \<noteq> [] \<and> \<not> cached (hd sgs) s) \<longrightarrow> witnessed c valid s')"
  using assms(2-)
proof (induction sgs arbitrary: s k)
  case (Cons sg sgs)
  then have sg: "sg \<in> set (kc_attention c)" by simp
  obtain s1 where p: "probe look c hashes mx (k, sg) s = Inr s1" "search_inv look c hashes mx valid s1"
    "hs_len s1 \<le> hs_len s" "cached sg s1" "hs_len s1 \<le> hs_lens s1 ! hd (sg_ids sg)"
    "\<not> is_full (sg_spec sg) \<longrightarrow> hs_lens s1 ! hd (sg_ids sg) = hs_len s1"
    "witnessed c valid s \<or> \<not> cached sg s \<longrightarrow> witnessed c valid s1"
    "\<forall>sg' \<in> set (kc_attention c) - {sg}.
       cached sg' s1 = cached sg' s \<and> hs_lens s1 ! hd (sg_ids sg') = hs_lens s ! hd (sg_ids sg')"
    by (rule probe_ok [OF S sg Cons.prems(1), of k]) blast
  obtain s2 where q: "foldE (probe look c hashes mx) (enumerate (Suc k) sgs) s1 = Inr s2" "search_inv look c hashes mx valid s2"
    "hs_len s2 \<le> hs_len s1"
    "\<forall>sg \<in> set sgs. cached sg s2 \<and> hs_len s2 \<le> hs_lens s2 ! hd (sg_ids sg) \<and>
       (\<not> is_full (sg_spec sg) \<longrightarrow> hs_lens s2 ! hd (sg_ids sg) \<le> hs_len s1)"
    "\<forall>sg \<in> set (kc_attention c) - set sgs. cached sg s2 = cached sg s1 \<and>
       hs_lens s2 ! hd (sg_ids sg) = hs_lens s1 ! hd (sg_ids sg)"
    "witnessed c valid s1 \<longrightarrow> witnessed c valid s2"
    using Cons.IH [OF p(2), of "Suc k"] Cons.prems by auto
  have "sg \<notin> set sgs" using Cons.prems(2) by simp
  then have "cached sg s2 \<and> hs_len s2 \<le> hs_lens s2 ! hd (sg_ids sg) \<and>
       (\<not> is_full (sg_spec sg) \<longrightarrow> hs_lens s2 ! hd (sg_ids sg) \<le> hs_len s)"
    using p q(3,5) sg by auto
  moreover have "\<forall>sg \<in> set sgs. cached sg s2 \<and> hs_len s2 \<le> hs_lens s2 ! hd (sg_ids sg) \<and>
       (\<not> is_full (sg_spec sg) \<longrightarrow> hs_lens s2 ! hd (sg_ids sg) \<le> hs_len s)" using p(3) q(4) by fastforce
  ultimately show ?case using p q by (intro exI [of _ s2]) auto
qed simp

lemma attention_distinct: "groups_ok c \<Longrightarrow> distinct (kc_attention c)"
proof -
  assume g: "groups_ok c"
  have "distinct (concat (map sg_ids sgs)) \<Longrightarrow> \<forall>sg \<in> set sgs. sg_ids sg \<noteq> [] \<Longrightarrow> distinct sgs" for sgs
    by (induction sgs) (auto simp: Int_def, metis hd_in_set)
  with g show ?thesis unfolding groups_ok_def by blast
qed

section \<open>The loop\<close>

definition found :: "('h, 'b) finder \<Rightarrow> coordinator \<Rightarrow> 'h list \<Rightarrow> int \<Rightarrow> (spec_group \<Rightarrow> int \<Rightarrow> bool) \<Rightarrow>
    int \<Rightarrow> 'b search \<Rightarrow> bool" where
  "found look c hashes mx valid h s \<longleftrightarrow>
     length (hs_blocks s) = length (kc_groups c) \<and> length (hs_lens s) = length (kc_groups c) \<and> 0 \<le> h \<and> h \<le> mx \<and>
     (\<forall>L. common c valid mx L \<longrightarrow> L \<le> h) \<and> (\<exists>sg \<in> set (kc_attention c). valid sg h) \<and>
     (\<forall>sg \<in> set (kc_attention c). recorded look c hashes mx valid sg s \<and> h \<le> hs_lens s ! hd (sg_ids sg) \<and>
        (\<not> is_full (sg_spec sg) \<longrightarrow> hs_lens s ! hd (sg_ids sg) = h))"

lemma found_common:
  assumes "search_setup look c hashes mx valid" and "found look c hashes mx valid h s"
  shows "common c valid mx h"
proof -
  obtain sg' where sg': "sg' \<in> set (kc_attention c)" "valid sg' h" using assms(2) by (auto simp: found_def)
  have "valid sg h" if sg: "sg \<in> set (kc_attention c)" for sg
  proof -
    have r: "valid sg (hs_lens s ! hd (sg_ids sg))" "h \<le> hs_lens s ! hd (sg_ids sg)"
      "\<not> is_full (sg_spec sg) \<longrightarrow> hs_lens s ! hd (sg_ids sg) = h"
      using assms(2) sg by (auto simp: found_def dest: recordedD(2))
    show ?thesis
    proof (cases "is_full (sg_spec sg)")
      case True
      have "cut_law c valid" using assms(1) by (simp add: search_setup_def)
      then show ?thesis using sg sg' r(1,2) True unfolding cut_law_def by blast
    next
      case False
      then show ?thesis using r(1,3) by simp
    qed
  qed
  then show ?thesis using assms(2) by (simp add: found_def common_def)
qed

lemma search_loop_ok:
  assumes S: "search_setup look c hashes mx valid" and "search_inv look c hashes mx valid (s\<lparr>hs_len := hit\<rparr>)"
    and "witnessed c valid (s\<lparr>hs_len := hit\<rparr>) \<or> \<not> cached (hd (kc_attention c)) s"
    and "nat hit < fuel" and "\<not> simple_hybrid c"
  shows "\<exists>h s'. search_loop look c hashes mx fuel hit s = Inr (h, s') \<and> found look c hashes mx valid h s'"
  using assms(2-)
proof (induction fuel arbitrary: hit s)
  case (Suc fuel)
  let ?att = "kc_attention c"
  have gk: "groups_ok c" using S by (simp add: search_setup_def)
  then have ne: "?att \<noteq> []" by (simp add: groups_ok_def)
  obtain s1 where p: "foldE (probe look c hashes mx) (enumerate 0 ?att) (s\<lparr>hs_len := hit\<rparr>) = Inr s1"
    "search_inv look c hashes mx valid s1" "hs_len s1 \<le> hit"
    "\<forall>sg \<in> set ?att. cached sg s1 \<and> hs_len s1 \<le> hs_lens s1 ! hd (sg_ids sg) \<and>
       (\<not> is_full (sg_spec sg) \<longrightarrow> hs_lens s1 ! hd (sg_ids sg) \<le> hit)"
    "witnessed c valid s1"
    using pass_ok [OF S Suc.prems(1) attention_distinct [OF gk], of 0] Suc.prems(2) ne by (auto simp: cached_def)
  show ?case
  proof (cases "hs_len s1 \<ge> hit")
    case True
    then have "found look c hashes mx valid hit s1"
      using p by (fastforce simp: found_def search_inv_def witnessed_def)
    then show ?thesis using p(1) True by simp
  next
    case False
    have "\<exists>h s'. search_loop look c hashes mx fuel (hs_len s1) s1 = Inr (h, s') \<and> found look c hashes mx valid h s'"
      using p False Suc.prems(3,4) by (intro Suc.IH) (auto simp: search_inv_def)
    then show ?thesis using p(1) False Suc.prems(4) by simp
  qed
qed simp


text \<open>Full attention and one other specification: one pass is enough.\<close>

lemma search_simple_ok:
  assumes S: "search_setup look c hashes mx valid" and inv: "search_inv look c hashes mx valid (s\<lparr>hs_len := hit\<rparr>)"
    and none: "\<And>sg. sg \<in> set (kc_attention c) \<Longrightarrow> \<not> cached sg s" and simple: "simple_hybrid c"
  shows "\<exists>h s'. search_loop look c hashes mx (Suc fuel) hit s = Inr (h, s') \<and> found look c hashes mx valid h s'"
proof -
  obtain F P where att: "kc_attention c = [F, P]"
    using simple by (auto simp: simple_hybrid_def length_Suc_conv numeral_2_eq_2)
  have "distinct (kc_attention c)" using S attention_distinct by (auto simp: search_setup_def)
  then have FP: "F \<in> set (kc_attention c)" "P \<in> set (kc_attention c)" "F \<noteq> P" by (auto simp: att)
  let ?s = "s\<lparr>hs_len := hit\<rparr>"
  have fresh: "\<not> (is_full (sg_spec F) \<and> cached F ?s)" "\<not> cached P ?s" using none FP by (simp_all add: cached_def)
  obtain s1 where s1: "probe look c hashes mx (0, F) ?s = Inr s1" "search_inv look c hashes mx valid s1"
    "hs_len s1 \<le> hit" "cached F s1" "hs_lens s1 ! hd (sg_ids F) = hs_len s1" "\<not> cached P s1"
    using probe_fresh [OF S FP(1) inv fresh(1), of 0] FP fresh(2) by (metis select_convs(1) surjective update_convs(1))
  obtain s2 where s2: "probe look c hashes mx (1, P) s1 = Inr s2" "search_inv look c hashes mx valid s2"
    "hs_len s2 \<le> hs_len s1" "cached P s2" "hs_lens s2 ! hd (sg_ids P) = hs_len s2" "valid P (hs_len s2)"
    "cached F s2" "hs_lens s2 ! hd (sg_ids F) = hs_len s1"
    using probe_fresh [OF S FP(2) s1(2), of 1] FP s1(4-6) by metis
  have "is_full (sg_spec F)" using simple att by (simp add: simple_hybrid_def)
  then have "found look c hashes mx valid (hs_len s2) s2"
    using s2 FP unfolding found_def search_inv_def att by auto
  moreover have "search_loop look c hashes mx (Suc fuel) hit s = Inr (hs_len s2, s2)"
    using s1(1,3) s2(1,3) simple by (simp add: att)
  ultimately show ?thesis by blast
qed

lemma nothing_cached: "groups_ok c \<Longrightarrow> sg \<in> set (kc_attention c) \<Longrightarrow> hs_blocks s = replicate (length (kc_groups c)) None \<Longrightarrow>
    \<not> cached sg s"
  using groupsD(5) by (simp add: cached_def)

section \<open>The cut of the full attention groups\<close>

lemma cut_groups:
  assumes "distinct ids" and "\<forall>i \<in> set ids. i < length (hs_blocks s)" and "\<forall>i \<in> set ids. hs_blocks s ! i = Some (B i)"
  shows "\<exists>s'. foldE (\<lambda>gid s. bindE (nth_res (hs_blocks s) gid) (\<lambda>bs.
       case bs of None \<Rightarrow> Inr s | Some blks \<Rightarrow> record_hit h (gid, py_slice 0 n blks) s)) ids s = Inr s' \<and>
     length (hs_blocks s') = length (hs_blocks s) \<and> hs_longest s' = hs_longest s \<and>
     (\<forall>i. hs_blocks s' ! i = (if i \<in> set ids then Some (py_slice 0 n (B i)) else hs_blocks s ! i))"
  using assms
proof (induction ids arbitrary: s)
  case (Cons i ids)
  let ?s = "s\<lparr>hs_blocks := (hs_blocks s)[i := Some (py_slice 0 n (B i))], hs_lens := (hs_lens s)[i := h]\<rparr>"
  have step: "bindE (nth_res (hs_blocks s) i) (\<lambda>bs.
       case bs of None \<Rightarrow> Inr s | Some blks \<Rightarrow> record_hit h (i, py_slice 0 n blks) s) = Inr ?s"
    using Cons.prems by (simp add: nth_res_def record_hit_def)
  have "\<forall>k \<in> set ids. hs_blocks ?s ! k = Some (B k)" "\<forall>k \<in> set ids. k < length (hs_blocks ?s)" "distinct ids"
    using Cons.prems by (auto simp: nth_list_update)
  from Cons.IH [OF this(3,2,1)] obtain s' where s': "foldE (\<lambda>gid s. bindE (nth_res (hs_blocks s) gid) (\<lambda>bs.
       case bs of None \<Rightarrow> Inr s | Some blks \<Rightarrow> record_hit h (gid, py_slice 0 n blks) s)) ids ?s = Inr s'"
     "length (hs_blocks s') = length (hs_blocks s)" "hs_longest s' = hs_longest s"
     "\<forall>k. hs_blocks s' ! k = (if k \<in> set ids then Some (py_slice 0 n (B k)) else hs_blocks ?s ! k)" by auto
  have "i < length (hs_blocks s)" "i \<notin> set ids" using Cons.prems by auto
  then have "hs_blocks s' ! k = (if k \<in> set (i # ids) then Some (py_slice 0 n (B k)) else hs_blocks s ! k)" for k
    using s'(4) by (cases "k = i") auto
  then show ?case using s'(1-3) step by (intro exI [of _ s']) simp
qed simp

end
