(* ===== verification/KV_Properties.thy ===== *)
theory KV_Properties
  imports KV_Search_Facts "HOL-Library.Multiset"
begin

text \<open>
  The properties of the coordinator of the KV caches: its groups are split without loss, and the
  search finds the longest hit that all groups share.
\<close>

section \<open>The groups of a constructed coordinator\<close>

definition split_ok :: "nat \<Rightarrow> spec_group list \<Rightarrow> bool" where
  "split_ok n gs \<longleftrightarrow> distinct (concat (map sg_ids gs)) \<and> (\<forall>sg \<in> set gs. sg_ids sg \<noteq> [] \<and> (\<forall>i \<in> set (sg_ids sg). i < n))"

lemma join_group_ok:
  "join_group spec cls i e gs = Inr gs' \<Longrightarrow> \<forall>sg \<in> set gs. sg_ids sg \<noteq> [] \<Longrightarrow>
   mset (concat (map sg_ids gs')) = mset (i # concat (map sg_ids gs)) \<and> (\<forall>sg \<in> set gs'. sg_ids sg \<noteq> [])"
  by (induction gs arbitrary: gs') (auto simp: res_simps split: if_splits)

lemma split_ids: "set (concat (map sg_ids gs)) = (\<Union>sg \<in> set gs. set (sg_ids sg))"
  by simp

lemma split_step_ok:
  assumes ret: "split_step c (i, g) gs = Inr gs'" and ok: "split_ok i gs"
  shows "split_ok (Suc i) gs'"
proof (cases "cs_participates (cg_spec g)")
  case False
  then have "gs' = gs" using ret by (simp add: split_step_def)
  then show ?thesis using ok by (fastforce simp: split_ok_def)
next
  case True
  then obtain m :: single_manager where j: "join_group (cg_spec g) (sm_cls m) i (i \<in> kc_eagle_ids c) gs = Inr gs'"
    using ret by (auto simp: split_step_def res_simps)
  have m: "mset (concat (map sg_ids gs')) = mset (i # concat (map sg_ids gs))" "\<forall>sg \<in> set gs'. sg_ids sg \<noteq> []"
    using join_group_ok [OF j] ok by (auto simp: split_ok_def)
  have r: "\<forall>k \<in> set (concat (map sg_ids gs)). k < i" using ok by (auto simp: split_ok_def)
  then have "distinct (i # concat (map sg_ids gs))" using ok by (auto simp: split_ok_def)
  then have "distinct (concat (map sg_ids gs'))" using m(1) by (metis mset_eq_imp_distinct_iff)
  moreover have "set (concat (map sg_ids gs')) = insert i (set (concat (map sg_ids gs)))"
    using mset_eq_setD [OF m(1)] by simp
  then have "\<forall>k \<in> set (concat (map sg_ids gs')). k < Suc i" using r by (auto simp: less_Suc_eq)
  ultimately show ?thesis using m(2) by (auto simp: split_ok_def)
qed

lemma split_all_ok:
  "foldE (split_step c) (enumerate i gs) acc = Inr r \<Longrightarrow> split_ok i acc \<Longrightarrow> split_ok (i + length gs) r"
proof (induction gs arbitrary: i acc)
  case (Cons g gs)
  then obtain acc1 where a: "split_step c (i, g) acc = Inr acc1" "foldE (split_step c) (enumerate (Suc i) gs) acc1 = Inr r"
    by (auto simp: res_simps)
  show ?case using Cons.IH [OF a(2) split_step_ok [OF a(1) Cons.prems(2)]] by simp
qed simp

lemma split_ok_sort: "split_ok n gs \<Longrightarrow> split_ok n (sort_key f gs)"
proof -
  assume ok: "split_ok n gs"
  have "mset (map sg_ids (sort_key f gs)) = mset (map sg_ids gs)" by simp
  then have "distinct (map sg_ids (sort_key f gs)) = distinct (map sg_ids gs)" by (rule mset_eq_imp_distinct_iff)
  moreover have "removeAll [] (map sg_ids gs) = map sg_ids gs" "removeAll [] (map sg_ids (sort_key f gs)) = map sg_ids (sort_key f gs)"
    using ok by (fastforce simp: split_ok_def intro!: removeAll_id)+
  ultimately show ?thesis using ok by (simp add: split_ok_def distinct_concat_iff)
qed

lemma propagate_length: "foldE propagate_eagle gs ms = Inr ms' \<Longrightarrow> length ms' = length ms"
proof -
  have s: "set_eagle i b xs = Inr ys \<Longrightarrow> length xs = n \<Longrightarrow> length ys = n" for i b xs ys n
    by (auto simp: set_eagle_def res_simps)
  have "propagate_eagle sg xs = Inr ys \<Longrightarrow> length xs = n \<Longrightarrow> length ys = n" for sg xs ys n
    using foldE_inv [of "\<lambda>gid. set_eagle gid True" "sg_ids sg" xs ys "\<lambda>zs. length zs = n"] s
    by (auto simp: propagate_eagle_def split: if_splits)
  then show "foldE propagate_eagle gs ms = Inr ms' \<Longrightarrow> length ms' = length ms"
    using foldE_inv [of propagate_eagle gs ms ms' "\<lambda>zs. length zs = length ms"] by metis
qed

lemma init_base_fields:
  "init_base kind caching a = Inr c \<Longrightarrow> kc_kind c = kind \<and> kc_groups c = ka_groups a \<and> length (kc_managers c) = length (ka_groups a)"
  by (auto simp: init_base_def Let_def res_simps)

lemma hybrid_groups_ok:
  assumes "get_kv_cache_coordinator a = Inr c" and "kc_kind c = Hybrid"
  shows "groups_ok c"
proof -
  have "init_hybrid a = Inr c"
    using assms init_base_fields by (fastforce simp: get_kv_cache_coordinator_def init_unitary_def Let_def res_simps split: if_splits)
  then obtain c0 where c0: "init_base Hybrid (ka_enable_caching a) a = Inr c0" and p: "\<exists>p. verify_and_split (c0\<lparr>kc_partial := p\<rparr>) = Inr c"
    by (auto simp: init_hybrid_def Let_def res_simps)
  then obtain c1 where c1: "verify_and_split c1 = Inr c" "kc_groups c1 = kc_groups c0" "kc_managers c1 = kc_managers c0" by force
  then obtain gs ms where gs: "foldE (split_step c1) (enumerate 0 (kc_groups c1)) [] = Inr gs" "length gs > 1"
    and ms: "foldE propagate_eagle (sort_key (\<lambda>g. \<not> is_full (sg_spec g)) gs) (kc_managers c1) = Inr ms"
    and c: "kc_attention c = sort_key (\<lambda>g. \<not> is_full (sg_spec g)) gs" "kc_managers c = ms" "kc_groups c = kc_groups c1"
    by (auto simp: verify_and_split_def Let_def res_simps)
  have "split_ok (length (kc_groups c)) gs"
    using split_all_ok [OF gs(1)] c(3) by (simp add: split_ok_def)
  then have "split_ok (length (kc_groups c)) (kc_attention c)" unfolding c(1) by (rule split_ok_sort)
  moreover have "length (kc_managers c) = length (kc_groups c)"
    using propagate_length [OF ms] c c1 init_base_fields [OF c0] by simp
  moreover have "length (kc_attention c) = length gs" using c(1) by simp
  then have "kc_attention c \<noteq> []" using gs(2) by auto
  ultimately show ?thesis by (simp add: groups_ok_def split_ok_def)
qed


section \<open>The longest common hit\<close>

lemma hybrid_search_ok:
  fixes look :: "('h, 'b) finder"
  assumes S: "search_setup look c hashes mx valid"
  shows "\<exists>h s. search_loop look c hashes mx (search_fuel mx) mx
      \<lparr>hs_len = mx, hs_longest = 0, hs_blocks = replicate (length (kc_groups c)) None,
       hs_lens = replicate (length (kc_groups c)) 0, hs_verified = {}\<rparr> = Inr (h, s) \<and> found look c hashes mx valid h s"
proof -
  let ?s = "\<lparr>hs_len = mx, hs_longest = 0, hs_blocks = replicate (length (kc_groups c)) None,
     hs_lens = replicate (length (kc_groups c)) 0, hs_verified = {}\<rparr> :: 'b search"
  have gk: "groups_ok c" "0 \<le> mx" using S by (simp_all add: search_setup_def)
  have none: "\<not> cached sg ?s" if "sg \<in> set (kc_attention c)" for sg
    using nothing_cached [OF gk(1) that, of ?s] by simp
  then have inv: "search_inv look c hashes mx valid (?s\<lparr>hs_len := mx\<rparr>)"
    using gk(2) by (simp add: search_inv_def common_def)
  have "hd (kc_attention c) \<in> set (kc_attention c)" using gk(1) by (simp add: groups_ok_def)
  then show ?thesis
    using search_simple_ok [OF S inv none, of "nat mx"] search_loop_ok [OF S inv, of "search_fuel mx"] none
    by (cases "simple_hybrid c") (auto simp: search_fuel_def)
qed

text \<open>
  The blocks that are handed out for the groups of a specification are those of one of its
  lookups that reported the hit; full attention may have reported more, and the first
  specification is cut to the hit.
\<close>

definition hit_cut :: "(int \<Rightarrow> int \<Rightarrow> int) \<Rightarrow> coordinator \<Rightarrow> int \<Rightarrow> spec_group \<Rightarrow> 'b list \<Rightarrow> 'b list" where
  "hit_cut cdiv c h sg bs =
     (if sg = hd (kc_attention c) \<and> is_full (sg_spec sg)
      then py_slice 0 (cdiv h (sm_block_size (kc_managers c ! hd (sg_ids sg)))) bs else bs)"

definition served :: "('h, 'b) finder \<Rightarrow> (int \<Rightarrow> int \<Rightarrow> int) \<Rightarrow> coordinator \<Rightarrow> 'h list \<Rightarrow> int \<Rightarrow> 'b list list \<Rightarrow>
    spec_group \<Rightarrow> bool" where
  "served look cdiv c hashes h blocks sg \<longleftrightarrow>
     (\<exists>m bs l. look (sg_cls sg) (group_args c hashes sg False m) = (bs, l) \<and> h \<le> l \<and>
        (\<not> is_full (sg_spec sg) \<longrightarrow> l = h) \<and>
        (\<forall>j < length (sg_ids sg). blocks ! (sg_ids sg ! j) = hit_cut cdiv c h sg (bs ! j)))"

abbreviation given :: "'b list option list \<Rightarrow> 'b list list" where
  "given \<equiv> map (\<lambda>b. case b of None \<Rightarrow> [] | Some bs \<Rightarrow> bs)"

lemma found_served:
  assumes gk: "groups_ok c" and f: "found look c hashes mx valid h s" and sg: "sg \<in> set (kc_attention c)"
    and len: "length (hs_blocks s') = length (kc_groups c)"
    and bs: "\<And>i B. i \<in> set (sg_ids sg) \<Longrightarrow> hs_blocks s ! i = Some B \<Longrightarrow> hs_blocks s' ! i = Some (hit_cut cdiv c h sg B)"
  shows "served look cdiv c hashes h (given (hs_blocks s')) sg"
proof -
  have "recorded look c hashes mx valid sg s" using f sg by (simp add: found_def)
  then obtain m bs where r: "look (sg_cls sg) (group_args c hashes sg False m) = (bs, hs_lens s ! hd (sg_ids sg))"
    "\<forall>j < length (sg_ids sg). hs_blocks s ! (sg_ids sg ! j) = Some (bs ! j)" by (auto simp: recorded_def Let_def)
  have "given (hs_blocks s') ! (sg_ids sg ! j) = hit_cut cdiv c h sg (bs ! j)" if "j < length (sg_ids sg)" for j
    using that bs [OF nth_mem [OF that]] r(2) groupsD(3) [OF gk sg] len by simp
  moreover have "h \<le> hs_lens s ! hd (sg_ids sg)" "\<not> is_full (sg_spec sg) \<longrightarrow> hs_lens s ! hd (sg_ids sg) = h"
    using f sg by (simp_all add: found_def)
  ultimately show ?thesis using r(1) unfolding served_def by blast
qed

lemma truncate_ok:
  assumes gk: "groups_ok c" and f: "found look c hashes mx valid h s"
  shows "\<exists>s'. truncate_full cdiv c h s = Inr s' \<and> length (hs_blocks s') = length (kc_groups c) \<and>
    (\<forall>sg \<in> set (kc_attention c). served look cdiv c hashes h (given (hs_blocks s')) sg)"
proof -
  let ?F = "hd (kc_attention c)"
  have F: "?F \<in> set (kc_attention c)" "nth_res (kc_attention c) 0 = Inr ?F"
    using gk by (auto simp: groups_ok_def nth_res_def hd_conv_nth)
  note gF = groupsD [OF gk F(1)]
  have ln: "length (hs_blocks s) = length (kc_groups c)" using f by (simp add: found_def)
  show ?thesis
  proof (cases "is_full (sg_spec ?F)")
    case False
    then have "truncate_full cdiv c h s = Inr s" using F(2) by (simp add: truncate_full_def)
    moreover have "served look cdiv c hashes h (given (hs_blocks s)) sg" if "sg \<in> set (kc_attention c)" for sg
    proof (rule found_served [OF gk f that ln])
      fix i B
      assume "hs_blocks s ! i = Some B"
      with False show "hs_blocks s ! i = Some (hit_cut cdiv c h sg B)" by (auto simp: hit_cut_def)
    qed
    ultimately show ?thesis using ln by blast
  next
    case True
    let ?n = "cdiv h (sm_block_size (kc_managers c ! hd (sg_ids ?F)))"
    have "recorded look c hashes mx valid ?F s" using f F(1) by (simp add: found_def)
    then have "\<forall>i \<in> set (sg_ids ?F). hs_blocks s ! i = Some (the (hs_blocks s ! i))"
      by (auto simp: recorded_def Let_def in_set_conv_nth)
    from cut_groups [OF gF(1) _ this, of h ?n] gF(3) ln obtain s' where
      cut: "foldE (\<lambda>gid s. bindE (nth_res (hs_blocks s) gid) (\<lambda>bs.
       case bs of None \<Rightarrow> Inr s | Some blks \<Rightarrow> record_hit h (gid, py_slice 0 ?n blks) s)) (sg_ids ?F) s = Inr s'"
      and s': "length (hs_blocks s') = length (kc_groups c)"
      "\<forall>i. hs_blocks s' ! i = (if i \<in> set (sg_ids ?F) then Some (py_slice 0 ?n (the (hs_blocks s ! i))) else hs_blocks s ! i)"
      by auto
    have t: "truncate_full cdiv c h s = Inr s'"
    proof -
      have "nth_res (sg_ids ?F) 0 = Inr (hd (sg_ids ?F))"
        "nth_res (kc_managers c) (hd (sg_ids ?F)) = Inr (kc_managers c ! hd (sg_ids ?F))"
        using gF(2,4,6) by (simp_all add: nth_res_def)
      then show ?thesis using True cut by (simp only: truncate_full_def F(2) bindE.simps Let_def if_True)
    qed
    have "served look cdiv c hashes h (given (hs_blocks s')) sg" if sg: "sg \<in> set (kc_attention c)" for sg
    proof -
      have "sg \<noteq> ?F \<Longrightarrow> set (sg_ids sg) \<inter> set (sg_ids ?F) = {}"
        using groups_disjoint [OF _ sg F(1)] gk by (simp add: groups_ok_def)
      then have "hs_blocks s' ! i = Some (hit_cut cdiv c h sg B)" if "i \<in> set (sg_ids sg)" "hs_blocks s ! i = Some B" for i B
        using s'(2) that True by (cases "sg = ?F") (auto simp: hit_cut_def)
      then show ?thesis by (rule found_served [OF gk f sg s'(1)])
    qed
    then show ?thesis using t s'(1) by blast
  qed
qed

text \<open>
  C23: the hybrid coordinator finds the longest common hit. When no specification group has a
  drafter, every lookup reports the longest hit within its bound, and a hit of a full attention
  group can be cut to any length that is a hit elsewhere, then the search ends, and its length is
  a hit of every specification and no longer one is. The blocks of each group come from a lookup
  that reported this length; a specification of full attention may have reported more, and the
  first one is cut.
\<close>

theorem hybrid_hit_is_greatest:
  assumes init: "get_kv_cache_coordinator a = Inr c" and kind: "kc_kind c = Hybrid"
    and plain: "\<forall>sg \<in> set (kc_attention c). \<not> sg_eagle sg" and mx: "0 \<le> mx"
    and law: "lookup_law look c hashes mx valid" and cut: "cut_law c valid"
  shows "\<exists>blocks h u. find_longest_cache_hit look cdiv c hashes mx = Inr (blocks, h, u) \<and>
    common c valid mx h \<and> (\<forall>L. common c valid mx L \<longrightarrow> L \<le> h) \<and> length blocks = length (kc_groups c) \<and>
    (\<forall>sg \<in> set (kc_attention c). served look cdiv c hashes h blocks sg)"
proof -
  have gk: "groups_ok c" by (rule hybrid_groups_ok [OF init kind])
  have S: "search_setup look c hashes mx valid" using gk plain mx law cut by (simp add: search_setup_def)
  from hybrid_search_ok [OF S] obtain h s where
    s: "search_loop look c hashes mx (search_fuel mx) mx
      \<lparr>hs_len = mx, hs_longest = 0, hs_blocks = replicate (length (kc_groups c)) None,
       hs_lens = replicate (length (kc_groups c)) 0, hs_verified = {}\<rparr> = Inr (h, s)"
    "found look c hashes mx valid h s" by blast
  from truncate_ok [OF gk s(2)] obtain s' where s': "truncate_full cdiv c h s = Inr s'"
    "length (hs_blocks s') = length (kc_groups c)"
    "\<forall>sg \<in> set (kc_attention c). served look cdiv c hashes h (given (hs_blocks s')) sg" by blast
  have "find_longest_cache_hit look cdiv c hashes mx = Inr (given (hs_blocks s'), h, hs_longest s' - h)"
    using s(1) s'(1) kind by (simp add: find_longest_cache_hit_def hybrid_search_def)
  moreover have "\<forall>L. common c valid mx L \<longrightarrow> L \<le> h" using s(2) by (simp add: found_def)
  ultimately show ?thesis using found_common [OF S s(2)] s'(2,3) by simp
qed


section \<open>Examples\<close>

text \<open>
  A coordinator of blocks of four tokens with one full attention group and two sliding windows, whose
  managers have cached the lengths of \<open>cached_at\<close>; a second one in which the last
  group is another full attention specification.
\<close>

definition demo_kv_spec :: "spec_kind \<Rightarrow> nat \<Rightarrow> cache_group" where
  "demo_kv_spec k n = \<lparr>cg_spec = \<lparr>cs_kind = k, cs_block_size = 4, cs_participates = True, cs_rest = n\<rparr>, cg_eagle = False\<rparr>"

definition demo_kv_args :: "spec_kind \<Rightarrow> coordinator_args" where
  "demo_kv_args k = \<lparr>ka_groups = [demo_kv_spec SlidingWindow 0, demo_kv_spec FullAttention 1, demo_kv_spec k 2],
     ka_use_eagle = False, ka_enable_caching = True, ka_dcp = 1, ka_pcp = 1, ka_sched_block = 4, ka_hash_block = 4,
     ka_retention = None, ka_manager = (\<lambda>s i. \<lparr>sm_cls = cs_rest s, sm_block_size = cs_block_size s, sm_fine = False,
       sm_cross = False, sm_use_eagle = False\<rparr>)\<rparr>"

definition demo_kv :: "spec_kind \<Rightarrow> coordinator" where
  "demo_kv k = projr (get_kv_cache_coordinator (demo_kv_args k))"

definition cached_at :: "nat \<Rightarrow> int list" where
  "cached_at n = (if n = 0 then [0, 4, 12] else if n = 1 then [0, 4, 8, 12] else [0, 4, 8])"

definition demo_lookup_kv :: "(unit, int) finder" where
  "demo_lookup_kv cls a =
     (let n = Max (insert 0 (set (filter (\<lambda>l. l \<le> la_max a) (cached_at cls))))
      in (map (\<lambda>_. [0..n div 4 - 1]) (la_ids a), n))"

definition demo_cached :: "spec_group \<Rightarrow> int \<Rightarrow> bool" where
  "demo_cached sg L \<longleftrightarrow> L \<in> set (cached_at (sg_cls sg))"

lemma demo_kv_ok: "get_kv_cache_coordinator (demo_kv_args SlidingWindow) = Inr (demo_kv SlidingWindow)"
proof -
  have "\<not> isl (get_kv_cache_coordinator (demo_kv_args SlidingWindow))" by code_simp
  then show ?thesis by (cases "get_kv_cache_coordinator (demo_kv_args SlidingWindow)") (simp_all add: demo_kv_def)
qed

lemma demo_cached_greatest:
  assumes "0 \<le> m" and n: "n = Max (insert 0 (set (filter (\<lambda>l. l \<le> m) (cached_at k))))"
  shows "0 \<le> n \<and> n \<le> m \<and> n \<in> set (cached_at k) \<and> (\<forall>L. n < L \<and> L \<le> m \<longrightarrow> L \<notin> set (cached_at k))"
proof -
  let ?A = "insert 0 (set (filter (\<lambda>l. l \<le> m) (cached_at k)))"
  have "n \<in> ?A" unfolding n by (rule Max_in) simp_all
  moreover have "0 \<in> set (cached_at k)" by (simp add: cached_at_def)
  moreover have "x \<le> n" if "x \<in> ?A" for x unfolding n using that by (intro Max_ge) simp_all
  ultimately show ?thesis using assms(1) by force
qed

lemma demo_law: "lookup_law demo_lookup_kv c [] mx demo_cached"
  unfolding lookup_law_def
proof (intro ballI allI impI)
  fix sg m n bs
  assume m: "0 \<le> m" and look: "demo_lookup_kv (sg_cls sg) (group_args c [] sg False m) = (bs, n)"
  have n: "n = Max (insert 0 (set (filter (\<lambda>l. l \<le> m) (cached_at (sg_cls sg)))))" and "length bs = length (sg_ids sg)"
    using look by (auto simp: demo_lookup_kv_def Let_def group_args_def)
  with demo_cached_greatest [OF m n]
  show "length bs = length (sg_ids sg) \<and> 0 \<le> n \<and> n \<le> m \<and> demo_cached sg n \<and> (\<forall>L. n < L \<and> L \<le> m \<longrightarrow> \<not> demo_cached sg L)"
    by (simp add: demo_cached_def)
qed

definition ceil_div :: "int \<Rightarrow> int \<Rightarrow> int" where
  "ceil_div a b = - ((- a) div b)"

theorem hybrid_hit_is_greatest_witness:
  "find_longest_cache_hit demo_lookup_kv ceil_div (demo_kv SlidingWindow) [] 12 = Inr ([[0], [0], [0]], 4, 8) \<and>
   common (demo_kv SlidingWindow) demo_cached 12 4"
proof -
  let ?c = "demo_kv SlidingWindow"
  have run: "find_longest_cache_hit demo_lookup_kv ceil_div ?c [] 12 = Inr ([[0], [0], [0]], 4, 8)" by code_simp
  have k: "kc_kind ?c = Hybrid" by code_simp
  let ?f = "\<lambda>sg. (is_full (sg_spec sg), sg_cls sg, sg_eagle sg)"
  have eval: "map ?f (kc_attention ?c) = [(True, 1, False), (False, 0, False), (False, 2, False)]" by code_simp
  have "?f sg \<in> set (map ?f (kc_attention ?c))" if "sg \<in> set (kc_attention ?c)" for sg
    unfolding set_map using that by (rule imageI)
  then have att: "?f sg \<in> {(True, 1, False), (False, 0, False), (False, 2, False)}" if "sg \<in> set (kc_attention ?c)" for sg
    using that unfolding eval by simp
  have plain: "\<forall>sg \<in> set (kc_attention ?c). \<not> sg_eagle sg" using att by auto
  have "demo_cached sg b" if "sg \<in> set (kc_attention ?c)" "sg' \<in> set (kc_attention ?c)" "is_full (sg_spec sg)"
      "demo_cached sg' b" for sg sg' b
    using att [OF that(1)] att [OF that(2)] that(3,4) by (auto simp: demo_cached_def cached_at_def)
  then have cut: "cut_law ?c demo_cached" unfolding cut_law_def by blast
  show ?thesis
    using hybrid_hit_is_greatest [OF demo_kv_ok k plain _ demo_law cut, of 12 ceil_div] run by auto
qed

text \<open>The second full attention specification keeps two blocks although the hit is one block long.\<close>

lemma second_full_not_cut:
  "find_longest_cache_hit demo_lookup_kv ceil_div (demo_kv FullAttention) [] 12 = Inr ([[0], [0], [0, 1]], 4, 8)"
  by code_simp

end
