(* ===== verification/Region_Files.thy ===== *)
theory Region_Files
  imports Main
begin

text \<open>
  The protocol by which the workers of an engine agree on the file behind the tier
  (\<open>SharedOffloadRegion.__init__\<close> and \<open>_open_hugetlb_region\<close> in
  \<open>v1/kv_offload/cpu/shared_offload_region.py\<close>), as a step relation over the file system and the
  workers. Each step is one system call, so that the workers interleave at every call.

  A file is an inode with its size; a path names at most one inode, and an open inode lives on
  after its path was unlinked. \<open>need\<close> is \<open>total_size_bytes\<close>, which all workers compute alike, and
  \<open>huge\<close> says whether the environment asks for huge pages. \<open>V p\<close> is the verdict of worker \<open>p\<close> as a
  creator on the huge page mount: its validation and its \<open>ftruncate\<close> succeed. The stock creator
  may fail at any time, a waiting worker may time out whenever the file is still too small, and
  \<open>fstat\<close> may fail. \<open>faulty\<close> says whether a call on a path that exists may fail as if it were gone:
  the reopening with any \<open>OSError\<close> (no descriptors left, no permission), which the code takes for a
  vanished file, and the \<open>stat\<close> behind \<open>os.path.exists\<close>, which answers no when it fails.
  The clean-up at shutdown is not part of the start.
\<close>

section \<open>Files\<close>

datatype backing = Shm | Huge

record files =
  fs_path :: "backing \<Rightarrow> nat option"
  fs_size :: "nat \<Rightarrow> int"
  fs_next :: nat

definition create_file :: "backing \<Rightarrow> files \<Rightarrow> files" where
  "create_file b f =
     f\<lparr>fs_path := (fs_path f)(b := Some (fs_next f)), fs_size := (fs_size f)(fs_next f := 0),
       fs_next := Suc (fs_next f)\<rparr>"

definition unlink_path :: "backing \<Rightarrow> files \<Rightarrow> files" where
  "unlink_path b f = f\<lparr>fs_path := (fs_path f)(b := None)\<rparr>"

definition truncate_file :: "nat \<Rightarrow> int \<Rightarrow> files \<Rightarrow> files" where
  "truncate_file i n f = f\<lparr>fs_size := (fs_size f)(i := n)\<rparr>"

section \<open>Workers\<close>

text \<open>
  Where a worker is: about to open exclusively, holding the stub it created, about to unlink its
  stub, about to reopen the file of another worker, waiting for its size, looking whether the path
  is still there after the time-out, or at the end.
\<close>

datatype phase =
    Opening backing
  | Stub backing nat
  | Discarding backing
  | Reopening backing
  | Waiting backing nat
  | Timed_out backing
  | Mapped backing nat
  | Failed

definition first_phase :: "bool \<Rightarrow> phase" where
  "first_phase huge = Opening (if huge then Huge else Shm)"

text \<open>A failure on the huge page mount goes on with the stock file, a failure there ends the worker.\<close>

definition after_failure :: "backing \<Rightarrow> phase" where
  "after_failure b = (case b of Huge \<Rightarrow> Opening Shm | Shm \<Rightarrow> Failed)"

inductive worker_step :: "bool \<Rightarrow> int \<Rightarrow> bool \<Rightarrow> files \<times> phase \<Rightarrow> files \<times> phase \<Rightarrow> bool"
  for faulty :: bool and need :: int and verdict :: bool where
  win: "fs_path f b = None \<Longrightarrow>
    worker_step faulty need verdict (f, Opening b) (create_file b f, Stub b (fs_next f))"
| lose: "fs_path f b = Some i \<Longrightarrow>
    worker_step faulty need verdict (f, Opening b) (f, Reopening b)"
| denied: "worker_step faulty need verdict (f, Opening b) (f, Failed)"
| truncate: "b = Shm \<and> n = need \<or> b = Huge \<and> verdict \<and> need \<le> n \<Longrightarrow>
    worker_step faulty need verdict (f, Stub b i) (truncate_file i n f, Mapped b i)"
| reject: "b = Shm \<or> \<not> verdict \<Longrightarrow>
    worker_step faulty need verdict (f, Stub b i) (f, Discarding b)"
| discard: "worker_step faulty need verdict (f, Discarding b) (unlink_path b f, after_failure b)"
| undiscarded: "worker_step faulty need verdict (f, Discarding b) (f, after_failure b)"
| reopen: "fs_path f b = Some i \<Longrightarrow>
    worker_step faulty need verdict (f, Reopening b) (f, Waiting b i)"
| vanished: "fs_path f b = None \<Longrightarrow>
    worker_step faulty need verdict (f, Reopening b) (f, after_failure b)"
| refused: "faulty \<Longrightarrow>
    worker_step faulty need verdict (f, Reopening b) (f, after_failure b)"
| sized: "need \<le> fs_size f i \<Longrightarrow>
    worker_step faulty need verdict (f, Waiting b i) (f, Mapped b i)"
| timeout: "fs_size f i < need \<Longrightarrow>
    worker_step faulty need verdict (f, Waiting b i) (f, if b = Huge then Timed_out b else Failed)"
| unreadable: "worker_step faulty need verdict (f, Waiting b i) (f, if b = Huge then Timed_out b else Failed)"
| abandoned: "fs_path f b = None \<Longrightarrow>
    worker_step faulty need verdict (f, Timed_out b) (f, after_failure b)"
| still_there: "fs_path f b = Some i \<Longrightarrow>
    worker_step faulty need verdict (f, Timed_out b) (f, Failed)"
| overlooked: "faulty \<Longrightarrow>
    worker_step faulty need verdict (f, Timed_out b) (f, after_failure b)"

inductive_cases worker_stepE: "worker_step faulty need verdict (f, ph) (f', ph')"

section \<open>The start of an engine\<close>

type_synonym start_state = "files \<times> (nat \<Rightarrow> phase)"

definition initial_files :: files where
  "initial_files = \<lparr>fs_path = (\<lambda>_. None), fs_size = (\<lambda>_. 0), fs_next = 0\<rparr>"

inductive startup :: "bool \<Rightarrow> int \<Rightarrow> bool \<Rightarrow> (nat \<Rightarrow> bool) \<Rightarrow> start_state \<Rightarrow> bool"
  for faulty :: bool and need :: int and huge :: bool and V :: "nat \<Rightarrow> bool" where
  begins: "startup faulty need huge V (initial_files, \<lambda>_. first_phase huge)"
| steps: "startup faulty need huge V (f, W) \<Longrightarrow> worker_step faulty need (V p) (f, W p) (f', ph) \<Longrightarrow>
    startup faulty need huge V (f', W(p := ph))"

end
