(* ===== verification/Region_Files_Facts.thy ===== *)
theory Region_Files_Facts
  imports Region_Files
begin

text \<open>
  The invariant of the start: a path that a worker has mapped is never unlinked, because only the
  holder of a stub unlinks it, and a stub is never large enough to be mapped by another worker.
\<close>

definition owns :: "(nat \<Rightarrow> phase) \<Rightarrow> nat \<Rightarrow> backing \<Rightarrow> bool" where
  "owns W p b \<longleftrightarrow> W p = Discarding b \<or> (\<exists>i. W p = Stub b i)"

definition paths_ok :: "files \<Rightarrow> bool" where
  "paths_ok f \<longleftrightarrow> (\<forall>b i. fs_path f b = Some i \<longrightarrow> i < fs_next f) \<and>
     (\<forall>b b' i. fs_path f b = Some i \<longrightarrow> fs_path f b' = Some i \<longrightarrow> b = b')"

definition phase_ok :: "int \<Rightarrow> files \<Rightarrow> phase \<Rightarrow> bool" where
  "phase_ok need f ph \<longleftrightarrow>
     (case ph of
        Stub b i \<Rightarrow> fs_path f b = Some i \<and> fs_size f i < need
      | Discarding b \<Rightarrow> (\<exists>i. fs_path f b = Some i \<and> fs_size f i < need)
      | Mapped b i \<Rightarrow> fs_path f b = Some i \<and> need \<le> fs_size f i
      | Waiting b i \<Rightarrow> i < fs_next f \<and> (\<forall>b'. fs_path f b' = Some i \<longrightarrow> b' = b)
      | _ \<Rightarrow> True)"

definition start_inv :: "int \<Rightarrow> start_state \<Rightarrow> bool" where
  "start_inv need s \<longleftrightarrow> (case s of (f, W) \<Rightarrow>
     paths_ok f \<and> (\<forall>p. phase_ok need f (W p)) \<and>
     (\<forall>p q b. owns W p b \<longrightarrow> owns W q b \<longrightarrow> p = q) \<and>
     (\<forall>i. i < fs_next f \<longrightarrow> need \<le> fs_size f i \<longrightarrow> (\<exists>b. fs_path f b = Some i)))"

lemma owned_path: "phase_ok need f (W p) \<Longrightarrow> owns W p b \<Longrightarrow> \<exists>i. fs_path f b = Some i \<and> fs_size f i < need"
  by (auto simp: owns_def phase_ok_def)

lemma owns_upd: "owns (W(p := ph)) q b \<longleftrightarrow> (if q = p then ph = Discarding b \<or> (\<exists>i. ph = Stub b i) else owns W q b)"
  by (simp add: owns_def)

text \<open>A new file.\<close>

lemma create_ok:
  assumes "start_inv need (f, W)" and "fs_path f b = None" and "0 < need"
  shows "start_inv need (create_file b f, W(p := Stub b (fs_next f)))"
proof -
  have P: "paths_ok f" and O: "\<forall>p q b. owns W p b \<longrightarrow> owns W q b \<longrightarrow> p = q" and ph: "\<forall>p. phase_ok need f (W p)"
    and H: "\<forall>i. i < fs_next f \<longrightarrow> need \<le> fs_size f i \<longrightarrow> (\<exists>b. fs_path f b = Some i)"
    using assms(1) by (simp_all add: start_inv_def)
  have lt: "fs_path f b' = Some i \<Longrightarrow> i < fs_next f" for b' i using P by (auto simp: paths_ok_def)
  have new: "fs_path f b' \<noteq> Some (fs_next f)" for b' using lt by blast
  have "paths_ok (create_file b f)"
    using P lt new by (auto simp: paths_ok_def create_file_def less_Suc_eq)
  moreover have "phase_ok need (create_file b f) (W q)" for q
    using ph [rule_format, of q] assms(2) lt new
    by (auto simp: phase_ok_def create_file_def less_Suc_eq split: phase.splits) metis
  moreover have "phase_ok need (create_file b f) (Stub b (fs_next f))"
    using assms(3) by (simp add: phase_ok_def create_file_def)
  moreover have "\<not> owns W q b" for q
    using owned_path [of need f W q b] ph assms(2) by auto
  then have "\<forall>r q c. owns (W(p := Stub b (fs_next f))) r c \<longrightarrow> owns (W(p := Stub b (fs_next f))) q c \<longrightarrow> r = q"
    using O unfolding owns_upd by (auto split: if_splits)
  moreover have "\<exists>c. fs_path (create_file b f) c = Some i"
    if "i < fs_next (create_file b f)" "need \<le> fs_size (create_file b f) i" for i
  proof -
    have "i < fs_next f" "need \<le> fs_size f i"
      using that assms(3) by (auto simp: create_file_def less_Suc_eq split: if_splits)
    then obtain c where "fs_path f c = Some i" using H by auto
    then show ?thesis using assms(2) by (intro exI [of _ c]) (auto simp: create_file_def)
  qed
  ultimately show ?thesis by (simp add: start_inv_def)
qed


text \<open>The other steps change at most one path or one size.\<close>

lemma move_ok:
  assumes "start_inv need (f, W)" and "phase_ok need f ph" and "\<And>b. owns (W(p := ph)) p b \<Longrightarrow> owns W p b"
  shows "start_inv need (f, W(p := ph))"
  using assms unfolding start_inv_def owns_upd by (auto simp: owns_upd)

lemma truncate_file_ok:
  assumes inv: "start_inv need (f, W)" and p: "W p = Stub b i" and n: "need \<le> n"
  shows "start_inv need (truncate_file i n f, W(p := Mapped b i))"
proof -
  have P: "paths_ok f" and O: "\<forall>p q b. owns W p b \<longrightarrow> owns W q b \<longrightarrow> p = q" and ph: "\<forall>p. phase_ok need f (W p)"
    and H: "\<forall>i. i < fs_next f \<longrightarrow> need \<le> fs_size f i \<longrightarrow> (\<exists>b. fs_path f b = Some i)"
    using inv by (simp_all add: start_inv_def)
  have i: "fs_path f b = Some i" using ph [rule_format, of p] p by (simp add: phase_ok_def)
  have own: "owns W p b" using p by (simp add: owns_def)
  have other: "phase_ok need (truncate_file i n f) (W q)" if "q \<noteq> p" for q
  proof -
    have "fs_path f b' = Some i \<Longrightarrow> \<not> owns W q b'" for b'
      using P i O own that by (metis paths_ok_def)
    then show ?thesis using ph [rule_format, of q] n
      by (auto simp: phase_ok_def truncate_file_def owns_def split: phase.splits) metis+
  qed
  have "paths_ok (truncate_file i n f)" using P by (simp add: paths_ok_def truncate_file_def)
  moreover have "phase_ok need (truncate_file i n f) ((W(p := Mapped b i)) q)" for q
    using other [of q] i n by (auto simp: phase_ok_def truncate_file_def)
  moreover have "\<forall>r q c. owns (W(p := Mapped b i)) r c \<longrightarrow> owns (W(p := Mapped b i)) q c \<longrightarrow> r = q"
    using O unfolding owns_upd by auto
  moreover have "\<forall>k. k < fs_next (truncate_file i n f) \<longrightarrow> need \<le> fs_size (truncate_file i n f) k \<longrightarrow>
      (\<exists>c. fs_path (truncate_file i n f) c = Some k)"
    using H i by (auto simp: truncate_file_def)
  ultimately show ?thesis by (simp add: start_inv_def)
qed

lemma discard_ok:
  assumes inv: "start_inv need (f, W)" and p: "W p = Discarding b" and ph': "\<And>c i. ph \<noteq> Stub c i \<and> ph \<noteq> Discarding c"
    and ph'': "phase_ok need (unlink_path b f) ph"
  shows "start_inv need (unlink_path b f, W(p := ph))"
proof -
  have P: "paths_ok f" and O: "\<forall>p q b. owns W p b \<longrightarrow> owns W q b \<longrightarrow> p = q" and phs: "\<forall>p. phase_ok need f (W p)"
    and H: "\<forall>i. i < fs_next f \<longrightarrow> need \<le> fs_size f i \<longrightarrow> (\<exists>b. fs_path f b = Some i)"
    using inv by (simp_all add: start_inv_def)
  obtain i where i: "fs_path f b = Some i" "fs_size f i < need" using phs [rule_format, of p] p by (auto simp: phase_ok_def)
  have own: "owns W p b" using p by (simp add: owns_def)
  have other: "phase_ok need (unlink_path b f) (W q)" if "q \<noteq> p" for q
  proof -
    have "\<not> owns W q b" using O own that by blast
    then show ?thesis using phs [rule_format, of q] i
      by (auto simp: phase_ok_def unlink_path_def owns_def split: phase.splits)
  qed
  have "paths_ok (unlink_path b f)" using P by (auto simp: paths_ok_def unlink_path_def)
  moreover have "phase_ok need (unlink_path b f) ((W(p := ph)) q)" for q using other [of q] ph'' by simp
  moreover have "\<forall>r q c. owns (W(p := ph)) r c \<longrightarrow> owns (W(p := ph)) q c \<longrightarrow> r = q"
    using O ph' unfolding owns_upd by auto
  moreover have "\<exists>c. fs_path (unlink_path b f) c = Some k" if k: "k < fs_next (unlink_path b f)" "need \<le> fs_size (unlink_path b f) k" for k
  proof -
    obtain c where "fs_path f c = Some k" using H k by (auto simp: unlink_path_def)
    moreover have "c \<noteq> b" using calculation i k(2) by (auto simp: unlink_path_def)
    ultimately show ?thesis by (auto simp: unlink_path_def intro: exI [of _ c])
  qed
  ultimately show ?thesis by (simp add: start_inv_def)
qed

lemma after_failure_plain: "after_failure b \<noteq> Stub c i \<and> after_failure b \<noteq> Discarding c"
  "phase_ok need f (after_failure b)"
  by (simp_all add: after_failure_def phase_ok_def split: backing.split)

lemma worker_step_inv:
  assumes step: "worker_step faulty need v (f, W p) (f', ph)" and inv: "start_inv need (f, W)" and need: "0 < need"
  shows "start_inv need (f', W(p := ph))"
proof -
  have phs: "phase_ok need f (W p)" and H: "\<forall>i. i < fs_next f \<longrightarrow> need \<le> fs_size f i \<longrightarrow> (\<exists>b. fs_path f b = Some i)"
    and P: "paths_ok f" using inv by (simp_all add: start_inv_def)
  note mv = move_ok [OF inv] and eqs = phase_ok_def owns_def
  have sized_path: "fs_path f b = Some i" if "W p = Waiting b i" "need \<le> fs_size f i" for b i
    using phs H that by (force simp: phase_ok_def)
  show ?thesis
    using step
  proof (cases rule: worker_step.cases)
    case (win b) then show ?thesis using create_ok [OF inv _ need] by simp
  next
    case (lose b i) then show ?thesis by (auto intro!: mv simp: eqs)
  next
    case (denied b) then show ?thesis by (auto intro!: mv simp: eqs)
  next
    case (truncate b n i) then show ?thesis using truncate_file_ok [OF inv] by auto
  next
    case (reject b i) then show ?thesis using phs by (auto intro!: mv simp: eqs)
  next
    case (discard b) then show ?thesis
      using discard_ok [OF inv _ after_failure_plain(1) after_failure_plain(2)] by simp
  next
    case (undiscarded b) then show ?thesis using after_failure_plain by (auto intro!: mv simp: owns_def)
  next
    case (reopen b i) then show ?thesis using P by (auto intro!: mv simp: eqs paths_ok_def)
  next
    case (vanished b) then show ?thesis using after_failure_plain by (auto intro!: mv simp: owns_def)
  next
    case (refused b) then show ?thesis using after_failure_plain by (auto intro!: mv simp: owns_def)
  next
    case (sized i b) then show ?thesis using sized_path by (auto intro!: mv simp: eqs)
  next
    case (timeout i b) then show ?thesis by (auto intro!: mv simp: eqs)
  next
    case (unreadable b i) then show ?thesis by (auto intro!: mv simp: eqs)
  next
    case (abandoned b) then show ?thesis using after_failure_plain by (auto intro!: mv simp: owns_def)
  next
    case (still_there b i) then show ?thesis by (auto intro!: mv simp: eqs)
  next
    case (overlooked b) then show ?thesis using after_failure_plain by (auto intro!: mv simp: owns_def)
  qed
qed

lemma startup_inv: "startup faulty need huge V (f, W) \<Longrightarrow> 0 < need \<Longrightarrow> start_inv need (f, W)"
proof (induction "(f, W)" arbitrary: f W rule: startup.induct)
  case begins
  have "phase_ok need initial_files (first_phase huge)" "\<not> owns (\<lambda>_. first_phase huge) p b" for p b
    by (simp_all add: first_phase_def phase_ok_def owns_def)
  then show ?case by (simp add: start_inv_def paths_ok_def initial_files_def)
next
  case (steps f W p f' ph)
  then show ?case using worker_step_inv by blast
qed

text \<open>
  Where the workers can be when all of them reach the same verdict on the huge page mount: on it,
  if it is asked for and every creator finds it good, and otherwise not mapped there.
\<close>

definition good_place :: "files \<Rightarrow> phase \<Rightarrow> bool" where
  "good_place f ph \<longleftrightarrow>
     (case ph of
        Opening b \<Rightarrow> b = Huge
      | Stub b i \<Rightarrow> b = Huge
      | Discarding b \<Rightarrow> False
      | Reopening b \<Rightarrow> b = Huge \<and> fs_path f b \<noteq> None
      | Waiting b i \<Rightarrow> b = Huge \<and> fs_path f b \<noteq> None
      | Timed_out b \<Rightarrow> b = Huge \<and> fs_path f b \<noteq> None
      | Mapped b i \<Rightarrow> b = Huge
      | Failed \<Rightarrow> True)"

lemma good_step:
  assumes "worker_step False need True (f, W p) (f', ph)" and "\<forall>q. good_place f (W q)"
  shows "good_place f' ph" and "\<forall>q. good_place f' (W q)"
proof -
  have g: "good_place f (W q)" for q using assms(2) by simp
  have keep: "good_place f (W q) \<Longrightarrow> good_place (create_file Huge f) (W q)" 
    "good_place f (W q) \<Longrightarrow> good_place (truncate_file i n f) (W q)" for q i n
    by (auto simp: good_place_def create_file_def truncate_file_def split: phase.splits)
  show "good_place f' ph"
    using assms(1) g [of p] by (cases rule: worker_step.cases) (auto simp: good_place_def)
  show "\<forall>q. good_place f' (W q)"
    using assms(1) g [of p] g keep by (cases rule: worker_step.cases) (auto simp: good_place_def [of _ "Opening _"] good_place_def [of _ "Discarding _"])
qed

lemma good_start:
  "startup False need True V (f, W) \<Longrightarrow> \<forall>p. V p \<Longrightarrow> \<forall>p. good_place f (W p)"
proof (induction "(f, W)" arbitrary: f W rule: startup.induct)
  case begins then show ?case by (simp add: good_place_def first_phase_def)
next
  case (steps f W p f' ph)
  have "worker_step False need True (f, W p) (f', ph)" using steps.hyps(3) steps.prems by simp
  from good_step [of need f W p f' ph, OF this] show ?case using steps by auto
qed

definition phase_on :: "phase \<Rightarrow> backing \<Rightarrow> bool" where
  "phase_on ph c \<longleftrightarrow>
     (case ph of
        Opening b \<Rightarrow> c = b | Stub b i \<Rightarrow> c = b | Discarding b \<Rightarrow> c = b | Reopening b \<Rightarrow> c = b
      | Waiting b i \<Rightarrow> c = b | Timed_out b \<Rightarrow> c = b | Mapped b i \<Rightarrow> c = b | Failed \<Rightarrow> False)"

lemma stock_only: "startup faulty need False V (f, W) \<Longrightarrow> \<not> phase_on (W p) Huge"
proof (induction "(f, W)" arbitrary: f W p rule: startup.induct)
  case begins show ?case by (simp add: phase_on_def first_phase_def)
next
  case (steps f W q f' ph)
  have "\<not> phase_on ph Huge"
    using steps.hyps(3) steps.hyps(2) [of q]
    by (cases rule: worker_step.cases)
      (auto simp: phase_on_def after_failure_def split: backing.splits phase.splits)
  then show ?case using steps.hyps(2) by simp
qed

lemma stub_stays_small:
  assumes "startup faulty need huge V (f, W)" and "\<forall>p. \<not> V p" and "0 < need"
  shows "(\<forall>i. fs_path f Huge = Some i \<longrightarrow> fs_size f i < need) \<and> (\<forall>p i. W p \<noteq> Mapped Huge i)"
  using assms(1)
proof (induction "(f, W)" arbitrary: f W rule: startup.induct)
  case begins show ?case by (simp add: initial_files_def first_phase_def)
next
  case (steps f W p f' ph)
  have inv: "start_inv need (f, W)" and inv': "start_inv need (f', W(p := ph))"
    using startup_inv assms(3) steps.hyps startup.steps by blast+
  have step: "worker_step faulty need False (f, W p) (f', ph)" using steps.hyps(3) assms(2) by simp
  have P: "paths_ok f" and stub: "phase_ok need f (W p)" using inv by (simp_all add: start_inv_def)
  have apart: "fs_path f Huge = Some i \<Longrightarrow> fs_path f Shm \<noteq> Some i" for i
    using P by (metis paths_ok_def backing.distinct(1))
  have small: "fs_path f' Huge = Some i \<Longrightarrow> fs_size f' i < need" for i
    using step steps.hyps(2) stub P assms(3) apart
    by (cases rule: worker_step.cases)
      (auto simp: create_file_def truncate_file_def unlink_path_def phase_ok_def paths_ok_def split: if_splits)
  have "ph \<noteq> Mapped Huge i" for i
  proof
    assume "ph = Mapped Huge i"
    then have "phase_ok need f' (Mapped Huge i)" using inv' by (auto simp: start_inv_def dest: spec [of _ p])
    then show False using small by (fastforce simp: phase_ok_def)
  qed
  then show ?case using small steps.hyps(2) by simp
qed

text \<open>
  When the workers agree on the backing: it is the stock one, or no creator finds the huge page mount
  good, or every one does and no call on an existing path fails.
\<close>

definition agreed :: "bool \<Rightarrow> bool \<Rightarrow> (nat \<Rightarrow> bool) \<Rightarrow> bool" where
  "agreed faulty huge V \<longleftrightarrow> \<not> huge \<or> (\<forall>p. \<not> V p) \<or> (\<forall>p. V p) \<and> \<not> faulty"

lemma mapped_backing:
  assumes "startup faulty need huge V (f, W)" and "0 < need" and "agreed faulty huge V" and "W p = Mapped b i"
  shows "b = (if huge \<and> V 0 then Huge else Shm)"
proof (cases huge)
  case False
  then show ?thesis using stock_only [of faulty need V f W p] assms by (cases b) (auto simp: phase_on_def)
next
  case True
  show ?thesis
  proof (cases "V 0")
    case True
    then have "\<forall>p. V p" "\<not> faulty" using assms(3) \<open>huge\<close> by (auto simp: agreed_def)
    then have "good_place f (W p)" using good_start [of need V f W] assms(1) \<open>huge\<close> by simp
    then show ?thesis using True \<open>huge\<close> assms(4) by (simp add: good_place_def)
  next
    case False
    then have "\<forall>p. \<not> V p" using assms(3) \<open>huge\<close> by (auto simp: agreed_def)
    then have "W p \<noteq> Mapped Huge i" using stub_stays_small assms(1,2) by blast
    then show ?thesis using False assms(4) by (cases b) auto
  qed
qed

text \<open>A mapped file is at its path and large enough, whatever has failed on the way.\<close>

lemma mapped_file:
  assumes "startup faulty need huge V (f, W)" and "0 < need" and "W p = Mapped b i"
  shows "fs_path f b = Some i \<and> need \<le> fs_size f i"
  using startup_inv [OF assms(1,2)] assms(3) by (auto simp: start_inv_def phase_ok_def dest!: spec [of _ p])

end
