(* ===== verification/Offload_Region.thy ===== *)
theory Offload_Region
  imports Py_Env
begin

text \<open>
  Model of the layout of the CPU tier: the sizes that \<open>CPUOffloadingSpec\<close>
  (\<open>v1/kv_offload/cpu/spec.py\<close>) derives from the configuration, and the shared memory region of
  \<open>v1/kv_offload/cpu/shared_offload_region.py\<close>: its rows, the slots of the workers, the views
  carved from them, and the checks on the opt-in huge page backing.

  The texts of \<open>/proc\<close> files and the answers of \<open>statvfs\<close> are arguments, \<open>None\<close> standing for an
  \<open>OSError\<close>; \<open>page\<close> is \<open>mmap.PAGESIZE\<close> and \<open>round_up\<close> a parameter. Mapping the file,
  pre-faulting and pinning it act on the operating system and are left out, but for the byte
  ranges that are pre-faulted.
\<close>

section \<open>The sizes of the tier\<close>

record tier_config =
  tc_cpu_bytes :: "int option"
  tc_world_size :: int
  tc_worker_bytes :: int
  tc_blocks_per_chunk :: int
  tc_replicated :: bool
  tc_shared :: bool
  tc_alignment :: int
  tc_round_up :: "int \<Rightarrow> int \<Rightarrow> int"

record tier_layout =
  tl_num_blocks :: int
  tl_bytes_per_chunk :: int
  tl_page_size :: int
  tl_replicated :: bool

definition plan_tier :: "tier_config \<Rightarrow> tier_layout res" where
  "plan_tier cfg =
     (case tc_cpu_bytes cfg of
        None \<Rightarrow> Inl PyException
      | Some cpu_bytes \<Rightarrow>
          if cpu_bytes = 0 then Inl PyException
          else
            let replicated = (tc_replicated cfg \<and> tc_shared cfg) in
            if tc_worker_bytes cfg > 0 \<and> tc_world_size cfg > 0 then
              let copies = (if replicated then 1 else tc_world_size cfg);
                  bytes = tc_worker_bytes cfg * copies * tc_blocks_per_chunk cfg;
                  aligned = tc_round_up cfg bytes (tc_alignment cfg)
              in bindE (py_div bytes copies) (\<lambda>page_size.
                 bindE (py_div cpu_bytes aligned) (\<lambda>n.
                   Inr \<lparr>tl_num_blocks = n, tl_bytes_per_chunk = aligned, tl_page_size = page_size,
                        tl_replicated = replicated\<rparr>))
            else Inr \<lparr>tl_num_blocks = 0, tl_bytes_per_chunk = 0, tl_page_size = 0,
                      tl_replicated = replicated\<rparr>)"

section \<open>The region\<close>

record region =
  rg_num_blocks :: int
  rg_row_stride :: int
  rg_total :: int
  rg_rank :: "int option"
  rg_worker_offset :: int
  rg_area_end :: int
  rg_canonical_offset :: int
  rg_views :: "(int \<times> int) list"

definition init_region :: "int \<Rightarrow> int \<Rightarrow> int option \<Rightarrow> int \<Rightarrow> int \<Rightarrow> region res" where
  "init_region page num_blocks rank bytes page_size =
     bindE (py_mod bytes page) (\<lambda>r.
     assertE (r = 0)
       (Inr \<lparr>rg_num_blocks = num_blocks, rg_row_stride = bytes, rg_total = num_blocks * bytes,
             rg_rank = rank,
             rg_worker_offset = (case rank of None \<Rightarrow> 0 | Some k \<Rightarrow> k * page_size),
             rg_area_end = (case rank of None \<Rightarrow> 0 | Some k \<Rightarrow> (k + 1) * page_size),
             rg_canonical_offset = 0, rg_views = []\<rparr>))"

text \<open>The rank of a worker's slot: one slot for all when the layout is replicated.\<close>

definition worker_rank :: "tier_layout \<Rightarrow> int \<Rightarrow> int \<Rightarrow> int res" where
  "worker_rank lay world_size device =
     (if tl_replicated lay then Inr 0 else py_mod device world_size)"

definition create_region :: "tier_config \<Rightarrow> int \<Rightarrow> tier_layout \<Rightarrow> int \<Rightarrow> region option res" where
  "create_region cfg page lay device =
     (if tc_shared cfg \<and> tl_num_blocks lay > 0
      then bindE (worker_rank lay (tc_world_size cfg) device) (\<lambda>rank.
           bindE (init_region page (tl_num_blocks lay) (Some rank) (tl_bytes_per_chunk lay) (tl_page_size lay)) (\<lambda>g.
             Inr (Some g)))
      else Inr None)"

text \<open>The byte ranges (offset, length) that a worker pre-faults, one for each block.\<close>

definition populate_ranges :: "int \<Rightarrow> int \<Rightarrow> region \<Rightarrow> (int \<times> int) list" where
  "populate_ranges page page_size g =
     (case rg_rank g of
        None \<Rightarrow> [(0, rg_total g)]
      | Some k \<Rightarrow>
          map (\<lambda>b. let raw = b * rg_row_stride g + k * page_size;
                       aligned = raw div page * page
                   in (aligned, raw + page_size - aligned)) [0..rg_num_blocks g - 1])"

text \<open>A view is its offset and its bytes per block; its rows are a stride apart.\<close>

definition create_next_worker_view :: "int \<Rightarrow> region \<Rightarrow> region res" where
  "create_next_worker_view sz g =
     assertE (rg_rank g \<noteq> None)
       (let off = rg_worker_offset g + sz in
        assertE (off \<le> rg_area_end g)
          (Inr (g\<lparr>rg_worker_offset := off, rg_views := rg_views g @ [(rg_worker_offset g, sz)]\<rparr>)))"

definition create_next_canonical_view :: "int \<Rightarrow> region \<Rightarrow> region res" where
  "create_next_canonical_view sz g =
     (let off = rg_canonical_offset g + sz in
      assertE (off \<le> rg_row_stride g)
        (Inr (g\<lparr>rg_canonical_offset := off, rg_views := rg_views g @ [(rg_canonical_offset g, sz)]\<rparr>)))"

definition view_bytes :: "region \<Rightarrow> int \<times> int \<Rightarrow> int \<Rightarrow> int set" where
  "view_bytes g v b = {b * rg_row_stride g + fst v..<b * rg_row_stride g + fst v + snd v}"

section \<open>The huge page backing\<close>

definition hugetlb_tier_requested :: "string option \<Rightarrow> bool" where
  "hugetlb_tier_requested raw =
     (case raw of
        None \<Rightarrow> False
      | Some s \<Rightarrow>
          if py_strip s = [] then False
          else (case py_int (py_strip s) of
                  Some n \<Rightarrow> n \<noteq> 0
                | None \<Rightarrow> py_lower (py_strip s) \<in> {''true'', ''yes'', ''on''}))"

definition hugetlb_dir :: "string option \<Rightarrow> string" where
  "hugetlb_dir raw =
     (let s = py_strip (case raw of None \<Rightarrow> [] | Some s \<Rightarrow> s) in if s = [] then ''/dev/hugepages'' else s)"

text \<open>\<open>str.splitlines\<close> and \<open>str.split\<close> without argument, on ASCII text.\<close>

definition is_line_end :: "char \<Rightarrow> bool" where
  "is_line_end c \<longleftrightarrow> (let n = of_char c :: nat in (10 \<le> n \<and> n \<le> 13) \<or> (28 \<le> n \<and> n \<le> 30))"

fun lines_from :: "string \<Rightarrow> string \<Rightarrow> string list" where
  "lines_from cur [] = (if cur = [] then [] else [rev cur])"
| "lines_from cur (c # cs) =
     (if is_line_end c
      then rev cur # (case cs of
                        d # ds \<Rightarrow> if of_char c = (13 :: nat) \<and> of_char d = (10 :: nat)
                                  then lines_from [] ds else lines_from [] cs
                      | [] \<Rightarrow> [])
      else lines_from (c # cur) cs)"

definition py_splitlines :: "string \<Rightarrow> string list" where
  "py_splitlines s = lines_from [] s"

fun words_from :: "string \<Rightarrow> string \<Rightarrow> string list" where
  "words_from cur [] = (if cur = [] then [] else [rev cur])"
| "words_from cur (c # cs) =
     (if is_space c then (if cur = [] then words_from [] cs else rev cur # words_from [] cs)
      else words_from (c # cur) cs)"

definition py_words :: "string \<Rightarrow> string list" where
  "py_words s = words_from [] s"

definition is_hugetlbfs_mount :: "string option \<Rightarrow> string \<Rightarrow> bool" where
  "is_hugetlbfs_mount mounts dir =
     (case mounts of
        None \<Rightarrow> False
      | Some s \<Rightarrow>
          list_ex (\<lambda>line. let fields = py_words line in
              length fields \<ge> 3 \<and> fields ! 1 = dir \<and> fields ! 2 = ''hugetlbfs'')
            (py_splitlines s))"

definition starts_with :: "string \<Rightarrow> string \<Rightarrow> bool" where
  "starts_with p s \<longleftrightarrow> take (length p) s = p"

definition after_colon :: "string \<Rightarrow> string" where
  "after_colon s = drop 1 (dropWhile (\<lambda>c. c \<noteq> CHR '':'') s)"

definition unit_multiplier :: "string \<Rightarrow> int option" where
  "unit_multiplier u =
     map_of [(''b'', 1), (''kb'', 1024), (''k'', 1024), (''mb'', 1024 ^ 2), (''m'', 1024 ^ 2),
             (''gb'', 1024 ^ 3), (''g'', 1024 ^ 3)] u"

definition parse_page_size :: "string \<Rightarrow> int option" where
  "parse_page_size line =
     (case py_words (after_colon line) of
        [v, u] \<Rightarrow>
          (case unit_multiplier (py_lower u) of
             None \<Rightarrow> None
           | Some k \<Rightarrow> map_option (\<lambda>n. n * k) (py_int v))
      | _ \<Rightarrow> None)"

fun scan_meminfo :: "string list \<Rightarrow> int option \<Rightarrow> int option \<Rightarrow> (int \<times> int) option" where
  "scan_meminfo [] sz free =
     (case (sz, free) of
        (Some p, Some f) \<Rightarrow> if p \<le> 0 then None else Some (p, f)
      | _ \<Rightarrow> None)"
| "scan_meminfo (line # lines) sz free =
     (if sz = None \<and> starts_with ''Hugepagesize:'' line
      then scan_meminfo lines (parse_page_size line) free
      else if free = None \<and> starts_with ''HugePages_Free:'' line
      then (case py_int (after_colon line) of
              None \<Rightarrow> None
            | Some f \<Rightarrow> scan_meminfo lines sz (Some f))
      else scan_meminfo lines sz free)"

definition read_meminfo_hugepages :: "string option \<Rightarrow> (int \<times> int) option" where
  "read_meminfo_hugepages meminfo =
     (case meminfo of None \<Rightarrow> None | Some s \<Rightarrow> scan_meminfo (py_splitlines s) None None)"

definition hugetlb_page_size :: "int \<Rightarrow> string option \<Rightarrow> (string \<Rightarrow> int option) \<Rightarrow> string \<Rightarrow> int option" where
  "hugetlb_page_size page mounts statvfs dir =
     (if \<not> is_hugetlbfs_mount mounts dir then None
      else (case statvfs dir of
              None \<Rightarrow> None
            | Some f \<Rightarrow> if f \<le> 0 \<or> f mod page \<noteq> 0 then None else Some f))"

definition hugetlb_block_alignment :: "int \<Rightarrow> string option \<Rightarrow> string option \<Rightarrow> string option \<Rightarrow>
    (string \<Rightarrow> int option) \<Rightarrow> int" where
  "hugetlb_block_alignment page requested dir mounts statvfs =
     (if \<not> hugetlb_tier_requested requested then page
      else (case hugetlb_page_size page mounts statvfs (hugetlb_dir dir) of None \<Rightarrow> page | Some f \<Rightarrow> f))"

text \<open>\<open>None\<close> is the internal exception on which the creator falls back.\<close>

definition validate_hugetlb_backing :: "int \<Rightarrow> string option \<Rightarrow> (string \<Rightarrow> int option) \<Rightarrow> string option \<Rightarrow>
    string \<Rightarrow> region \<Rightarrow> int option" where
  "validate_hugetlb_backing page mounts statvfs meminfo dir g =
     (if \<not> is_hugetlbfs_mount mounts dir then None
      else (case statvfs dir of
        None \<Rightarrow> None
      | Some f \<Rightarrow>
          if f \<le> 0 \<or> f mod page \<noteq> 0 then None
          else (case read_meminfo_hugepages meminfo of
            None \<Rightarrow> None
          | Some (sz, free) \<Rightarrow>
              if sz \<noteq> f then None
              else if rg_row_stride g mod f \<noteq> 0 then None
              else if free < (rg_total g + f - 1) div f then None
              else Some f)))"

text \<open>The size of the file on the huge page mount.\<close>

definition hugetlb_file_size :: "int \<Rightarrow> region \<Rightarrow> int" where
  "hugetlb_file_size f g = (rg_total g + f - 1) div f * f"

end
