(* ===== verification/Region_Layout_Facts.thy ===== *)
theory Region_Layout_Facts
  imports Offload_Region
begin

text \<open>
  Where the bytes of the tier are: the sizes chosen by the specification fit the configured
  budget, the slots of the workers fit a row, and the views of a worker follow one another in its
  slot.
\<close>

section \<open>The plan\<close>

text \<open>What is relied on of \<open>round_up\<close>: a multiple of the alignment that is not smaller.\<close>

definition rounds_up :: "(int \<Rightarrow> int \<Rightarrow> int) \<Rightarrow> bool" where
  "rounds_up ru \<longleftrightarrow> (\<forall>n k. 0 < k \<longrightarrow> n \<le> ru n k \<and> k dvd ru n k)"

definition tier_config_ok :: "tier_config \<Rightarrow> bool" where
  "tier_config_ok cfg \<longleftrightarrow>
     rounds_up (tc_round_up cfg) \<and> 0 < tc_alignment cfg \<and> 0 < tc_blocks_per_chunk cfg \<and>
     0 \<le> tc_world_size cfg \<and> (\<forall>n. tc_cpu_bytes cfg = Some n \<longrightarrow> 0 \<le> n)"

lemma plan_tier_sizes:
  assumes "plan_tier cfg = Inr lay" and ok: "tier_config_ok cfg" and "0 < tl_num_blocks lay"
  shows "0 < tl_page_size lay" and "0 < tl_bytes_per_chunk lay"
    and "tl_page_size lay * (if tl_replicated lay then 1 else tc_world_size cfg) \<le> tl_bytes_per_chunk lay"
    and "tc_alignment cfg dvd tl_bytes_per_chunk lay"
    and "\<exists>n. tc_cpu_bytes cfg = Some n \<and> tl_num_blocks lay * tl_bytes_per_chunk lay \<le> n"
    and "0 < tc_world_size cfg"
proof -
  obtain n where n: "tc_cpu_bytes cfg = Some n" "n \<noteq> 0"
    using assms(1) by (auto simp: plan_tier_def split: option.splits if_splits)
  have pos: "tc_worker_bytes cfg > 0 \<and> tc_world_size cfg > 0"
    using assms(1,3) n by (auto simp: plan_tier_def Let_def split: if_splits)
  define c where "c = (if tl_replicated lay then 1 else tc_world_size cfg)"
  define B where "B = tc_worker_bytes cfg * c * tc_blocks_per_chunk cfg"
  have rep: "tl_replicated lay = (tc_replicated cfg \<and> tc_shared cfg)"
    using assms(1) n pos by (auto simp: plan_tier_def Let_def py_div_def split: if_splits)
  have c: "0 < c" using pos by (simp add: c_def)
  have "0 < B" unfolding B_def using ok pos c by (simp add: tier_config_ok_def)
  have L: "tl_page_size lay = B div c" "tl_bytes_per_chunk lay = tc_round_up cfg B (tc_alignment cfg)"
    "tl_num_blocks lay = n div tl_bytes_per_chunk lay"
    using assms(1) n pos by (auto simp: plan_tier_def Let_def py_div_def B_def c_def rep split: if_splits)
  have ru: "B \<le> tl_bytes_per_chunk lay" "tc_alignment cfg dvd tl_bytes_per_chunk lay"
    using ok L(2) by (auto simp: tier_config_ok_def rounds_up_def)
  have "B = (tc_worker_bytes cfg * tc_blocks_per_chunk cfg) * c" by (simp add: B_def)
  then have page: "tl_page_size lay = tc_worker_bytes cfg * tc_blocks_per_chunk cfg" "tl_page_size lay * c = B"
    using L(1) c by simp_all
  show "0 < tl_page_size lay" using page(1) pos ok by (simp add: tier_config_ok_def)
  show "0 < tl_bytes_per_chunk lay" using ru \<open>0 < B\<close> by simp
  show "tl_page_size lay * (if tl_replicated lay then 1 else tc_world_size cfg) \<le> tl_bytes_per_chunk lay"
    using page(2) ru by (simp add: c_def)
  show "tc_alignment cfg dvd tl_bytes_per_chunk lay" by (rule ru)
  show "\<exists>n. tc_cpu_bytes cfg = Some n \<and> tl_num_blocks lay * tl_bytes_per_chunk lay \<le> n"
    using n L(3) ru \<open>0 < B\<close> by (auto simp: mult.commute minus_mod_eq_mult_div [symmetric])
  show "0 < tc_world_size cfg" using pos by blast
qed

section \<open>The views of a worker\<close>

definition worker_region :: "tier_config \<Rightarrow> tier_layout \<Rightarrow> int \<Rightarrow> region" where
  "worker_region cfg lay device =
     (let k = (if tl_replicated lay then 0 else device mod tc_world_size cfg) in
      \<lparr>rg_num_blocks = tl_num_blocks lay, rg_row_stride = tl_bytes_per_chunk lay,
       rg_total = tl_num_blocks lay * tl_bytes_per_chunk lay, rg_rank = Some k,
       rg_worker_offset = k * tl_page_size lay, rg_area_end = (k + 1) * tl_page_size lay,
       rg_canonical_offset = 0, rg_views = []\<rparr>)"

lemma create_region_shape:
  "create_region cfg page lay device = Inr (Some g) \<Longrightarrow> g = worker_region cfg lay device \<and> 0 < tl_num_blocks lay"
  by (auto simp: create_region_def worker_rank_def init_region_def py_mod_def worker_region_def Let_def res_simps
      split: if_splits)

lemma next_view_facts:
  assumes "create_next_worker_view sz g = Inr g'"
  shows "rg_views g' = rg_views g @ [(rg_worker_offset g, sz)]" "rg_worker_offset g' = rg_worker_offset g + sz"
    "rg_area_end g' = rg_area_end g" "rg_row_stride g' = rg_row_stride g" "rg_total g' = rg_total g"
    "rg_num_blocks g' = rg_num_blocks g" "rg_worker_offset g + sz \<le> rg_area_end g"
  using assms by (auto simp: create_next_worker_view_def Let_def res_simps)

lemma worker_views:
  "foldE create_next_worker_view szs g = Inr g' \<Longrightarrow> (\<forall>s \<in> set szs. 0 \<le> s) \<Longrightarrow>
   rg_worker_offset g \<le> rg_area_end g \<Longrightarrow>
   rg_row_stride g' = rg_row_stride g \<and> rg_total g' = rg_total g \<and>
   rg_views g' = rg_views g @ map (\<lambda>i. (rg_worker_offset g + sum_list (take i szs), szs ! i)) [0..<length szs] \<and>
   rg_worker_offset g + sum_list szs \<le> rg_area_end g"
proof (induction szs arbitrary: g)
  case (Cons s szs)
  then obtain h where h: "create_next_worker_view s g = Inr h" "foldE create_next_worker_view szs h = Inr g'"
    by (auto simp: res_simps)
  note f = next_view_facts [OF h(1)]
  have "[0..<length (s # szs)] = 0 # map Suc [0..<length szs]" by (simp add: upt_conv_Cons map_Suc_upt del: upt_Suc)
  with Cons.IH [OF h(2)] Cons.prems(2) f show ?case by (simp add: o_def algebra_simps)
qed simp

lemma worker_views_fit:
  "rg_rank g \<noteq> None \<Longrightarrow> \<forall>s \<in> set szs. 0 \<le> s \<Longrightarrow> rg_worker_offset g + sum_list szs \<le> rg_area_end g \<Longrightarrow>
   \<exists>g'. foldE create_next_worker_view szs g = Inr g'"
proof (induction szs arbitrary: g)
  case (Cons s szs)
  have "0 \<le> sum_list szs" using Cons.prems by (auto intro: sum_list_nonneg)
  then have "rg_worker_offset g + s \<le> rg_area_end g" using Cons.prems by simp
  with Cons.IH [of "g\<lparr>rg_worker_offset := rg_worker_offset g + s, rg_views := rg_views g @ [(rg_worker_offset g, s)]\<rparr>"] Cons.prems
  show ?case by (simp add: create_next_worker_view_def Let_def add.assoc)
qed simp

text \<open>Views of one worker do not overlap within a row.\<close>

lemma sum_take_le:
  fixes szs :: "int list"
  assumes "\<forall>s \<in> set szs. 0 \<le> s" and "i < length szs"
  shows "0 \<le> sum_list (take i szs)" and "sum_list (take i szs) + szs ! i \<le> sum_list szs"
    and "i < j \<Longrightarrow> sum_list (take i szs) + szs ! i \<le> sum_list (take j szs)"
proof -
  show "0 \<le> sum_list (take i szs)" using assms(1) by (auto intro!: sum_list_nonneg dest: in_set_takeD)
  have nn: "0 \<le> sum_list (drop (Suc i) szs)" "0 \<le> sum_list (drop (Suc i) (take j szs))"
    using assms(1) by (auto intro!: sum_list_nonneg dest!: in_set_dropD in_set_takeD)
  have "szs = take i szs @ szs ! i # drop (Suc i) szs" using assms(2) by (rule id_take_nth_drop)
  then have "sum_list szs = sum_list (take i szs) + (szs ! i + sum_list (drop (Suc i) szs))"
    by (metis sum_list.Cons sum_list.append)
  then show "sum_list (take i szs) + szs ! i \<le> sum_list szs" using nn by simp
  show "sum_list (take i szs) + szs ! i \<le> sum_list (take j szs)" if "i < j"
  proof -
    have "i < length (take j szs)" using assms(2) that by simp
    then have "take j szs = take i (take j szs) @ take j szs ! i # drop (Suc i) (take j szs)" by (rule id_take_nth_drop)
    then have "sum_list (take j szs) = sum_list (take i szs) + (szs ! i + sum_list (drop (Suc i) (take j szs)))"
      using that by (metis (no_types, lifting) less_imp_le min.absorb1 nth_take sum_list.Cons sum_list.append take_take)
    then show ?thesis using nn by simp
  qed
qed

lemma slots_apart:
  fixes r :: int
  assumes "b < b'" and "0 \<le> y" and "x \<le> r" and "0 \<le> r"
  shows "b * r + x \<le> b' * r + y"
proof -
  have "(b + 1) * r \<le> b' * r" using assms(1,4) by (intro mult_right_mono) auto
  with assms show ?thesis by (simp add: algebra_simps)
qed

text \<open>The regions that the workers of an engine end up with.\<close>

definition carved :: "tier_config \<Rightarrow> int \<Rightarrow> tier_layout \<Rightarrow> (int \<Rightarrow> int list) \<Rightarrow> int \<Rightarrow> region \<Rightarrow> bool" where
  "carved cfg page lay szs device h \<longleftrightarrow>
     (case create_region cfg page lay device of
        Inr (Some g) \<Rightarrow> foldE create_next_worker_view (szs (device mod tc_world_size cfg)) g = Inr h
      | _ \<Rightarrow> False)"

lemma carved_views:
  assumes C: "carved cfg page lay szs d h" and plan: "plan_tier cfg = Inr lay" and ok: "tier_config_ok cfg"
    and rep: "\<not> tl_replicated lay" and sz: "\<forall>k. \<forall>s \<in> set (szs k). 0 \<le> s"
  shows "0 < tl_num_blocks lay" and "rg_row_stride h = tl_bytes_per_chunk lay"
    and "rg_views h = map (\<lambda>i. (d mod tc_world_size cfg * tl_page_size lay + sum_list (take i (szs (d mod tc_world_size cfg))),
           szs (d mod tc_world_size cfg) ! i)) [0..<length (szs (d mod tc_world_size cfg))]"
    and "sum_list (szs (d mod tc_world_size cfg)) \<le> tl_page_size lay"
proof -
  let ?k = "d mod tc_world_size cfg"
  obtain g where g: "create_region cfg page lay d = Inr (Some g)" "foldE create_next_worker_view (szs ?k) g = Inr h"
    using C by (auto simp: carved_def split: sum.splits option.splits)
  note shape = create_region_shape [OF g(1)]
  then show n: "0 < tl_num_blocks lay" by blast
  have "0 < tl_page_size lay" by (rule plan_tier_sizes(1) [OF plan ok n])
  then have "rg_worker_offset g \<le> rg_area_end g"
    using shape rep by (simp add: worker_region_def Let_def algebra_simps)
  note V = worker_views [OF g(2) _ this]
  show "rg_row_stride h = tl_bytes_per_chunk lay" using V sz shape by (simp add: worker_region_def Let_def)
  show "rg_views h = map (\<lambda>i. (?k * tl_page_size lay + sum_list (take i (szs ?k)), szs ?k ! i)) [0..<length (szs ?k)]"
    using V sz shape rep by (simp add: worker_region_def Let_def)
  show "sum_list (szs ?k) \<le> tl_page_size lay"
    using V sz shape rep by (simp add: worker_region_def Let_def algebra_simps)
qed

text \<open>A view lies in the slot of its worker, and the slot in the row.\<close>

lemma carved_slot:
  assumes C: "carved cfg page lay szs d h" and plan: "plan_tier cfg = Inr lay" and ok: "tier_config_ok cfg"
    and rep: "\<not> tl_replicated lay" and sz: "\<forall>k. \<forall>s \<in> set (szs k). 0 \<le> s" and i: "i < length (rg_views h)"
  shows "d mod tc_world_size cfg * tl_page_size lay \<le> fst (rg_views h ! i)"
    and "fst (rg_views h ! i) + snd (rg_views h ! i) \<le> (d mod tc_world_size cfg + 1) * tl_page_size lay"
    and "(d mod tc_world_size cfg + 1) * tl_page_size lay \<le> tl_bytes_per_chunk lay"
    and "0 \<le> d mod tc_world_size cfg"
proof -
  let ?k = "d mod tc_world_size cfg"
  note V = carved_views [OF C plan ok rep sz]
  note P = plan_tier_sizes [OF plan ok V(1)]
  have i': "i < length (szs ?k)" using i V(3) by simp
  have v: "rg_views h ! i = (?k * tl_page_size lay + sum_list (take i (szs ?k)), szs ?k ! i)"
    using V(3) i' by simp
  have nn: "\<forall>s \<in> set (szs ?k). 0 \<le> s" using sz by blast
  note T = sum_take_le(1,2) [OF nn i']
  show "?k * tl_page_size lay \<le> fst (rg_views h ! i)" using v T by simp
  show "fst (rg_views h ! i) + snd (rg_views h ! i) \<le> (?k + 1) * tl_page_size lay"
    using v T V(4) by (simp add: algebra_simps)
  show "0 \<le> ?k" using P(6) by simp
  have "?k + 1 \<le> tc_world_size cfg" using P(6) by (simp add: zless_imp_add1_zle)
  then have "(?k + 1) * tl_page_size lay \<le> tc_world_size cfg * tl_page_size lay"
    using P(1) by (intro mult_right_mono) auto
  then show "(?k + 1) * tl_page_size lay \<le> tl_bytes_per_chunk lay" using P(3) rep by (simp add: mult.commute)
qed

lemma carved_in_order:
  assumes C: "carved cfg page lay szs d h" and plan: "plan_tier cfg = Inr lay" and ok: "tier_config_ok cfg"
    and rep: "\<not> tl_replicated lay" and sz: "\<forall>k. \<forall>s \<in> set (szs k). 0 \<le> s"
    and "i < j" "j < length (rg_views h)"
  shows "fst (rg_views h ! i) + snd (rg_views h ! i) \<le> fst (rg_views h ! j)"
proof -
  note V = carved_views(3) [OF C plan ok rep sz]
  have j: "j < length (szs (d mod tc_world_size cfg))" "i < length (szs (d mod tc_world_size cfg))"
    using V assms(6,7) by auto
  show ?thesis using V j sum_take_le(3) [OF _ j(2) assms(6)] sz by simp
qed

end
