(* ===== verification/Region_Properties.thy ===== *)
theory Region_Properties
  imports Region_Files_Facts Region_Layout_Facts
begin

text \<open>
  The properties of the shared memory region: its workers never write on each other's bytes, and
  they map one and the same file.
\<close>

section \<open>The layout\<close>

text \<open>Two views of one row, of different slots or of one slot, follow one another.\<close>

lemma views_in_row:
  assumes plan: "plan_tier cfg = Inr lay" and ok: "tier_config_ok cfg" and rep: "\<not> tl_replicated lay"
    and sz: "\<forall>k. \<forall>s \<in> set (szs k). 0 \<le> s"
    and C: "carved cfg page lay szs d h" and C': "carved cfg page lay szs d' h'"
    and i: "i < length (rg_views h)" and i': "i' < length (rg_views h')"
    and ne: "(d mod tc_world_size cfg, i) \<noteq> (d' mod tc_world_size cfg, i')"
  shows "fst (rg_views h ! i) + snd (rg_views h ! i) \<le> fst (rg_views h' ! i') \<or>
    fst (rg_views h' ! i') + snd (rg_views h' ! i') \<le> fst (rg_views h ! i)"
proof (cases "d mod tc_world_size cfg = d' mod tc_world_size cfg")
  case False
  let ?k = "d mod tc_world_size cfg" and ?k' = "d' mod tc_world_size cfg" and ?p = "tl_page_size lay"
  have p: "0 \<le> ?p" using plan_tier_sizes(1) [OF plan ok carved_views(1) [OF C plan ok rep sz]] by simp
  consider "?k + 1 \<le> ?k'" | "?k' + 1 \<le> ?k" using False by linarith
  then show ?thesis
    using carved_slot [OF C plan ok rep sz i] carved_slot [OF C' plan ok rep sz i']
      mult_right_mono [OF _ p, of "?k + 1" ?k'] mult_right_mono [OF _ p, of "?k' + 1" ?k]
    by cases linarith+
next
  case True
  have "rg_views h = rg_views h'"
    using carved_views(3) [OF C plan ok rep sz] carved_views(3) [OF C' plan ok rep sz] True by metis
  moreover have "i < i' \<or> i' < i" using ne True by auto
  ultimately show ?thesis
    using carved_in_order [OF C plan ok rep sz, of i i'] carved_in_order [OF C plan ok rep sz, of i' i] i i' by auto
qed

lemma rows_apart:
  fixes r :: int
  assumes "0 \<le> fst v" "0 \<le> fst v'" and "fst v + snd v \<le> r" "fst v' + snd v' \<le> r" and r: "0 \<le> r"
    and rows: "rg_row_stride h = r" "rg_row_stride h' = r"
    and same: "b = b' \<Longrightarrow> fst v + snd v \<le> fst v' \<or> fst v' + snd v' \<le> fst v"
  shows "view_bytes h v b \<inter> view_bytes h' v' b' = {}"
proof -
  consider "b < b'" | "b' < b" | "b = b'" by linarith
  then show ?thesis
  proof cases
    case 1 then show ?thesis
      using slots_apart [OF 1 assms(2,3) r] rows by (auto simp: view_bytes_def)
  next
    case 2 then show ?thesis
      using slots_apart [OF 2 assms(1,4) r] rows by (auto simp: view_bytes_def)
  next
    case 3 then show ?thesis using same rows by (auto simp: view_bytes_def)
  qed
qed

text \<open>C17: the views that the workers of an engine carve from the shared region, each for its own
  tensors, never share a byte: two of them overlap only if they are the same tensor and block of the
  same worker slot. All of them lie inside the region, which is no larger than the configured
  \<open>cpu_bytes_to_use\<close>.\<close>

theorem region_views_disjoint:
  assumes "plan_tier cfg = Inr lay" and "tier_config_ok cfg" and "\<not> tl_replicated lay"
    and "tc_cpu_bytes cfg = Some budget"
    and "\<forall>k. \<forall>s \<in> set (szs k). 0 \<le> s"
    and "carved cfg page lay szs d h" and "carved cfg page lay szs d' h'"
    and "i < length (rg_views h)" and "i' < length (rg_views h')"
    and "0 \<le> b" and "b < tl_num_blocks lay" and "0 \<le> b'" and "b' < tl_num_blocks lay"
    and "(d mod tc_world_size cfg, i, b) \<noteq> (d' mod tc_world_size cfg, i', b')"
  shows "view_bytes h (rg_views h ! i) b \<inter> view_bytes h' (rg_views h' ! i') b' = {} \<and>
    view_bytes h (rg_views h ! i) b \<subseteq> {0..<tl_num_blocks lay * tl_bytes_per_chunk lay} \<and>
    tl_num_blocks lay * tl_bytes_per_chunk lay \<le> budget"
proof -
  let ?r = "tl_bytes_per_chunk lay" and ?v = "rg_views h ! i" and ?v' = "rg_views h' ! i'"
  note V = carved_views(1,2) [OF assms(6,1,2,3,5)] carved_views(2) [OF assms(7,1,2,3,5)]
  note P = plan_tier_sizes [OF assms(1,2) V(1)]
  note S = carved_slot [OF assms(6,1,2,3,5,8)] and S' = carved_slot [OF assms(7,1,2,3,5,9)]
  have p: "0 \<le> tl_page_size lay" and r: "0 \<le> ?r" using P(1,2) by simp_all
  have lo: "0 \<le> fst ?v" "0 \<le> fst ?v'" and hi: "fst ?v + snd ?v \<le> ?r" "fst ?v' + snd ?v' \<le> ?r"
    using S S' p by (auto intro: order_trans mult_nonneg_nonneg)
  have "view_bytes h ?v b \<inter> view_bytes h' ?v' b' = {}"
    using views_in_row [OF assms(1,2,3,5,6,7,8,9)] assms(14) by (intro rows_apart [OF lo hi r V(2,3)]) blast
  moreover have "view_bytes h ?v b \<subseteq> {0..<tl_num_blocks lay * ?r}"
  proof -
    have "0 \<le> b * ?r" using assms(10) r by simp
    moreover have "b * ?r + (fst ?v + snd ?v) \<le> tl_num_blocks lay * ?r + 0"
      by (rule slots_apart [OF assms(11) _ hi(1) r]) simp
    ultimately show ?thesis using lo V by (auto simp: view_bytes_def)
  qed
  moreover have "tl_num_blocks lay * ?r \<le> budget" using P(5) assms(4) by simp
  ultimately show ?thesis by blast
qed

definition demo_round_up :: "int \<Rightarrow> int \<Rightarrow> int" where
  "demo_round_up n k = (n + k - 1) div k * k"

lemma demo_round_up_rounds: "rounds_up demo_round_up"
proof -
  have "n \<le> demo_round_up n k" if "0 < k" for n k :: int
  proof -
    have "(n + k - 1) mod k < k" using that by simp
    then show ?thesis by (simp add: demo_round_up_def minus_mod_eq_div_mult [symmetric])
  qed
  then show ?thesis by (simp add: rounds_up_def demo_round_up_def)
qed

definition demo_tier :: tier_config where
  "demo_tier = \<lparr>tc_cpu_bytes = Some 100, tc_world_size = 2, tc_worker_bytes = 5, tc_blocks_per_chunk = 2,
     tc_replicated = False, tc_shared = True, tc_alignment = 8, tc_round_up = demo_round_up\<rparr>"

definition demo_layout :: tier_layout where
  "demo_layout = \<lparr>tl_num_blocks = 4, tl_bytes_per_chunk = 24, tl_page_size = 10, tl_replicated = False\<rparr>"

definition demo_carved :: "int \<Rightarrow> region" where
  "demo_carved device = (worker_region demo_tier demo_layout device)
     \<lparr>rg_worker_offset := device mod 2 * 10 + 10,
      rg_views := [(device mod 2 * 10, 4), (device mod 2 * 10 + 4, 6)]\<rparr>"

lemma demo_plan: "plan_tier demo_tier = Inr demo_layout" by code_simp

lemma demo_carved_ok: "carved demo_tier 8 demo_layout (\<lambda>_. [4, 6]) 2 (demo_carved 2)"
  "carved demo_tier 8 demo_layout (\<lambda>_. [4, 6]) 3 (demo_carved 3)"
  by code_simp+

lemma demo_tier_ok: "tier_config_ok demo_tier"
  using demo_round_up_rounds by (simp add: tier_config_ok_def demo_tier_def)

theorem region_views_disjoint_witness:
  "view_bytes (demo_carved 2) (4, 6) 3 \<inter> view_bytes (demo_carved 3) (10, 4) 3 = {} \<and>
   view_bytes (demo_carved 2) (4, 6) 3 \<subseteq> {0..<96} \<and> (96 :: int) \<le> 100"
  using region_views_disjoint [OF demo_plan demo_tier_ok, of 100 "\<lambda>_. [4, 6]" 8 2 "demo_carved 2" 3 "demo_carved 3" 1 0 3 3,
      OF _ _ _ demo_carved_ok]
  by (simp add: demo_tier_def demo_layout_def demo_carved_def)

text \<open>A set of sizes is accepted exactly when it fits the slot of a worker.\<close>

lemma worker_views_accepted:
  assumes "create_region cfg page lay d = Inr (Some g)" and "plan_tier cfg = Inr lay" and "tier_config_ok cfg"
    and sz: "\<forall>s \<in> set szs. 0 \<le> s"
  shows "(\<exists>h. foldE create_next_worker_view szs g = Inr h) \<longleftrightarrow> sum_list szs \<le> tl_page_size lay"
proof -
  have g: "rg_rank g \<noteq> None" "rg_area_end g = rg_worker_offset g + tl_page_size lay" "0 < tl_num_blocks lay"
    using create_region_shape [OF assms(1)] by (simp_all add: worker_region_def Let_def algebra_simps)
  have "rg_worker_offset g \<le> rg_area_end g" using g plan_tier_sizes(1) [OF assms(2,3) g(3)] by simp
  then show ?thesis using worker_views [OF _ sz] worker_views_fit [OF g(1) sz] g(2) by fastforce
qed

text \<open>The file on the huge page mount is as large as the region when its backing was validated.\<close>

lemma hugetlb_file_exact:
  assumes "validate_hugetlb_backing page mounts statvfs meminfo dir g = Some f" and "rg_total g = n * rg_row_stride g"
  shows "hugetlb_file_size f g = rg_total g"
proof -
  have f: "0 < f" "f dvd rg_row_stride g"
    using assms(1) by (auto simp: validate_hugetlb_backing_def dvd_eq_mod_eq_0 split: option.splits if_splits)
  then obtain m where m: "rg_total g = f * m" using assms(2) by (metis dvd_def dvd_mult)
  have "(f * m + f - 1) div f = m"
  proof -
    have "f * m + f - 1 = (f - 1) + m * f" by (simp add: algebra_simps)
    then have "(f * m + f - 1) div f = (f - 1) div f + m" using f(1) by (metis add.commute div_mult_self1 less_irrefl)
    then show ?thesis using f(1) by simp
  qed
  then show ?thesis using m by (simp add: hugetlb_file_size_def mult.commute)
qed

section \<open>The file\<close>

text \<open>C16: what the workers of an engine hold when they come to the end of the start, however their
  system calls interleave and whichever of them fail. The file a worker has mapped is still at its
  path and large enough, so that two workers that map the same path hold the same inode. They map the
  same path if huge pages are not asked for, or if no creator finds the huge page mount good, or if
  every creator does and no worker's reopening or look-up of a file that exists fails (the other
  calls, in particular \<open>ftruncate\<close> and \<open>unlink\<close>, may fail).\<close>

theorem workers_share_file:
  assumes "startup faulty need huge V (f, W)" and "0 < need"
    and "W p = Mapped b i" and "W q = Mapped b' i'"
  shows "fs_path f b = Some i \<and> need \<le> fs_size f i \<and> (b' = b \<longrightarrow> i' = i) \<and>
    (agreed faulty huge V \<longrightarrow> b' = b \<and> b = (if huge \<and> V 0 then Huge else Shm))"
proof -
  have "fs_path f b = Some i \<and> need \<le> fs_size f i" "fs_path f b' = Some i'"
    using mapped_file [OF assms(1,2)] assms(3,4) by auto
  moreover have "agreed faulty huge V \<longrightarrow> b' = b \<and> b = (if huge \<and> V 0 then Huge else Shm)"
    using mapped_backing [OF assms(1,2)] assms(3,4) by metis
  ultimately show ?thesis by auto
qed

text \<open>
  A run in which the workers map two different files: worker 0 creates the file on the huge page
  mount, finds no room, discards it and goes on with the stock file; the pages are freed by another
  process, and worker 1, which was slower to open, finds the mount good.
\<close>

definition demo_verdict :: "nat \<Rightarrow> bool" where
  "demo_verdict p \<longleftrightarrow> p = 1"

lemma startup_run:
  assumes "startup faulty need huge V (f, W)" and "worker_step faulty need (V p) (f, W p) (f', ph)" and "W' = W(p := ph)"
  shows "startup faulty need huge V (f', W')"
  using assms startup.steps by metis

lemma backings_can_split:
  "\<exists>f W. startup False 1 True demo_verdict (f, W) \<and> W 0 = Mapped Shm 1 \<and> W 1 = Mapped Huge 2"
proof -
  let ?W = "\<lambda>_ :: nat. Opening Huge"
  let ?f0 = initial_files
  let ?f1 = "create_file Huge ?f0" let ?f2 = "unlink_path Huge ?f1" let ?f3 = "create_file Shm ?f2"
  let ?f4 = "truncate_file 1 1 ?f3" let ?f5 = "create_file Huge ?f4" let ?f6 = "truncate_file 2 1 ?f5"
  note fs = create_file_def unlink_path_def truncate_file_def initial_files_def demo_verdict_def after_failure_def
  have s0: "startup False 1 True demo_verdict (?f0, ?W)" using startup.begins [of False 1 True] by (simp add: first_phase_def)
  have s1: "startup False 1 True demo_verdict (?f1, ?W(0 := Stub Huge 0))"
    by (rule startup_run [OF s0, where p = 0]) (auto intro: worker_step.intros simp: fs worker_step.simps)
  have s2: "startup False 1 True demo_verdict (?f1, ?W(0 := Discarding Huge))"
    by (rule startup_run [OF s1, where p = 0]) (auto simp: fs worker_step.simps)
  have s3: "startup False 1 True demo_verdict (?f2, ?W(0 := Opening Shm))"
    by (rule startup_run [OF s2, where p = 0]) (auto simp: fs worker_step.simps)
  have s4: "startup False 1 True demo_verdict (?f3, ?W(0 := Stub Shm 1))"
    by (rule startup_run [OF s3, where p = 0]) (auto simp: fs worker_step.simps)
  have s5: "startup False 1 True demo_verdict (?f4, ?W(0 := Mapped Shm 1))"
    by (rule startup_run [OF s4, where p = 0]) (auto simp: fs worker_step.simps)
  have s6: "startup False 1 True demo_verdict (?f5, ?W(0 := Mapped Shm 1, 1 := Stub Huge 2))"
    by (rule startup_run [OF s5, where p = 1]) (auto simp: fs worker_step.simps)
  have s7: "startup False 1 True demo_verdict (?f6, ?W(0 := Mapped Shm 1, 1 := Mapped Huge 2))"
    by (rule startup_run [OF s6, where p = 1]) (auto simp: fs worker_step.simps)
  then show ?thesis by (intro exI conjI) (rule s7, simp_all)
qed

text \<open>
  A run in which they do so although every creator finds the mount good: worker 0 has mapped the file
  there, and worker 1, whose reopening of it fails, goes on with the stock file.
\<close>

lemma refusal_splits:
  "\<exists>f W. startup True 1 True (\<lambda>_. True) (f, W) \<and> W 0 = Mapped Huge 0 \<and> W 1 = Mapped Shm 1 \<and> fs_path f Huge = Some 0"
proof -
  let ?W = "\<lambda>_ :: nat. Opening Huge"
  let ?f0 = initial_files
  let ?f1 = "create_file Huge ?f0" let ?f2 = "truncate_file 0 1 ?f1" let ?f3 = "create_file Shm ?f2" let ?f4 = "truncate_file 1 1 ?f3"
  note fs = create_file_def truncate_file_def initial_files_def after_failure_def
  have s0: "startup True 1 True (\<lambda>_. True) (?f0, ?W)" using startup.begins [of True 1 True] by (simp add: first_phase_def)
  have s1: "startup True 1 True (\<lambda>_. True) (?f1, ?W(0 := Stub Huge 0))"
    by (rule startup_run [OF s0, where p = 0]) (auto simp: fs worker_step.simps)
  have s2: "startup True 1 True (\<lambda>_. True) (?f2, ?W(0 := Mapped Huge 0))"
    by (rule startup_run [OF s1, where p = 0]) (auto simp: fs worker_step.simps)
  have s3: "startup True 1 True (\<lambda>_. True) (?f2, ?W(0 := Mapped Huge 0, 1 := Reopening Huge))"
    by (rule startup_run [OF s2, where p = 1]) (auto simp: fs worker_step.simps)
  have s4: "startup True 1 True (\<lambda>_. True) (?f2, ?W(0 := Mapped Huge 0, 1 := Opening Shm))"
    by (rule startup_run [OF s3, where p = 1]) (auto simp: fs worker_step.simps)
  have s5: "startup True 1 True (\<lambda>_. True) (?f3, ?W(0 := Mapped Huge 0, 1 := Stub Shm 1))"
    by (rule startup_run [OF s4, where p = 1]) (auto simp: fs worker_step.simps)
  have s6: "startup True 1 True (\<lambda>_. True) (?f4, ?W(0 := Mapped Huge 0, 1 := Mapped Shm 1))"
    by (rule startup_run [OF s5, where p = 1]) (auto simp: fs worker_step.simps)
  then show ?thesis by (intro exI conjI) (rule s6, simp_all add: fs)
qed

text \<open>A run of two workers that share the file on the huge page mount.\<close>

definition demo_files :: files where
  "demo_files = truncate_file 0 8 (create_file Huge initial_files)"

lemma demo_startup:
  "startup False 8 True (\<lambda>_. True) (demo_files, (\<lambda>_. Opening Huge)(0 := Mapped Huge 0, 1 := Mapped Huge 0))"
proof -
  let ?W = "\<lambda>_ :: nat. Opening Huge" and ?f1 = "create_file Huge initial_files"
  note fs = create_file_def truncate_file_def initial_files_def demo_files_def
  have s0: "startup False 8 True (\<lambda>_. True) (initial_files, ?W)" using startup.begins [of False 8 True] by (simp add: first_phase_def)
  have s1: "startup False 8 True (\<lambda>_. True) (?f1, ?W(0 := Stub Huge 0))"
    by (rule startup_run [OF s0, where p = 0]) (auto simp: fs worker_step.simps)
  have s2: "startup False 8 True (\<lambda>_. True) (?f1, ?W(0 := Stub Huge 0, 1 := Reopening Huge))"
    by (rule startup_run [OF s1, where p = 1]) (auto simp: fs worker_step.simps)
  have s3: "startup False 8 True (\<lambda>_. True) (?f1, ?W(0 := Stub Huge 0, 1 := Waiting Huge 0))"
    by (rule startup_run [OF s2, where p = 1]) (auto simp: fs worker_step.simps)
  have s4: "startup False 8 True (\<lambda>_. True) (demo_files, ?W(0 := Mapped Huge 0, 1 := Waiting Huge 0))"
    by (rule startup_run [OF s3, where p = 0]) (auto simp: fs worker_step.simps)
  show ?thesis by (rule startup_run [OF s4, where p = 1]) (auto simp: fs worker_step.simps)
qed

theorem workers_share_file_witness:
  "fs_path demo_files Huge = Some 0 \<and> 8 \<le> fs_size demo_files 0 \<and> agreed False True (\<lambda>_. True)"
  using workers_share_file [OF demo_startup, where p = 0 and q = 1 and b = Huge and b' = Huge and i = 0 and i' = 0]
  by (simp add: agreed_def)

end
