(* ===== verification/GPU_Transfer.thy ===== *)
theory GPU_Transfer
  imports Offload_Base
begin

text \<open>
  Model of the copy descriptors that the CPU offloading worker computes for a transfer
  (\<open>SingleDirectionOffloadingHandler\<close> in \<open>v1/kv_offload/cpu/gpu_worker.py\<close>): pointers of
  sub-blocks, the fragment plans of the canonical layout, the election of a writer, and the walk
  over the groups of a request.

  A tensor is two-dimensional of bytes: its address, its row pitch and its columns. Pointers are
  64-bit words, as in the \<open>uint64\<close> arrays of the code, so that their arithmetic wraps. The
  descriptor arrays of the code are written from the front; here they are the list of the
  descriptors written so far. \<open>cdiv\<close> is a function of another package.
\<close>

type_synonym ptr = "64 word"

record tensor2 =
  tn_base :: ptr
  tn_pitch :: int
  tn_rows :: int
  tn_cols :: int

text \<open>A reference of a layer to its tensor, with the bytes of one block and the canonical mapping.\<close>

record cache_ref =
  cr_tensor :: nat
  cr_bytes :: int
  cr_mapping :: "page_mapping option"

type_synonym copy_op = "ptr \<times> ptr \<times> int"

section \<open>Pointers of sub-blocks\<close>

text \<open>The assignment \<open>output[:] = xs\<close> of an array of \<open>n\<close> entries: one value is broadcast.\<close>

definition assign_slices :: "nat \<Rightarrow> 'a list \<Rightarrow> 'a list res" where
  "assign_slices n xs =
     (if length xs = n then Inr xs
      else case xs of [x] \<Rightarrow> Inr (replicate n x) | _ \<Rightarrow> Inl ValueError)"

definition row_ptr :: "tensor2 \<Rightarrow> int \<Rightarrow> ptr" where
  "row_ptr t b = tn_base t + of_int b * of_int (tn_pitch t)"

definition sub_block_ptrs :: "tensor2 \<Rightarrow> int \<Rightarrow> int \<Rightarrow> ptr list" where
  "sub_block_ptrs t bpc b = map (\<lambda>j. row_ptr t b + of_int j * of_int (tn_cols t div bpc)) [0..bpc - 1]"

definition compute_sub_block_ptrs :: "int list \<Rightarrow> int \<Rightarrow> nat \<Rightarrow> tensor2 \<Rightarrow> int \<Rightarrow> ptr list res" where
  "compute_sub_block_ptrs ids bpc n t skip =
     assertE (skip < bpc)
       (if bpc = 1 then assign_slices n (map (row_ptr t) (py_slice 0 (int n) ids))
        else bindE (py_mod (tn_cols t) bpc) (\<lambda>r.
          assertE (r = 0)
            (assign_slices n (py_slice skip (skip + int n) (concat (map (sub_block_ptrs t bpc) ids))))))"

section \<open>The canonical layout\<close>

record copy_plan =
  frag_offsets_src :: "ptr list"
  frag_offsets_dst :: "ptr list"
  frag_sizes :: "int list"
  total_bytes :: int

definition num_frags :: "copy_plan \<Rightarrow> nat" where
  "num_frags p = length (frag_sizes p)"

definition fragment_indices :: "copy_run \<Rightarrow> int list" where
  "fragment_indices r = [0..num_fragments r - 1]"

text \<open>\<open>np.asarray(xs, dtype=np.uint64)\<close> raises for a value that does not fit.\<close>

definition as_u64 :: "int list \<Rightarrow> ptr list res" where
  "as_u64 xs = (if \<forall>x \<in> set xs. 0 \<le> x \<and> x < 2 ^ 64 then Inr (map of_int xs) else Inl OverflowError)"

definition as_i64 :: "int list \<Rightarrow> int list res" where
  "as_i64 xs = (if \<forall>x \<in> set xs. - (2 ^ 63) \<le> x \<and> x < 2 ^ 63 then Inr xs else Inl OverflowError)"

definition build_copy_plan :: "cache_ref \<Rightarrow> bool \<Rightarrow> copy_plan res" where
  "build_copy_plan ref gpu_to_cpu =
     (case cr_mapping ref of
        None \<Rightarrow> Inl AssertionError
      | Some m \<Rightarrow>
          let local_offs = concat (map (\<lambda>r. map (\<lambda>i. local_offset r + i * local_stride r) (fragment_indices r)) (runs m));
              canonical = concat (map (\<lambda>r. map (\<lambda>i. canonical_offset r + i * canonical_stride r) (fragment_indices r)) (runs m));
              sizes = concat (map (\<lambda>r. map (\<lambda>i. fragment_size r) (fragment_indices r)) (runs m));
              (src, dst) = (if gpu_to_cpu then (local_offs, canonical) else (canonical, local_offs))
          in bindE (as_u64 src) (\<lambda>s. bindE (as_u64 dst) (\<lambda>d. bindE (as_i64 sizes) (\<lambda>z.
               Inr \<lparr>frag_offsets_src = s, frag_offsets_dst = d, frag_sizes = z, total_bytes = sum_list sizes\<rparr>))))"

definition canonical_page_ids :: "int list \<Rightarrow> int \<Rightarrow> nat \<Rightarrow> int \<Rightarrow> int list" where
  "canonical_page_ids ids bpc count skip =
     (if bpc = 1 then py_slice 0 (int count) ids
      else py_slice skip (skip + int count) (concat (map (\<lambda>b. map (\<lambda>j. b * bpc + j) [0..bpc - 1]) ids)))"

definition max_canonical :: "cache_ref \<Rightarrow> int list \<Rightarrow> int list res" where
  "max_canonical ref acc =
     (case cr_mapping ref of
        None \<Rightarrow> Inl AssertionError
      | Some m \<Rightarrow>
          bindE (nth_res acc (cr_tensor ref)) (\<lambda>old.
            Inr (acc[cr_tensor ref := max old (canonical_page_size_bytes m)])))"

definition canonical_block_sizes :: "cache_ref list list \<Rightarrow> nat \<Rightarrow> int list res" where
  "canonical_block_sizes groups num_tensors =
     bindE (foldE max_canonical (concat groups) (replicate num_tensors 0)) (\<lambda>sizes.
       assertE (\<forall>s \<in> set sizes. s > 0) (Inr sizes))"

section \<open>One direction\<close>

record direction =
  d_gpu_to_cpu :: bool
  d_src :: "tensor2 list"
  d_dst :: "tensor2 list"
  d_src_bpc :: int
  d_dst_bpc :: int
  d_groups :: "cache_ref list list"
  d_plans :: "copy_plan list list option"

definition check_tensors :: "int \<Rightarrow> int list option \<Rightarrow> (nat \<times> tensor2 \<times> tensor2) \<Rightarrow> unit \<Rightarrow> unit res" where
  "check_tensors bpc canonical x u =
     (case x of (i, g, c) \<Rightarrow>
        (case canonical of
           None \<Rightarrow> assertE (tn_cols c = tn_cols g * bpc) (Inr ())
         | Some sizes \<Rightarrow> bindE (nth_res sizes i) (\<lambda>n. assertE (tn_cols c = n * bpc) (Inr ()))))"

definition init_direction :: "tensor2 list \<Rightarrow> tensor2 list \<Rightarrow> int \<Rightarrow> cache_ref list list \<Rightarrow> bool \<Rightarrow> bool \<Rightarrow>
    direction res" where
  "init_direction gpu cpu bpc groups gpu_to_cpu canonical =
     assertE (length gpu = length cpu) (assertE (length gpu > 0)
       (bindE (if canonical then bindE (canonical_block_sizes groups (length gpu)) (\<lambda>s. Inr (Some s)) else Inr None) (\<lambda>sizes.
        bindE (foldE (check_tensors bpc sizes) (enumerate 0 (zip gpu cpu)) ()) (\<lambda>u.
        bindE (if canonical then bindE (mapE (mapE (\<lambda>r. build_copy_plan r gpu_to_cpu)) groups) (\<lambda>p. Inr (Some p))
               else Inr None) (\<lambda>plans.
          Inr \<lparr>d_gpu_to_cpu = gpu_to_cpu,
               d_src = (if gpu_to_cpu then gpu else cpu), d_dst = (if gpu_to_cpu then cpu else gpu),
               d_src_bpc = (if gpu_to_cpu then 1 else bpc), d_dst_bpc = (if gpu_to_cpu then bpc else 1),
               d_groups = groups, d_plans = plans\<rparr>)))))"

definition group_copy_ops :: "direction \<Rightarrow> nat \<Rightarrow> int \<Rightarrow> cache_ref list \<Rightarrow> int res" where
  "group_copy_ops d g count refs =
     (case d_plans d of
        None \<Rightarrow> Inr (count * int (length refs))
      | Some plans \<Rightarrow> bindE (nth_res plans g) (\<lambda>ps. Inr (count * sum_list (map (\<lambda>p. int (num_frags p)) ps))))"

definition estimate_max_copy_ops :: "direction \<Rightarrow> int list \<Rightarrow> int res" where
  "estimate_max_copy_ops d counts =
     foldE (\<lambda>(g, count, refs) n. bindE (group_copy_ops d g count refs) (\<lambda>k. Inr (n + k)))
       (enumerate 0 (zip counts (d_groups d))) 0"

type_synonym filled = "copy_op list \<times> int"

definition fill_direct_ref :: "direction \<Rightarrow> int list \<Rightarrow> int list \<Rightarrow> nat \<Rightarrow> int \<Rightarrow> int \<Rightarrow> cache_ref \<Rightarrow> filled \<Rightarrow> filled res" where
  "fill_direct_ref d gsrc gdst n sskip dskip ref st =
     bindE (nth_res (d_src d) (cr_tensor ref)) (\<lambda>ts.
     bindE (compute_sub_block_ptrs gsrc (d_src_bpc d) n ts sskip) (\<lambda>src.
     bindE (nth_res (d_dst d) (cr_tensor ref)) (\<lambda>td.
     bindE (compute_sub_block_ptrs gdst (d_dst_bpc d) n td dskip) (\<lambda>dst.
       Inr (fst st @ zip src (zip dst (replicate n (cr_bytes ref))), snd st + int n * cr_bytes ref)))))"

definition fill_direct_ops :: "direction \<Rightarrow> nat \<Rightarrow> int list \<Rightarrow> int list \<Rightarrow> nat \<Rightarrow> int \<Rightarrow> int \<Rightarrow> filled \<Rightarrow> filled res" where
  "fill_direct_ops d g gsrc gdst n sskip dskip st =
     bindE (nth_res (d_groups d) g) (\<lambda>refs. foldE (fill_direct_ref d gsrc gdst n sskip dskip) refs st)"

text \<open>A boolean mask must be as long as the array it selects from.\<close>

definition filter_writer_blocks :: "ptr list \<Rightarrow> ptr list \<Rightarrow> page_mapping \<Rightarrow> int list \<Rightarrow> int \<Rightarrow> nat \<Rightarrow> int \<Rightarrow>
    (ptr list \<times> ptr list) res" where
  "filter_writer_blocks src dst m gdst bpc n skip =
     (let mask = map (\<lambda>p. p mod num_writers m = writer_index m) (canonical_page_ids gdst bpc n skip) in
      if length mask \<noteq> length src \<or> length mask \<noteq> length dst then Inl IndexError
      else Inr (map fst (filter snd (zip src mask)), map fst (filter snd (zip dst mask))))"

definition expand_frags :: "copy_plan \<Rightarrow> ptr list \<Rightarrow> ptr list \<Rightarrow> copy_op list" where
  "expand_frags p src dst =
     concat (map (\<lambda>(s, d).
       map (\<lambda>(fs, fd, z). (s + fs, d + fd, z)) (zip (frag_offsets_src p) (zip (frag_offsets_dst p) (frag_sizes p))))
       (zip src dst))"

definition fill_canonical_ref :: "direction \<Rightarrow> int list \<Rightarrow> int list \<Rightarrow> nat \<Rightarrow> int \<Rightarrow> int \<Rightarrow> copy_plan \<times> cache_ref \<Rightarrow>
    filled \<Rightarrow> filled res" where
  "fill_canonical_ref d gsrc gdst n sskip dskip x st =
     (case x of (p, ref) \<Rightarrow>
        if num_frags p = 0 then Inr st
        else
          bindE (nth_res (d_src d) (cr_tensor ref)) (\<lambda>ts.
          bindE (compute_sub_block_ptrs gsrc (d_src_bpc d) n ts sskip) (\<lambda>src.
          bindE (nth_res (d_dst d) (cr_tensor ref)) (\<lambda>td.
          bindE (compute_sub_block_ptrs gdst (d_dst_bpc d) n td dskip) (\<lambda>dst.
          (case cr_mapping ref of
             None \<Rightarrow> Inl AssertionError
           | Some m \<Rightarrow>
               bindE (if d_gpu_to_cpu d \<and> num_writers m > 1
                      then filter_writer_blocks src dst m gdst (d_dst_bpc d) n dskip
                      else Inr (src, dst)) (\<lambda>(s, t).
                 Inr (fst st @ expand_frags p s t, snd st + int (length s) * total_bytes p))))))))"

definition fill_canonical_ops :: "direction \<Rightarrow> copy_plan list list \<Rightarrow> nat \<Rightarrow> int list \<Rightarrow> int list \<Rightarrow> nat \<Rightarrow> int \<Rightarrow> int \<Rightarrow>
    filled \<Rightarrow> filled res" where
  "fill_canonical_ops d plans g gsrc gdst n sskip dskip st =
     bindE (nth_res plans g) (\<lambda>ps. bindE (nth_res (d_groups d) g) (\<lambda>refs.
       foldE (fill_canonical_ref d gsrc gdst n sskip dskip) (zip ps refs) st))"

section \<open>The descriptors of a transfer\<close>

record walk =
  w_src :: int
  w_dst :: int
  w_filled :: filled

definition walk_group :: "(int \<Rightarrow> int \<Rightarrow> int) \<Rightarrow> direction \<Rightarrow> int list \<Rightarrow> int list \<Rightarrow> nat \<times> int \<times> int \<Rightarrow> walk \<Rightarrow> walk res" where
  "walk_group cdiv d src_blocks dst_blocks x w =
     (case x of (g, count, index) \<Rightarrow>
        if count = 0 then Inr w
        else
          bindE (py_mod index (d_src_bpc d)) (\<lambda>sskip.
          bindE (py_mod index (d_dst_bpc d)) (\<lambda>dskip.
          let dst_end = w_dst w + cdiv (count + dskip) (d_dst_bpc d) in
          assertE (dst_end \<le> int (length dst_blocks))
            (let src_end = w_src w + cdiv (count + sskip) (d_src_bpc d) in
             assertE (src_end \<le> int (length src_blocks))
               (let gsrc = py_slice (w_src w) src_end src_blocks;
                    gdst = py_slice (w_dst w) dst_end dst_blocks
                in bindE (case d_plans d of
                       None \<Rightarrow> fill_direct_ops d g gsrc gdst (nat count) sskip dskip (w_filled w)
                     | Some plans \<Rightarrow> fill_canonical_ops d plans g gsrc gdst (nat count) sskip dskip (w_filled w)) (\<lambda>f.
                     Inr \<lparr>w_src = src_end, w_dst = dst_end, w_filled = f\<rparr>))))))"

text \<open>The descriptors and the number of bytes of a transfer, with the size of the arrays asked for.\<close>

definition plan_transfer :: "(int \<Rightarrow> int \<Rightarrow> int) \<Rightarrow> direction \<Rightarrow> gpu_spec \<Rightarrow> int list \<Rightarrow> (int \<times> filled) res" where
  "plan_transfer cdiv d spec cpu_blocks =
     (let src_blocks = (if d_gpu_to_cpu d then gpu_block_ids spec else cpu_blocks);
          dst_blocks = (if d_gpu_to_cpu d then cpu_blocks else gpu_block_ids spec);
          counts = gpu_group_sizes spec; indices = gpu_block_indices spec
      in assertE (length counts = length (d_groups d))
        (assertE (length indices = length (d_groups d))
          (bindE (estimate_max_copy_ops d counts) (\<lambda>need.
           bindE (foldE (walk_group cdiv d src_blocks dst_blocks) (enumerate 0 (zip counts indices))
                   \<lparr>w_src = 0, w_dst = 0, w_filled = ([], 0)\<rparr>) (\<lambda>w.
             assertE (w_src w = int (length src_blocks))
               (assertE (w_dst w = int (length dst_blocks))
                 (assertE (int (length (fst (w_filled w))) \<le> need)
                   (Inr (need, w_filled w)))))))))"

end
