(* ===== verification/GPU_Transfer_Facts.thy ===== *)
theory GPU_Transfer_Facts
  imports GPU_Transfer
begin

text \<open>
  The descriptors of a transfer, against a reference that says in terms of the logical blocks of a
  request where each page is: block \<open>k\<close> of a request lies in the chunk number \<open>k div bpc\<close>, at the
  place \<open>k mod bpc\<close>.
\<close>

section \<open>Pointers\<close>

definition logical_ptr :: "tensor2 \<Rightarrow> int \<Rightarrow> int list \<Rightarrow> int \<Rightarrow> nat \<Rightarrow> ptr" where
  "logical_ptr t bpc ids index i =
     row_ptr t (ids ! nat ((index + int i) div bpc - index div bpc)) +
     of_int ((index + int i) mod bpc) * of_int (tn_cols t div bpc)"

lemma nth_concat_uniform:
  "\<forall>x \<in> set xs. length (f x) = b \<Longrightarrow> k < b * length xs \<Longrightarrow>
   concat (map f xs) ! k = f (xs ! (k div b)) ! (k mod b) \<and> k div b < length xs"
proof (induction xs arbitrary: k)
  case (Cons x xs)
  then have b: "0 < b" by (cases b) auto
  show ?case
  proof (cases "k < b")
    case True then show ?thesis using Cons.prems by (simp add: nth_append)
  next
    case False
    define j where "j = k - b"
    have k: "k = b + j" using False by (simp add: j_def)
    have "j < b * length xs" using Cons.prems(2) k by simp
    moreover have "k div b = Suc (j div b)" "k mod b = j mod b" using b k by (simp_all add: div_add_self1)
    ultimately show ?thesis using Cons.IH [of j] Cons.prems(1) k by (simp add: nth_append)
  qed
qed simp

lemma length_concat_uniform: "\<forall>x \<in> set xs. length (f x) = b \<Longrightarrow> length (concat (map f xs)) = b * length xs"
  by (induction xs) simp_all

lemma slice_uniform:
  assumes "\<forall>x \<in> set xs. length (f x) = b" and "m + n \<le> b * length xs"
  shows "py_slice (int m) (int m + int n) (concat (map f xs)) = map (\<lambda>i. f (xs ! ((m + i) div b)) ! ((m + i) mod b)) [0..<n]"
proof (rule nth_equalityI)
  let ?l = "concat (map f xs)"
  have len: "length ?l = b * length xs" using length_concat_uniform assms(1) by blast
  have sl: "py_slice (int m) (int m + int n) ?l = drop m (take (m + n) ?l)"
    by (simp add: py_slice_nonneg nat_add_distrib)
  show "length (py_slice (int m) (int m + int n) ?l) = length (map (\<lambda>i. f (xs ! ((m + i) div b)) ! ((m + i) mod b)) [0..<n])"
    using len assms(2) sl by simp
  fix i assume "i < length (py_slice (int m) (int m + int n) ?l)"
  then have i: "i < n" using sl len assms(2) by simp
  then show "py_slice (int m) (int m + int n) ?l ! i = map (\<lambda>i. f (xs ! ((m + i) div b)) ! ((m + i) mod b)) [0..<n] ! i"
    using nth_concat_uniform [OF assms(1), of "m + i"] sl len assms(2) by simp
qed

text \<open>The place of a block counted from the start of the first chunk.\<close>

lemma place_of_block:
  fixes bpc index :: int
  assumes "0 < bpc" "0 \<le> index"
  shows "(nat (index mod bpc) + i) div nat bpc = nat ((index + int i) div bpc - index div bpc)"
    and "int ((nat (index mod bpc) + i) mod nat bpc) = (index + int i) mod bpc"
proof -
  have split: "index + int i = bpc * (index div bpc) + (index mod bpc + int i)" by simp
  have "(index + int i) div bpc = index div bpc + (index mod bpc + int i) div bpc"
    using assms(1) by (subst split) (simp only: div_mult_self4 [OF less_imp_neq [THEN not_sym]] add.commute)
  moreover have "int ((nat (index mod bpc) + i) div nat bpc) = (index mod bpc + int i) div bpc"
    using assms by (simp add: zdiv_int)
  ultimately show "(nat (index mod bpc) + i) div nat bpc = nat ((index + int i) div bpc - index div bpc)"
    by (simp add: nat_eq_iff2) 
  show "int ((nat (index mod bpc) + i) mod nat bpc) = (index + int i) mod bpc"
    using assms by (simp add: zmod_int mod_add_left_eq)
qed

definition splits_evenly :: "tensor2 \<Rightarrow> int \<Rightarrow> bool" where
  "splits_evenly t bpc \<longleftrightarrow> bpc dvd tn_cols t"

lemma compute_ptrs:
  assumes b: "0 < bpc" and i: "0 \<le> index" and len: "index mod bpc + int n \<le> bpc * int (length ids)"
    and even: "splits_evenly t bpc"
  shows "compute_sub_block_ptrs ids bpc n t (index mod bpc) = Inr (map (logical_ptr t bpc ids index) [0..<n])"
proof (cases "bpc = 1")
  case True
  have "py_slice 0 (int n) ids = take n ids" by (simp add: py_slice_nonneg)
  moreover have "map (row_ptr t) (take n ids) = map (logical_ptr t bpc ids index) [0..<n]"
    using len True by (intro nth_equalityI) (simp_all add: logical_ptr_def)
  ultimately show ?thesis using True len by (simp add: compute_sub_block_ptrs_def assign_slices_def)
next
  case False
  have m: "index mod bpc < bpc" using b by simp
  have uni: "\<forall>x \<in> set ids. length (sub_block_ptrs t bpc x) = nat bpc" by (simp add: sub_block_ptrs_def)
  have "int (nat (index mod bpc) + n) \<le> int (nat bpc * length ids)" using len b by simp
  then have fits: "nat (index mod bpc) + n \<le> nat bpc * length ids" by (simp only: of_nat_le_iff)
  have "py_slice (index mod bpc) (index mod bpc + int n) (concat (map (sub_block_ptrs t bpc) ids)) =
     map (\<lambda>i. sub_block_ptrs t bpc (ids ! ((nat (index mod bpc) + i) div nat bpc)) ! ((nat (index mod bpc) + i) mod nat bpc)) [0..<n]"
    using slice_uniform [OF uni fits] b by simp
  also have "\<dots> = map (logical_ptr t bpc ids index) [0..<n]"
  proof (rule map_cong [OF refl])
    fix i'
    let ?k = "nat (index mod bpc) + i'"
    have "int (?k mod nat bpc) \<le> bpc - 1" using place_of_block(2) [OF b i, of i'] b by simp
    moreover have "?k mod nat bpc < nat bpc" using b by simp
    ultimately have "sub_block_ptrs t bpc (ids ! (?k div nat bpc)) ! (?k mod nat bpc) =
        row_ptr t (ids ! (?k div nat bpc)) + of_int (int (?k mod nat bpc)) * of_int (tn_cols t div bpc)"
      by (simp add: sub_block_ptrs_def nth_upto)
    then show "sub_block_ptrs t bpc (ids ! (?k div nat bpc)) ! (?k mod nat bpc) = logical_ptr t bpc ids index i'"
      by (simp only: logical_ptr_def place_of_block [OF b i])
  qed
  finally show ?thesis
    using False m b even by (simp add: compute_sub_block_ptrs_def py_mod_def assign_slices_def splits_evenly_def dvd_eq_mod_eq_0)
qed

section \<open>The reference\<close>

text \<open>
  The chunks or blocks that \<open>count\<close> logical blocks from \<open>index\<close> on lie in, and the descriptors of the
  direct layout: every group takes its blocks from the front of the two lists.
\<close>

definition part_len :: "int \<Rightarrow> int \<Rightarrow> int \<Rightarrow> nat" where
  "part_len bpc count index = (if count = 0 then 0 else nat (- ((- (count + index mod bpc)) div bpc)))"

definition page_op :: "direction \<Rightarrow> cache_ref \<Rightarrow> int \<Rightarrow> int list \<Rightarrow> int list \<Rightarrow> nat \<Rightarrow> copy_op" where
  "page_op d ref index gsrc gdst i =
     (logical_ptr (d_src d ! cr_tensor ref) (d_src_bpc d) gsrc index i,
      logical_ptr (d_dst d ! cr_tensor ref) (d_dst_bpc d) gdst index i, cr_bytes ref)"

definition group_pages :: "direction \<Rightarrow> cache_ref list \<Rightarrow> int \<Rightarrow> int \<Rightarrow> int list \<Rightarrow> int list \<Rightarrow> copy_op list" where
  "group_pages d refs count index gsrc gdst =
     concat (map (\<lambda>ref. map (page_op d ref index gsrc gdst) [0..<nat count]) refs)"

fun transfer_pages :: "direction \<Rightarrow> (cache_ref list \<times> int \<times> int) list \<Rightarrow> int list \<Rightarrow> int list \<Rightarrow> copy_op list" where
  "transfer_pages d [] src dst = []"
| "transfer_pages d ((refs, count, index) # gs) src dst =
     (let ns = part_len (d_src_bpc d) count index; nd = part_len (d_dst_bpc d) count index
      in group_pages d refs count index (take ns src) (take nd dst) @ transfer_pages d gs (drop ns src) (drop nd dst))"

definition direction_ok :: "direction \<Rightarrow> bool" where
  "direction_ok d \<longleftrightarrow> d_plans d = None \<and> 0 < d_src_bpc d \<and> 0 < d_dst_bpc d \<and>
     (\<forall>refs \<in> set (d_groups d). \<forall>r \<in> set refs. cr_tensor r < length (d_src d) \<and> cr_tensor r < length (d_dst d)) \<and>
     (\<forall>t \<in> set (d_src d). splits_evenly t (d_src_bpc d)) \<and> (\<forall>t \<in> set (d_dst d). splits_evenly t (d_dst_bpc d))"

lemma fill_direct:
  assumes ok: "direction_ok d" and refs: "\<forall>r \<in> set refs. cr_tensor r < length (d_src d) \<and> cr_tensor r < length (d_dst d)"
    and i: "0 \<le> index" and ls: "index mod d_src_bpc d + int n \<le> d_src_bpc d * int (length gsrc)"
    and ld: "index mod d_dst_bpc d + int n \<le> d_dst_bpc d * int (length gdst)"
  shows "foldE (fill_direct_ref d gsrc gdst n (index mod d_src_bpc d) (index mod d_dst_bpc d)) refs st =
     Inr (fst st @ concat (map (\<lambda>ref. map (page_op d ref index gsrc gdst) [0..<n]) refs),
          snd st + int n * sum_list (map cr_bytes refs))"
  using refs
proof (induction refs arbitrary: st)
  case (Cons r refs)
  have b: "0 < d_src_bpc d" "0 < d_dst_bpc d" using ok by (simp_all add: direction_ok_def)
  have r: "cr_tensor r < length (d_src d)" "cr_tensor r < length (d_dst d)" using Cons.prems by simp_all
  have even: "splits_evenly (d_src d ! cr_tensor r) (d_src_bpc d)" "splits_evenly (d_dst d ! cr_tensor r) (d_dst_bpc d)"
    using ok r by (simp_all add: direction_ok_def)
  have zip: "zip (map f [0..<n]) (zip (map g [0..<n]) (replicate n z)) = map (\<lambda>i. (f i, g i, z)) [0..<n]"
    for f g :: "nat \<Rightarrow> ptr" and z :: int
    by (rule nth_equalityI) simp_all
  have "fill_direct_ref d gsrc gdst n (index mod d_src_bpc d) (index mod d_dst_bpc d) r st =
     Inr (fst st @ map (page_op d r index gsrc gdst) [0..<n], snd st + int n * cr_bytes r)"
    using r by (simp add: fill_direct_ref_def nth_res_def compute_ptrs [OF b(1) i ls even(1)] compute_ptrs [OF b(2) i ld even(2)]
        zip page_op_def [abs_def])
  then show ?case using Cons by (simp add: algebra_simps)
qed simp

lemma part_len_covers:
  assumes "0 < bpc" "0 < count" "0 \<le> index"
  shows "index mod bpc + count \<le> bpc * int (part_len bpc count index)"
    and "int (part_len bpc count index) = - ((- (count + index mod bpc)) div bpc)"
proof -
  let ?a = "count + index mod bpc"
  have "0 \<le> index mod bpc" using assms(1) by simp
  then have "- ?a < 0" using assms(2) by linarith
  then have "(- ?a) div bpc < 0" by (rule div_neg_pos_less0 [OF _ assms(1)])
  then show l: "int (part_len bpc count index) = - ((- ?a) div bpc)" using assms(2) by (simp add: part_len_def)
  have "bpc * ((- ?a) div bpc) \<le> - ?a" using assms(1) by (simp add: minus_mod_eq_mult_div [symmetric])
  then show "index mod bpc + count \<le> bpc * int (part_len bpc count index)" using l by simp
qed

section \<open>The walk over the groups\<close>

definition cdiv_law :: "(int \<Rightarrow> int \<Rightarrow> int) \<Rightarrow> bool" where
  "cdiv_law cdiv \<longleftrightarrow> (\<forall>a b. 0 < b \<longrightarrow> cdiv a b = - ((- a) div b))"

lemma walk_one:
  assumes ok: "direction_ok d" and cd: "cdiv_law cdiv" and g: "g < length (d_groups d)"
    and c: "0 \<le> count" "0 \<le> index" and w: "w_src w = int o'" "w_dst w = int p"
    and room: "o' + part_len (d_src_bpc d) count index \<le> length S" "p + part_len (d_dst_bpc d) count index \<le> length D"
  shows "walk_group cdiv d S D (g, count, index) w =
     Inr \<lparr>w_src = int (o' + part_len (d_src_bpc d) count index), w_dst = int (p + part_len (d_dst_bpc d) count index),
          w_filled = (fst (w_filled w) @ group_pages d (d_groups d ! g) count index
              (take (part_len (d_src_bpc d) count index) (drop o' S)) (take (part_len (d_dst_bpc d) count index) (drop p D)),
            snd (w_filled w) + count * sum_list (map cr_bytes (d_groups d ! g)))\<rparr>"
proof (cases "count = 0")
  case True
  have none: "concat (map (\<lambda>x. []) xs) = []" for xs :: "cache_ref list" by (induction xs) simp_all
  show ?thesis using True w by (cases w) (simp add: walk_group_def part_len_def group_pages_def none)
next
  case False
  let ?sb = "d_src_bpc d" and ?db = "d_dst_bpc d"
  let ?ns = "part_len ?sb count index" and ?nd = "part_len ?db count index"
  have b: "0 < ?sb" "0 < ?db" and none: "d_plans d = None" using ok by (simp_all add: direction_ok_def)
  have count: "0 < count" using False c by simp
  note Ls = part_len_covers [OF b(1) count c(2)] and Ld = part_len_covers [OF b(2) count c(2)]
  have cdiv: "cdiv (count + index mod ?sb) ?sb = int ?ns" "cdiv (count + index mod ?db) ?db = int ?nd"
    using cd b Ls(2) Ld(2) by (simp_all add: cdiv_law_def)
  have slice: "py_slice (int k) (int (k + n)) xs = take n (drop k xs)" for k n and xs :: "int list"
    by (simp only: py_slice_nonneg of_nat_0_le_iff nat_int drop_take) simp
  have refs: "\<forall>r \<in> set (d_groups d ! g). cr_tensor r < length (d_src d) \<and> cr_tensor r < length (d_dst d)"
    using ok nth_mem [OF g] unfolding direction_ok_def by blast
  have lens: "length (take ?ns (drop o' S)) = ?ns" "length (take ?nd (drop p D)) = ?nd" using room by simp_all
  have fill: "fill_direct_ops d g (take ?ns (drop o' S)) (take ?nd (drop p D)) (nat count) (index mod ?sb) (index mod ?db) st =
      Inr (fst st @ group_pages d (d_groups d ! g) count index (take ?ns (drop o' S)) (take ?nd (drop p D)),
           snd st + count * sum_list (map cr_bytes (d_groups d ! g)))" for st
    using fill_direct [OF ok refs c(2), of "nat count" "take ?ns (drop o' S)" "take ?nd (drop p D)"] Ls(1) Ld(1) lens count g
    by (simp add: fill_direct_ops_def nth_res_def group_pages_def)
  show ?thesis
    using False b room none w
    by (simp add: walk_group_def py_mod_def cdiv slice fill Let_def flip: of_nat_add)
qed

definition parts_sum :: "int \<Rightarrow> (cache_ref list \<times> int \<times> int) list \<Rightarrow> nat" where
  "parts_sum bpc gs = sum_list (map (\<lambda>(refs, count, index). part_len bpc count index) gs)"

lemma walk_all:
  assumes ok: "direction_ok d" and cd: "cdiv_law cdiv"
  shows "\<forall>j < length gs. k + j < length (d_groups d) \<and> d_groups d ! (k + j) = fst (gs ! j) \<Longrightarrow>
    \<forall>(refs, count, index) \<in> set gs. 0 \<le> count \<and> 0 \<le> index \<Longrightarrow>
    o' + parts_sum (d_src_bpc d) gs \<le> length S \<Longrightarrow> p + parts_sum (d_dst_bpc d) gs \<le> length D \<Longrightarrow>
    w_src w = int o' \<Longrightarrow> w_dst w = int p \<Longrightarrow>
    foldE (walk_group cdiv d S D) (enumerate k (map snd gs)) w =
      Inr \<lparr>w_src = int (o' + parts_sum (d_src_bpc d) gs), w_dst = int (p + parts_sum (d_dst_bpc d) gs),
           w_filled = (fst (w_filled w) @ transfer_pages d gs (drop o' S) (drop p D),
             snd (w_filled w) + sum_list (map (\<lambda>(refs, count, index). count * sum_list (map cr_bytes refs)) gs))\<rparr>"
proof (induction gs arbitrary: k o' p w)
  case Nil
  then show ?case by (simp add: parts_sum_def)
next
  case (Cons g gs)
  obtain refs count index where g: "g = (refs, count, index)" by (cases g)
  have k: "k < length (d_groups d)" "d_groups d ! k = refs" using Cons.prems(1) g by auto
  have later: "\<forall>j < length gs. Suc k + j < length (d_groups d) \<and> d_groups d ! (Suc k + j) = fst (gs ! j)"
    using Cons.prems(1) by fastforce
  have room: "o' + part_len (d_src_bpc d) count index + parts_sum (d_src_bpc d) gs \<le> length S"
    "p + part_len (d_dst_bpc d) count index + parts_sum (d_dst_bpc d) gs \<le> length D"
    using Cons.prems(3,4) g by (simp_all add: parts_sum_def)
  have one: "walk_group cdiv d S D (k, count, index) w = Inr \<lparr>w_src = int (o' + part_len (d_src_bpc d) count index),
      w_dst = int (p + part_len (d_dst_bpc d) count index),
      w_filled = (fst (w_filled w) @ group_pages d refs count index
          (take (part_len (d_src_bpc d) count index) (drop o' S)) (take (part_len (d_dst_bpc d) count index) (drop p D)),
        snd (w_filled w) + count * sum_list (map cr_bytes refs))\<rparr>"
    using walk_one [OF ok cd k(1) _ _ Cons.prems(5,6), of count index S D] Cons.prems(2) g room k(2) by simp
  show ?case
    using Cons.IH [OF later, of "o' + part_len (d_src_bpc d) count index" "p + part_len (d_dst_bpc d) count index"]
      Cons.prems(2) room
    by (simp add: g one parts_sum_def Let_def add.assoc add.commute)
qed

lemma group_pages_length: "length (group_pages d refs count index gsrc gdst) = length refs * nat count"
  by (induction refs) (simp_all add: group_pages_def)

lemma transfer_pages_length:
  "\<forall>(refs, count, index) \<in> set gs. 0 \<le> count \<Longrightarrow>
   int (length (transfer_pages d gs src dst)) = sum_list (map (\<lambda>(refs, count, index). count * int (length refs)) gs)"
  by (induction d gs src dst rule: transfer_pages.induct) (auto simp: Let_def group_pages_length)

lemma estimate_direct:
  assumes "d_plans d = None"
  shows "foldE (\<lambda>(g, count, refs) n. bindE (group_copy_ops d g count refs) (\<lambda>k. Inr (n + k)))
      (enumerate k (zip counts groups)) n =
    Inr (n + sum_list (map (\<lambda>(count, refs). count * int (length refs)) (zip counts groups)))"
  using assms
proof (induction "zip counts groups" arbitrary: k n counts groups)
  case (Cons x xs)
  then obtain c cs g gs where "counts = c # cs" "groups = g # gs" by (cases counts; cases groups) auto
  with Cons show ?case by (simp add: group_copy_ops_def)
qed auto

text \<open>The groups of a request with their sizes and first logical blocks.\<close>

definition transfer_groups :: "direction \<Rightarrow> gpu_spec \<Rightarrow> (cache_ref list \<times> int \<times> int) list" where
  "transfer_groups d spec = zip (d_groups d) (zip (gpu_group_sizes spec) (gpu_block_indices spec))"

definition src_blocks :: "direction \<Rightarrow> gpu_spec \<Rightarrow> int list \<Rightarrow> int list" where
  "src_blocks d spec cpu = (if d_gpu_to_cpu d then gpu_block_ids spec else cpu)"

definition dst_blocks :: "direction \<Rightarrow> gpu_spec \<Rightarrow> int list \<Rightarrow> int list" where
  "dst_blocks d spec cpu = (if d_gpu_to_cpu d then cpu else gpu_block_ids spec)"

text \<open>A specification that names as many blocks and chunks as its groups need.\<close>

definition request_fits :: "direction \<Rightarrow> gpu_spec \<Rightarrow> int list \<Rightarrow> bool" where
  "request_fits d spec cpu \<longleftrightarrow>
     length (gpu_group_sizes spec) = length (d_groups d) \<and> length (gpu_block_indices spec) = length (d_groups d) \<and>
     (\<forall>n \<in> set (gpu_group_sizes spec). 0 \<le> n) \<and> (\<forall>n \<in> set (gpu_block_indices spec). 0 \<le> n) \<and>
     parts_sum (d_src_bpc d) (transfer_groups d spec) = length (src_blocks d spec cpu) \<and>
     parts_sum (d_dst_bpc d) (transfer_groups d spec) = length (dst_blocks d spec cpu)"

lemma plan_direct:
  assumes ok: "direction_ok d" and cd: "cdiv_law cdiv" and fits: "request_fits d spec cpu"
  shows "plan_transfer cdiv d spec cpu =
    Inr (int (length (transfer_pages d (transfer_groups d spec) (src_blocks d spec cpu) (dst_blocks d spec cpu))),
         transfer_pages d (transfer_groups d spec) (src_blocks d spec cpu) (dst_blocks d spec cpu),
         sum_list (map (\<lambda>(refs, count, index). count * sum_list (map cr_bytes refs)) (transfer_groups d spec)))"
proof -
  let ?gs = "transfer_groups d spec" and ?S = "src_blocks d spec cpu" and ?D = "dst_blocks d spec cpu"
  let ?c = "gpu_group_sizes spec" and ?i = "gpu_block_indices spec"
  have len: "length ?c = length (d_groups d)" "length ?i = length (d_groups d)" using fits by (simp_all add: request_fits_def)
  have snd: "map snd ?gs = zip ?c ?i" using len by (simp add: transfer_groups_def)
  have at: "\<forall>j < length ?gs. 0 + j < length (d_groups d) \<and> d_groups d ! (0 + j) = fst (?gs ! j)"
    using len by (simp add: transfer_groups_def)
  have nn: "\<forall>(refs, count, index) \<in> set ?gs. 0 \<le> count \<and> 0 \<le> index"
    using fits by (auto simp: transfer_groups_def request_fits_def dest: set_zip_rightD set_zip_leftD)
  have sums: "parts_sum (d_src_bpc d) ?gs = length ?S" "parts_sum (d_dst_bpc d) ?gs = length ?D"
    using fits by (simp_all add: request_fits_def)
  have walk: "foldE (walk_group cdiv d ?S ?D) (enumerate 0 (zip ?c ?i)) \<lparr>w_src = 0, w_dst = 0, w_filled = ([], 0)\<rparr> =
      Inr \<lparr>w_src = int (length ?S), w_dst = int (length ?D),
        w_filled = (transfer_pages d ?gs ?S ?D, sum_list (map (\<lambda>(refs, count, index). count * sum_list (map cr_bytes refs)) ?gs))\<rparr>"
    using walk_all [OF ok cd at nn, of 0 ?S 0 ?D "\<lparr>w_src = 0, w_dst = 0, w_filled = ([], 0)\<rparr>"] sums snd by simp
  have "sum_list (map (\<lambda>(count, refs). count * int (length refs)) (zip ?c (d_groups d))) =
      sum_list (map (\<lambda>(refs, count, index). count * int (length refs)) ?gs)"
    using len unfolding transfer_groups_def
    by (intro arg_cong [where f = sum_list] nth_equalityI) simp_all
  also have "\<dots> = int (length (transfer_pages d ?gs ?S ?D))"
    using transfer_pages_length [of ?gs d ?S ?D] nn by fastforce
  finally have need: "estimate_max_copy_ops d ?c = Inr (int (length (transfer_pages d ?gs ?S ?D)))"
    using ok estimate_direct [of d 0 ?c "d_groups d" 0] by (simp add: estimate_max_copy_ops_def direction_ok_def)
  show ?thesis using len need walk by (simp add: plan_transfer_def src_blocks_def dst_blocks_def Let_def)
qed

end
