(* ===== verification/Swap_Dispatch.thy ===== *)
theory Swap_Dispatch
  imports GPU_Transfer Py_Env
begin

text \<open>
  Model of how a batch of copies reaches the driver (\<open>_SwapDiag\<close> in
  \<open>v1/kv_offload/cpu/gpu_worker.py\<close>): the cap on a batch, the probe of a rejected batch item by
  item, the rewrite of the whole rejected span copy by copy, and the last resort of splitting a
  copy at the seam of two registered ranges.

  The driver is a parameter: each of its calls takes the state \<open>'m\<close> of the memories to a new one
  with a return code. What is only logged is left out, so that of the classification of a copy just
  the memory types remain. Host and device pointers lie below \<open>2 ^ 63\<close>.
\<close>

record 'm driver =
  dv_batch :: "copy_op list \<Rightarrow> bool \<Rightarrow> 'm \<Rightarrow> 'm \<times> bool"
  dv_copy :: "copy_op \<Rightarrow> 'm \<Rightarrow> 'm \<times> int"
  dv_dtoh :: "copy_op \<Rightarrow> 'm \<Rightarrow> 'm \<times> int"
  dv_htod :: "copy_op \<Rightarrow> 'm \<Rightarrow> 'm \<times> int"
  dv_mem_type :: "ptr \<Rightarrow> int"
  dv_range_start :: "ptr \<Rightarrow> ptr option"

section \<open>The cap\<close>

definition SWAP_CAP_DEFAULT :: int where
  "SWAP_CAP_DEFAULT = 32"

fun swap_cap :: "string option list \<Rightarrow> int" where
  "swap_cap [] = SWAP_CAP_DEFAULT"
| "swap_cap (None # es) = swap_cap es"
| "swap_cap (Some s # es) =
     (if s = [] then swap_cap es
      else let n = (case py_int s of Some n \<Rightarrow> n | None \<Rightarrow> 0) in
        if 1 \<le> n \<and> n \<le> 1024 then n else swap_cap es)"

section \<open>One copy\<close>

definition probe_registration :: "'m driver \<Rightarrow> copy_op \<Rightarrow> ptr option" where
  "probe_registration dv x =
     (case x of (s, d, n) \<Rightarrow>
        let hp = (if dv_mem_type dv d = 1 then d else s) in
        case (dv_range_start dv hp, dv_range_start dv (hp + of_int n - 1)) of
          (Some a, Some b) \<Rightarrow> if a \<noteq> b \<and> b \<noteq> 0 then Some b else None
        | _ \<Rightarrow> None)"

definition split_retry :: "'m driver \<Rightarrow> copy_op \<Rightarrow> ptr \<Rightarrow> 'm \<Rightarrow> 'm \<times> bool" where
  "split_retry dv x boundary m =
     (case x of (s, d, n) \<Rightarrow>
        let host_is_dst = (dv_mem_type dv d = 1);
            s1 = uint boundary - uint (if host_is_dst then d else s);
            s2 = n - s1
        in if s1 \<le> 0 \<or> s2 \<le> 0 then (m, False)
           else
             let (m1, rc1) = dv_copy dv (s, d, s1) m;
                 (m2, rc2) = (if host_is_dst then dv_copy dv (s + of_int s1, boundary, s2) m1
                              else dv_copy dv (boundary, d + of_int s1, s2) m1)
             in (m2, rc1 = 0 \<and> rc2 = 0))"

definition run_entry :: "'m driver \<Rightarrow> bool \<Rightarrow> copy_op \<Rightarrow> 'm \<Rightarrow> 'm res" where
  "run_entry dv split x m =
     (case x of (s, d, n) \<Rightarrow>
        let (m1, rc) = dv_copy dv x m in
        if rc = 0 then Inr m1
        else
          let smt = dv_mem_type dv s; dmt = dv_mem_type dv d;
              (m2, rc2) = (if smt = 2 \<and> dmt = 1 then (let (m', r) = dv_dtoh dv x m1 in (m', Some r))
                           else if smt = 1 \<and> dmt = 2 then (let (m', r) = dv_htod dv x m1 in (m', Some r))
                           else (m1, None))
          in if rc2 = Some 0 then Inr m2
             else (case probe_registration dv x of
                     Some b \<Rightarrow>
                       if split then (let (m3, ok) = split_retry dv x b m2 in if ok then Inr m3 else Inl RuntimeError)
                       else Inl RuntimeError
                   | None \<Rightarrow> Inl RuntimeError))"

definition run_per_entry :: "'m driver \<Rightarrow> bool \<Rightarrow> copy_op list \<Rightarrow> 'm \<Rightarrow> 'm res" where
  "run_per_entry dv split ops m = foldE (run_entry dv split) ops m"

section \<open>A batch\<close>

definition PROBE_MAX :: nat where
  "PROBE_MAX = 48"

text \<open>The probe stops at the first item that the driver rejects on its own.\<close>

fun probe_items :: "'m driver \<Rightarrow> bool \<Rightarrow> copy_op list \<Rightarrow> 'm \<Rightarrow> 'm" where
  "probe_items dv any [] m = m"
| "probe_items dv any (x # xs) m =
     (let (m', ok) = dv_batch dv [x] any m in if ok then probe_items dv any xs m' else m')"

definition recover :: "'m driver \<Rightarrow> bool \<Rightarrow> bool \<Rightarrow> copy_op list \<Rightarrow> 'm \<Rightarrow> 'm res" where
  "recover dv split any span m = run_per_entry dv split span (probe_items dv any (take PROBE_MAX span) m)"

definition swap_span :: "'m driver \<Rightarrow> bool \<Rightarrow> bool \<Rightarrow> copy_op list \<Rightarrow> 'm \<times> bool \<Rightarrow> ('m \<times> bool) res" where
  "swap_span dv split any span st =
     (let (m', ok) = dv_batch dv span any (fst st) in
      if ok then Inr (m', snd st)
      else bindE (recover dv split any span m') (\<lambda>m''. Inr (m'', True)))"

function spans :: "nat \<Rightarrow> 'a list \<Rightarrow> 'a list list" where
  "spans cap xs = (if xs = [] \<or> cap = 0 then [] else take cap xs # spans cap (drop cap xs))"
  by auto
termination by (relation "measure (\<lambda>(cap, xs). length xs)") auto

text \<open>The function that a handler calls; the flag is the sticky mode of the process.\<close>

definition dispatch_swap :: "'m driver \<Rightarrow> nat \<Rightarrow> bool \<Rightarrow> bool \<Rightarrow> copy_op list \<Rightarrow> 'm \<times> bool \<Rightarrow> ('m \<times> bool) res" where
  "dispatch_swap dv cap split any ops st =
     (if snd st then bindE (run_per_entry dv split ops (fst st)) (\<lambda>m. Inr (m, True))
      else foldE (swap_span dv split any) (spans cap ops) st)"

end
