(* ===== verification/Swap_Facts.thy ===== *)
theory Swap_Facts
  imports Swap_Dispatch
begin

text \<open>
  What a batch of copies does to the memories, and that the dispatcher delivers exactly that however
  the driver fails on the way: a rejected batch may have been carried out in part, and everything
  is written a second time, which changes nothing since no copy writes what another one reads.
\<close>

type_synonym 'b memory = "ptr \<Rightarrow> 'b"

section \<open>Copies as functions on memories\<close>

definition covers :: "copy_op \<Rightarrow> ptr \<Rightarrow> bool" where
  "covers x a \<longleftrightarrow> (case x of (s, d, n) \<Rightarrow> uint (a - d) < n)"

definition reads :: "copy_op \<Rightarrow> ptr \<Rightarrow> bool" where
  "reads x a \<longleftrightarrow> (case x of (s, d, n) \<Rightarrow> uint (a - s) < n)"

definition origin :: "copy_op \<Rightarrow> ptr \<Rightarrow> ptr" where
  "origin x a = (case x of (s, d, n) \<Rightarrow> s + (a - d))"

fun copied :: "copy_op list \<Rightarrow> 'b memory \<Rightarrow> 'b memory" where
  "copied [] m a = m a"
| "copied (x # xs) m a = (if covers x a then m (origin x a) else copied xs m a)"

text \<open>Copies that may be carried out in any order and more than once.\<close>

definition independent :: "copy_op list \<Rightarrow> bool" where
  "independent xs \<longleftrightarrow>
     (\<forall>i < length xs. \<forall>j < length xs. \<forall>a.
        (i \<noteq> j \<longrightarrow> \<not> (covers (xs ! i) a \<and> covers (xs ! j) a)) \<and> \<not> (covers (xs ! i) a \<and> reads (xs ! j) a))"

text \<open>What is relied on of the driver: an accepted call copies, a rejected one at most a part.\<close>

definition partly :: "copy_op list \<Rightarrow> 'b memory \<Rightarrow> 'b memory \<Rightarrow> bool" where
  "partly xs m m' \<longleftrightarrow> (\<forall>a. m' a = m a \<or> (\<exists>x \<in> set xs. covers x a \<and> m' a = m (origin x a)))"

definition lawful_call :: "copy_op list \<Rightarrow> 'b memory \<Rightarrow> 'b memory \<Rightarrow> bool \<Rightarrow> bool" where
  "lawful_call xs m m' ok \<longleftrightarrow> partly xs m m' \<and> (ok \<longrightarrow> m' = copied xs m)"

definition lawful_driver :: "'b memory driver \<Rightarrow> bool" where
  "lawful_driver dv \<longleftrightarrow>
     (\<forall>xs any m m' ok. independent xs \<longrightarrow> dv_batch dv xs any m = (m', ok) \<longrightarrow> lawful_call xs m m' ok) \<and>
     (\<forall>x m m' rc. independent [x] \<longrightarrow>
        dv_copy dv x m = (m', rc) \<or> dv_dtoh dv x m = (m', rc) \<or> dv_htod dv x m = (m', rc) \<longrightarrow>
        lawful_call [x] m m' (rc = 0))"

lemma covers_reads_origin: "covers x a \<Longrightarrow> reads x (origin x a)"
  by (cases x) (simp add: covers_def reads_def origin_def)

lemma independentD:
  assumes "independent xs" "x \<in> set xs" "y \<in> set xs"
  shows "covers x a \<Longrightarrow> \<not> reads y a"
    and "x \<noteq> y \<Longrightarrow> covers x a \<Longrightarrow> \<not> covers y a"
  using assms unfolding independent_def by (metis in_set_conv_nth)+

lemma copied_other: "\<forall>x \<in> set xs. \<not> covers x a \<Longrightarrow> copied xs m a = m a"
  by (induction xs) auto

lemma copied_covered:
  "independent xs \<Longrightarrow> x \<in> set xs \<Longrightarrow> covers x a \<Longrightarrow> copied xs m a = m (origin x a)"
proof (induction xs)
  case (Cons y ys)
  have "independent ys"
    unfolding independent_def
  proof (intro allI impI)
    fix i j a assume "i < length ys" "j < length ys"
    then show "(i \<noteq> j \<longrightarrow> \<not> (covers (ys ! i) a \<and> covers (ys ! j) a)) \<and> \<not> (covers (ys ! i) a \<and> reads (ys ! j) a)"
      using Cons.prems(1) unfolding independent_def
      by (metis (no_types, lifting) Suc_less_eq length_Cons nat.inject nth_Cons_Suc)
  qed
  moreover have "covers y a \<Longrightarrow> x = y" using independentD(2) [OF Cons.prems(1,2), of y a] Cons.prems(3) by auto
  ultimately show ?case using Cons by auto
qed simp

lemma independent_sub:
  assumes "independent xs" and "ys = take k (drop j xs)"
  shows "independent ys"
  unfolding independent_def
proof (intro allI impI)
  fix i i' a assume "i < length ys" "i' < length ys"
  then have "ys ! i = xs ! (j + i)" "ys ! i' = xs ! (j + i')" "j + i < length xs" "j + i' < length xs"
    using assms(2) by auto
  then show "(i \<noteq> i' \<longrightarrow> \<not> (covers (ys ! i) a \<and> covers (ys ! i') a)) \<and> \<not> (covers (ys ! i) a \<and> reads (ys ! i') a)"
    using assms(1) unfolding independent_def by (metis add_left_cancel)
qed

section \<open>Progress towards the copied memory\<close>

text \<open>
  \<open>swap_settled xs m D m'\<close>: starting from \<open>m\<close>, the memory \<open>m'\<close> holds some of the copies of \<open>xs\<close>, and at
  least those of \<open>D\<close>.
\<close>

definition swap_settled :: "copy_op list \<Rightarrow> 'b memory \<Rightarrow> copy_op set \<Rightarrow> 'b memory \<Rightarrow> bool" where
  "swap_settled xs m D m' \<longleftrightarrow>
     (\<forall>a. m' a = m a \<or> m' a = copied xs m a) \<and> (\<forall>x \<in> D. \<forall>a. covers x a \<longrightarrow> m' a = copied xs m a)"

lemma settled_start: "swap_settled xs m {} m"
  by (simp add: swap_settled_def)

lemma settled_all: "swap_settled xs m (set xs) m' \<Longrightarrow> m' = copied xs m"
proof (rule ext)
  fix a assume S: "swap_settled xs m (set xs) m'"
  show "m' a = copied xs m a"
  proof (cases "\<exists>x \<in> set xs. covers x a")
    case True then show ?thesis using S by (auto simp: swap_settled_def)
  next
    case False
    then have "copied xs m a = m a" by (intro copied_other) blast
    moreover have "m' a = m a \<or> m' a = copied xs m a" using S by (simp add: swap_settled_def)
    ultimately show ?thesis by auto
  qed
qed

text \<open>A call may also carry out a part of a copy.\<close>

definition part_of :: "copy_op \<Rightarrow> copy_op \<Rightarrow> bool" where
  "part_of y x \<longleftrightarrow> (\<forall>a. covers y a \<longrightarrow> covers x a \<and> origin y a = origin x a)"

lemma settled_source:
  assumes "independent xs" "swap_settled xs m D m'" "y \<in> set xs" "covers y a"
  shows "m' (origin y a) = m (origin y a)"
proof -
  have "\<forall>x \<in> set xs. \<not> covers x (origin y a)"
    using independentD(1) [OF assms(1)] covers_reads_origin [OF assms(4)] assms(3) by blast
  then have "copied xs m (origin y a) = m (origin y a)" by (rule copied_other)
  moreover have "m' (origin y a) = m (origin y a) \<or> m' (origin y a) = copied xs m (origin y a)"
    using assms(2) by (simp add: swap_settled_def)
  ultimately show ?thesis by auto
qed

lemma settled_call:
  assumes ind: "independent xs" and S: "swap_settled xs m D m1" and sub: "\<forall>y \<in> set ys. \<exists>x \<in> set xs. part_of y x"
    and iy: "independent ys" and call: "lawful_call ys m1 m2 ok"
  shows "swap_settled xs m (D \<union> (if ok then set ys else {})) m2"
proof -
  have val: "m1 (origin y a) = copied xs m a" if y: "y \<in> set ys" and c: "covers y a" for y a
  proof -
    obtain x where px: "x \<in> set xs" "part_of y x" by (rule bexE [OF bspec [OF sub y]])
    then have x: "x \<in> set xs" "covers x a" "origin y a = origin x a" using c by (simp_all add: part_of_def)
    show ?thesis using settled_source [OF ind S x(1,2)] copied_covered [OF ind x(1,2), of m] x(3) by simp
  qed
  have step: "m2 a = m1 a \<or> m2 a = copied xs m a" for a
  proof -
    have "m2 a = m1 a \<or> (\<exists>x \<in> set ys. covers x a \<and> m2 a = m1 (origin x a))"
      using call by (simp add: lawful_call_def partly_def)
    then show ?thesis using val by auto
  qed
  have old: "m1 a = m a \<or> m1 a = copied xs m a" for a using S by (simp add: swap_settled_def)
  have "m2 a = m a \<or> m2 a = copied xs m a" for a using step [of a] old [of a] by auto
  moreover have "m2 a = copied xs m a" if "x \<in> D" "covers x a" for x a
  proof -
    have "m1 a = copied xs m a" using S that by (simp add: swap_settled_def)
    then show ?thesis using step [of a] by simp
  qed
  moreover have "m2 a = copied xs m a" if ok "x \<in> set ys" "covers x a" for x a
    using call that val copied_covered [OF iy that(2,3), of m1] by (simp add: lawful_call_def)
  ultimately show ?thesis by (auto simp: swap_settled_def)
qed

lemma part_of_refl: "part_of x x"
  by (simp add: part_of_def)

lemma settled_mono: "swap_settled xs m D m' \<Longrightarrow> D' \<subseteq> D \<Longrightarrow> swap_settled xs m D' m'"
  by (auto simp: swap_settled_def)

section \<open>One copy\<close>

lemma independent_one:
  assumes "independent xs" "x \<in> set xs"
  shows "independent [x]"
  using independentD(1) [OF assms assms(2)] by (simp add: independent_def)

text \<open>The two halves of a copy that is split.\<close>

lemma uint_within: "uint (a + b :: ptr) < uint b + n" if "uint a < n"
proof -
  have "uint (a + b) \<le> uint a + uint b" by (rule uint_add_le)
  then show ?thesis using that by simp
qed

lemma halves:
  fixes s d :: ptr
  assumes "s1 + s2 = n" "0 < s1" "s1 < 2 ^ 64"
  shows "part_of (s, d, s1) (s, d, n) \<or> s2 < 0" and "part_of (s + of_int s1, d + of_int s1, s2) (s, d, n)"
    and "covers (s, d, n) a \<Longrightarrow> covers (s, d, s1) a \<or> covers (s + of_int s1, d + of_int s1, s2) a"
    and "reads (s + of_int s1, d + of_int s1, s2) a \<Longrightarrow> reads (s, d, n) a"
proof -
  have u: "uint (of_int s1 :: ptr) = s1" using assms(2,3) by (simp add: uint_word_of_int_eq take_bit_int_eq_self)
  have shift: "uint (a - p) < n" if "uint (a - (p + of_int s1)) < s2" for a p :: ptr
    using uint_within [of "a - (p + of_int s1)" s2 "of_int s1"] that u assms(1) by (simp add: algebra_simps)
  show "part_of (s, d, s1) (s, d, n) \<or> s2 < 0" using assms(1) by (auto simp: part_of_def covers_def origin_def)
  show "part_of (s + of_int s1, d + of_int s1, s2) (s, d, n)"
    using shift [of _ d] by (auto simp: part_of_def covers_def origin_def algebra_simps)
  show "reads (s + of_int s1, d + of_int s1, s2) a \<Longrightarrow> reads (s, d, n) a"
    using shift [of a s] by (simp add: reads_def)
  show "covers (s, d, n) a \<Longrightarrow> covers (s, d, s1) a \<or> covers (s + of_int s1, d + of_int s1, s2) a"
  proof -
    assume c: "covers (s, d, n) a"
    show ?thesis
    proof (cases "uint (a - d) < s1")
      case False
      have "uint (a - d - of_int s1) = uint (a - d) - s1"
        using False u by (simp add: uint_sub_if')
      then show ?thesis using c assms(1) by (simp add: covers_def algebra_simps)
    qed (simp add: covers_def)
  qed
qed

lemma settled_more:
  "swap_settled xs m D m' \<Longrightarrow> (\<And>a. covers x a \<Longrightarrow> \<exists>y \<in> D. covers y a) \<Longrightarrow> swap_settled xs m (insert x D) m'"
  by (fastforce simp: swap_settled_def)

lemma lawful_copy:
  "lawful_driver dv \<Longrightarrow> independent [x] \<Longrightarrow> dv_copy dv x m = (m', rc) \<Longrightarrow> lawful_call [x] m m' (rc = 0)"
  "lawful_driver dv \<Longrightarrow> independent [x] \<Longrightarrow> dv_dtoh dv x m = (m', rc) \<Longrightarrow> lawful_call [x] m m' (rc = 0)"
  "lawful_driver dv \<Longrightarrow> independent [x] \<Longrightarrow> dv_htod dv x m = (m', rc) \<Longrightarrow> lawful_call [x] m m' (rc = 0)"
  unfolding lawful_driver_def by blast+

lemma settled_part:
  assumes ind: "independent xs" and S: "swap_settled xs m D m1" and x: "x \<in> set xs" and part: "part_of y x" and iy: "independent [y]"
    and law: "lawful_driver dv" and call: "dv_copy dv y m1 = (m2, rc)"
  shows "swap_settled xs m D m2" and "rc = 0 \<Longrightarrow> swap_settled xs m (insert y D) m2"
proof -
  have "\<forall>y \<in> set [y]. \<exists>x \<in> set xs. part_of y x" using x part by auto
  from settled_call [OF ind S this iy lawful_copy(1) [OF law iy call]]
  have "swap_settled xs m (D \<union> (if rc = 0 then set [y] else {})) m2" by simp
  then show "swap_settled xs m D m2" "rc = 0 \<Longrightarrow> swap_settled xs m (insert y D) m2"
    by (auto elim: settled_mono split: if_splits)
qed

lemma half_independent:
  assumes "independent [(s, d, n)]" "s1 + s2 = n" "0 < s1" "0 < s2" "s1 < 2 ^ 64"
  shows "independent [(s, d, s1)]" and "independent [(s + of_int s1, d + of_int s1, s2)]"
proof -
  have no: "\<not> (covers (s, d, n) a \<and> reads (s, d, n) a)" for a using assms(1) by (auto simp: independent_def)
  note h = halves [OF assms(2,3,5), of s d]
  show "independent [(s, d, s1)]"
    using no assms(2,4) by (auto simp: independent_def covers_def reads_def) (smt (verit))
  show "independent [(s + of_int s1, d + of_int s1, s2)]"
    using no h(2,4) by (auto simp: independent_def part_of_def)
qed

lemma split_retry_True:
  assumes "split_retry dv (s, d, n) b m = (m2, True)"
  obtains s1 m' where "0 < s1" "s1 < n" "s1 < 2 ^ 64" "dv_copy dv (s, d, s1) m = (m', 0)"
    "dv_copy dv (s + of_int s1, d + of_int s1, n - s1) m' = (m2, 0)"
proof (cases "dv_mem_type dv d = 1")
  case True
  define s1 where "s1 = uint b - uint d"
  have b: "d + of_int s1 = b" by (simp add: s1_def)
  have "uint b < 2 ^ 64" using uint_lt2p [of b] by simp
  then have "s1 < 2 ^ 64" using uint_ge_0 [of d] unfolding s1_def by linarith
  moreover have "0 < s1" using assms True by (auto simp: split_retry_def Let_def s1_def split: if_splits prod.splits)
  ultimately show ?thesis using that [of s1] assms True b
    by (auto simp: split_retry_def Let_def s1_def [symmetric] split: if_splits prod.splits)
next
  case False
  define s1 where "s1 = uint b - uint s"
  have b: "s + of_int s1 = b" by (simp add: s1_def)
  have "uint b < 2 ^ 64" using uint_lt2p [of b] by simp
  then have "s1 < 2 ^ 64" using uint_ge_0 [of s] unfolding s1_def by linarith
  moreover have "0 < s1" using assms False by (auto simp: split_retry_def Let_def s1_def split: if_splits prod.splits)
  ultimately show ?thesis using that [of s1] assms False b
    by (auto simp: split_retry_def Let_def s1_def [symmetric] split: if_splits prod.splits)
qed

lemma split_retry_settled:
  assumes ind: "independent xs" and S: "swap_settled xs m D m1" and x: "(s, d, n) \<in> set xs" and law: "lawful_driver dv"
    and R: "split_retry dv (s, d, n) b m1 = (m2, True)"
  shows "swap_settled xs m (insert (s, d, n) D) m2"
proof -
  obtain s1 m' where pos: "0 < s1" "s1 < n" and lt: "s1 < 2 ^ 64" and c1: "dv_copy dv (s, d, s1) m1 = (m', 0)"
    and c2: "dv_copy dv (s + of_int s1, d + of_int s1, n - s1) m' = (m2, 0)"
    using R by (rule split_retry_True)
  let ?y2 = "(s + of_int s1, d + of_int s1, n - s1)"
  have i1: "independent [(s, d, n)]" by (rule independent_one [OF ind x])
  have i2: "independent [(s, d, s1)]" "independent [?y2]" using half_independent [OF i1, of s1 "n - s1"] pos lt by simp_all
  note h = halves [OF _ pos(1) lt, of "n - s1" n s d]
  have p1: "part_of (s, d, s1) (s, d, n)" using h(1) pos by auto
  have "swap_settled xs m (insert (s, d, s1) D) m'"
    using settled_part(2) [OF ind S x p1 i2(1) law c1] by simp
  then have "swap_settled xs m (insert ?y2 (insert (s, d, s1) D)) m2"
    using settled_part(2) [OF ind _ x _ i2(2) law c2] h(2) by simp
  then have "swap_settled xs m (insert (s, d, n) (insert ?y2 (insert (s, d, s1) D))) m2"
    by (rule settled_more) (use h(3) in auto)
  then show ?thesis by (rule settled_mono) auto
qed

section \<open>The dispatcher\<close>

lemma parts_subset:
  assumes "set ys \<subseteq> set xs"
  shows "\<forall>y \<in> set ys. \<exists>x \<in> set xs. part_of y x"
proof
  fix y assume "y \<in> set ys"
  with assms have "y \<in> set xs" by (rule subsetD)
  then show "\<exists>x \<in> set xs. part_of y x" by (rule bexI [of "part_of y" y, OF part_of_refl])
qed

lemma one_call:
  assumes "independent xs" "swap_settled xs m D m1" "x \<in> set xs" "lawful_call [x] m1 m2 ok"
  shows "swap_settled xs m D m2" and "ok \<Longrightarrow> swap_settled xs m (insert x D) m2"
proof -
  have part: "\<forall>y \<in> set [x]. \<exists>x' \<in> set xs. part_of y x'" using assms(3) by (intro parts_subset) simp
  have "swap_settled xs m (D \<union> (if ok then set [x] else {})) m2"
    by (rule settled_call [OF assms(1,2) part independent_one [OF assms(1,3)] assms(4)])
  then show "swap_settled xs m D m2" "ok \<Longrightarrow> swap_settled xs m (insert x D) m2"
    by (auto elim: settled_mono split: if_splits)
qed

lemma run_entry_settled:
  assumes ind: "independent xs" and S: "swap_settled xs m D m1" and x: "x \<in> set xs" and law: "lawful_driver dv"
    and R: "run_entry dv split x m1 = Inr m'"
  shows "swap_settled xs m (insert x D) m'"
proof -
  obtain s d n where xe: "x = (s, d, n)" by (cases x)
  have ix: "independent [x]" by (rule independent_one [OF ind x])
  obtain m2 rc where c: "dv_copy dv x m1 = (m2, rc)" by fastforce
  note S2 = one_call [OF ind S x lawful_copy(1) [OF law ix c]]
  show ?thesis
  proof (cases "rc = 0")
    case True then show ?thesis using S2(2) R c by (simp add: run_entry_def xe)
  next
    case False
    obtain m3 rc2 where e: "(if dv_mem_type dv s = 2 \<and> dv_mem_type dv d = 1 then (let (m', r) = dv_dtoh dv x m2 in (m', Some r))
         else if dv_mem_type dv s = 1 \<and> dv_mem_type dv d = 2 then (let (m', r) = dv_htod dv x m2 in (m', Some r))
         else (m2, None)) = (m3, rc2)" by fastforce
    have S3: "swap_settled xs m D m3 \<and> (rc2 = Some 0 \<longrightarrow> swap_settled xs m (insert x D) m3)"
      using e one_call [OF ind S2(1) x lawful_copy(2) [OF law ix]] one_call [OF ind S2(1) x lawful_copy(3) [OF law ix]] S2(1)
      by (auto split: if_splits prod.splits)
    show ?thesis
    proof (cases "rc2 = Some 0")
      case True then show ?thesis using S3 R c False e [unfolded xe] by (simp add: run_entry_def xe Let_def)
    next
      case no: False
      obtain b m4 where "split_retry dv x b m3 = (m4, True)" "m' = m4"
        using R c False e [unfolded xe] no by (auto simp: run_entry_def xe Let_def split: option.splits if_splits prod.splits)
      then show ?thesis using split_retry_settled [OF ind _ _ law] S3 x xe by metis
    qed
  qed
qed

lemma run_per_entry_settled:
  "independent xs \<Longrightarrow> lawful_driver dv \<Longrightarrow> set ys \<subseteq> set xs \<Longrightarrow> swap_settled xs m D m1 \<Longrightarrow>
   run_per_entry dv split ys m1 = Inr m' \<Longrightarrow> swap_settled xs m (D \<union> set ys) m'"
proof (induction ys arbitrary: D m1)
  case (Cons y ys)
  obtain m2 where m2: "run_entry dv split y m1 = Inr m2" "run_per_entry dv split ys m2 = Inr m'"
    using Cons.prems(5) by (auto simp: run_per_entry_def res_simps)
  have "y \<in> set xs" using Cons.prems(3) by simp
  then have "swap_settled xs m (insert y D) m2" by (rule run_entry_settled [OF Cons.prems(1,4) _ Cons.prems(2) m2(1)])
  then show ?case using Cons.IH [of "insert y D" m2] Cons.prems m2(2) by simp
qed (simp add: run_per_entry_def)

lemma batch_call:
  "lawful_driver dv \<Longrightarrow> independent ys \<Longrightarrow> dv_batch dv ys any m1 = (m2, ok) \<Longrightarrow> lawful_call ys m1 m2 ok"
  unfolding lawful_driver_def by blast

lemma probe_settled:
  "independent xs \<Longrightarrow> lawful_driver dv \<Longrightarrow> set ys \<subseteq> set xs \<Longrightarrow> swap_settled xs m D m1 \<Longrightarrow>
   swap_settled xs m D (probe_items dv any ys m1)"
proof (induction ys arbitrary: m1)
  case (Cons y ys)
  obtain m2 ok where c: "dv_batch dv [y] any m1 = (m2, ok)" by fastforce
  have y: "y \<in> set xs" using Cons.prems(3) by simp
  have "swap_settled xs m D m2"
    using one_call(1) [OF Cons.prems(1,4) y batch_call [OF Cons.prems(2) independent_one [OF Cons.prems(1) y] c]] .
  then show ?case using Cons c by simp
qed simp

lemma swap_span_settled:
  assumes ind: "independent xs" and law: "lawful_driver dv" and sub: "set ys \<subseteq> set xs" and iy: "independent ys"
    and S: "swap_settled xs m D (fst st)" and R: "swap_span dv split any ys st = Inr st'"
  shows "swap_settled xs m (D \<union> set ys) (fst st')"
proof -
  obtain m2 ok where c: "dv_batch dv ys any (fst st) = (m2, ok)" by fastforce
  have "\<forall>y \<in> set ys. \<exists>x \<in> set xs. part_of y x" by (rule parts_subset [OF sub])
  note S2 = settled_call [OF ind S this iy batch_call [OF law iy c]]
  show ?thesis
  proof (cases ok)
    case True then show ?thesis using S2 R c by (auto simp: swap_span_def)
  next
    case False
    obtain m3 where "run_per_entry dv split ys (probe_items dv any (take PROBE_MAX ys) m2) = Inr m3" "fst st' = m3"
      using R c False by (auto simp: swap_span_def recover_def res_simps)
    moreover have "swap_settled xs m D (probe_items dv any (take PROBE_MAX ys) m2)"
      using S2 False by (intro probe_settled [OF ind law]) (use sub in \<open>auto dest: in_set_takeD\<close>)
    ultimately show ?thesis using run_per_entry_settled [OF ind law sub] by blast
  qed
qed

declare spans.simps [simp del]

lemma spans_ok:
  "0 < cap \<Longrightarrow> concat (spans cap xs) = xs \<and> (\<forall>ys \<in> set (spans cap xs). \<exists>j. ys = take cap (drop j xs))"
proof (induction cap xs rule: spans.induct)
  case (1 cap xs)
  show ?case
  proof (cases "xs = []")
    case False
    then have eq: "spans cap xs = take cap xs # spans cap (drop cap xs)" using 1(2) by (simp add: spans.simps)
    have IH: "concat (spans cap (drop cap xs)) = drop cap xs"
      "ys \<in> set (spans cap (drop cap xs)) \<Longrightarrow> \<exists>j. ys = take cap (drop j (drop cap xs))" for ys
      using 1 False by auto
    have "\<exists>j. ys = take cap (drop j xs)" if "ys \<in> set (spans cap xs)" for ys
    proof (cases "ys = take cap xs")
      case True then show ?thesis by (intro exI [of _ 0]) simp
    next
      case False
      then have "ys \<in> set (spans cap (drop cap xs))" using that eq by simp
      then show ?thesis using IH(2) by (metis drop_drop)
    qed
    then show ?thesis using eq IH(1) by simp
  qed (simp add: spans.simps)
qed

lemma spans_parts:
  assumes "0 < cap" "ys \<in> set (spans cap xs)" and "independent xs"
  shows "set ys \<subseteq> set xs" and "independent ys"
proof -
  have "set xs = set (concat (spans cap xs))" using spans_ok [OF assms(1), of xs] by metis
  then show "set ys \<subseteq> set xs" using assms(2) by auto
  obtain j where "ys = take cap (drop j xs)" using spans_ok [OF assms(1), of xs] assms(2) by blast
  then show "independent ys" by (rule independent_sub [OF assms(3)])
qed

lemma spans_fold:
  assumes ind: "independent xs" and law: "lawful_driver dv"
  shows "\<forall>ys \<in> set yss. set ys \<subseteq> set xs \<and> independent ys \<Longrightarrow> swap_settled xs m D (fst st) \<Longrightarrow>
    foldE (swap_span dv split any) yss st = Inr st' \<Longrightarrow> swap_settled xs m (D \<union> set (concat yss)) (fst st')"
proof (induction yss arbitrary: D st)
  case (Cons ys yss)
  obtain st1 where s: "swap_span dv split any ys st = Inr st1" "foldE (swap_span dv split any) yss st1 = Inr st'"
    using Cons.prems(3) by (auto simp: res_simps)
  have "swap_settled xs m (D \<union> set ys) (fst st1)"
    using swap_span_settled [OF ind law _ _ Cons.prems(2) s(1)] Cons.prems(1) by simp
  from Cons.IH [OF _ this s(2)] Cons.prems(1) show ?case by (simp add: Un_assoc)
qed simp

lemma dispatch_copies:
  assumes ind: "independent xs" and law: "lawful_driver dv" and cap: "0 < cap"
    and R: "dispatch_swap dv cap split any xs (m, sticky) = Inr (m', sticky')"
  shows "m' = copied xs m"
proof (cases sticky)
  case True
  then have "run_per_entry dv split xs m = Inr m'" using R by (auto simp: dispatch_swap_def res_simps)
  then have "swap_settled xs m (set xs) m'" using run_per_entry_settled [OF ind law _ settled_start] by fastforce
  then show ?thesis by (rule settled_all)
next
  case False
  have "foldE (swap_span dv split any) (spans cap xs) (m, sticky) = Inr (m', sticky')"
    using R False by (simp add: dispatch_swap_def)
  moreover have "set ys \<subseteq> set xs \<and> independent ys" if "ys \<in> set (spans cap xs)" for ys
    using spans_parts [OF cap that ind] by simp
  ultimately have "swap_settled xs m ({} \<union> set (concat (spans cap xs))) m'"
    using spans_fold [OF ind law, of "spans cap xs" m "{}" "(m, sticky)"] settled_start by fastforce
  then show ?thesis using spans_ok [OF cap, of xs] by (auto intro: settled_all)
qed

text \<open>The dispatcher gives up only on a copy that the driver rejects in every way.\<close>

lemma run_per_entry_total:
  "\<forall>x \<in> set ys. \<forall>m. \<exists>m'. run_entry dv split x m = Inr m' \<Longrightarrow> \<exists>m'. run_per_entry dv split ys m = Inr m'"
  unfolding run_per_entry_def using foldE_total [of "\<lambda>_. True" m ys "run_entry dv split"] by auto

lemma dispatch_total:
  assumes "\<forall>x \<in> set xs. \<forall>m. \<exists>m'. run_entry dv split x m = Inr m'" and cap: "0 < cap"
  shows "\<exists>st'. dispatch_swap dv cap split any xs st = Inr st'"
proof (cases "snd st")
  case True then show ?thesis using run_per_entry_total [OF assms(1), of "fst st"] by (auto simp: dispatch_swap_def)
next
  case False
  have "\<exists>st'. swap_span dv split any ys st = Inr st' \<and> True" if "ys \<in> set (spans cap xs)" for ys st
  proof -
    have "set xs = set (concat (spans cap xs))" using spans_ok [OF cap, of xs] by metis
    then have "set ys \<subseteq> set xs" using that by auto
    then have R: "\<exists>m'. run_per_entry dv split ys m = Inr m'" for m using assms(1) by (intro run_per_entry_total) blast
    obtain m2 ok where c: "dv_batch dv ys any (fst st) = (m2, ok)" by fastforce
    obtain m3 where "run_per_entry dv split ys (probe_items dv any (take PROBE_MAX ys) m2) = Inr m3" using R by blast
    then show ?thesis using c by (auto simp: swap_span_def recover_def)
  qed
  then show ?thesis using foldE_total [of "\<lambda>_. True" st "spans cap xs" "swap_span dv split any"] False
    by (auto simp: dispatch_swap_def)
qed

end
