(* ===== verification/GPU_Memory.thy ===== *)
theory GPU_Memory
  imports GPU_Transfer_Facts Swap_Facts
begin

text \<open>
  That the descriptors of a transfer are independent copies: the pages they write are different
  ones, and none of them is read. This follows from where the tensors lie (the views of the shared
  region are laid out so) and from the blocks of a request being different.
\<close>

section \<open>Rows and pages\<close>

definition row_bytes :: "tensor2 \<Rightarrow> int \<Rightarrow> int set" where
  "row_bytes t b = {uint (tn_base t) + b * tn_pitch t..<uint (tn_base t) + b * tn_pitch t + tn_cols t}"

definition in_memory :: "tensor2 \<Rightarrow> bool" where
  "in_memory t \<longleftrightarrow> (\<forall>b. 0 \<le> b \<longrightarrow> b < tn_rows t \<longrightarrow>
     0 \<le> uint (tn_base t) + b * tn_pitch t \<and> uint (tn_base t) + b * tn_pitch t + tn_cols t \<le> 2 ^ 64)"

definition page_ptr :: "tensor2 \<Rightarrow> int \<Rightarrow> int \<Rightarrow> int \<Rightarrow> ptr" where
  "page_ptr t bpc b j = row_ptr t b + of_int j * of_int (tn_cols t div bpc)"

definition page_start :: "tensor2 \<Rightarrow> int \<Rightarrow> int \<Rightarrow> int \<Rightarrow> int" where
  "page_start t bpc b j = uint (tn_base t) + b * tn_pitch t + j * (tn_cols t div bpc)"

definition page_ok :: "tensor2 \<Rightarrow> int \<Rightarrow> int \<Rightarrow> int \<Rightarrow> int \<Rightarrow> bool" where
  "page_ok t bpc b j n \<longleftrightarrow>
     0 < bpc \<and> 0 \<le> b \<and> b < tn_rows t \<and> 0 \<le> j \<and> j < bpc \<and> 0 < n \<and> n \<le> tn_cols t div bpc \<and> in_memory t"

lemma page_in_row:
  assumes "page_ok t bpc b j n"
  shows "{page_start t bpc b j..<page_start t bpc b j + n} \<subseteq> row_bytes t b"
    and "0 \<le> page_start t bpc b j" and "page_start t bpc b j + n \<le> 2 ^ 64"
proof -
  let ?p = "tn_cols t div bpc"
  have p: "0 < ?p" using assms by (simp add: page_ok_def)
  have "(j + 1) * ?p \<le> bpc * ?p" using assms p by (intro mult_right_mono) (auto simp: page_ok_def)
  also have "bpc * ?p \<le> tn_cols t" using assms by (simp add: page_ok_def minus_mod_eq_mult_div [symmetric])
  finally have hi: "j * ?p + n \<le> tn_cols t" using assms by (simp add: page_ok_def algebra_simps)
  have lo: "0 \<le> j * ?p" using assms p by (simp add: page_ok_def)
  show "{page_start t bpc b j..<page_start t bpc b j + n} \<subseteq> row_bytes t b"
    using hi lo by (auto simp: page_start_def row_bytes_def)
  have mem: "0 \<le> uint (tn_base t) + b * tn_pitch t" "uint (tn_base t) + b * tn_pitch t + tn_cols t \<le> 2 ^ 64"
    using assms by (simp_all add: page_ok_def in_memory_def)
  show "0 \<le> page_start t bpc b j" using mem(1) lo by (simp add: page_start_def)
  show "page_start t bpc b j + n \<le> 2 ^ 64" using mem(2) hi by (simp add: page_start_def)
qed

lemma uint_page_ptr:
  assumes "page_ok t bpc b j n"
  shows "uint (page_ptr t bpc b j) = page_start t bpc b j"
proof -
  have "page_ptr t bpc b j = of_int (page_start t bpc b j)"
    by (simp add: page_ptr_def row_ptr_def page_start_def)
  moreover have "0 \<le> page_start t bpc b j" "page_start t bpc b j < 2 ^ 64"
    using page_in_row [OF assms] assms by (simp_all add: page_ok_def)
  ultimately show ?thesis by (simp add: uint_word_of_int_eq take_bit_int_eq_self)
qed

lemma range_of_ptr:
  fixes a q :: ptr
  assumes "uint q + n \<le> 2 ^ 64" "0 < n"
  shows "uint (a - q) < n \<longleftrightarrow> uint a \<in> {uint q..<uint q + n}"
proof (cases "uint q \<le> uint a")
  case True then show ?thesis by (auto simp: uint_sub_if')
next
  case False
  have "n \<le> uint a - uint q + 2 ^ 64" using assms(1) uint_ge_0 [of a] by linarith
  then show ?thesis using False by (simp add: uint_sub_if')
qed

lemma page_bytes:
  assumes "page_ok t bpc b j n"
  shows "uint (a - page_ptr t bpc b j) < n \<longleftrightarrow> uint a \<in> {page_start t bpc b j..<page_start t bpc b j + n}"
  using range_of_ptr [of "page_ptr t bpc b j" n a] uint_page_ptr [OF assms] page_in_row(3) [OF assms] assms
  by (simp add: page_ok_def)

lemma pages_apart:
  assumes "page_ok t bpc b j n" "page_ok t bpc b j' n'" "j \<noteq> j'"
  shows "{page_start t bpc b j..<page_start t bpc b j + n} \<inter> {page_start t bpc b j'..<page_start t bpc b j' + n'} = {}"
proof -
  let ?p = "tn_cols t div bpc"
  have p: "0 < ?p" "n \<le> ?p" "n' \<le> ?p" using assms by (simp_all add: page_ok_def)
  consider "j + 1 \<le> j'" | "j' + 1 \<le> j" using assms(3) by linarith
  then show ?thesis
  proof cases
    case 1
    then have "(j + 1) * ?p \<le> j' * ?p" using p by (intro mult_right_mono) auto
    then have "page_start t bpc b j + n \<le> page_start t bpc b j'" using p by (simp add: page_start_def algebra_simps)
    then show ?thesis by auto
  next
    case 2
    then have "(j' + 1) * ?p \<le> j * ?p" using p by (intro mult_right_mono) auto
    then have "page_start t bpc b j' + n' \<le> page_start t bpc b j" using p by (simp add: page_start_def algebra_simps)
    then show ?thesis by auto
  qed
qed

section \<open>The pages of a transfer\<close>

text \<open>A descriptor as the tensor, the row and place on either side, and the bytes.\<close>

record page_copy =
  pc_tensor :: nat
  pc_src :: "int \<times> int"
  pc_dst :: "int \<times> int"
  pc_bytes :: int

definition copy_op_of :: "direction \<Rightarrow> page_copy \<Rightarrow> copy_op" where
  "copy_op_of d c =
     (page_ptr (d_src d ! pc_tensor c) (d_src_bpc d) (fst (pc_src c)) (snd (pc_src c)),
      page_ptr (d_dst d ! pc_tensor c) (d_dst_bpc d) (fst (pc_dst c)) (snd (pc_dst c)), pc_bytes c)"

definition block_place :: "int \<Rightarrow> int list \<Rightarrow> int \<Rightarrow> nat \<Rightarrow> int \<times> int" where
  "block_place bpc ids index i = (ids ! nat ((index + int i) div bpc - index div bpc), (index + int i) mod bpc)"

definition page_copy_of :: "direction \<Rightarrow> cache_ref \<Rightarrow> int \<Rightarrow> int list \<Rightarrow> int list \<Rightarrow> nat \<Rightarrow> page_copy" where
  "page_copy_of d ref index gsrc gdst i =
     \<lparr>pc_tensor = cr_tensor ref, pc_src = block_place (d_src_bpc d) gsrc index i,
      pc_dst = block_place (d_dst_bpc d) gdst index i, pc_bytes = cr_bytes ref\<rparr>"

definition group_copies :: "direction \<Rightarrow> cache_ref list \<Rightarrow> int \<Rightarrow> int \<Rightarrow> int list \<Rightarrow> int list \<Rightarrow> page_copy list" where
  "group_copies d refs count index gsrc gdst =
     concat (map (\<lambda>ref. map (page_copy_of d ref index gsrc gdst) [0..<nat count]) refs)"

fun transfer_copies :: "direction \<Rightarrow> (cache_ref list \<times> int \<times> int) list \<Rightarrow> int list \<Rightarrow> int list \<Rightarrow> page_copy list" where
  "transfer_copies d [] src dst = []"
| "transfer_copies d ((refs, count, index) # gs) src dst =
     (let ns = part_len (d_src_bpc d) count index; nd = part_len (d_dst_bpc d) count index
      in group_copies d refs count index (take ns src) (take nd dst) @ transfer_copies d gs (drop ns src) (drop nd dst))"

lemma pages_of_copies: "transfer_pages d gs src dst = map (copy_op_of d) (transfer_copies d gs src dst)"
proof (induction d gs src dst rule: transfer_pages.induct)
  case (2 d refs count index gs src dst)
  have "copy_op_of d (page_copy_of d ref index gsrc gdst i) = page_op d ref index gsrc gdst i" for ref gsrc gdst i
    by (simp add: copy_op_of_def page_copy_of_def page_op_def logical_ptr_def page_ptr_def block_place_def)
  then have "map (copy_op_of d) (group_copies d refs count index gsrc gdst) = group_pages d refs count index gsrc gdst" for gsrc gdst
    by (simp add: group_copies_def group_pages_def map_concat o_def)
  then show ?case using 2 by (simp add: Let_def)
qed simp

text \<open>Different blocks of a group have different places.\<close>

lemma block_place_inj:
  assumes b: "0 < bpc" and c: "0 < count" "0 \<le> index" and ids: "distinct ids" "length ids = part_len bpc count index"
    and i: "i < nat count" "i' < nat count" and eq: "block_place bpc ids index i = block_place bpc ids index i'"
  shows "i = i'"
proof -
  let ?n = "\<lambda>i. nat (index mod bpc) + i"
  have small: "?n j div nat bpc < length ids" if "j < nat count" for j
  proof -
    have "index mod bpc + count \<le> bpc * int (length ids)" using part_len_covers(1) [OF b c] ids(2) by simp
    then have "int (?n j) < int (nat bpc * length ids)" using that b by simp
    then have "?n j < length ids * nat bpc" by (simp only: of_nat_less_iff mult.commute)
    then show ?thesis by (simp add: less_mult_imp_div_less)
  qed
  have "ids ! (?n i div nat bpc) = ids ! (?n i' div nat bpc)" "?n i mod nat bpc = ?n i' mod nat bpc"
    using eq place_of_block [OF b c(2), of i] place_of_block [OF b c(2), of i'] by (simp_all add: block_place_def)
  then have "?n i div nat bpc = ?n i' div nat bpc" using small i ids(1) by (simp add: nth_eq_iff_index_eq)
  then have "?n i = ?n i'" using \<open>?n i mod nat bpc = ?n i' mod nat bpc\<close> by (metis div_mult_mod_eq)
  then show ?thesis by simp
qed

text \<open>Where a copy of a group comes from and goes to.\<close>

lemma group_copy_cases:
  assumes "c \<in> set (group_copies d refs count index gsrc gdst)"
  obtains ref i where "ref \<in> set refs" "i < nat count" "c = page_copy_of d ref index gsrc gdst i"
  using assms by (auto simp: group_copies_def)

lemma block_place_range:
  assumes b: "0 < bpc" and c: "0 < count" "0 \<le> index" and len: "length ids = part_len bpc count index" and i: "i < nat count"
  shows "fst (block_place bpc ids index i) \<in> set ids" and "0 \<le> snd (block_place bpc ids index i)"
    and "snd (block_place bpc ids index i) < bpc"
proof -
  let ?k = "nat (index mod bpc) + i"
  have "index mod bpc + count \<le> bpc * int (length ids)" using part_len_covers(1) [OF b c] len by simp
  then have "int ?k < int (nat bpc * length ids)" using i b by simp
  then have "?k < length ids * nat bpc" by (simp only: of_nat_less_iff mult.commute)
  then have "?k div nat bpc < length ids" by (simp add: less_mult_imp_div_less)
  then show "fst (block_place bpc ids index i) \<in> set ids"
    using place_of_block(1) [OF b c(2), of i] by (simp add: block_place_def)
  show "0 \<le> snd (block_place bpc ids index i)" "snd (block_place bpc ids index i) < bpc"
    using b by (simp_all add: block_place_def)
qed

definition dst_key :: "page_copy \<Rightarrow> nat \<times> int \<times> int" where
  "dst_key c = (pc_tensor c, pc_dst c)"

lemma map_disjoint:
  "(\<And>x y. x \<in> set xs \<Longrightarrow> y \<in> set ys \<Longrightarrow> f x \<noteq> f y) \<Longrightarrow> set (map f xs) \<inter> set (map f ys) = {}"
  by auto

lemma group_keys_distinct:
  assumes b: "0 < d_dst_bpc d" and c: "0 < count" "0 \<le> index" and refs: "distinct (map cr_tensor refs)"
    and ids: "distinct gdst" "length gdst = part_len (d_dst_bpc d) count index"
  shows "distinct (map dst_key (group_copies d refs count index gsrc gdst))"
  using refs
proof (induction refs)
  case (Cons r refs)
  let ?here = "map (page_copy_of d r index gsrc gdst) [0..<nat count]" and ?rest = "group_copies d refs count index gsrc gdst"
  have "distinct (map dst_key ?here)"
    using block_place_inj [OF b c ids]
    by (auto simp: distinct_map dst_key_def page_copy_of_def inj_on_def)
  moreover have "set (map dst_key ?here) \<inter> set (map dst_key ?rest) = {}"
  proof (rule map_disjoint)
    fix x y assume x: "x \<in> set ?here" and y: "y \<in> set ?rest"
    have "pc_tensor x = cr_tensor r" using x by (auto simp: page_copy_of_def)
    moreover have "pc_tensor y \<in> cr_tensor ` set refs" using y by (auto simp: page_copy_of_def group_copies_def)
    ultimately have "pc_tensor x \<noteq> pc_tensor y" using Cons.prems by auto
    then show "dst_key x \<noteq> dst_key y" by (simp add: dst_key_def)
  qed
  moreover have "group_copies d (r # refs) count index gsrc gdst = ?here @ ?rest" by (simp add: group_copies_def)
  ultimately show ?case using Cons by simp
qed (simp add: group_copies_def)

definition groups_lie :: "direction \<Rightarrow> (cache_ref list \<times> int \<times> int) list \<Rightarrow> bool" where
  "groups_lie d gs \<longleftrightarrow> (\<forall>(refs, count, index) \<in> set gs. 0 \<le> count \<and> 0 \<le> index \<and> distinct (map cr_tensor refs) \<and>
     (\<forall>r \<in> set refs. cr_tensor r < length (d_src d) \<and> cr_tensor r < length (d_dst d) \<and> 0 < cr_bytes r \<and>
        cr_bytes r \<le> tn_cols (d_src d ! cr_tensor r) div d_src_bpc d \<and>
        cr_bytes r \<le> tn_cols (d_dst d ! cr_tensor r) div d_dst_bpc d))"

definition copy_ok :: "direction \<Rightarrow> int set \<Rightarrow> int set \<Rightarrow> page_copy \<Rightarrow> bool" where
  "copy_ok d S D c \<longleftrightarrow>
     pc_tensor c < length (d_src d) \<and> pc_tensor c < length (d_dst d) \<and> fst (pc_src c) \<in> S \<and> fst (pc_dst c) \<in> D \<and>
     0 \<le> snd (pc_src c) \<and> snd (pc_src c) < d_src_bpc d \<and> 0 \<le> snd (pc_dst c) \<and> snd (pc_dst c) < d_dst_bpc d \<and>
     0 < pc_bytes c \<and> pc_bytes c \<le> tn_cols (d_src d ! pc_tensor c) div d_src_bpc d \<and>
     pc_bytes c \<le> tn_cols (d_dst d ! pc_tensor c) div d_dst_bpc d"

lemma copies_ok:
  assumes b: "0 < d_src_bpc d" "0 < d_dst_bpc d"
  shows "groups_lie d gs \<Longrightarrow> parts_sum (d_src_bpc d) gs \<le> length src \<Longrightarrow> parts_sum (d_dst_bpc d) gs \<le> length dst \<Longrightarrow>
    distinct dst \<Longrightarrow>
    (\<forall>c \<in> set (transfer_copies d gs src dst). copy_ok d (set src) (set dst) c) \<and>
    distinct (map dst_key (transfer_copies d gs src dst))"
proof (induction gs arbitrary: src dst)
  case (Cons g gs)
  obtain refs count index where g: "g = (refs, count, index)" by (cases g)
  let ?ns = "part_len (d_src_bpc d) count index" and ?nd = "part_len (d_dst_bpc d) count index"
  have room: "?ns + parts_sum (d_src_bpc d) gs \<le> length src" "?nd + parts_sum (d_dst_bpc d) gs \<le> length dst"
    using Cons.prems(2,3) g by (simp_all add: parts_sum_def)
  let ?rest = "transfer_copies d gs (drop ?ns src) (drop ?nd dst)"
  let ?here = "group_copies d refs count index (take ?ns src) (take ?nd dst)"
  have "groups_lie d gs" using Cons.prems(1) by (simp add: groups_lie_def)
  then have rest: "\<forall>c \<in> set ?rest. copy_ok d (set (drop ?ns src)) (set (drop ?nd dst)) c" "distinct (map dst_key ?rest)"
    using Cons.IH [of "drop ?ns src" "drop ?nd dst"] room Cons.prems(4) by simp_all
  have here: "copy_ok d (set (take ?ns src)) (set (take ?nd dst)) c" if mem: "c \<in> set ?here" for c
  proof -
    obtain ref i where r: "ref \<in> set refs" "i < nat count" "c = page_copy_of d ref index (take ?ns src) (take ?nd dst) i"
      using mem by (rule group_copy_cases)
    have c: "0 < count" "0 \<le> index" using r(2) Cons.prems(1) g by (auto simp: groups_lie_def)
    have len: "length (take ?ns src) = ?ns" "length (take ?nd dst) = ?nd" using room by simp_all
    have refs: "cr_tensor ref < length (d_src d) \<and> cr_tensor ref < length (d_dst d) \<and> 0 < cr_bytes ref \<and>
        cr_bytes ref \<le> tn_cols (d_src d ! cr_tensor ref) div d_src_bpc d \<and>
        cr_bytes ref \<le> tn_cols (d_dst d ! cr_tensor ref) div d_dst_bpc d"
      using Cons.prems(1) g r(1) by (auto simp: groups_lie_def)
    show ?thesis
      using block_place_range [OF b(1) c len(1) r(2)] block_place_range [OF b(2) c len(2) r(2)] refs
      by (simp add: copy_ok_def r(3) page_copy_of_def)
  qed
  have all: "copy_ok d (set src) (set dst) c" if "c \<in> set ?here \<union> set ?rest" for c
    using that here rest(1) by (auto simp: copy_ok_def dest: in_set_takeD in_set_dropD)
  have keys: "distinct (map dst_key ?here)"
  proof (cases "count = 0")
    case True
    have "group_copies d refs 0 index gs' gd' = []" for gs' gd' by (induction refs) (simp_all add: group_copies_def)
    then show ?thesis using True by simp
  next
    case False
    have "0 < count" "0 \<le> index" "distinct (map cr_tensor refs)"
      using False Cons.prems(1) g by (auto simp: groups_lie_def)
    then show ?thesis using group_keys_distinct [OF b(2)] Cons.prems(4) room by simp
  qed
  have "set (take ?nd dst) \<inter> set (drop ?nd dst) = {}" using Cons.prems(4) by (rule set_take_disj_set_drop_if_distinct) simp
  then have "dst_key c \<noteq> dst_key c'" if "c \<in> set ?here" "c' \<in> set ?rest" for c c'
    using here [OF that(1)] rest(1) that(2) unfolding copy_ok_def dst_key_def by (metis disjoint_iff prod.inject)
  then have "set (map dst_key ?here) \<inter> set (map dst_key ?rest) = {}" by (rule map_disjoint)
  then show ?case using all keys rest(2) by (auto simp: g Let_def)
qed simp

section \<open>Independence\<close>

text \<open>
  The layout of the memory: the rows lie in the address space, rows that are written do not share
  a byte, nor does a row that is read with one that is written.
\<close>

definition layout_safe :: "direction \<Rightarrow> bool" where
  "layout_safe d \<longleftrightarrow> (\<forall>t \<in> set (d_src d) \<union> set (d_dst d). in_memory t) \<and>
     (\<forall>i < length (d_dst d). \<forall>j < length (d_dst d). \<forall>b c.
        0 \<le> b \<and> b < tn_rows (d_dst d ! i) \<and> 0 \<le> c \<and> c < tn_rows (d_dst d ! j) \<and> (i, b) \<noteq> (j, c) \<longrightarrow>
        row_bytes (d_dst d ! i) b \<inter> row_bytes (d_dst d ! j) c = {}) \<and>
     (\<forall>i < length (d_dst d). \<forall>j < length (d_src d). \<forall>b c.
        0 \<le> b \<and> b < tn_rows (d_dst d ! i) \<and> 0 \<le> c \<and> c < tn_rows (d_src d ! j) \<longrightarrow>
        row_bytes (d_dst d ! i) b \<inter> row_bytes (d_src d ! j) c = {})"

definition rows_exist :: "tensor2 list \<Rightarrow> int set \<Rightarrow> bool" where
  "rows_exist ts B \<longleftrightarrow> (\<forall>t \<in> set ts. \<forall>b \<in> B. 0 \<le> b \<and> b < tn_rows t)"

lemma written_rows:
  assumes "layout_safe d" "i < length (d_dst d)" "j < length (d_dst d)" "0 \<le> b" "b < tn_rows (d_dst d ! i)"
    "0 \<le> c" "c < tn_rows (d_dst d ! j)" "u \<in> row_bytes (d_dst d ! i) b" "u \<in> row_bytes (d_dst d ! j) c"
  shows "i = j \<and> b = c"
proof (rule ccontr)
  assume "\<not> (i = j \<and> b = c)"
  then have "row_bytes (d_dst d ! i) b \<inter> row_bytes (d_dst d ! j) c = {}"
    using assms(1-7) by (simp add: layout_safe_def)
  then show False using assms(8,9) by blast
qed

lemma read_rows:
  assumes "layout_safe d" "i < length (d_dst d)" "j < length (d_src d)" "0 \<le> b" "b < tn_rows (d_dst d ! i)"
    "0 \<le> c" "c < tn_rows (d_src d ! j)" "u \<in> row_bytes (d_dst d ! i) b"
  shows "u \<notin> row_bytes (d_src d ! j) c"
proof -
  have "row_bytes (d_dst d ! i) b \<inter> row_bytes (d_src d ! j) c = {}" using assms(1-7) by (simp add: layout_safe_def)
  then show ?thesis using assms(8) by blast
qed

lemma copy_pages:
  assumes c: "copy_ok d S D c" and lay: "layout_safe d" and rows: "rows_exist (d_src d) S" "rows_exist (d_dst d) D"
    and b: "0 < d_src_bpc d" "0 < d_dst_bpc d"
  shows "page_ok (d_src d ! pc_tensor c) (d_src_bpc d) (fst (pc_src c)) (snd (pc_src c)) (pc_bytes c)"
    and "page_ok (d_dst d ! pc_tensor c) (d_dst_bpc d) (fst (pc_dst c)) (snd (pc_dst c)) (pc_bytes c)"
proof -
  have t: "d_src d ! pc_tensor c \<in> set (d_src d)" "d_dst d ! pc_tensor c \<in> set (d_dst d)"
    using c by (simp_all add: copy_ok_def)
  have "\<forall>t \<in> set (d_src d) \<union> set (d_dst d). in_memory t" using lay by (simp add: layout_safe_def)
  then have "in_memory (d_src d ! pc_tensor c)" "in_memory (d_dst d ! pc_tensor c)" using t by simp_all
  moreover have "fst (pc_src c) \<in> S" "fst (pc_dst c) \<in> D" using c by (simp_all add: copy_ok_def)
  then have "0 \<le> fst (pc_src c) \<and> fst (pc_src c) < tn_rows (d_src d ! pc_tensor c)"
    "0 \<le> fst (pc_dst c) \<and> fst (pc_dst c) < tn_rows (d_dst d ! pc_tensor c)"
    using rows t unfolding rows_exist_def by simp_all
  ultimately show
    "page_ok (d_src d ! pc_tensor c) (d_src_bpc d) (fst (pc_src c)) (snd (pc_src c)) (pc_bytes c)"
    "page_ok (d_dst d ! pc_tensor c) (d_dst_bpc d) (fst (pc_dst c)) (snd (pc_dst c)) (pc_bytes c)"
    using c b by (simp_all add: page_ok_def copy_ok_def)
qed

lemma independent_copies:
  assumes ok: "\<forall>c \<in> set cs. copy_ok d S D c" and keys: "distinct (map dst_key cs)" and lay: "layout_safe d"
    and rows: "rows_exist (d_src d) S" "rows_exist (d_dst d) D" and b: "0 < d_src_bpc d" "0 < d_dst_bpc d"
  shows "independent (map (copy_op_of d) cs)"
  unfolding independent_def
proof (intro allI impI conjI notI)
  fix i j a assume ij: "i < length (map (copy_op_of d) cs)" "j < length (map (copy_op_of d) cs)"
  let ?x = "cs ! i" and ?y = "cs ! j"
  have x: "copy_ok d S D ?x" and y: "copy_ok d S D ?y" using ok ij by simp_all
  note px = copy_pages [OF x lay rows b] and py = copy_pages [OF y lay rows b]
  let ?dx = "d_dst d ! pc_tensor ?x" and ?dy = "d_dst d ! pc_tensor ?y" and ?sy = "d_src d ! pc_tensor ?y"
  have cov: "covers (copy_op_of d c) a \<longleftrightarrow> uint a \<in> {page_start (d_dst d ! pc_tensor c) (d_dst_bpc d) (fst (pc_dst c)) (snd (pc_dst c))..<
      page_start (d_dst d ! pc_tensor c) (d_dst_bpc d) (fst (pc_dst c)) (snd (pc_dst c)) + pc_bytes c}" if "copy_ok d S D c" for c
    using page_bytes [OF copy_pages(2) [OF that lay rows b], of a] by (simp add: covers_def copy_op_of_def)
  have inx: "uint a \<in> row_bytes ?dx (fst (pc_dst ?x))" if "covers (copy_op_of d ?x) a"
    using that cov [OF x] page_in_row(1) [OF px(2)] by blast
  have iny: "uint a \<in> row_bytes ?dy (fst (pc_dst ?y))" if "covers (copy_op_of d ?y) a"
    using that cov [OF y] page_in_row(1) [OF py(2)] by blast
  have tx: "pc_tensor ?x < length (d_dst d)" "pc_tensor ?y < length (d_dst d)" "pc_tensor ?y < length (d_src d)"
    using x y by (simp_all add: copy_ok_def)
  have rx: "0 \<le> fst (pc_dst ?x)" "fst (pc_dst ?x) < tn_rows ?dx" "0 \<le> fst (pc_dst ?y)" "fst (pc_dst ?y) < tn_rows ?dy"
    "0 \<le> fst (pc_src ?y)" "fst (pc_src ?y) < tn_rows ?sy"
    using px py by (simp_all add: page_ok_def)
  show False if "i \<noteq> j" "covers (map (copy_op_of d) cs ! i) a \<and> covers (map (copy_op_of d) cs ! j) a"
  proof -
    have both: "covers (copy_op_of d ?x) a" "covers (copy_op_of d ?y) a" using that(2) ij by simp_all
    have same: "(pc_tensor ?x, fst (pc_dst ?x)) = (pc_tensor ?y, fst (pc_dst ?y))"
      using written_rows [OF lay tx(1,2) rx(1-4) inx [OF both(1)] iny [OF both(2)]] by simp
    have "dst_key ?x \<noteq> dst_key ?y" using keys ij that(1) by (simp add: distinct_conv_nth)
    then have "snd (pc_dst ?x) \<noteq> snd (pc_dst ?y)" using same by (auto simp: dst_key_def prod_eq_iff)
    moreover have "page_ok ?dx (d_dst_bpc d) (fst (pc_dst ?x)) (snd (pc_dst ?y)) (pc_bytes ?y)" using py(2) same by simp
    ultimately have "{page_start ?dx (d_dst_bpc d) (fst (pc_dst ?x)) (snd (pc_dst ?x))..<
          page_start ?dx (d_dst_bpc d) (fst (pc_dst ?x)) (snd (pc_dst ?x)) + pc_bytes ?x} \<inter>
        {page_start ?dx (d_dst_bpc d) (fst (pc_dst ?x)) (snd (pc_dst ?y))..<
          page_start ?dx (d_dst_bpc d) (fst (pc_dst ?x)) (snd (pc_dst ?y)) + pc_bytes ?y} = {}"
      using pages_apart [OF px(2)] by blast
    then show False using cov [OF x] cov [OF y] both same by auto
  qed
  show False if "covers (map (copy_op_of d) cs ! i) a \<and> reads (map (copy_op_of d) cs ! j) a"
  proof -
    have both: "covers (copy_op_of d ?x) a" "reads (copy_op_of d ?y) a" using that ij by simp_all
    have "uint a \<in> row_bytes ?sy (fst (pc_src ?y))"
      using both(2) page_bytes [OF py(1), of a] page_in_row(1) [OF py(1)] by (auto simp: reads_def copy_op_of_def)
    then show False using read_rows [OF lay tx(1,3) rx(1,2,5,6) inx [OF both(1)]] by blast
  qed
qed

end
