(* ===== verification/GPU_Canonical.thy ===== *)
theory GPU_Canonical
  imports GPU_Transfer_Facts
begin

text \<open>
  The descriptors of the canonical layout: a block is copied fragment by fragment, and on a store
  each rank copies the blocks it is elected to write.
\<close>

definition canonical_id :: "int \<Rightarrow> int list \<Rightarrow> int \<Rightarrow> nat \<Rightarrow> int" where
  "canonical_id bpc ids index i =
     ids ! nat ((index + int i) div bpc - index div bpc) * bpc + (index + int i) mod bpc"

lemma canonical_ids:
  assumes b: "0 < bpc" and i: "0 \<le> index" and len: "index mod bpc + int n \<le> bpc * int (length ids)"
  shows "canonical_page_ids ids bpc n (index mod bpc) = map (canonical_id bpc ids index) [0..<n]"
proof (cases "bpc = 1")
  case True
  have "py_slice 0 (int n) ids = take n ids" by (simp add: py_slice_nonneg)
  moreover have "take n ids = map (canonical_id bpc ids index) [0..<n]"
    using len True by (intro nth_equalityI) (simp_all add: canonical_id_def)
  ultimately show ?thesis using True by (simp add: canonical_page_ids_def)
next
  case False
  let ?f = "\<lambda>b. map (\<lambda>j. b * bpc + j) [0..bpc - 1]"
  have uni: "\<forall>x \<in> set ids. length (?f x) = nat bpc" by simp
  have "int (nat (index mod bpc) + n) \<le> int (nat bpc * length ids)" using len b by simp
  then have fits: "nat (index mod bpc) + n \<le> nat bpc * length ids" by (simp only: of_nat_le_iff)
  have "py_slice (index mod bpc) (index mod bpc + int n) (concat (map ?f ids)) =
     map (\<lambda>i. ?f (ids ! ((nat (index mod bpc) + i) div nat bpc)) ! ((nat (index mod bpc) + i) mod nat bpc)) [0..<n]"
    using slice_uniform [OF uni fits] b by simp
  also have "\<dots> = map (canonical_id bpc ids index) [0..<n]"
  proof (rule map_cong [OF refl])
    fix i'
    let ?k = "nat (index mod bpc) + i'"
    have "int (?k mod nat bpc) \<le> bpc - 1" using place_of_block(2) [OF b i, of i'] b by simp
    moreover have "?k mod nat bpc < nat bpc" using b by simp
    ultimately have "?f (ids ! (?k div nat bpc)) ! (?k mod nat bpc) = ids ! (?k div nat bpc) * bpc + int (?k mod nat bpc)"
      by (simp add: nth_upto)
    then show "?f (ids ! (?k div nat bpc)) ! (?k mod nat bpc) = canonical_id bpc ids index i'"
      by (simp only: canonical_id_def place_of_block [OF b i])
  qed
  finally show ?thesis using False by (simp add: canonical_page_ids_def)
qed

text \<open>The blocks of a group that this rank copies.\<close>

definition written_blocks :: "direction \<Rightarrow> page_mapping \<Rightarrow> int \<Rightarrow> int list \<Rightarrow> nat \<Rightarrow> nat list" where
  "written_blocks d m index gdst n =
     filter (\<lambda>i. d_gpu_to_cpu d \<and> num_writers m > 1 \<longrightarrow>
        canonical_id (d_dst_bpc d) gdst index i mod num_writers m = writer_index m) [0..<n]"

definition block_frags :: "direction \<Rightarrow> copy_plan \<Rightarrow> cache_ref \<Rightarrow> int \<Rightarrow> int list \<Rightarrow> int list \<Rightarrow> nat \<Rightarrow> copy_op list" where
  "block_frags d p ref index gsrc gdst i =
     expand_frags p [logical_ptr (d_src d ! cr_tensor ref) (d_src_bpc d) gsrc index i]
       [logical_ptr (d_dst d ! cr_tensor ref) (d_dst_bpc d) gdst index i]"

lemma filter_zip_map:
  "map fst (filter snd (zip (map f xs) (map g xs))) = map f (filter g xs)"
  by (induction xs) simp_all

lemma expand_map:
  "expand_frags p (map f xs) (map g xs) = concat (map (\<lambda>i. expand_frags p [f i] [g i]) xs)"
  by (induction xs) (simp_all add: expand_frags_def)

lemma fill_canonical:
  assumes b: "0 < d_src_bpc d" "0 < d_dst_bpc d" and i: "0 \<le> index"
    and ls: "index mod d_src_bpc d + int n \<le> d_src_bpc d * int (length gsrc)"
    and ld: "index mod d_dst_bpc d + int n \<le> d_dst_bpc d * int (length gdst)"
    and t: "cr_tensor ref < length (d_src d)" "cr_tensor ref < length (d_dst d)"
    and even: "splits_evenly (d_src d ! cr_tensor ref) (d_src_bpc d)" "splits_evenly (d_dst d ! cr_tensor ref) (d_dst_bpc d)"
    and m: "cr_mapping ref = Some m" and frags: "num_frags p \<noteq> 0"
  shows "fill_canonical_ref d gsrc gdst n (index mod d_src_bpc d) (index mod d_dst_bpc d) (p, ref) st =
    Inr (fst st @ concat (map (block_frags d p ref index gsrc gdst) (written_blocks d m index gdst n)),
         snd st + int (length (written_blocks d m index gdst n)) * total_bytes p)"
proof -
  let ?s = "logical_ptr (d_src d ! cr_tensor ref) (d_src_bpc d) gsrc index"
  let ?t = "logical_ptr (d_dst d ! cr_tensor ref) (d_dst_bpc d) gdst index"
  let ?w = "written_blocks d m index gdst n"
  have ex: "expand_frags p (map ?s xs) (map ?t xs) = concat (map (block_frags d p ref index gsrc gdst) xs)" for xs
    by (simp add: expand_map block_frags_def [abs_def])
  have sel: "(if d_gpu_to_cpu d \<and> num_writers m > 1
      then filter_writer_blocks (map ?s [0..<n]) (map ?t [0..<n]) m gdst (d_dst_bpc d) n (index mod d_dst_bpc d)
      else Inr (map ?s [0..<n], map ?t [0..<n])) = Inr (map ?s ?w, map ?t ?w)"
  proof (cases "d_gpu_to_cpu d \<and> num_writers m > 1")
    case True
    then show ?thesis
      by (simp add: filter_writer_blocks_def canonical_ids [OF b(2) i ld] Let_def o_def filter_zip_map written_blocks_def)
  next
    case False
    then have "?w = [0..<n]" by (auto simp: written_blocks_def filter_id_conv)
    then show ?thesis using False by auto
  qed
  show ?thesis
    using t frags sel
    by (simp add: fill_canonical_ref_def nth_res_def compute_ptrs [OF b(1) i ls even(1)] compute_ptrs [OF b(2) i ld even(2)] m ex)
qed

end
