(* ===== verification/GPU_Handler.thy ===== *)
theory GPU_Handler
  imports GPU_Transfer Offload_Region
begin

text \<open>
  Model of the two transfer directions of the CPU offloading worker
  (\<open>SingleDirectionOffloadingHandler\<close> and \<open>CPUOffloadingWorker\<close> in \<open>v1/kv_offload/cpu/gpu_worker.py\<close>):
  the queue of transfers, the pools of streams, events and descriptor buffers, and the commands
  issued to the device.

  Streams, events and buffers are numbered in the order they are made; a buffer has a capacity.
  What a handler does to the device is the list of commands it has issued; an answer of the device
  (whether an event is over, whether it can be waited for) is an argument, and \<open>Seen e\<close> marks the
  moment at which the host learns that \<open>e\<close> is over. Timing and the telemetry of the buffers are left
  out but for their counters.
\<close>

section \<open>Choice of the copy routine\<close>

datatype swap_routine = Batched_Copy | Copy_Kernel int

definition select_swap_blocks_fn :: "bool \<Rightarrow> bool \<Rightarrow> bool \<Rightarrow> bool \<Rightarrow> int \<Rightarrow> (int \<Rightarrow> int) \<Rightarrow> cache_ref list list \<Rightarrow> swap_routine" where
  "select_swap_blocks_fn gpu_to_cpu has_triton xpu rocm threshold next_power groups =
     (let page_sizes = map cr_bytes (concat groups) in
      if gpu_to_cpu then Batched_Copy
      else if \<not> has_triton \<or> xpu \<or> rocm then Batched_Copy
      else if page_sizes = [] then Batched_Copy
      else let m = foldr max (butlast page_sizes) (last page_sizes) in
        if m \<ge> threshold \<or> list_ex (\<lambda>s. s mod 8 \<noteq> 0) page_sizes then Batched_Copy
        else Copy_Kernel (min (next_power m) 8192))"

section \<open>Transfers in flight\<close>

datatype command =
    Wait_Compute nat
  | Wait_Event nat nat
  | Record nat nat
  | Swap nat "copy_op list" bool
  | Seen nat

record transfer =
  tr_job :: int
  tr_stream :: nat
  tr_start :: nat
  tr_end :: nat
  tr_bytes :: int
  tr_buffer :: "nat \<times> int"

record handler =
  hd_dir :: direction
  hd_events :: "(int, nat) odict"
  hd_transfers :: "transfer list"
  hd_streams :: "nat list"
  hd_event_pool :: "nat list"
  hd_buffers :: "(nat \<times> int) list"
  hd_fallback :: bool
  hd_fallback_total :: int
  hd_reuse_total :: int
  hd_fresh :: nat
  hd_log :: "command list"

text \<open>The switch for buffers that are not pinned is on but for four words.\<close>

definition nonpinned_fallback :: "string option \<Rightarrow> bool" where
  "nonpinned_fallback raw =
     (case raw of None \<Rightarrow> True | Some s \<Rightarrow> py_lower (py_strip s) \<notin> {''0'', ''false'', ''no'', ''off''})"

definition init_handler :: "string option \<Rightarrow> direction \<Rightarrow> handler" where
  "init_handler raw d =
     \<lparr>hd_dir = d, hd_events = [], hd_transfers = [], hd_streams = [], hd_event_pool = [], hd_buffers = [],
      hd_fallback = nonpinned_fallback raw, hd_fallback_total = 0, hd_reuse_total = 0, hd_fresh = 0, hd_log = []\<rparr>"

section \<open>Submitting a transfer\<close>

text \<open>The largest buffer of the pool that holds \<open>need\<close> descriptors, as its index and capacity.\<close>

definition best_buffer :: "int \<Rightarrow> (nat \<times> int) list \<Rightarrow> int \<times> int" where
  "best_buffer need pool =
     fold (\<lambda>(i, b, cap) (bi, bc). if cap \<ge> need \<and> cap > bc then (int i, cap) else (bi, bc)) (enumerate 0 pool) (-1, 0)"

definition take_buffer :: "int \<Rightarrow> handler \<Rightarrow> (nat \<times> int) \<times> handler" where
  "take_buffer need h =
     (let (bi, bc) = best_buffer need (hd_buffers h) in
      if bi \<ge> 0
      then (hd_buffers h ! nat bi,
            h\<lparr>hd_buffers := take (nat bi) (hd_buffers h) @ drop (Suc (nat bi)) (hd_buffers h),
              hd_reuse_total := hd_reuse_total h + 1\<rparr>)
      else ((hd_fresh h, need),
            h\<lparr>hd_fresh := Suc (hd_fresh h),
              hd_fallback_total := hd_fallback_total h + (if hd_fallback h then 1 else 0)\<rparr>))"

definition take_stream :: "handler \<Rightarrow> nat \<times> handler" where
  "take_stream h =
     (if hd_streams h \<noteq> [] then (last (hd_streams h), h\<lparr>hd_streams := butlast (hd_streams h)\<rparr>)
      else (hd_fresh h, h\<lparr>hd_fresh := Suc (hd_fresh h)\<rparr>))"

definition take_event :: "handler \<Rightarrow> nat \<times> handler" where
  "take_event h =
     (if hd_event_pool h \<noteq> [] then (last (hd_event_pool h), h\<lparr>hd_event_pool := butlast (hd_event_pool h)\<rparr>)
      else (hd_fresh h, h\<lparr>hd_fresh := Suc (hd_fresh h)\<rparr>))"

definition transfer_commands :: "handler \<Rightarrow> nat \<Rightarrow> nat \<Rightarrow> nat \<Rightarrow> copy_op list \<Rightarrow> command list" where
  "transfer_commands h stream start stop ops =
     [Wait_Compute stream] @
     (if hd_transfers h \<noteq> [] then [Wait_Event stream (tr_end (last (hd_transfers h)))] else []) @
     [Record stream start] @
     (if ops \<noteq> [] then [Swap stream ops (\<not> d_gpu_to_cpu (hd_dir h))] else []) @
     [Record stream stop]"

definition transfer_async :: "(int \<Rightarrow> int \<Rightarrow> int) \<Rightarrow> int \<Rightarrow> gpu_spec \<Rightarrow> int list \<Rightarrow> handler \<Rightarrow> handler res" where
  "transfer_async cdiv job spec cpu_blocks h =
     bindE (plan_transfer cdiv (hd_dir h) spec cpu_blocks) (\<lambda>(need, ops, bytes).
       let (buf, h1) = take_buffer need h;
           (stream, h2) = take_stream h1;
           (start, h3) = take_event h2;
           (stop, h4) = take_event h3
       in Inr (h4\<lparr>hd_log := hd_log h4 @ transfer_commands h stream start stop ops,
                  hd_events := AList.update job stop (hd_events h4),
                  hd_transfers := hd_transfers h4 @
                    [\<lparr>tr_job = job, tr_stream = stream, tr_start = start, tr_end = stop, tr_bytes = bytes,
                      tr_buffer = buf\<rparr>]\<rparr>))"

section \<open>Completion\<close>

text \<open>Finished transfers leave the queue from the front, with their job ids and bytes.\<close>

fun finish_loop :: "(nat \<Rightarrow> bool) \<Rightarrow> transfer list \<Rightarrow> handler \<times> (int \<times> int) list \<Rightarrow> (handler \<times> (int \<times> int) list) res" where
  "finish_loop over [] st = Inr st"
| "finish_loop over (t # ts) st =
     (if \<not> over (tr_end t) then Inr st
      else
        (case st of (h, results) \<Rightarrow>
           bindE (od_del_item (tr_job t) (hd_events h)) (\<lambda>events.
             finish_loop over ts
               (h\<lparr>hd_transfers := ts, hd_streams := hd_streams h @ [tr_stream t],
                  hd_event_pool := hd_event_pool h @ [tr_end t, tr_start t],
                  hd_buffers := hd_buffers h @ [tr_buffer t], hd_events := events,
                  hd_log := hd_log h @ [Seen (tr_end t)]\<rparr>,
                results @ [(tr_job t, tr_bytes t)]))))"

definition get_finished :: "(nat \<Rightarrow> bool) \<Rightarrow> handler \<Rightarrow> (handler \<times> (int \<times> int) list) res" where
  "get_finished over h = finish_loop over (hd_transfers h) (h, [])"

definition wait_job :: "int \<Rightarrow> handler \<Rightarrow> handler" where
  "wait_job job h =
     (case map_of (hd_events h) job of
        None \<Rightarrow> h
      | Some e \<Rightarrow> h\<lparr>hd_log := hd_log h @ [Seen e]\<rparr>)"

definition wait_jobs :: "int list \<Rightarrow> handler \<Rightarrow> handler" where
  "wait_jobs jobs h = fold wait_job jobs h"

text \<open>The shutdown waits for every transfer in turn; the first one that fails ends the waiting.\<close>

fun drain :: "(nat \<Rightarrow> bool) \<Rightarrow> transfer list \<Rightarrow> command list \<Rightarrow> command list \<times> bool" where
  "drain ok [] log = (log, True)"
| "drain ok (t # ts) log = (if ok (tr_end t) then drain ok ts (log @ [Seen (tr_end t)]) else (log, False))"

definition shutdown_handler :: "(nat \<Rightarrow> bool) \<Rightarrow> handler \<Rightarrow> handler \<times> bool" where
  "shutdown_handler ok h =
     (let (log, fine) = drain ok (hd_transfers h) (hd_log h) in
      (h\<lparr>hd_transfers := [], hd_events := [], hd_streams := [], hd_event_pool := [], hd_buffers := [],
         hd_dir := (hd_dir h)\<lparr>d_src := [], d_dst := []\<rparr>, hd_log := log\<rparr>, fine))"

section \<open>The worker\<close>

record worker =
  wk_region :: "region option"
  wk_store :: handler
  wk_load :: handler

text \<open>
  The tensors of the CPU side: a view of the region for each tensor of the GPU side, or memory of
  its own from \<open>alloc\<close>. \<open>base\<close> is the address of the region.
\<close>

definition view_tensor :: "ptr \<Rightarrow> region \<Rightarrow> tensor2" where
  "view_tensor base g =
     (case last (rg_views g) of (off, n) \<Rightarrow>
        \<lparr>tn_base = base + of_int off, tn_pitch = rg_row_stride g, tn_rows = rg_num_blocks g, tn_cols = n\<rparr>)"

definition cpu_tensor :: "ptr \<Rightarrow> (int \<Rightarrow> tensor2) \<Rightarrow> int \<Rightarrow> int list option \<Rightarrow> nat \<times> tensor2 \<Rightarrow>
    region option \<times> tensor2 list \<Rightarrow> (region option \<times> tensor2 list) res" where
  "cpu_tensor base alloc bpc canonical x st =
     (case (x, st, canonical) of
        ((i, t), (Some g, ts), Some sizes) \<Rightarrow>
          bindE (nth_res sizes i) (\<lambda>n. bindE (create_next_canonical_view (n * bpc) g) (\<lambda>g'.
            Inr (Some g', ts @ [view_tensor base g'])))
      | ((i, t), (None, ts), Some sizes) \<Rightarrow> Inl AssertionError
      | ((i, t), (Some g, ts), None) \<Rightarrow>
          bindE (create_next_worker_view (tn_cols t * bpc) g) (\<lambda>g'. Inr (Some g', ts @ [view_tensor base g']))
      | ((i, t), (None, ts), None) \<Rightarrow> Inr (None, ts @ [alloc (tn_cols t * bpc)]))"

definition init_worker :: "string option \<Rightarrow> ptr \<Rightarrow> (int \<Rightarrow> tensor2) \<Rightarrow> tensor2 list \<Rightarrow> cache_ref list list \<Rightarrow> int \<Rightarrow>
    region option \<Rightarrow> bool \<Rightarrow> worker res" where
  "init_worker raw base alloc gpu groups bpc rg canonical =
     assertE (\<not> canonical \<or> rg \<noteq> None)
       (bindE (if canonical then bindE (canonical_block_sizes groups (length gpu)) (\<lambda>s. Inr (Some s)) else Inr None) (\<lambda>sizes.
        bindE (foldE (cpu_tensor base alloc bpc sizes) (enumerate 0 gpu) (rg, [])) (\<lambda>(rg', cpu).
        bindE (init_direction gpu cpu bpc groups True canonical) (\<lambda>s.
        bindE (init_direction gpu cpu bpc groups False canonical) (\<lambda>l.
          Inr \<lparr>wk_region = rg', wk_store = init_handler raw s, wk_load = init_handler raw l\<rparr>)))))"

definition submit_store :: "(int \<Rightarrow> int \<Rightarrow> int) \<Rightarrow> int \<Rightarrow> gpu_spec \<Rightarrow> int list \<Rightarrow> worker \<Rightarrow> worker res" where
  "submit_store cdiv job src dst w = bindE (transfer_async cdiv job src dst (wk_store w)) (\<lambda>h. Inr (w\<lparr>wk_store := h\<rparr>))"

definition submit_load :: "(int \<Rightarrow> int \<Rightarrow> int) \<Rightarrow> int \<Rightarrow> int list \<Rightarrow> gpu_spec \<Rightarrow> worker \<Rightarrow> worker res" where
  "submit_load cdiv job src dst w = bindE (transfer_async cdiv job dst src (wk_load w)) (\<lambda>h. Inr (w\<lparr>wk_load := h\<rparr>))"

definition worker_get_finished :: "(nat \<Rightarrow> bool) \<Rightarrow> (nat \<Rightarrow> bool) \<Rightarrow> worker \<Rightarrow> (worker \<times> (int \<times> int) list) res" where
  "worker_get_finished over_s over_l w =
     bindE (get_finished over_s (wk_store w)) (\<lambda>(s, rs).
     bindE (get_finished over_l (wk_load w)) (\<lambda>(l, rl).
       Inr (w\<lparr>wk_store := s, wk_load := l\<rparr>, rs @ rl)))"

definition worker_wait :: "int list \<Rightarrow> worker \<Rightarrow> worker" where
  "worker_wait jobs w = w\<lparr>wk_store := wait_jobs jobs (wk_store w), wk_load := wait_jobs jobs (wk_load w)\<rparr>"

definition worker_shutdown :: "(nat \<Rightarrow> bool) \<Rightarrow> (nat \<Rightarrow> bool) \<Rightarrow> worker \<Rightarrow> worker" where
  "worker_shutdown ok_s ok_l w =
     w\<lparr>wk_store := fst (shutdown_handler ok_s (wk_store w)), wk_load := fst (shutdown_handler ok_l (wk_load w)),
       wk_region := None\<rparr>"

end
