(* ===== verification/GPU_Handler_Facts.thy ===== *)
theory GPU_Handler_Facts
  imports GPU_Handler "HOL-Library.Multiset"
begin

text \<open>
  The order in which the device carries out what a handler has issued, and the steps of a handler.
  Commands of one stream run in order, a wait for an event runs after the record before it, and what
  the host issues after it has seen an event over runs after that event.
\<close>

section \<open>Order on the device\<close>

fun stream_of :: "command \<Rightarrow> nat option" where
  "stream_of (Wait_Compute s) = Some s"
| "stream_of (Wait_Event s e) = Some s"
| "stream_of (Record s e) = Some s"
| "stream_of (Swap s ops any) = Some s"
| "stream_of (Seen e) = None"

fun records :: "nat \<Rightarrow> command \<Rightarrow> bool" where
  "records e (Record s e') = (e = e')"
| "records e _ = False"

definition is_swap :: "command \<Rightarrow> bool" where
  "is_swap c \<longleftrightarrow> (\<exists>s ops any. c = Swap s ops any)"

text \<open>The record of \<open>e\<close> at \<open>i\<close> is the last one before \<open>j\<close>.\<close>

definition latest :: "command list \<Rightarrow> nat \<Rightarrow> nat \<Rightarrow> nat \<Rightarrow> bool" where
  "latest l e i j \<longleftrightarrow> i < j \<and> records e (l ! i) \<and> (\<forall>k. i < k \<and> k < j \<longrightarrow> \<not> records e (l ! k))"

definition before :: "command list \<Rightarrow> (nat \<times> nat) set" where
  "before l = {(i, j). i < j \<and> j < length l \<and>
     ((stream_of (l ! i) \<noteq> None \<and> stream_of (l ! i) = stream_of (l ! j)) \<or>
      (\<exists>s e. l ! j = Wait_Event s e \<and> latest l e i j) \<or>
      (\<exists>e. l ! j = Seen e \<and> latest l e i j) \<or>
      (\<exists>e. l ! i = Seen e))}"

abbreviation runs_before :: "command list \<Rightarrow> nat \<Rightarrow> nat \<Rightarrow> bool" where
  "runs_before l i j \<equiv> (i, j) \<in> (before l)\<^sup>+"

lemma before_append: "before l \<subseteq> before (l @ m)"
proof
  fix x assume "x \<in> before l"
  then obtain i j where x: "x = (i, j)" "(i, j) \<in> before l" by (cases x) auto
  have ij: "i < j" "j < length l" using x(2) by (simp_all add: before_def)
  have same: "k \<le> j \<Longrightarrow> (l @ m) ! k = l ! k" for k using ij by (simp add: nth_append)
  have "latest l e i j \<Longrightarrow> latest (l @ m) e i j" for e using same by (simp add: latest_def)
  then show "x \<in> before (l @ m)"
    using x(2) ij same [of i] same [of j] unfolding x(1) before_def by auto
qed

lemma runs_append: "runs_before l i j \<Longrightarrow> runs_before (l @ m) i j"
  using trancl_mono before_append by blast

text \<open>Links at the end of the list.\<close>

lemma link_stream:
  "i < j \<Longrightarrow> j < length l \<Longrightarrow> stream_of (l ! i) = Some s \<Longrightarrow> stream_of (l ! j) = Some s \<Longrightarrow> runs_before l i j"
  by (rule r_into_trancl) (simp add: before_def)

lemma link_wait: "j < length l \<Longrightarrow> l ! j = Wait_Event s e \<Longrightarrow> latest l e i j \<Longrightarrow> runs_before l i j"
  by (rule r_into_trancl) (auto simp: before_def latest_def)

lemma link_seen: "j < length l \<Longrightarrow> l ! j = Seen e \<Longrightarrow> latest l e i j \<Longrightarrow> runs_before l i j"
  by (rule r_into_trancl) (auto simp: before_def latest_def)

lemma link_host: "i < j \<Longrightarrow> j < length l \<Longrightarrow> l ! i = Seen e \<Longrightarrow> runs_before l i j"
  by (rule r_into_trancl) (auto simp: before_def)

section \<open>The invariant\<close>

text \<open>
  All swaps so far are ordered, and they come before the record of the end of the last transfer in
  flight, or before a moment at which the host has seen an event over.
\<close>

definition all_before :: "command list \<Rightarrow> nat \<Rightarrow> bool" where
  "all_before l k \<longleftrightarrow> (\<forall>i < length l. is_swap (l ! i) \<longrightarrow> runs_before l i k)"

definition swaps_ordered :: "command list \<Rightarrow> bool" where
  "swaps_ordered l \<longleftrightarrow> (\<forall>i j. i < j \<longrightarrow> j < length l \<longrightarrow> is_swap (l ! i) \<longrightarrow> is_swap (l ! j) \<longrightarrow> runs_before l i j)"

definition order_inv :: "command list \<Rightarrow> transfer list \<Rightarrow> bool" where
  "order_inv l ts \<longleftrightarrow> swaps_ordered l \<and>
     (if ts = [] then (\<forall>i < length l. \<not> is_swap (l ! i)) \<or> (\<exists>k < length l. \<exists>e. l ! k = Seen e \<and> all_before l k)
      else \<exists>r < length l. latest l (tr_end (last ts)) r (length l) \<and> all_before l r)"

lemma not_swap: "\<not> is_swap (Seen e)" "\<not> is_swap (Record s e)" "\<not> is_swap (Wait_Event s e)" "\<not> is_swap (Wait_Compute s)"
  "is_swap (Swap s ops any)"
  by (simp_all add: is_swap_def)

text \<open>What the host sees keeps the order.\<close>

lemma seen_swaps: "swaps_ordered l \<Longrightarrow> swaps_ordered (l @ [Seen e])"
  unfolding swaps_ordered_def
  by (intro allI impI) (auto simp: nth_append not_swap less_Suc_eq split: if_splits intro: runs_append)

lemma all_before_seen: "all_before l k \<Longrightarrow> all_before (l @ [Seen e]) k"
  unfolding all_before_def by (auto simp: nth_append not_swap less_Suc_eq intro: runs_append)

lemma latest_append:
  assumes "latest l e r (length l)" and "\<forall>c \<in> set m. \<not> records e c"
  shows "latest (l @ m) e r (length (l @ m))"
proof -
  have r: "r < length l" using assms(1) by (simp add: latest_def)
  have "\<not> records e ((l @ m) ! k)" if "r < k" "k < length (l @ m)" for k
    using that assms by (cases "k < length l") (auto simp: latest_def nth_append)
  then show ?thesis using assms(1) r by (simp add: latest_def nth_append)
qed

lemma seen_inv: "order_inv l ts \<Longrightarrow> order_inv (l @ [Seen e]) ts"
proof -
  assume inv: "order_inv l ts"
  have sw: "swaps_ordered (l @ [Seen e])" using inv seen_swaps by (simp add: order_inv_def)
  show ?thesis
  proof (cases "ts = []")
    case True
    then consider "\<forall>i < length l. \<not> is_swap (l ! i)" | k e' where "k < length l" "l ! k = Seen e'" "all_before l k"
      using inv by (auto simp: order_inv_def)
    then show ?thesis
    proof cases
      case 1 then show ?thesis using True sw by (auto simp: order_inv_def nth_append not_swap less_Suc_eq)
    next
      case 2
      then have "k < length (l @ [Seen e])" "(l @ [Seen e]) ! k = Seen e'" by (simp_all add: nth_append)
      then show ?thesis using True sw all_before_seen [OF 2(3)] unfolding order_inv_def by auto
    qed
  next
    case False
    then obtain r where r: "r < length l" "latest l (tr_end (last ts)) r (length l)" "all_before l r"
      using inv by (auto simp: order_inv_def)
    have "latest (l @ [Seen e]) (tr_end (last ts)) r (length (l @ [Seen e]))" by (rule latest_append [OF r(2)]) simp
    then show ?thesis using False sw r(1) all_before_seen [OF r(3), of e]
      unfolding order_inv_def by (auto intro!: exI [of _ r])
  qed
qed

text \<open>The last transfer leaves the queue once its end was seen.\<close>

lemma last_seen_inv:
  assumes inv: "order_inv l [t]"
  shows "order_inv (l @ [Seen (tr_end t)]) []"
proof -
  let ?m = "l @ [Seen (tr_end t)]"
  obtain r where r: "r < length l" "latest l (tr_end t) r (length l)" "all_before l r"
    using inv by (auto simp: order_inv_def)
  have "latest ?m (tr_end t) r (length l)" using r(1,2) by (auto simp: latest_def nth_append)
  then have R: "runs_before ?m r (length l)" by (intro link_seen) simp_all
  have "all_before ?m (length l)"
    unfolding all_before_def
  proof (intro allI impI)
    fix i assume i: "i < length ?m" "is_swap (?m ! i)"
    then have "runs_before ?m i r" using all_before_seen [OF r(3)] unfolding all_before_def by blast
    then show "runs_before ?m i (length l)" using R by (rule trancl_trans)
  qed
  moreover have "swaps_ordered ?m" using inv seen_swaps by (simp add: order_inv_def)
  ultimately show ?thesis unfolding order_inv_def by auto
qed

text \<open>A new transfer waits for the last one, or was submitted after the last one was seen over.\<close>

definition submit_commands :: "transfer list \<Rightarrow> nat \<Rightarrow> nat \<Rightarrow> nat \<Rightarrow> copy_op list \<Rightarrow> bool \<Rightarrow> command list" where
  "submit_commands ts s a b ops any =
     [Wait_Compute s] @ (if ts \<noteq> [] then [Wait_Event s (tr_end (last ts))] else []) @
     [Record s a] @ (if ops \<noteq> [] then [Swap s ops any] else []) @ [Record s b]"

lemma submit_shape:
  fixes ts s a b ops any
  defines "m \<equiv> submit_commands ts s a b ops any"
  defines "c \<equiv> (if ts = [] then 0 else 1 :: nat)"
  shows "\<forall>x \<in> set m. stream_of x = Some s" and "c + 1 < length m" and "m ! (length m - 1) = Record s b"
    and "\<forall>i < length m. is_swap (m ! i) \<longrightarrow> i = c + 2 \<and> i < length m - 1"
    and "ts \<noteq> [] \<Longrightarrow> m ! 1 = Wait_Event s (tr_end (last ts)) \<and> m ! 0 = Wait_Compute s"
  unfolding m_def c_def submit_commands_def
  by (auto simp: less_Suc_eq not_swap nth_Cons' split: if_splits)

lemma submit_new:
  assumes "length l \<le> k" "k < j" "j < length (l @ submit_commands ts s a b ops any)"
  shows "runs_before (l @ submit_commands ts s a b ops any) k j"
proof -
  have "stream_of ((l @ submit_commands ts s a b ops any) ! i) = Some s"
    if "length l \<le> i" "i < length (l @ submit_commands ts s a b ops any)" for i
    using that submit_shape(1) [of ts s a b ops any] by (simp add: nth_append)
  then show ?thesis using assms by (intro link_stream) auto
qed

lemma submit_old:
  assumes inv: "order_inv l ts" and i: "i < length l" "is_swap (l ! i)"
    and j: "length l + (if ts = [] then 0 else 1) < j" "j < length (l @ submit_commands ts s a b ops any)"
  shows "runs_before (l @ submit_commands ts s a b ops any) i j"
proof -
  let ?m = "submit_commands ts s a b ops any" and ?c = "if ts = [] then 0 else 1 :: nat"
  let ?l = "l @ ?m"
  note sh = submit_shape [of ts s a b ops any]
  have "runs_before ?l i (length l + ?c)"
  proof (cases "ts = []")
    case True
    then obtain k e where k: "k < length l" "l ! k = Seen e" "all_before l k" using inv i by (auto simp: order_inv_def)
    have "runs_before ?l i k" using k(3) i runs_append unfolding all_before_def by blast
    moreover have "runs_before ?l k (length l)" using k(1,2) j by (intro link_host) (auto simp: nth_append)
    ultimately show ?thesis using True by (simp add: trancl_trans)
  next
    case False
    then obtain r where r: "r < length l" "latest l (tr_end (last ts)) r (length l)" "all_before l r"
      using inv by (auto simp: order_inv_def)
    have "runs_before ?l i r" using r(3) i runs_append unfolding all_before_def by blast
    moreover have "runs_before ?l r (Suc (length l))"
    proof (rule link_wait)
      show "Suc (length l) < length ?l" using j False by simp
      show "?l ! Suc (length l) = Wait_Event s (tr_end (last ts))" using sh(5) False by (simp add: nth_append)
      show "latest ?l (tr_end (last ts)) r (Suc (length l))"
        using r(1,2) sh(5) False by (auto simp: latest_def nth_append less_Suc_eq)
    qed
    ultimately show ?thesis using False by (simp add: trancl_trans)
  qed
  moreover have "runs_before ?l (length l + ?c) j" using j by (intro submit_new) simp_all
  ultimately show ?thesis by (rule trancl_trans)
qed

lemma submit_inv:
  assumes inv: "order_inv l ts" and t: "tr_end t = b"
  shows "order_inv (l @ submit_commands ts s a b ops any) (ts @ [t])"
proof -
  let ?m = "submit_commands ts s a b ops any" and ?c = "if ts = [] then 0 else 1 :: nat"
  let ?l = "l @ ?m" and ?q = "length (l @ submit_commands ts s a b ops any) - 1"
  note sh = submit_shape [of ts s a b ops any]
  have at: "k < length l \<Longrightarrow> ?l ! k = l ! k" "length l \<le> k \<Longrightarrow> ?l ! k = ?m ! (k - length l)" for k
    by (simp_all add: nth_append)
  have swap: "i = length l + ?c + 2 \<and> i < ?q" if "length l \<le> i" "i < length ?l" "is_swap (?l ! i)" for i
  proof -
    have "i - length l < length ?m" using that(1,2) by simp
    moreover have "is_swap (?m ! (i - length l))" using that at(2) by simp
    ultimately have "i - length l = ?c + 2 \<and> i - length l < length ?m - 1" using sh(4) by blast
    moreover have "?q = length l + (length ?m - 1)" using sh(2) by simp
    ultimately show ?thesis using that(1) by linarith
  qed
  have q: "length l + ?c < ?q" "?q < length ?l" using sh(2) by auto
  have "all_before ?l ?q"
    unfolding all_before_def
  proof (intro allI impI)
    fix i assume i: "i < length ?l" "is_swap (?l ! i)"
    show "runs_before ?l i ?q"
    proof (cases "i < length l")
      case True then show ?thesis using submit_old [OF inv True _ q] i at(1) by simp
    next
      case False then show ?thesis using submit_new [of l i ?q] swap [of i] i q by simp
    qed
  qed
  moreover have "latest ?l b ?q (length ?l)"
  proof -
    have "length l \<le> ?q" using q(1) by simp
    moreover have "?q - length l = length ?m - 1" by simp
    ultimately have rec: "?l ! ?q = Record s b" using at(2) [of ?q] sh(3) by simp
    show ?thesis
      unfolding latest_def
    proof (intro conjI allI impI)
      show "?q < length ?l" by (rule q(2))
      show "records b (?l ! ?q)" using rec by simp
      fix k assume "?q < k \<and> k < length ?l"
      then show "\<not> records b (?l ! k)" by linarith
    qed
  qed
  moreover have "swaps_ordered ?l"
    unfolding swaps_ordered_def
  proof (intro allI impI)
    fix i j assume ij: "i < j" "j < length ?l" "is_swap (?l ! i)" "is_swap (?l ! j)"
    show "runs_before ?l i j"
    proof (cases "j < length l")
      case True
      then have "runs_before l i j" using inv ij at(1) by (simp add: order_inv_def swaps_ordered_def)
      then show ?thesis by (rule runs_append)
    next
      case False
      then have j: "j = length l + ?c + 2" using swap ij by simp
      then have i: "i < length l" using swap [of i] ij by fastforce
      have "length l + ?c < j" using j by simp
      then show ?thesis using submit_old [OF inv i _ _ ij(2)] ij(3) at(1) [OF i] by simp
    qed
  qed
  ultimately show ?thesis using q(2) t unfolding order_inv_def by auto
qed

section \<open>The steps of a handler\<close>

inductive handler_step :: "(int \<Rightarrow> int \<Rightarrow> int) \<Rightarrow> handler \<Rightarrow> handler \<Rightarrow> bool" for cdiv where
  submit: "transfer_async cdiv job spec cpu h = Inr h' \<Longrightarrow> job \<notin> set (map tr_job (hd_transfers h)) \<Longrightarrow> handler_step cdiv h h'"
| finish: "get_finished over h = Inr (h', results) \<Longrightarrow> handler_step cdiv h h'"
| await: "handler_step cdiv h (wait_jobs jobs h)"

inductive handler_reach :: "(int \<Rightarrow> int \<Rightarrow> int) \<Rightarrow> direction \<Rightarrow> handler \<Rightarrow> bool" for cdiv d where
  start: "handler_reach cdiv d (init_handler raw d)"
| step: "handler_reach cdiv d h \<Longrightarrow> handler_step cdiv h h' \<Longrightarrow> handler_reach cdiv d h'"

lemma take_buffer_frame:
  "take_buffer need h = (buf, h') \<Longrightarrow> hd_log h' = hd_log h \<and> hd_transfers h' = hd_transfers h \<and> hd_events h' = hd_events h \<and>
     hd_dir h' = hd_dir h \<and> hd_streams h' = hd_streams h \<and> hd_event_pool h' = hd_event_pool h"
  by (auto simp: take_buffer_def Let_def split: prod.splits if_splits)

lemma take_stream_frame:
  "take_stream h = (x, h') \<Longrightarrow> hd_log h' = hd_log h \<and> hd_transfers h' = hd_transfers h \<and> hd_events h' = hd_events h \<and>
     hd_dir h' = hd_dir h \<and> hd_buffers h' = hd_buffers h \<and> hd_event_pool h' = hd_event_pool h"
  by (auto simp: take_stream_def split: if_splits)

lemma take_event_frame:
  "take_event h = (x, h') \<Longrightarrow> hd_log h' = hd_log h \<and> hd_transfers h' = hd_transfers h \<and> hd_events h' = hd_events h \<and>
     hd_dir h' = hd_dir h \<and> hd_streams h' = hd_streams h \<and> hd_buffers h' = hd_buffers h"
  by (auto simp: take_event_def split: if_splits)

lemma transfer_asyncE:
  assumes "transfer_async cdiv job spec cpu h = Inr h'"
  obtains need ops bytes buf stream start stop h1 h2 h3 h4 where
    "plan_transfer cdiv (hd_dir h) spec cpu = Inr (need, ops, bytes)"
    "take_buffer need h = (buf, h1)" "take_stream h1 = (stream, h2)" "take_event h2 = (start, h3)" "take_event h3 = (stop, h4)"
    "h' = h4\<lparr>hd_log := hd_log h @ submit_commands (hd_transfers h) stream start stop ops (\<not> d_gpu_to_cpu (hd_dir h)),
       hd_events := AList.update job stop (hd_events h),
       hd_transfers := hd_transfers h @ [\<lparr>tr_job = job, tr_stream = stream, tr_start = start, tr_end = stop, tr_bytes = bytes,
         tr_buffer = buf\<rparr>]\<rparr>"
proof -
  obtain need ops bytes where p: "plan_transfer cdiv (hd_dir h) spec cpu = Inr (need, ops, bytes)"
    using assms by (auto simp: transfer_async_def res_simps)
  obtain buf h1 where b: "take_buffer need h = (buf, h1)" by fastforce
  obtain stream h2 where s: "take_stream h1 = (stream, h2)" by fastforce
  obtain start h3 where e: "take_event h2 = (start, h3)" by fastforce
  obtain stop h4 where e': "take_event h3 = (stop, h4)" by fastforce
  have frame: "hd_log h4 = hd_log h" "hd_transfers h4 = hd_transfers h" "hd_events h4 = hd_events h"
    using take_buffer_frame [OF b] take_stream_frame [OF s] take_event_frame [OF e] take_event_frame [OF e'] by simp_all
  show ?thesis
    using assms p b s e e' frame
    by (intro that [OF p b s e e']) (simp add: transfer_async_def transfer_commands_def submit_commands_def)
qed

text \<open>Finishing and waiting, for any predicate on the state that each single completion keeps.\<close>

definition finish_one :: "transfer \<Rightarrow> transfer list \<Rightarrow> (int, nat) odict \<Rightarrow> handler \<Rightarrow> handler" where
  "finish_one t ts events h =
     h\<lparr>hd_transfers := ts, hd_streams := hd_streams h @ [tr_stream t],
       hd_event_pool := hd_event_pool h @ [tr_end t, tr_start t],
       hd_buffers := hd_buffers h @ [tr_buffer t], hd_events := events,
       hd_log := hd_log h @ [Seen (tr_end t)]\<rparr>"

lemma finish_loop_inv:
  assumes step: "\<And>t ts events h. hd_transfers h = t # ts \<Longrightarrow> P h \<Longrightarrow> od_del_item (tr_job t) (hd_events h) = Inr events \<Longrightarrow>
     P (finish_one t ts events h)"
  shows "finish_loop over ts (h, rs) = Inr (h', rs') \<Longrightarrow> hd_transfers h = ts \<Longrightarrow> P h \<Longrightarrow> P h'"
proof (induction ts arbitrary: h rs)
  case (Cons t ts)
  show ?case
  proof (cases "over (tr_end t)")
    case True
    then obtain events where e: "od_del_item (tr_job t) (hd_events h) = Inr events"
      and rest: "finish_loop over ts (finish_one t ts events h, rs @ [(tr_job t, tr_bytes t)]) = Inr (h', rs')"
      using Cons.prems(1) by (auto simp: res_simps finish_one_def)
    have "P (finish_one t ts events h)" by (rule step [OF Cons.prems(2,3) e])
    then show ?thesis using Cons.IH [OF rest] by (simp add: finish_one_def)
  next
    case False then show ?thesis using Cons.prems by simp
  qed
qed simp

lemma wait_inv:
  assumes "\<And>e h. P h \<Longrightarrow> P (h\<lparr>hd_log := hd_log h @ [Seen e]\<rparr>)"
  shows "P h \<Longrightarrow> P (wait_jobs jobs h)"
  unfolding wait_jobs_def
proof (induction jobs arbitrary: h)
  case (Cons j jobs)
  have "P (wait_job j h)" using assms Cons.prems by (simp add: wait_job_def split: option.split)
  then show ?case using Cons.IH by simp
qed simp

lemma handler_order:
  "handler_reach cdiv d h \<Longrightarrow> order_inv (hd_log h) (hd_transfers h)"
proof (induction rule: handler_reach.induct)
  case (start raw)
  then show ?case by (simp add: init_handler_def order_inv_def swaps_ordered_def)
next
  case (step h h')
  show ?case
    using step.hyps(2) step.IH
  proof (cases rule: handler_step.cases)
    case (submit job spec cpu)
    then obtain need ops bytes buf stream start stop h1 h2 h3 h4 where
      "h' = h4\<lparr>hd_log := hd_log h @ submit_commands (hd_transfers h) stream start stop ops (\<not> d_gpu_to_cpu (hd_dir h)),
         hd_events := AList.update job stop (hd_events h),
         hd_transfers := hd_transfers h @ [\<lparr>tr_job = job, tr_stream = stream, tr_start = start, tr_end = stop, tr_bytes = bytes,
           tr_buffer = buf\<rparr>]\<rparr>"
      by (elim transfer_asyncE)
    then show ?thesis using submit_inv [OF step.IH, of _ stop] by simp
  next
    case (finish over results)
    then have "finish_loop over (hd_transfers h) (h, []) = Inr (h', results)" by (simp add: get_finished_def)
    then show ?thesis
    proof (rule finish_loop_inv [where P = "\<lambda>h. order_inv (hd_log h) (hd_transfers h)", rotated])
      fix t ts events and g :: handler
      assume "hd_transfers g = t # ts" "order_inv (hd_log g) (hd_transfers g)"
      then show "order_inv (hd_log (finish_one t ts events g)) (hd_transfers (finish_one t ts events g))"
        using last_seen_inv [of "hd_log g" t] seen_inv [of "hd_log g" ts "tr_end t"]
        by (cases "ts = []") (simp_all add: finish_one_def order_inv_def)
    qed (simp_all add: step.IH)
  next
    case (await jobs)
    have "order_inv (hd_log (wait_jobs jobs h)) (hd_transfers (wait_jobs jobs h))"
      by (rule wait_inv [where P = "\<lambda>h. order_inv (hd_log h) (hd_transfers h)"]) (simp_all add: seen_inv step.IH)
    then show ?thesis using await by simp
  qed
qed

section \<open>Resources\<close>

text \<open>Every stream, event and buffer made so far is owned once, by a pool or by a transfer in flight.\<close>

definition held_by :: "transfer \<Rightarrow> nat list" where
  "held_by t = [fst (tr_buffer t), tr_stream t, tr_end t, tr_start t]"

definition pooled :: "handler \<Rightarrow> nat list" where
  "pooled h = map fst (hd_buffers h) @ hd_streams h @ hd_event_pool h"

definition owned_once :: "nat multiset \<Rightarrow> nat \<Rightarrow> bool" where
  "owned_once M f \<longleftrightarrow> (\<forall>x. count M x \<le> (if x < f then 1 else 0))"

definition resource_inv :: "handler \<Rightarrow> bool" where
  "resource_inv h \<longleftrightarrow> owned_once (mset (pooled h) + mset (concat (map held_by (hd_transfers h)))) (hd_fresh h)"

lemma owned_once_fresh: "owned_once M f \<Longrightarrow> owned_once (add_mset f M) (Suc f)"
  unfolding owned_once_def
proof (intro allI)
  fix x assume "\<forall>x. count M x \<le> (if x < f then 1 else 0)"
  then have "count M x \<le> (if x < f then 1 else 0)" by blast
  then show "count (add_mset f M) x \<le> (if x < Suc f then 1 else 0)" by (cases "x = f") (auto split: if_splits)
qed

lemma best_buffer_range:
  assumes "best_buffer need pool = (bi, bc)" and "0 \<le> bi"
  shows "nat bi < length pool"
proof -
  have "fst (fold (\<lambda>(i, b, cap) (bi, bc). if cap \<ge> need \<and> cap > bc then (int i, cap) else (bi, bc)) (enumerate k xs) s) \<le>
      max (fst s) (int (k + length xs) - 1)" for k and xs :: "(nat \<times> int) list" and s
  proof (induction xs arbitrary: k s)
    case (Cons a xs)
    obtain bi bc b cap where "s = (bi, bc)" "a = (b, cap)" by fastforce
    then show ?case using Cons.IH [of "Suc k" "(int k, cap)"] Cons.IH [of "Suc k" s] by auto
  qed simp
  from this [of 0 pool "(-1, 0)"] show ?thesis using assms by (auto simp: best_buffer_def)
qed

lemma take_buffer_owned:
  assumes "take_buffer need h = (buf, h')" and own: "owned_once (mset (pooled h) + K) (hd_fresh h)"
  shows "owned_once (mset (pooled h') + add_mset (fst buf) K) (hd_fresh h')"
proof -
  obtain bi bc where best: "best_buffer need (hd_buffers h) = (bi, bc)" by fastforce
  show ?thesis
  proof (cases "0 \<le> bi")
    case True
    then have i: "nat bi < length (hd_buffers h)" using best_buffer_range [OF best] by simp
    let ?rest = "take (nat bi) (hd_buffers h) @ drop (Suc (nat bi)) (hd_buffers h)"
    have "mset (map fst (hd_buffers h)) =
        mset (map fst (take (nat bi) (hd_buffers h) @ hd_buffers h ! nat bi # drop (Suc (nat bi)) (hd_buffers h)))"
      by (rule arg_cong [where f = "\<lambda>xs. mset (map fst xs)", OF id_take_nth_drop [OF i]])
    then have "mset (map fst (hd_buffers h)) = add_mset (fst (hd_buffers h ! nat bi)) (mset (map fst ?rest))"
      by simp
    then show ?thesis using assms True best by (auto simp: take_buffer_def pooled_def)
  next
    case False
    then show ?thesis using assms best owned_once_fresh [OF own]
      by (auto simp: take_buffer_def pooled_def)
  qed
qed

lemma mset_last: "xs \<noteq> [] \<Longrightarrow> mset xs = add_mset (last xs) (mset (butlast xs))"
  by (metis append_butlast_last_id mset_append mset.simps add_mset_add_single)

lemma take_stream_owned:
  assumes "take_stream h = (x, h')" and own: "owned_once (mset (pooled h) + K) (hd_fresh h)"
  shows "owned_once (mset (pooled h') + add_mset x K) (hd_fresh h')"
proof (cases "hd_streams h = []")
  case True
  then show ?thesis using assms owned_once_fresh [OF own] by (auto simp: take_stream_def pooled_def)
next
  case False
  then show ?thesis using assms mset_last [OF False] by (auto simp: take_stream_def pooled_def)
qed

lemma take_event_owned:
  assumes "take_event h = (x, h')" and own: "owned_once (mset (pooled h) + K) (hd_fresh h)"
  shows "owned_once (mset (pooled h') + add_mset x K) (hd_fresh h')"
proof (cases "hd_event_pool h = []")
  case True
  then show ?thesis using assms owned_once_fresh [OF own] by (auto simp: take_event_def pooled_def)
next
  case False
  then show ?thesis using assms mset_last [OF False] by (auto simp: take_event_def pooled_def)
qed

lemma finish_one_resources:
  "hd_transfers h = t # ts \<Longrightarrow> resource_inv h \<Longrightarrow> resource_inv (finish_one t ts events h)"
  by (simp add: resource_inv_def finish_one_def pooled_def held_by_def ac_simps)

lemma resource_inv_log: "resource_inv (h\<lparr>hd_log := l\<rparr>) = resource_inv h"
  by (simp add: resource_inv_def pooled_def)

lemma handler_resources: "handler_reach cdiv d h \<Longrightarrow> resource_inv h"
proof (induction rule: handler_reach.induct)
  case (start raw)
  then show ?case by (simp add: init_handler_def resource_inv_def owned_once_def pooled_def)
next
  case (step h h')
  show ?case
    using step.hyps(2) step.IH
  proof (cases rule: handler_step.cases)
    case (submit job spec cpu)
    obtain need ops bytes buf stream start stop h1 h2 h3 h4 where
      t: "take_buffer need h = (buf, h1)" "take_stream h1 = (stream, h2)" "take_event h2 = (start, h3)" "take_event h3 = (stop, h4)"
      and h': "h' = h4\<lparr>hd_log := hd_log h @ submit_commands (hd_transfers h) stream start stop ops (\<not> d_gpu_to_cpu (hd_dir h)),
       hd_events := AList.update job stop (hd_events h),
       hd_transfers := hd_transfers h @ [\<lparr>tr_job = job, tr_stream = stream, tr_start = start, tr_end = stop, tr_bytes = bytes,
         tr_buffer = buf\<rparr>]\<rparr>"
      using submit(1) by (rule transfer_asyncE)
    let ?K = "mset (concat (map held_by (hd_transfers h)))"
    have "owned_once (mset (pooled h) + ?K) (hd_fresh h)" using step.IH by (simp add: resource_inv_def)
    then have "owned_once (mset (pooled h1) + add_mset (fst buf) ?K) (hd_fresh h1)" by (rule take_buffer_owned [OF t(1)])
    then have "owned_once (mset (pooled h2) + add_mset stream (add_mset (fst buf) ?K)) (hd_fresh h2)"
      by (rule take_stream_owned [OF t(2)])
    then have "owned_once (mset (pooled h3) + add_mset start (add_mset stream (add_mset (fst buf) ?K))) (hd_fresh h3)"
      by (rule take_event_owned [OF t(3)])
    then have "owned_once (mset (pooled h4) + add_mset stop (add_mset start (add_mset stream (add_mset (fst buf) ?K)))) (hd_fresh h4)"
      by (rule take_event_owned [OF t(4)])
    moreover have "pooled h' = pooled h4" by (simp add: h' pooled_def)
    ultimately show ?thesis by (simp add: h' resource_inv_def held_by_def add_mset_commute)
  next
    case (finish over results)
    then have "finish_loop over (hd_transfers h) (h, []) = Inr (h', results)" by (simp add: get_finished_def)
    then show ?thesis
      by (rule finish_loop_inv [where P = resource_inv, rotated]) (rule refl, rule step.IH, erule (1) finish_one_resources)
  next
    case (await jobs)
    have "resource_inv (wait_jobs jobs h)"
      by (rule wait_inv [where P = resource_inv]) (simp_all only: resource_inv_log step.IH)
    then show ?thesis using await by simp
  qed
qed

lemma resources_distinct:
  assumes "resource_inv h"
  shows "distinct (pooled h @ concat (map held_by (hd_transfers h)))"
proof -
  let ?xs = "pooled h @ concat (map held_by (hd_transfers h))"
  have le: "count (mset ?xs) x \<le> 1" for x
  proof -
    have "count (mset ?xs) x \<le> (if x < hd_fresh h then 1 else 0)" using assms by (simp add: resource_inv_def owned_once_def)
    also have "\<dots> \<le> 1" by simp
    finally show ?thesis .
  qed
  have "count (mset ?xs) x = (if x \<in> set ?xs then 1 else 0)" for x
  proof (cases "x \<in> set ?xs")
    case True
    then have "0 < count (mset ?xs) x" by (simp only: count_greater_zero_iff set_mset_mset)
    then have "count (mset ?xs) x = 1" using le [of x] by linarith
    then show ?thesis using True by (simp only: if_True)
  next
    case False
    then have "count (mset ?xs) x = 0" by (simp only: count_eq_zero_iff set_mset_mset not_False_eq_True)
    then show ?thesis by (simp only: if_not_P [OF False])
  qed
  then show ?thesis using distinct_count_atmost_1 by blast
qed

section \<open>Completion in order\<close>

definition worker_inv :: "handler \<Rightarrow> bool" where
  "worker_inv h \<longleftrightarrow> distinct (map tr_job (hd_transfers h)) \<and>
     (\<forall>t \<in> set (hd_transfers h). map_of (hd_events h) (tr_job t) = Some (tr_end t))"

lemma finish_loop_result:
  "distinct (map tr_job ts) \<Longrightarrow> \<forall>t \<in> set ts. map_of (hd_events h) (tr_job t) = Some (tr_end t) \<Longrightarrow> hd_transfers h = ts \<Longrightarrow>
   \<exists>h'. finish_loop over ts (h, rs) = Inr (h', rs @ map (\<lambda>t. (tr_job t, tr_bytes t)) (takeWhile (\<lambda>t. over (tr_end t)) ts)) \<and>
     hd_transfers h' = dropWhile (\<lambda>t. over (tr_end t)) ts"
proof (induction ts arbitrary: h rs)
  case (Cons t ts)
  show ?case
  proof (cases "over (tr_end t)")
    case True
    have "map_of (hd_events h) (tr_job t) = Some (tr_end t)" using Cons.prems(2) by simp
    then have "od_mem (tr_job t) (hd_events h)" unfolding od_mem_def by (metis option.distinct(1))
    then have del: "od_del_item (tr_job t) (hd_events h) = Inr (AList.delete (tr_job t) (hd_events h))"
      by (simp add: od_del_item_def)
    let ?g = "finish_one t ts (AList.delete (tr_job t) (hd_events h)) h"
    have "\<forall>u \<in> set ts. map_of (hd_events ?g) (tr_job u) = Some (tr_end u)"
    proof
      fix u assume u: "u \<in> set ts"
      have "tr_job t \<notin> tr_job ` set ts" using Cons.prems(1) by simp
      with u have "tr_job u \<noteq> tr_job t" by (metis imageI)
      then show "map_of (hd_events ?g) (tr_job u) = Some (tr_end u)"
        using Cons.prems(2) u by (simp add: finish_one_def delete_conv')
    qed
    moreover have "hd_transfers ?g = ts" by (simp add: finish_one_def)
    ultimately have "\<exists>h'. finish_loop over ts (?g, rs @ [(tr_job t, tr_bytes t)]) =
        Inr (h', (rs @ [(tr_job t, tr_bytes t)]) @ map (\<lambda>t. (tr_job t, tr_bytes t)) (takeWhile (\<lambda>t. over (tr_end t)) ts)) \<and>
        hd_transfers h' = dropWhile (\<lambda>t. over (tr_end t)) ts"
      using Cons.prems(1) by (intro Cons.IH) simp_all
    then show ?thesis using True del by (simp add: finish_one_def)
  next
    case False then show ?thesis using Cons.prems by simp
  qed
qed simp

lemma finish_one_jobs:
  assumes "hd_transfers h = t # ts" "worker_inv h" "od_del_item (tr_job t) (hd_events h) = Inr events"
  shows "worker_inv (finish_one t ts events h)"
proof -
  have e: "events = AList.delete (tr_job t) (hd_events h)" using assms(3) by (simp add: od_del_item_def split: if_splits)
  have "tr_job t \<notin> tr_job ` set ts" using assms(1,2) by (simp add: worker_inv_def)
  then have "tr_job u \<noteq> tr_job t" if "u \<in> set ts" for u using that by (metis imageI)
  then show ?thesis using assms(1,2) by (auto simp: worker_inv_def finish_one_def e delete_conv')
qed

lemma handler_jobs: "handler_reach cdiv d h \<Longrightarrow> worker_inv h"
proof (induction rule: handler_reach.induct)
  case (start raw)
  then show ?case by (simp add: init_handler_def worker_inv_def)
next
  case (step h h')
  show ?case
    using step.hyps(2) step.IH
  proof (cases rule: handler_step.cases)
    case (submit job spec cpu)
    then obtain need ops bytes buf stream start stop h1 h2 h3 h4 where
      "h' = h4\<lparr>hd_log := hd_log h @ submit_commands (hd_transfers h) stream start stop ops (\<not> d_gpu_to_cpu (hd_dir h)),
         hd_events := AList.update job stop (hd_events h),
         hd_transfers := hd_transfers h @ [\<lparr>tr_job = job, tr_stream = stream, tr_start = start, tr_end = stop, tr_bytes = bytes,
           tr_buffer = buf\<rparr>]\<rparr>"
      by (elim transfer_asyncE)
    then show ?thesis using step.IH submit(2) by (auto simp: worker_inv_def update_conv')
  next
    case (finish over results)
    then have "finish_loop over (hd_transfers h) (h, []) = Inr (h', results)" by (simp add: get_finished_def)
    then show ?thesis
      by (rule finish_loop_inv [where P = worker_inv, rotated]) (rule refl, rule step.IH, erule (2) finish_one_jobs)
  next
    case (await jobs)
    have "worker_inv (wait_jobs jobs h)"
      by (rule wait_inv [where P = worker_inv]) (simp_all add: worker_inv_def step.IH [unfolded worker_inv_def])
    then show ?thesis using await by simp
  qed
qed

end
