(* ===== verification/Host_Pinning.thy ===== *)
theory Host_Pinning
  imports Py_Env
begin

text \<open>
  Model of the registration of the shared region with the driver (\<open>pin_mmap_region\<close> in
  \<open>v1/kv_offload/cpu/gpu_worker.py\<close>) and of its undoing (\<open>cleanup\<close> of the region): the size of a
  chunk from the environment and the row pitch, the chunks in turn, and the rollback when one of them
  is rejected. The driver's calls are arguments that take its state \<open>'d\<close> to a new one. \<open>cdiv\<close> is a
  function of another package.
\<close>

definition MIB2 :: int where
  "MIB2 = 2097152"

definition chunk_gib :: "string option \<Rightarrow> int" where
  "chunk_gib raw = (case raw of None \<Rightarrow> 64 | Some s \<Rightarrow> (case py_int s of Some n \<Rightarrow> n | None \<Rightarrow> 64))"

definition plain_chunk :: "string option \<Rightarrow> int" where
  "plain_chunk raw = max (64 * 1024 ^ 2) (min (chunk_gib raw * 1024 ^ 3) (512 * 1024 ^ 3)) div MIB2 * MIB2"

definition register_chunk :: "string option \<Rightarrow> int \<Rightarrow> int" where
  "register_chunk raw row_stride =
     (let chunk = plain_chunk raw in
      if row_stride > 0 \<and> chunk > row_stride \<and> row_stride mod MIB2 = 0
      then (let aligned = chunk div row_stride * row_stride in
            if aligned \<ge> 64 * 1024 ^ 2 then aligned else chunk)
      else chunk)"

text \<open>The chunks still to register, the ones registered, the driver; the answer is whether all went well.\<close>

fun register_chunks :: "(int \<Rightarrow> int \<Rightarrow> 'd \<Rightarrow> 'd \<times> int) \<Rightarrow> (int \<Rightarrow> 'd \<Rightarrow> 'd) \<Rightarrow> ('d \<Rightarrow> 'd) \<Rightarrow> (int \<times> int) list \<Rightarrow>
    (int \<times> int) list \<Rightarrow> 'd \<Rightarrow> (int \<times> int) list option \<times> 'd" where
  "register_chunks reg unreg last_error [] done_chunks dv = (Some done_chunks, dv)"
| "register_chunks reg unreg last_error ((p, n) # cs) done_chunks dv =
     (let (dv', rc) = reg p n dv in
      if rc \<noteq> 0 then (None, fold (\<lambda>(p, n). unreg p) (rev done_chunks) (last_error dv'))
      else register_chunks reg unreg last_error cs (done_chunks @ [(p, n)]) dv')"

definition chunk_list :: "(int \<Rightarrow> int \<Rightarrow> int) \<Rightarrow> int \<Rightarrow> int \<Rightarrow> int \<Rightarrow> (int \<times> int) list" where
  "chunk_list cdiv base len chunk =
     map (\<lambda>i. (base + i * chunk, min chunk (len - i * chunk))) [0..cdiv len chunk - 1]"

definition pin_mmap_region :: "(int \<Rightarrow> int \<Rightarrow> int) \<Rightarrow> bool \<Rightarrow> (int \<Rightarrow> int \<Rightarrow> 'd \<Rightarrow> 'd \<times> int) \<Rightarrow> (int \<Rightarrow> 'd \<Rightarrow> 'd) \<Rightarrow>
    ('d \<Rightarrow> 'd) \<Rightarrow> string option \<Rightarrow> int \<Rightarrow> int \<Rightarrow> int \<Rightarrow> 'd \<Rightarrow> (int \<times> int) list option \<times> 'd" where
  "pin_mmap_region cdiv cuda reg unreg last_error raw base len row_stride dv =
     (if \<not> cuda then (None, dv)
      else register_chunks reg unreg last_error (chunk_list cdiv base len (register_chunk raw row_stride)) [] dv)"

text \<open>The clean-up: the chunks in reverse, or the whole region when none is listed.\<close>

definition unpin_region :: "bool \<Rightarrow> (int \<Rightarrow> 'd \<Rightarrow> 'd) \<Rightarrow> int \<Rightarrow> (int \<times> int) list option \<Rightarrow> 'd \<Rightarrow> 'd" where
  "unpin_region cuda unreg base pinned dv =
     (case pinned of
        None \<Rightarrow> dv
      | Some chunks \<Rightarrow>
          if \<not> cuda then dv
          else if chunks \<noteq> [] then fold (\<lambda>(p, n). unreg p) (rev chunks) dv
          else unreg base dv)"

section \<open>Facts\<close>

definition cdiv_rounds_up :: "(int \<Rightarrow> int \<Rightarrow> int) \<Rightarrow> bool" where
  "cdiv_rounds_up cdiv \<longleftrightarrow> (\<forall>a b. 0 < b \<longrightarrow> cdiv a b = - ((- a) div b))"

lemma plain_chunk_pos: "64 * 1024 ^ 2 \<le> plain_chunk raw"
proof -
  let ?m = "max (64 * 1024 ^ 2) (min (chunk_gib raw * 1024 ^ 3) (512 * 1024 ^ 3)) :: int"
  have "64 * 1024 ^ 2 div MIB2 \<le> ?m div MIB2" by (rule zdiv_mono1) (simp_all add: MIB2_def)
  then show ?thesis by (simp add: plain_chunk_def MIB2_def)
qed

lemma register_chunk_pos: "0 < register_chunk raw row"
  using plain_chunk_pos [of raw] by (auto simp: register_chunk_def Let_def)

text \<open>When the row pitch is a multiple of 2 MiB, of which some fit a chunk, no row crosses a seam.\<close>

lemma register_chunk_rows:
  assumes "0 < row" "row mod MIB2 = 0" "row < plain_chunk raw" "64 * 1024 ^ 2 \<le> plain_chunk raw div row * row"
  shows "row dvd register_chunk raw row"
  using assms by (simp add: register_chunk_def Let_def)

lemma row_in_one_chunk:
  fixes r c b :: int
  assumes "r dvd c" "0 < r" "0 < c"
  shows "b * r div c * c \<le> b * r \<and> b * r + r \<le> (b * r div c + 1) * c"
proof -
  obtain k where k: "c = r * k" using assms(1) by (elim dvdE)
  have k0: "0 < k" using assms(2,3) k by (simp add: zero_less_mult_iff)
  have q: "b * r div c = b div k" using k assms(2) by (simp add: mult.commute)
  have e: "b div k * k + b mod k = b" by (rule div_mult_mod_eq)
  have m: "0 \<le> b mod k" "b mod k < k" using k0 by simp_all
  have d: "(b div k + 1) * k = b div k * k + k" by (simp add: distrib_right)
  have "b div k * k \<le> b" "b + 1 \<le> (b div k + 1) * k" using e m d by linarith+
  then have "b div k * k * r \<le> b * r" "(b + 1) * r \<le> (b div k + 1) * k * r"
    using assms(2) by (simp_all add: mult_right_mono del: mult_le_cancel_right)
  then show ?thesis using q k by (simp add: algebra_simps)
qed

lemma register_success:
  "register_chunks reg unreg last_error cs acc dv = (Some out, dv') \<Longrightarrow> out = acc @ cs"
proof (induction cs arbitrary: acc dv)
  case (Cons c cs)
  obtain p n where c: "c = (p, n)" by (cases c)
  obtain dv1 rc where r: "reg p n dv = (dv1, rc)" by fastforce
  then have "register_chunks reg unreg last_error cs (acc @ [(p, n)]) dv1 = (Some out, dv')"
    using Cons.prems c by (simp split: if_splits)
  then show ?case using Cons.IH [of "acc @ [(p, n)]" dv1] c by simp
qed simp

text \<open>A rejected chunk: those before it have been registered and are undone in reverse.\<close>

definition register_all :: "(int \<Rightarrow> int \<Rightarrow> 'd \<Rightarrow> 'd \<times> int) \<Rightarrow> (int \<times> int) list \<Rightarrow> 'd \<Rightarrow> 'd" where
  "register_all reg cs dv = fold (\<lambda>(p, n) d. fst (reg p n d)) cs dv"

lemma register_failure:
  "register_chunks reg unreg last_error cs acc dv = (None, dv') \<Longrightarrow>
   \<exists>k < length cs. snd (reg (fst (cs ! k)) (snd (cs ! k)) (register_all reg (take k cs) dv)) \<noteq> 0 \<and>
     dv' = fold (\<lambda>(p, n). unreg p) (rev (acc @ take k cs)) (last_error (register_all reg (take (Suc k) cs) dv))"
proof (induction cs arbitrary: acc dv)
  case (Cons c cs)
  obtain p n where c: "c = (p, n)" by (cases c)
  obtain dv1 rc where r: "reg p n dv = (dv1, rc)" by fastforce
  show ?case
  proof (cases "rc = 0")
    case True
    then have "register_chunks reg unreg last_error cs (acc @ [(p, n)]) dv1 = (None, dv')"
      using Cons.prems c r by simp
    from Cons.IH [OF this] obtain k where
      "k < length cs" "snd (reg (fst (cs ! k)) (snd (cs ! k)) (register_all reg (take k cs) dv1)) \<noteq> 0"
      "dv' = fold (\<lambda>(p, n). unreg p) (rev ((acc @ [(p, n)]) @ take k cs)) (last_error (register_all reg (take (Suc k) cs) dv1))"
      by blast
    then show ?thesis using c r by (intro exI [of _ "Suc k"]) (simp add: register_all_def)
  next
    case False
    then show ?thesis using Cons.prems c r by (intro exI [of _ 0]) (auto simp: register_all_def)
  qed
qed simp

lemma chunk_list_mem:
  assumes "0 < c" "cdiv_rounds_up cdiv" "0 \<le> i" "i * c < len"
  shows "(base + i * c, min c (len - i * c)) \<in> set (chunk_list cdiv base len c)"
proof -
  have "i < - ((- len) div c)"
  proof (rule ccontr)
    assume "\<not> i < - ((- len) div c)"
    then have "(- i) * c \<le> (- len) div c * c" using assms(1) by (intro mult_right_mono) auto
    also have "\<dots> \<le> - len" using assms(1) by (simp add: minus_mod_eq_div_mult [symmetric])
    finally show False using assms(4) by simp
  qed
  then have "i \<in> set [0..cdiv len c - 1]" using assms(1-3) by (simp add: cdiv_rounds_up_def)
  then show ?thesis unfolding chunk_list_def set_map by (rule rev_image_eqI) simp
qed

lemma chunk_list_range:
  assumes "0 < c" "cdiv_rounds_up cdiv" "(p, m) \<in> set (chunk_list cdiv base len c)"
  shows "base \<le> p \<and> 0 < m \<and> p + m \<le> base + len \<and> m \<le> c"
proof -
  obtain i where i: "0 \<le> i" "i \<le> cdiv len c - 1" "p = base + i * c" "m = min c (len - i * c)"
    using assms(3) by (auto simp: chunk_list_def)
  have "i < - ((- len) div c)" using i(2) assms(1,2) by (simp add: cdiv_rounds_up_def)
  then have "(- len) div c < - i" by linarith
  have "- len < (- i) * c"
  proof (rule ccontr)
    assume "\<not> - len < (- i) * c"
    then have "((- i) * c) div c \<le> (- len) div c" using assms(1) by (intro zdiv_mono1) auto
    moreover have "((- i) * c) div c = - i" using assms(1) by (intro nonzero_mult_div_cancel_right) simp
    ultimately have "- i \<le> (- len) div c" by (simp only:)
    then show False using \<open>(- len) div c < - i\<close> by simp
  qed
  then show ?thesis using i assms(1) by (simp add: mult_nonneg_nonneg)
qed

end
