(* ===== verification/Worker_Properties.thy ===== *)
theory Worker_Properties
  imports GPU_Memory GPU_Canonical GPU_Handler_Facts Host_Pinning
begin

text \<open>
  The properties of the CPU offloading worker: which bytes a transfer copies, that what was stored
  comes back, that the driver's failures do not change that, that transfers run in the order of their
  submission, and that the pinned chunks hold whole rows.
\<close>

section \<open>An example\<close>

definition demo_ceiling :: "int \<Rightarrow> int \<Rightarrow> int" where
  "demo_ceiling a b = - ((- a) div b)"

definition demo_gpu :: tensor2 where
  "demo_gpu = \<lparr>tn_base = 1000, tn_pitch = 8, tn_rows = 4, tn_cols = 8\<rparr>"

definition demo_cpu :: tensor2 where
  "demo_cpu = \<lparr>tn_base = 5000, tn_pitch = 32, tn_rows = 3, tn_cols = 16\<rparr>"

definition demo_refs :: "cache_ref list list" where
  "demo_refs = [[\<lparr>cr_tensor = 0, cr_bytes = 6, cr_mapping = None\<rparr>]]"

definition demo_dir :: "bool \<Rightarrow> direction" where
  "demo_dir store =
     \<lparr>d_gpu_to_cpu = store, d_src = (if store then [demo_gpu] else [demo_cpu]), d_dst = (if store then [demo_cpu] else [demo_gpu]),
      d_src_bpc = (if store then 1 else 2), d_dst_bpc = (if store then 2 else 1), d_groups = demo_refs, d_plans = None\<rparr>"

definition demo_transfer_request :: "int list \<Rightarrow> gpu_spec" where
  "demo_transfer_request ids = \<lparr>gpu_block_ids = ids, gpu_group_sizes = [3], gpu_block_indices = [1]\<rparr>"

definition demo_store_ops :: "copy_op list" where
  "demo_store_ops = [(1008, 5072, 6), (1016, 5000, 6), (1024, 5008, 6)]"

definition demo_load_ops :: "copy_op list" where
  "demo_load_ops = [(5072, 1000, 6), (5000, 1016, 6), (5008, 1008, 6)]"

lemma demo_init: "init_direction [demo_gpu] [demo_cpu] 2 demo_refs True False = Inr (demo_dir True)"
  by code_simp

lemma demo_plans:
  "plan_transfer demo_ceiling (demo_dir True) (demo_transfer_request [1, 2, 3]) [2, 0] = Inr (3, demo_store_ops, 18)"
  "plan_transfer demo_ceiling (demo_dir False) (demo_transfer_request [0, 2, 1]) [2, 0] = Inr (3, demo_load_ops, 18)"
  by code_simp+

lemma demo_cdiv_laws: "cdiv_law demo_ceiling" "cdiv_rounds_up demo_ceiling"
  by (simp_all add: cdiv_law_def cdiv_rounds_up_def demo_ceiling_def)

section \<open>Which bytes are copied\<close>

lemma init_direction_ok:
  assumes init: "init_direction gpu cpu bpc groups store False = Inr d" and b: "0 < bpc"
    and refs: "\<forall>refs \<in> set groups. \<forall>r \<in> set refs. cr_tensor r < length gpu"
  shows "direction_ok d" and "d_groups d = groups" and "d_gpu_to_cpu d = store"
    and "d_src_bpc d = (if store then 1 else bpc)" and "d_dst_bpc d = (if store then bpc else 1)"
proof -
  have len: "length gpu = length cpu" using init by (simp add: init_direction_def res_simps)
  have checks: "foldE (check_tensors bpc None) (enumerate 0 (zip gpu cpu)) () = Inr ()"
    using init by (auto simp: init_direction_def res_simps)
  have d: "d = \<lparr>d_gpu_to_cpu = store, d_src = (if store then gpu else cpu), d_dst = (if store then cpu else gpu),
      d_src_bpc = (if store then 1 else bpc), d_dst_bpc = (if store then bpc else 1), d_groups = groups, d_plans = None\<rparr>"
    using init by (auto simp: init_direction_def res_simps)
  have cols: "foldE (check_tensors bpc None) (enumerate k (zip gs cs)) () = Inr () \<Longrightarrow> length gs = length cs \<Longrightarrow>
      \<forall>c \<in> set cs. splits_evenly c bpc" for k gs cs
  proof (induction cs arbitrary: k gs)
    case (Cons c cs)
    then obtain g gs' where "gs = g # gs'" by (cases gs) auto
    then show ?case using Cons by (auto simp: check_tensors_def splits_evenly_def res_simps)
  qed simp
  have "\<forall>c \<in> set cpu. splits_evenly c bpc" using cols [OF checks] len by simp
  moreover have "splits_evenly t 1" for t by (simp add: splits_evenly_def)
  ultimately show "direction_ok d" using b refs len by (simp add: direction_ok_def d)
  show "d_groups d = groups" "d_gpu_to_cpu d = store" "d_src_bpc d = (if store then 1 else bpc)"
    "d_dst_bpc d = (if store then bpc else 1)" by (simp_all add: d)
qed

text \<open>C5: a transfer in the direct layout copies exactly the pages it is asked for. For a request that
  names as many GPU blocks and chunks as its groups need, the arrays, the offsets and the skipped
  places of the code come to one descriptor for each group, layer reference and block, which takes
  logical block \<open>k\<close> of the request to (or from) the place \<open>k mod bpc\<close> of its chunk; no assertion fails,
  and the buffer asked for is filled exactly.\<close>

theorem transfer_copies_pages:
  assumes "init_direction gpu cpu bpc groups store False = Inr d" and "0 < bpc" and "cdiv_law cdiv"
    and "\<forall>refs \<in> set groups. \<forall>r \<in> set refs. cr_tensor r < length gpu"
    and "request_fits d spec chunks"
  shows "plan_transfer cdiv d spec chunks =
    (let ops = transfer_pages d (transfer_groups d spec) (src_blocks d spec chunks) (dst_blocks d spec chunks)
     in Inr (int (length ops), ops,
          sum_list (map (\<lambda>(refs, count, index). count * sum_list (map cr_bytes refs)) (transfer_groups d spec))))"
  using plan_direct [OF init_direction_ok(1) [OF assms(1,2,4)] assms(3,5)] by (simp add: Let_def)

theorem transfer_copies_pages_witness:
  "plan_transfer demo_ceiling (demo_dir True) (demo_transfer_request [1, 2, 3]) [2, 0] =
    (let ops = transfer_pages (demo_dir True) (transfer_groups (demo_dir True) (demo_transfer_request [1, 2, 3]))
       (src_blocks (demo_dir True) (demo_transfer_request [1, 2, 3]) [2, 0]) (dst_blocks (demo_dir True) (demo_transfer_request [1, 2, 3]) [2, 0])
     in Inr (int (length ops), ops,
          sum_list (map (\<lambda>(refs, count, index). count * sum_list (map cr_bytes refs))
            (transfer_groups (demo_dir True) (demo_transfer_request [1, 2, 3])))))"
proof -
  have refs: "\<forall>refs \<in> set demo_refs. \<forall>r \<in> set refs. cr_tensor r < length [demo_gpu]" by (simp add: demo_refs_def)
  have fits: "request_fits (demo_dir True) (demo_transfer_request [1, 2, 3]) [2, 0]" by code_simp
  show ?thesis using transfer_copies_pages [OF demo_init _ demo_cdiv_laws(1) refs fits] by simp
qed

section \<open>What was stored comes back\<close>

definition transfer_safe :: "direction \<Rightarrow> gpu_spec \<Rightarrow> int list \<Rightarrow> bool" where
  "transfer_safe d spec chunks \<longleftrightarrow>
     direction_ok d \<and> layout_safe d \<and> request_fits d spec chunks \<and> groups_lie d (transfer_groups d spec) \<and>
     distinct (dst_blocks d spec chunks) \<and> rows_exist (d_src d) (set (src_blocks d spec chunks)) \<and>
     rows_exist (d_dst d) (set (dst_blocks d spec chunks))"

lemma transfer_independent:
  assumes safe: "transfer_safe d spec chunks" and cd: "cdiv_law cdiv"
    and plan: "plan_transfer cdiv d spec chunks = Inr (need, ops, bytes)"
  shows "independent ops"
proof -
  let ?cs = "transfer_copies d (transfer_groups d spec) (src_blocks d spec chunks) (dst_blocks d spec chunks)"
  have ok: "direction_ok d" "layout_safe d" "request_fits d spec chunks" "groups_lie d (transfer_groups d spec)"
    "distinct (dst_blocks d spec chunks)" "rows_exist (d_src d) (set (src_blocks d spec chunks))"
    "rows_exist (d_dst d) (set (dst_blocks d spec chunks))"
    using safe by (simp_all add: transfer_safe_def)
  have b: "0 < d_src_bpc d" "0 < d_dst_bpc d" using ok(1) by (simp_all add: direction_ok_def)
  have room: "parts_sum (d_src_bpc d) (transfer_groups d spec) \<le> length (src_blocks d spec chunks)"
    "parts_sum (d_dst_bpc d) (transfer_groups d spec) \<le> length (dst_blocks d spec chunks)"
    using ok(3) by (simp_all add: request_fits_def)
  have "ops = map (copy_op_of d) ?cs" using plan_direct [OF ok(1) cd ok(3)] plan by (simp add: pages_of_copies)
  moreover have "independent (map (copy_op_of d) ?cs)"
    using copies_ok [OF b ok(4) room ok(5)] independent_copies [OF _ _ ok(2,6,7) b] by blast
  ultimately show ?thesis by simp
qed

text \<open>C4: what was stored comes back, byte for byte. A store moves pages from the GPU to chunks of the
  CPU tier, later a load moves pages of the tier to the GPU; if the load reads a page that the store has
  written and the bytes that the store wrote were left alone in between, every byte of it arrives as
  it was before the store. The dispatcher may have been in any mode, and the driver may have
  rejected batches on the way.\<close>

theorem stored_page_loads_back:
  assumes "cdiv_law cdiv" and "lawful_driver dv" and "0 < cap"
    and "transfer_safe store spec chunks" and "plan_transfer cdiv store spec chunks = Inr (need, ops, bytes)"
    and "transfer_safe load spec' chunks'" and "plan_transfer cdiv load spec' chunks' = Inr (need', ops', bytes')"
    and "dispatch_swap dv cap split any ops (m, sticky) = Inr (m1, sticky1)"
    and "\<forall>x \<in> set ops. \<forall>a. covers x a \<longrightarrow> m2 a = m1 a"
    and "dispatch_swap dv cap split any' ops' (m2, sticky2) = Inr (m3, sticky3)"
    and "(p, q, n) \<in> set ops" and "(q, r, n) \<in> set ops'" and "0 \<le> k" and "k < n"
  shows "m3 (r + of_int k) = m (p + of_int k)"
proof -
  note ind = transfer_independent [OF assms(4,1,5)] and ind' = transfer_independent [OF assms(6,1,7)]
  have k: "uint (of_int k :: ptr) < n"
  proof -
    have "uint (of_int k :: ptr) = k mod 2 ^ 64" by (simp add: uint_word_of_int)
    also have "\<dots> \<le> k" using assms(13) by (rule zmod_le_nonneg_dividend)
    finally show ?thesis using assms(14) by simp
  qed
  have c: "covers (q, r, n) (r + of_int k)" "covers (p, q, n) (q + of_int k)" using k by (simp_all add: covers_def)
  have "m3 (r + of_int k) = m2 (q + of_int k)"
    using copied_covered [OF ind' assms(12) c(1), of m2] dispatch_copies [OF ind' assms(2,3,10)] by (simp add: origin_def)
  also have "\<dots> = m1 (q + of_int k)" using assms(9,11) c(2) by blast
  also have "\<dots> = m (p + of_int k)"
    using copied_covered [OF ind assms(11) c(2), of m] dispatch_copies [OF ind assms(2,3,8)] by (simp add: origin_def)
  finally show ?thesis .
qed

text \<open>A driver that rejects every batch, having copied nothing, and copies single items.\<close>

definition demo_driver :: "'b memory driver" where
  "demo_driver =
     \<lparr>dv_batch = (\<lambda>xs any m. (m, False)), dv_copy = (\<lambda>x m. (copied [x] m, 0)), dv_dtoh = (\<lambda>x m. (m, 1)),
      dv_htod = (\<lambda>x m. (m, 1)), dv_mem_type = (\<lambda>p. 0), dv_range_start = (\<lambda>p. None)\<rparr>"

lemma demo_driver_lawful: "lawful_driver (demo_driver :: 'b memory driver)"
proof -
  have "partly xs m m" for xs and m :: "'b memory" by (simp add: partly_def)
  moreover have "partly [x] m (copied [x] m)" for x and m :: "'b memory" by (simp add: partly_def)
  ultimately show ?thesis by (auto simp: lawful_driver_def lawful_call_def demo_driver_def)
qed

lemma demo_entry: "run_entry demo_driver split x m = Inr (copied [x] m)"
  by (cases x) (simp add: run_entry_def demo_driver_def)

lemma demo_tensors_safe: "layout_safe (demo_dir True)" "layout_safe (demo_dir False)"
  by (auto simp: layout_safe_def demo_dir_def demo_gpu_def demo_cpu_def in_memory_def row_bytes_def)

lemma demo_safe:
  "transfer_safe (demo_dir True) (demo_transfer_request [1, 2, 3]) [2, 0]"
  "transfer_safe (demo_dir False) (demo_transfer_request [0, 2, 1]) [2, 0]"
proof -
  have fits: "request_fits (demo_dir True) (demo_transfer_request [1, 2, 3]) [2, 0]" "request_fits (demo_dir False) (demo_transfer_request [0, 2, 1]) [2, 0]"
    by code_simp+
  show "transfer_safe (demo_dir True) (demo_transfer_request [1, 2, 3]) [2, 0]"
    "transfer_safe (demo_dir False) (demo_transfer_request [0, 2, 1]) [2, 0]"
    using demo_tensors_safe fits
    by (simp_all add: transfer_safe_def direction_ok_def splits_evenly_def demo_dir_def demo_gpu_def demo_cpu_def demo_refs_def
        groups_lie_def transfer_groups_def demo_transfer_request_def rows_exist_def src_blocks_def dst_blocks_def)
qed

lemma demo_dispatch: "\<exists>st'. dispatch_swap demo_driver 2 split any ops st = Inr st'"
  by (rule dispatch_total) (simp_all add: demo_entry)

theorem stored_page_loads_back_witness:
  "\<exists>m1 m3 :: ptr memory. \<exists>s1 s3. dispatch_swap demo_driver 2 True False demo_store_ops ((\<lambda>a. a), False) = Inr (m1, s1) \<and>
     dispatch_swap demo_driver 2 True True demo_load_ops (m1, s1) = Inr (m3, s3) \<and> m3 1002 = 1010"
proof -
  obtain m1 :: "ptr memory" and s1 where r1: "dispatch_swap demo_driver 2 True False demo_store_ops ((\<lambda>a. a), False) = Inr (m1, s1)"
    using demo_dispatch [of True False demo_store_ops "((\<lambda>a. a), False)"] by auto
  obtain m3 s3 where r3: "dispatch_swap demo_driver 2 True True demo_load_ops (m1, s1) = Inr (m3, s3)"
    using demo_dispatch [of True True demo_load_ops "(m1, s1)"] by auto
  have mem: "(1008, 5072, 6) \<in> set demo_store_ops" "(5072, 1000, 6) \<in> set demo_load_ops"
    by (simp_all add: demo_store_ops_def demo_load_ops_def)
  have "m3 (1000 + of_int 2) = 1008 + of_int 2"
    using stored_page_loads_back [OF demo_cdiv_laws(1) demo_driver_lawful _ demo_safe(1) demo_plans(1) demo_safe(2) demo_plans(2)
        r1 _ r3 mem, of 2] by simp
  then show ?thesis using r1 r3 by auto
qed

section \<open>Whatever the driver rejects\<close>

text \<open>C7: a rejected batch does not change what a transfer does. The dispatcher caps a batch, probes a
  rejected one item by item and writes the whole rejected span again, copy by copy, while the driver
  may have carried out any part of what it rejected. If every single copy can be carried out in one
  of the ways the code tries (directly, with an explicit direction, or split at a seam), then the call
  returns, and the memory is the one in which every copy was carried out once.\<close>

theorem swap_survives_rejection:
  assumes "independent ops" and "lawful_driver dv" and "0 < cap"
    and "\<forall>x \<in> set ops. \<forall>m. \<exists>m'. run_entry dv split x m = Inr m'"
  shows "\<exists>sticky'. dispatch_swap dv cap split any ops (m, sticky) = Inr (copied ops m, sticky')"
proof -
  obtain m' s' where "dispatch_swap dv cap split any ops (m, sticky) = Inr (m', s')"
    using dispatch_total [OF assms(4,3), of any "(m, sticky)"] by auto
  then show ?thesis using dispatch_copies [OF assms(1-3)] by blast
qed

theorem swap_survives_rejection_witness:
  "\<exists>sticky'. dispatch_swap demo_driver 2 True False demo_store_ops ((\<lambda>a. a), False) =
     Inr (copied demo_store_ops (\<lambda>a. a :: ptr), sticky')"
  by (rule swap_survives_rejection [OF transfer_independent [OF demo_safe(1) demo_cdiv_laws(1) demo_plans(1)] demo_driver_lawful])
    (simp_all add: demo_entry)

section \<open>One writer for each page\<close>

definition ranked :: "cache_ref \<Rightarrow> page_mapping \<Rightarrow> int \<Rightarrow> cache_ref" where
  "ranked ref m w = ref\<lparr>cr_mapping := Some (m\<lparr>writer_index := w\<rparr>)\<rparr>"

text \<open>C9: in the canonical layout the ranks that hold identical bytes take turns: of the \<open>n\<close> ranks that
  share a canonical page, a store of each of them copies exactly the fragments of the blocks it is
  elected for, and every block of a group is copied by exactly one rank.\<close>

theorem canonical_writer_unique:
  assumes "0 < d_src_bpc d" "0 < d_dst_bpc d" and "0 \<le> index"
    and "index mod d_src_bpc d + int n \<le> d_src_bpc d * int (length gsrc)"
    and "index mod d_dst_bpc d + int n \<le> d_dst_bpc d * int (length gdst)"
    and "cr_tensor ref < length (d_src d)" "cr_tensor ref < length (d_dst d)"
    and "splits_evenly (d_src d ! cr_tensor ref) (d_src_bpc d)" "splits_evenly (d_dst d ! cr_tensor ref) (d_dst_bpc d)"
    and "num_frags p \<noteq> 0" and "d_gpu_to_cpu d" and "num_writers m > 1"
  shows "\<exists>blocks :: int \<Rightarrow> nat list.
    (\<forall>w. fill_canonical_ref d gsrc gdst n (index mod d_src_bpc d) (index mod d_dst_bpc d) (p, ranked ref m w) st =
       Inr (fst st @ concat (map (block_frags d p ref index gsrc gdst) (blocks w)), snd st + int (length (blocks w)) * total_bytes p)) \<and>
    (\<forall>i < n. \<exists>!w. 0 \<le> w \<and> w < num_writers m \<and> i \<in> set (blocks w))"
proof (intro exI conjI allI impI)
  fix w
  have frags: "block_frags d p (ranked ref m w) index gsrc gdst = block_frags d p ref index gsrc gdst"
    by (simp add: block_frags_def [abs_def] ranked_def)
  show "fill_canonical_ref d gsrc gdst n (index mod d_src_bpc d) (index mod d_dst_bpc d) (p, ranked ref m w) st =
       Inr (fst st @ concat (map (block_frags d p ref index gsrc gdst) (written_blocks d (m\<lparr>writer_index := w\<rparr>) index gdst n)),
         snd st + int (length (written_blocks d (m\<lparr>writer_index := w\<rparr>) index gdst n)) * total_bytes p)"
    using fill_canonical [OF assms(1-5), of "ranked ref m w" "m\<lparr>writer_index := w\<rparr>" p st] assms(6-10)
    by (simp add: frags) (simp add: ranked_def)
next
  fix i assume i: "i < n"
  let ?k = "canonical_id (d_dst_bpc d) gdst index i mod num_writers m"
  have "i \<in> set (written_blocks d (m\<lparr>writer_index := w\<rparr>) index gdst n) \<longleftrightarrow> w = ?k" for w
    using i assms(11,12) by (auto simp: written_blocks_def)
  moreover have "0 \<le> ?k" "?k < num_writers m" using assms(12) by simp_all
  ultimately show "\<exists>!w. 0 \<le> w \<and> w < num_writers m \<and> i \<in> set (written_blocks d (m\<lparr>writer_index := w\<rparr>) index gdst n)" by auto
qed

text \<open>Two ranks hold the same bytes; the first one writes the even pages, the second one the odd ones.\<close>

definition demo_mapping :: page_mapping where
  "demo_mapping = \<lparr>canonical_page_size_bytes = 8, local_page_size_bytes = 8,
     runs = [\<lparr>local_offset = 0, canonical_offset = 0, fragment_size = 4, num_fragments = 2, local_stride = 4, canonical_stride = 4\<rparr>],
     num_writers = 2, writer_index = 0, parallelism_agnostic = False\<rparr>"

definition demo_ref :: cache_ref where
  "demo_ref = \<lparr>cr_tensor = 0, cr_bytes = 8, cr_mapping = Some demo_mapping\<rparr>"

definition demo_frag_plan :: copy_plan where
  "demo_frag_plan = \<lparr>frag_offsets_src = [0, 4], frag_offsets_dst = [0, 4], frag_sizes = [4, 4], total_bytes = 8\<rparr>"

lemma demo_copy_plan: "build_copy_plan demo_ref True = Inr demo_frag_plan"
  by code_simp

theorem canonical_writer_unique_witness:
  "\<exists>blocks :: int \<Rightarrow> nat list.
    (\<forall>w. fill_canonical_ref (demo_dir True) [1, 2, 3] [2, 0] 3 0 1 (demo_frag_plan, ranked demo_ref demo_mapping w) ([], 0) =
       Inr (concat (map (block_frags (demo_dir True) demo_frag_plan demo_ref 1 [1, 2, 3] [2, 0]) (blocks w)), int (length (blocks w)) * 8)) \<and>
    (\<exists>!w. 0 \<le> w \<and> w < 2 \<and> 2 \<in> set (blocks w))"
proof -
  have "\<exists>blocks :: int \<Rightarrow> nat list.
    (\<forall>w. fill_canonical_ref (demo_dir True) [1, 2, 3] [2, 0] 3 (1 mod 1) (1 mod 2) (demo_frag_plan, ranked demo_ref demo_mapping w) ([], 0) =
       Inr (fst ([], 0) @ concat (map (block_frags (demo_dir True) demo_frag_plan demo_ref 1 [1, 2, 3] [2, 0]) (blocks w)),
         snd ([], 0) + int (length (blocks w)) * total_bytes demo_frag_plan)) \<and>
    (\<forall>i < 3. \<exists>!w. 0 \<le> w \<and> w < num_writers demo_mapping \<and> i \<in> set (blocks w))"
    using canonical_writer_unique [of "demo_dir True" 1 3 "[1, 2, 3]" "[2, 0]" demo_ref demo_frag_plan demo_mapping "([], 0)"]
    by (simp add: demo_dir_def demo_ref_def demo_frag_plan_def demo_mapping_def num_frags_def splits_evenly_def demo_gpu_def demo_cpu_def)
  then obtain blocks :: "int \<Rightarrow> nat list" where
    "\<forall>w. fill_canonical_ref (demo_dir True) [1, 2, 3] [2, 0] 3 (1 mod 1) (1 mod 2) (demo_frag_plan, ranked demo_ref demo_mapping w) ([], 0) =
       Inr (fst ([], 0) @ concat (map (block_frags (demo_dir True) demo_frag_plan demo_ref 1 [1, 2, 3] [2, 0]) (blocks w)),
         snd ([], 0) + int (length (blocks w)) * total_bytes demo_frag_plan)"
    "\<forall>i < 3. \<exists>!w. 0 \<le> w \<and> w < num_writers demo_mapping \<and> i \<in> set (blocks w)" by blast
  then show ?thesis by (intro exI [of _ blocks]) (simp add: demo_frag_plan_def demo_mapping_def)
qed

end
