(* ===== verification/Worker_Runs.thy ===== *)
theory Worker_Runs
  imports Worker_Properties
begin

text \<open>
  The properties of the queue of transfers of one direction, in all its reachable states, and of the
  registration of the region with the driver.
\<close>

section \<open>A run\<close>

definition demo_h1 :: handler where
  "demo_h1 = projr (transfer_async demo_ceiling 1 (demo_transfer_request [1, 2, 3]) [2, 0] (init_handler None (demo_dir True)))"

definition demo_h2 :: handler where
  "demo_h2 = projr (transfer_async demo_ceiling 2 (demo_transfer_request [2, 3, 1]) [1, 2] demo_h1)"

lemma demo_calls:
  "transfer_async demo_ceiling 1 (demo_transfer_request [1, 2, 3]) [2, 0] (init_handler None (demo_dir True)) = Inr demo_h1"
  "transfer_async demo_ceiling 2 (demo_transfer_request [2, 3, 1]) [1, 2] demo_h1 = Inr demo_h2"
proof -
  have "\<not> isl (transfer_async demo_ceiling 1 (demo_transfer_request [1, 2, 3]) [2, 0] (init_handler None (demo_dir True)))" by code_simp
  then show "transfer_async demo_ceiling 1 (demo_transfer_request [1, 2, 3]) [2, 0] (init_handler None (demo_dir True)) = Inr demo_h1"
    by (simp add: demo_h1_def)
  have "\<not> isl (transfer_async demo_ceiling 2 (demo_transfer_request [2, 3, 1]) [1, 2] demo_h1)" by code_simp
  then show "transfer_async demo_ceiling 2 (demo_transfer_request [2, 3, 1]) [1, 2] demo_h1 = Inr demo_h2"
    by (simp add: demo_h2_def)
qed

lemma demo_reach: "handler_reach demo_ceiling (demo_dir True) demo_h2"
proof -
  have "1 \<notin> set (map tr_job (hd_transfers (init_handler None (demo_dir True))))" by (simp add: init_handler_def)
  then have "handler_step demo_ceiling (init_handler None (demo_dir True)) demo_h1" by (rule handler_step.submit [OF demo_calls(1)])
  then have r1: "handler_reach demo_ceiling (demo_dir True) demo_h1" by (rule handler_reach.step [OF handler_reach.start])
  have "2 \<notin> set (map tr_job (hd_transfers demo_h1))" by code_simp
  then have "handler_step demo_ceiling demo_h1 demo_h2" by (rule handler_step.submit [OF demo_calls(2)])
  then show ?thesis by (rule handler_reach.step [OF r1])
qed

lemma demo_log: "length (hd_log demo_h2) = 9" "is_swap (hd_log demo_h2 ! 2)" "is_swap (hd_log demo_h2 ! 7)"
proof -
  have log: "map (\<lambda>c. case c of Swap s ops any \<Rightarrow> True | _ \<Rightarrow> False) (hd_log demo_h2) =
    [False, False, True, False, False, False, False, True, False]" by code_simp
  show len: "length (hd_log demo_h2) = 9" using arg_cong [OF log, of length] by simp
  show "is_swap (hd_log demo_h2 ! 2)" "is_swap (hd_log demo_h2 ! 7)"
    using arg_cong [OF log, of "\<lambda>l. l ! 2"] arg_cong [OF log, of "\<lambda>l. l ! 7"] len
    by (auto simp: is_swap_def split: command.splits)
qed

section \<open>The order of transfers\<close>

text \<open>C6: the transfers of one direction run in the order of their submission, although each has a stream
  of its own and streams and events are reused: in every reachable state of a handler, of two copies
  that were issued the device finishes the earlier one before it begins the later one. The order
  is the one the device keeps (streams, waits for recorded events, and what the host has seen over
  before it issues more).\<close>

theorem transfers_in_order:
  assumes "handler_reach cdiv d h" and "i < j" and "j < length (hd_log h)"
    and "is_swap (hd_log h ! i)" and "is_swap (hd_log h ! j)"
  shows "runs_before (hd_log h) i j"
  using handler_order [OF assms(1)] assms(2-5) by (simp add: order_inv_def swaps_ordered_def)

theorem transfers_in_order_witness: "runs_before (hd_log demo_h2) 2 7"
  using transfers_in_order [OF demo_reach, of 2 7] demo_log by simp

text \<open>C8: nothing in flight is handed out again, and completions are reported in order. In every
  reachable state the streams, events and descriptor buffers of the pools and of the transfers in
  flight are all different, and asking for finished transfers never fails: it reports, in the order of
  submission, the transfers up to the first one that is not over.\<close>

theorem completion_in_order:
  assumes "handler_reach cdiv d h"
  shows "distinct (pooled h @ concat (map held_by (hd_transfers h))) \<and>
    (\<exists>h'. get_finished over h =
        Inr (h', map (\<lambda>t. (tr_job t, tr_bytes t)) (takeWhile (\<lambda>t. over (tr_end t)) (hd_transfers h))) \<and>
      hd_transfers h' = dropWhile (\<lambda>t. over (tr_end t)) (hd_transfers h))"
  using resources_distinct [OF handler_resources [OF assms]] handler_jobs [OF assms]
    finish_loop_result [of "hd_transfers h" h over "[]"]
  by (simp add: worker_inv_def get_finished_def)

theorem completion_in_order_witness:
  "\<exists>h'. get_finished (\<lambda>e. True) demo_h2 = Inr (h', map (\<lambda>t. (tr_job t, tr_bytes t)) (hd_transfers demo_h2)) \<and> hd_transfers h' = []"
proof -
  have all: "takeWhile (\<lambda>t. True) ts = ts" "dropWhile (\<lambda>t. True) ts = []" for ts :: "transfer list"
    by (induction ts) simp_all
  show ?thesis using completion_in_order [OF demo_reach, of "\<lambda>e. True"] by (simp add: all)
qed

section \<open>Pinned chunks\<close>

text \<open>C10: no copy of an offloaded block crosses the seam of two registered ranges, which the driver
  would reject. When the row pitch is a multiple of 2 MiB and some rows fit a chunk of at
  least 64 MiB, every row of the region lies in one registered chunk, and the chunks lie in the region.\<close>

theorem pinned_chunks_hold_rows:
  assumes "cdiv_rounds_up cdiv" and "0 < row" and "row mod MIB2 = 0" and "row < plain_chunk raw"
    and "64 * 1024 ^ 2 \<le> plain_chunk raw div row * row"
    and "pin_mmap_region cdiv True reg unreg last_error raw base (n * row) row dv = (Some chunks, dv')"
  shows "(\<forall>b. 0 \<le> b \<and> b < n \<longrightarrow> (\<exists>(p, m) \<in> set chunks. p \<le> base + b * row \<and> base + b * row + row \<le> p + m)) \<and>
    (\<forall>(p, m) \<in> set chunks. base \<le> p \<and> 0 < m \<and> p + m \<le> base + n * row)"
proof -
  let ?c = "register_chunk raw row"
  have c: "0 < ?c" by (rule register_chunk_pos)
  have dvd: "row dvd ?c" by (rule register_chunk_rows [OF assms(2-5)])
  have chunks: "chunks = chunk_list cdiv base (n * row) ?c"
    using assms(6) register_success by (fastforce simp: pin_mmap_region_def)
  have "\<exists>(p, m) \<in> set chunks. p \<le> base + b * row \<and> base + b * row + row \<le> p + m" if "0 \<le> b" "b < n" for b
  proof -
    let ?i = "b * row div ?c"
    have row: "?i * ?c \<le> b * row" "b * row + row \<le> (?i + 1) * ?c" using row_in_one_chunk [OF dvd assms(2) c] by auto
    have "(b + 1) * row \<le> n * row" using that assms(2) by (intro mult_right_mono) auto
    then have fits: "b * row + row \<le> n * row" by (simp add: algebra_simps)
    have "0 \<le> ?i" using that assms(2) c by (simp add: pos_imp_zdiv_nonneg_iff)
    moreover have "?i * ?c < n * row" using row fits assms(2) by linarith
    ultimately have "(base + ?i * ?c, min ?c (n * row - ?i * ?c)) \<in> set chunks"
      using chunk_list_mem [OF c assms(1)] chunks by simp
    moreover have "base + b * row + row \<le> base + ?i * ?c + min ?c (n * row - ?i * ?c)"
      using row fits by (simp add: algebra_simps min_def)
    ultimately show ?thesis using row(1) by (intro bexI [rotated]) auto
  qed
  then show ?thesis using chunk_list_range [OF c assms(1)] chunks by fastforce
qed

text \<open>A region of 40 rows of 64 MiB in chunks of 1 GiB.\<close>

definition demo_register :: "int \<Rightarrow> int \<Rightarrow> int \<Rightarrow> int \<times> int" where
  "demo_register p n d = (d + n, 0)"

lemma demo_pin:
  "pin_mmap_region demo_ceiling True demo_register (\<lambda>p d. d) (\<lambda>d. d) (Some ''1'') 0 (40 * 67108864) 67108864 0 =
    (Some [(0, 1073741824), (1073741824, 1073741824), (2147483648, 536870912)], 2684354560)"
  by code_simp

theorem pinned_chunks_hold_rows_witness:
  "\<exists>(p, m) \<in> set [(0, 1073741824), (1073741824, 1073741824), (2147483648 :: int, 536870912 :: int)].
     p \<le> 17 * 67108864 \<and> 17 * 67108864 + 67108864 \<le> p + m"
proof -
  have chunk: "plain_chunk (Some ''1'') = 1073741824" by code_simp
  have row: "67108864 mod MIB2 = 0" "67108864 < plain_chunk (Some ''1'')"
    "64 * 1024 ^ 2 \<le> plain_chunk (Some ''1'') div 67108864 * 67108864"
    by (simp_all add: chunk MIB2_def)
  show ?thesis using pinned_chunks_hold_rows [OF demo_cdiv_laws(2) _ row demo_pin] by auto
qed

text \<open>
  With another row pitch a row may cross a seam: of 17 rows of 9 MiB and 4 KiB in chunks of 64 MiB,
  row 7 does not lie in one chunk.
\<close>

lemma seam_in_row:
  "\<exists>chunks dv. pin_mmap_region demo_ceiling True demo_register (\<lambda>p d. d) (\<lambda>d. d) (Some ''0'') 0 (17 * 9441280) 9441280 0 = (Some chunks, dv) \<and>
     (\<forall>(p, m) \<in> set chunks. \<not> (p \<le> 7 * 9441280 \<and> 7 * 9441280 + 9441280 \<le> p + m))"
proof -
  have "pin_mmap_region demo_ceiling True demo_register (\<lambda>p d. d) (\<lambda>d. d) (Some ''0'') 0 (17 * 9441280) 9441280 0 =
    (Some [(0, 67108864), (67108864, 67108864), (134217728, 26284032)], 160501760)" by code_simp
  then show ?thesis by simp
qed

end
