(* ===== verification/Spec2Isabelle.thy ===== *)
theory Spec2Isabelle
  imports Base_Properties Policy_Properties Config_Properties CPU_Refinement Tiering_Properties
    Lookup_Properties Request_Properties Job_Properties Graph_Manager_Properties KV_Properties Region_Properties Worker_Runs
begin

text \<open>
  A verification development for the patched vLLM of this repository (\<open>src/patched-files\<close>): the
  offloading of KV-cache blocks to other memory, from the connector in the engine down to the
  copies between GPU and CPU, the search for cached prefixes, and the choice of CUDA graphs.

  \<^bold>\<open>The program.\<close> The engine keeps the attention keys and values of its requests in GPU blocks.
  \<open>v1/core/kv_cache_coordinator.py\<close> searches the longest prefix of a request that the caches of
  all groups hold. The offloading files move blocks to other memory and back.
  \<open>v1/kv_offload/base.py\<close> has the vocabulary: offload keys (a block hash with a group index), the
  answers of a lookup, tier filters, transfer specifications. An offloading manager decides what
  is stored where: \<open>v1/kv_offload/cpu/manager.py\<close> manages one pool of CPU blocks under a replacement
  policy (\<open>cpu/policies/lru.py\<close>, \<open>arc.py\<close>), \<open>v1/kv_offload/tiering/manager.py\<close> puts secondary tiers
  below it, with promotions and cascades. \<open>OffloadingConnectorScheduler\<close>
  (\<open>distributed/kv_transfer/kv_connector/v1/offloading/scheduler.py\<close>) sits between the engine's
  scheduler and the manager: it looks up waiting requests, creates load and store jobs, fences
  GPU blocks that a store still reads, and consumes the completions the workers report. The jobs
  reach \<open>CPUOffloadingWorker\<close> (\<open>cpu/gpu_worker.py\<close>), which turns blocks into byte copies between the
  GPU tensors and the CPU tier, queues them on the device, and survives batches that the driver
  rejects. The memory of the tier is one file shared by the workers
  (\<open>cpu/shared_offload_region.py\<close>), sized by \<open>cpu/spec.py\<close>. Apart from this,
  \<open>v1/cudagraph_dispatcher.py\<close> and \<open>v1/worker/gpu/cudagraph_utils.py\<close> decide which CUDA graphs
  are captured and which one runs a batch.

  \<^bold>\<open>Layout.\<close>

  \<^item> \<open>Prelude\<close>: results with Python exceptions (\<open>res\<close>,
    \<open>bindE\<close>, \<open>foldE\<close>, \<open>mapE\<close>), insertion ordered
    dictionaries, slices. \<open>Res_Conditions\<close>: verification conditions for code that may raise.

  \<^item> \<open>Offload_Base\<close> and \<open>Offload_Metrics\<close>:
    \<open>base.py\<close> and the statistics of \<open>offloading/metrics.py\<close>;
    \<open>Py_Number\<close>: the ints and floats they hold, with the rounding of doubles;
    \<open>Py_Env\<close>: parsing of environment variables.

  \<^item> \<open>Cache_Policy\<close>: the locale \<open>cache_policy\<close>, the contract
    between manager and policy; \<open>LRU_Policy\<close> and \<open>ARC_Policy\<close> model
    the two policies and interpret it.

  \<^item> \<open>CPU_Manager\<close>: the operations of the manager; \<open>Block_Pool\<close>
    and the \<open>CPU_*_Facts\<close> theories prove, inside the locale, the invariant of the
    pool and what each operation does; \<open>CPU_Protocol\<close> has the step relation of a
    client and the invariant of the reachable states (a reset abandons the loads in flight,
    as the connector's reset does); \<open>CPU_Refinement\<close> an abstract
    cache without slots, which the manager with its memory refines.

  \<^item> \<open>Tiering_Manager\<close> (state and polling), \<open>Tiering_Ops\<close>
    (operations), \<open>Tiering_Facts\<close>, \<open>Tiering_Poll\<close>.

  \<^item> \<open>Connector_Config\<close>, \<open>Connector_Request\<close>,
    \<open>Connector_State\<close>, \<open>Connector_Lookup\<close>,
    \<open>Connector_Stale\<close>, \<open>Connector_Loads\<close>,
    \<open>Connector_Stores\<close>, \<open>Connector_Steps\<close>: the connector, method by
    method, in the order of the file. \<open>Connector_Lookup_Facts\<close> and
    \<open>Connector_Agreement\<close> hold the locales \<open>lookup_total\<close> and
    \<open>stable_lookup\<close>, what a lookup needs of the manager to end and to be right;
    \<open>Connector_CPU\<close> interprets them on the CPU manager.
    \<open>Connector_Frames\<close>, \<open>Connector_Stale_Facts\<close>,
    \<open>Connector_Request_Facts\<close> and \<open>Connector_Job_Facts\<close> hold the other
    facts; \<open>Connector_Job_Steps\<close> shows that every operation keeps the invariant of the
    jobs, and \<open>Connector_Demo\<close> has a connector over a small manager for the witnesses.

  \<^item> \<open>KV_Coordinator\<close>: \<open>v1/core/kv_cache_coordinator.py\<close>, the coordinators with no, one and
    several specifications; \<open>KV_Search_Facts\<close>: what the loop of the search has found when it ends.

  \<^item> \<open>Graph_Dispatch\<close>: \<open>v1/cudagraph_dispatcher.py\<close>; \<open>Graph_Manager\<close>: \<open>CudaGraphManager\<close> of
    \<open>v1/worker/gpu/cudagraph_utils.py\<close>; their facts are in \<open>Graph_Facts\<close>,
    \<open>Graph_Manager_Facts\<close> and \<open>Graph_Staged\<close> (the tables while graphs are staged).

  \<^item> \<open>Offload_Region\<close>: \<open>cpu/spec.py\<close> and the rows, slots and views of
    \<open>cpu/shared_offload_region.py\<close>; \<open>Region_Files\<close>: the protocol by which the workers agree on
    one file, as a step relation whose steps are system calls; a parameter says whether opening a
    file that exists may fail, and the agreement is stated with and without such failures. Facts in
    \<open>Region_Layout_Facts\<close> and \<open>Region_Files_Facts\<close>.

  \<^item> The worker, \<open>cpu/gpu_worker.py\<close>: \<open>GPU_Transfer\<close> (descriptors of both layouts, pointers as
    64-bit words), \<open>GPU_Handler\<close> (the queue of a direction, its pools, the commands it issues, the
    worker over two directions), \<open>Swap_Dispatch\<close> (\<open>_SwapDiag\<close>: cap, probe, rewrite, split at a
    seam), \<open>Host_Pinning\<close> (\<open>pin_mmap_region\<close>). \<open>GPU_Transfer_Facts\<close> compares the descriptors
    with a reference over logical blocks, \<open>GPU_Memory\<close> shows that they are independent copies,
    \<open>GPU_Canonical\<close> treats the canonical layout, \<open>Swap_Facts\<close> says what copies do to memory,
    and \<open>GPU_Handler_Facts\<close> has the order of commands on the device.

  \<^item> The properties are in \<open>Base_Properties\<close>,
    \<open>Policy_Properties\<close>, \<open>CPU_Properties\<close>, \<open>CPU_Refinement\<close>,
    \<open>Tiering_Properties\<close>, \<open>Lookup_Properties\<close>, \<open>Config_Properties\<close>,
    \<open>Request_Properties\<close>, \<open>Job_Properties\<close>, \<open>KV_Properties\<close>, \<open>Graph_Properties\<close>,
    \<open>Graph_Manager_Properties\<close>, \<open>Region_Properties\<close>, \<open>Worker_Properties\<close> and \<open>Worker_Runs\<close>.

  \<^bold>\<open>Conventions.\<close> A Python exception or a failed \<open>assert\<close> is a value \<open>Inl e\<close>. Dictionaries keep
  insertion order (\<open>odict\<close>). Reference counts of CPU blocks wrap at 32 bits as the code's
  \<open>ctypes\<close> fields do, pointers at 64. Metrics are Python numbers, whose float sums are rounded to
  doubles; clock readings are arguments and, like the size target of ARC, exact rationals. What lies outside the
  repository is a parameter: the secondary tiers, the events tracker, \<open>cdiv\<close>, \<open>round_down\<close>,
  \<open>round_up\<close>, \<open>float\<close>, the order in which a Python set is iterated, the modes of CUDA graphs and
  \<open>get_captured_lora_counts\<close>, the managers of a single KV cache group and the lookup of their
  class, the answers of the file system, and the calls of the driver. A property that relies on
  one of them names what it relies on (\<open>cdiv_law\<close>, \<open>rounds_up\<close>, \<open>lawful_driver\<close>: a
  driver that rejects a batch has carried out some of its copies and has written nothing else).

  \<^bold>\<open>Bounds.\<close> The \<open>while\<close> loop of \<open>_lookup_complete_chunks\<close> has fuel \<open>scan_fuel\<close>, the number of tokens
  and one more; \<open>lookup_terminates\<close> proves it enough: an iteration that asks for another one has
  moved the boundary down. The search of the coordinator has fuel \<open>search_fuel\<close>, the largest
  possible hit and one more; \<open>hybrid_hit_is_greatest\<close> proves that it returns with it. All other
  loops are recursions over lists, or end by a measure (\<open>spans\<close>: the copies left).

  \<^bold>\<open>Not modelled.\<close>

  \<^item> Log and trace strings, timing and telemetry; the classification of a rejected copy beyond
    the memory types that the code branches on; the event payloads of a group; \<open>shutdown\<close> of the
    connector, which only calls the manager; the Prometheus exporter, which calls a client library.

  \<^item> A \<open>RuntimeError\<close> that the swap raises in the middle of \<open>transfer_async\<close>, after the pools were
    popped and with copies already queued: submitting is modelled for swaps that return. The
    flag that lets a load read its source in any order is recorded with the command, and the order
    of the device does not use it.

  \<^item> Mapping, \<open>madvise\<close> and the clean-up of the shared file, recording and replaying of graphs and
    the preparation of model inputs in \<open>cudagraph_utils.py\<close>: acts of the operating system and of the
    device.

  \<^item> \<open>v1/core/sched/scheduler.py\<close>: its loop acts on request objects, queues, managers and
    connectors of other packages. \<open>v1/kv_offload/config.py\<close> and \<open>offloading/config.py\<close>: records
    of configuration values.

  \<^item> The tensor programs and kernels (\<open>models\<close>, \<open>model_executor\<close>), whose meaning is in torch and
    CUDA; the load generators, report tools and shell scripts.
\<close>

end
